(* ===== verification/Prelude.thy ===== *)
theory Prelude
  imports Main "HOL-Library.Word"
begin

text \<open>
  Shared vocabulary of the development: bytes and machine integers, the little-endian wire
  fields, the clock test the code calls \<open>ago\<close>, and the two shapes of bounded storage that the
  daemon uses again and again, each stated once as an interface:
  \<^item> \<open>keep_last\<close>: a ring that keeps the newest entries (our rounds per member, queued calls);
  \<^item> \<open>slot_table\<close>: a fixed table looked up by an id, whose oldest entry gives way to a new id.
  The collections \<open>wire\<close> (decoding after encoding) and \<open>frame\<close> (fields an operation leaves
  alone) carry the component proofs.
\<close>

unbundle bit_operations_syntax

named_theorems wire "decoding what was encoded"
named_theorems frame "what an operation leaves alone"

type_synonym byte = "8 word"
type_synonym bytes = "byte list"
type_synonym u32 = "32 word"
type_synonym u64 = "64 word"

section \<open>C idioms\<close>

text \<open>The bytes of an ASCII literal, and a byte array read as a C string (up to the NUL).\<close>

definition ascii :: "string \<Rightarrow> bytes" where
  "ascii s = map of_char s"

definition cstr :: "bytes \<Rightarrow> bytes" where
  "cstr b = takeWhile (\<lambda>x. x \<noteq> 0) b"

text \<open>\<open>snprintf\<close> into an array of \<open>n\<close> bytes keeps at most \<open>n - 1\<close> of them.\<close>

definition fit :: "nat \<Rightarrow> bytes \<Rightarrow> bytes" where
  "fit n s = take (n - 1) s"

lemma length_ascii [simp]: "length (ascii s) = length s"
  by (simp add: ascii_def)

lemma cstr_no_nul: "0 \<notin> set (cstr b)"
  unfolding cstr_def by (auto dest: set_takeWhileD)

lemma cstr_id: "0 \<notin> set b \<Longrightarrow> cstr b = b"
  by (auto simp: cstr_def takeWhile_eq_all_conv)

lemma length_cstr: "length (cstr b) \<le> length b"
  by (simp add: cstr_def length_takeWhile_le)

lemma length_fit: "0 < n \<Longrightarrow> length (fit n s) < n"
  by (simp add: fit_def)

lemma fit_id: "length s < n \<Longrightarrow> fit n s = s"
  by (simp add: fit_def)

text \<open>A hex digit's value, and the value of the digits at the front of a string.\<close>

definition hexval :: "byte \<Rightarrow> nat option" where
  "hexval c = (if 0x30 \<le> c \<and> c \<le> 0x39 then Some (unat c - 48)
               else if 0x61 \<le> c \<and> c \<le> 0x66 then Some (unat c - 87)
               else if 0x41 \<le> c \<and> c \<le> 0x46 then Some (unat c - 55) else None)"

fun hex_digits :: "nat \<Rightarrow> bytes \<Rightarrow> nat \<times> bytes" where
  "hex_digits v [] = (v, [])"
| "hex_digits v (c # cs) = (case hexval c of None \<Rightarrow> (v, c # cs) | Some d \<Rightarrow> hex_digits (16 * v + d) cs)"

text \<open>Decimal digits, as \<open>%d\<close> and \<open>%u\<close> print a number that is not negative.\<close>

fun dec_digits :: "nat \<Rightarrow> bytes" where
  "dec_digits n = (if n < 10 then [of_nat (48 + n)] else dec_digits (n div 10) @ [of_nat (48 + n mod 10)])"

declare dec_digits.simps [simp del]

text \<open>The number a string of digits stands for; only digits are printed, and no number prints as another.\<close>

definition dec_val :: "bytes \<Rightarrow> nat" where
  "dec_val = foldl (\<lambda>a c. 10 * a + (unat c - 48)) 0"

lemma unat_digit: "n < 10 \<Longrightarrow> unat (of_nat (48 + n) :: byte) = 48 + n"
  unfolding unat_of_nat by simp

lemma dec_val_digits [wire]: "dec_val (dec_digits n) = n"
proof (induction n rule: dec_digits.induct)
  case (1 n)
  show ?case
  proof (cases "n < 10")
    case True
    then show ?thesis using unat_digit [of n] by (simp add: dec_digits.simps [of n] dec_val_def)
  next
    case False
    then show ?thesis
      using 1 unat_digit [of "n mod 10"] by (simp add: dec_digits.simps [of n] dec_val_def)
  qed
qed

lemma dec_digits_inj: "dec_digits m = dec_digits n \<Longrightarrow> m = n"
  by (metis dec_val_digits)

lemma dec_digits_set: "c \<in> set (dec_digits n) \<Longrightarrow> 48 \<le> unat c \<and> unat c \<le> 57"
proof (induction n rule: dec_digits.induct)
  case (1 n)
  then show ?case
    using unat_digit [of n] unat_digit [of "n mod 10"]
    by (cases "n < 10") (auto simp: dec_digits.simps [of n] simp del: of_nat_add)
qed

lemma length_dec_digits_100: "n < 100 \<Longrightarrow> length (dec_digits n) \<le> 2"
  using div_less_iff_less_mult [of 10 n 10]
  by (simp add: dec_digits.simps [of n] dec_digits.simps [of "n div 10"])

text \<open>Character classes, in the C locale.\<close>

definition isspace :: "byte \<Rightarrow> bool" where
  "isspace c \<longleftrightarrow> c = 32 \<or> 9 \<le> c \<and> c \<le> 13"

definition isdigit :: "byte \<Rightarrow> bool" where
  "isdigit c \<longleftrightarrow> 48 \<le> c \<and> c \<le> 57"

definition isalpha :: "byte \<Rightarrow> bool" where
  "isalpha c \<longleftrightarrow> 65 \<le> c \<and> c \<le> 90 \<or> 97 \<le> c \<and> c \<le> 122"

definition isalnum :: "byte \<Rightarrow> bool" where
  "isalnum c \<longleftrightarrow> isdigit c \<or> isalpha c"

definition tolower :: "byte \<Rightarrow> byte" where
  "tolower c = (if 65 \<le> c \<and> c \<le> 90 then c + 32 else c)"

lemma dec_digits_not_Nil [simp]: "dec_digits n \<noteq> []"
  by (simp add: dec_digits.simps [of n])

lemma isdigit_dec: "c \<in> set (dec_digits n) \<Longrightarrow> isdigit c"
  using dec_digits_set [of c n] by (auto simp: isdigit_def word_le_nat_alt)

lemma isdigit_not_sign: "isdigit c \<Longrightarrow> \<not> isspace c \<and> c \<notin> {43, 45}"
  by (auto simp: isdigit_def isspace_def word_le_nat_alt)

text \<open>How \<open>strtol\<close> and \<open>scanf\<close> come upon a printed number: no space, no sign, the digits up to what follows.\<close>

lemma digits_scan:
  assumes "r = [] \<or> \<not> isdigit (hd r)"
  shows "dropWhile isspace (dec_digits n @ r) = dec_digits n @ r" "hd (dec_digits n @ r) \<notin> {43, 45}"
    "takeWhile isdigit (dec_digits n @ r) = dec_digits n"
proof -
  obtain d ds where d: "dec_digits n = d # ds" by (cases "dec_digits n") auto
  then have "\<not> isspace d" "d \<notin> {43, 45}" using isdigit_dec [of d n] isdigit_not_sign by auto
  then show "dropWhile isspace (dec_digits n @ r) = dec_digits n @ r" "hd (dec_digits n @ r) \<notin> {43, 45}" using d by simp_all
  have "takeWhile isdigit r = []" using assms by (cases r) auto
  then show "takeWhile isdigit (dec_digits n @ r) = dec_digits n" using isdigit_dec by simp
qed

lemma length_dec_digits: "n < 10 ^ Suc k \<Longrightarrow> length (dec_digits n) \<le> Suc k"
proof (induction k arbitrary: n)
  case (Suc k)
  have "n div 10 < 10 ^ Suc k" using Suc.prems div_less_iff_less_mult [of 10 n "10 ^ Suc k"] by simp
  then show ?case using Suc.IH [of "n div 10"] by (simp add: dec_digits.simps [of n])
qed (simp add: dec_digits.simps)

section \<open>Little-endian integers\<close>

definition le_enc :: "nat \<Rightarrow> 'a::len word \<Rightarrow> bytes" where
  "le_enc n v = map (\<lambda>i. ucast (drop_bit (8 * i) v)) [0..<n]"

fun le_dec :: "bytes \<Rightarrow> 'a::len word" where
  "le_dec [] = 0"
| "le_dec (b # bs) = push_bit 8 (le_dec bs) OR ucast b"

lemma length_le_enc [simp]: "length (le_enc n v) = n"
  by (simp add: le_enc_def)

lemma le_enc_Suc: "le_enc (Suc n) v = ucast v # le_enc n (drop_bit 8 v)"
  unfolding le_enc_def upt_conv_Cons [OF zero_less_Suc] map_Suc_upt [symmetric]
  by (simp add: map_Suc_upt [symmetric] drop_bit_drop_bit comp_def add.commute del: upt_Suc)

lemma le_dec_le_enc_bit:
  fixes v :: "'a::len word"
  shows "bit (le_dec (le_enc n v) :: 'a word) k = (k < 8 * n \<and> bit v k)"
proof (induction n arbitrary: v k)
  case 0
  show ?case by (simp add: le_enc_def)
next
  case (Suc n)
  show ?case
    using bit_imp_le_length [of v k]
    by (auto simp: le_enc_Suc bit_or_iff bit_push_bit_iff bit_ucast_iff Suc.IH bit_drop_bit_eq)
qed

lemma le_dec_le_enc [wire]:
  fixes v :: "'a::len word"
  assumes "LENGTH('a) \<le> 8 * n"
  shows "le_dec (le_enc n v) = v"
proof (rule bit_word_eqI)
  fix k assume "k < LENGTH('a)"
  with assms show "bit (le_dec (le_enc n v) :: 'a word) k = bit v k"
    by (simp add: le_dec_le_enc_bit)
qed

section \<open>Time\<close>

text \<open>\<open>ago(t, now, ms)\<close>: 0 means never.\<close>

definition ago :: "int \<Rightarrow> int \<Rightarrow> int \<Rightarrow> bool" where
  "ago t now ms \<longleftrightarrow> t \<noteq> 0 \<and> now - t < ms"

section \<open>Bounded rings: the newest entries are kept\<close>

definition newest :: "nat \<Rightarrow> 'a list \<Rightarrow> 'a list" where
  "newest n xs = drop (length xs - n) xs"

lemma length_newest: "length (newest n xs) = min n (length xs)"
  by (simp add: newest_def)

lemma newest_small: "length xs \<le> n \<Longrightarrow> newest n xs = xs"
  by (simp add: newest_def)

lemma newest_append_newest: "newest n (newest n xs @ ys) = newest n (xs @ ys)"
  by (cases "n \<le> length xs") (simp_all add: newest_def, simp add: algebra_simps)

lemma last_newest: "0 < n \<Longrightarrow> xs \<noteq> [] \<Longrightarrow> last (newest n xs) = last xs"
  by (simp add: newest_def last_drop)

locale keep_last =
  fixes cap :: nat
    and invar :: "'r \<Rightarrow> bool"
    and contents :: "'r \<Rightarrow> 'a list"
    and push :: "'a \<Rightarrow> 'r \<Rightarrow> 'r"
  assumes cap_pos: "0 < cap"
    and invar_push: "invar r \<Longrightarrow> invar (push x r)"
    and contents_push: "invar r \<Longrightarrow> contents (push x r) = newest cap (contents r @ [x])"
begin

lemma invar_pushes: "invar r \<Longrightarrow> invar (fold push xs r)"
  by (induction xs arbitrary: r) (auto simp: invar_push)

lemma contents_pushes: "invar r \<Longrightarrow> xs \<noteq> [] \<Longrightarrow> contents (fold push xs r) = newest cap (contents r @ xs)"
proof (induction xs arbitrary: r)
  case Nil
  then show ?case by simp
next
  case (Cons x xs)
  then show ?case
    by (cases "xs = []") (simp_all add: contents_push invar_push newest_append_newest)
qed

lemma newest_stays: "invar r \<Longrightarrow> last (contents (push x r)) = x"
  by (simp add: contents_push last_newest cap_pos)

lemma bounded: "invar r \<Longrightarrow> length (contents (push x r)) \<le> cap"
  by (simp add: contents_push length_newest)

end

section \<open>Fixed tables: looked up by id, the oldest entry gives way\<close>

text \<open>
  The loop several tables share: \<open>i\<close> walks the table; an entry that is hit ends it (\<open>Inl\<close>), else
  the candidate for eviction \<open>(k, w)\<close> moves on to every entry that is older than the one so far.
\<close>

fun slot_scan :: "('e \<Rightarrow> bool) \<Rightarrow> ('e \<Rightarrow> 'e \<Rightarrow> bool) \<Rightarrow> nat \<times> 'e \<Rightarrow> nat \<Rightarrow> 'e list \<Rightarrow> nat + nat" where
  "slot_scan hit older (k, w) i [] = Inr k"
| "slot_scan hit older (k, w) i (x # xs) =
     (if hit x then Inl i
      else slot_scan hit older (if older x w then (i, x) else (k, w)) (Suc i) xs)"

definition slot_find :: "('e \<Rightarrow> bool) \<Rightarrow> ('e \<Rightarrow> 'e \<Rightarrow> bool) \<Rightarrow> 'e list \<Rightarrow> nat + nat" where
  "slot_find hit older t = (case t of [] \<Rightarrow> Inr 0 | e # _ \<Rightarrow> slot_scan hit older (0, e) 0 t)"

lemma slot_scan_hit:
  "j < length xs \<Longrightarrow> hit (xs ! j) \<Longrightarrow> \<forall>m<j. \<not> hit (xs ! m) \<Longrightarrow>
   slot_scan hit older ko i xs = Inl (i + j)"
proof (induction hit older ko i xs arbitrary: j rule: slot_scan.induct)
  case (1 hit older k w i)
  then show ?case by simp
next
  case (2 hit older k w i x xs)
  show ?case
  proof (cases j)
    case 0
    with "2.prems" show ?thesis by simp
  next
    case (Suc m)
    with "2.prems"(3) have "\<not> hit x" by force
    moreover from "2.prems"(3) Suc have "\<forall>n<m. \<not> hit (xs ! n)" by force
    ultimately show ?thesis using "2.prems" "2.IH" [of m] Suc by simp
  qed
qed

lemma slot_scan_miss:
  "\<forall>x\<in>set xs. \<not> hit x \<Longrightarrow> k < n \<Longrightarrow> i + length xs \<le> n \<Longrightarrow>
   \<exists>m<n. slot_scan hit older (k, w) i xs = Inr m"
proof (induction xs arbitrary: k w i)
  case Nil
  then show ?case by simp
next
  case (Cons x xs)
  then show ?case by (cases "older x w") simp_all
qed

lemma slot_find_hit:
  "j < length t \<Longrightarrow> hit (t ! j) \<Longrightarrow> \<forall>m<j. \<not> hit (t ! m) \<Longrightarrow> slot_find hit older t = Inl j"
  using slot_scan_hit [of j t hit older "(0, hd t)" 0] by (cases t) (simp_all add: slot_find_def)

lemma slot_find_miss:
  "t \<noteq> [] \<Longrightarrow> \<forall>x\<in>set t. \<not> hit x \<Longrightarrow> \<exists>m<length t. slot_find hit older t = Inr m"
  using slot_scan_miss [of t hit 0 "length t" 0 older "hd t"] by (cases t) (simp_all add: slot_find_def)

definition entry_for :: "('e \<Rightarrow> bool) \<Rightarrow> ('e \<Rightarrow> 'k) \<Rightarrow> 'k \<Rightarrow> 'e \<Rightarrow> bool" where
  "entry_for live key k e \<longleftrightarrow> live e \<and> key e = k"

definition uniq :: "('e \<Rightarrow> bool) \<Rightarrow> ('e \<Rightarrow> 'k) \<Rightarrow> 'e list \<Rightarrow> bool" where
  "uniq live key t \<longleftrightarrow>
     (\<forall>i<length t. \<forall>j<length t. live (t ! i) \<and> live (t ! j) \<and> key (t ! i) = key (t ! j) \<longrightarrow> i = j)"

lemma uniq_dead: "uniq live key t \<Longrightarrow> \<not> live e \<Longrightarrow> uniq live key (t[j := e])"
  unfolding uniq_def by (cases "j < length t") (auto simp: nth_list_update)

locale slot_table =
  fixes live :: "'e \<Rightarrow> bool"
    and key :: "'e \<Rightarrow> 'k"
    and blank :: "'k \<Rightarrow> 'e"
    and slot :: "'k \<Rightarrow> 'e list \<Rightarrow> nat \<times> 'e list"
  assumes key_blank: "key (blank k) = k"
    and slot_hit: "j < length t \<Longrightarrow> entry_for live key k (t ! j) \<Longrightarrow>
          \<forall>m<j. \<not> entry_for live key k (t ! m) \<Longrightarrow> slot k t = (j, t)"
    and slot_miss: "t \<noteq> [] \<Longrightarrow> \<forall>e\<in>set t. \<not> entry_for live key k e \<Longrightarrow>
          \<exists>j<length t. slot k t = (j, t[j := blank k])"
begin

lemma slot_cases:
  assumes "t \<noteq> []"
  obtains j where "j < length t" "slot k t = (j, t)" "live (t ! j)" "key (t ! j) = k"
  | j where "j < length t" "slot k t = (j, t[j := blank k])" "\<forall>e\<in>set t. \<not> entry_for live key k e"
proof (cases "\<exists>j<length t. entry_for live key k (t ! j)")
  case True
  then obtain j where j: "j < length t \<and> entry_for live key k (t ! j)"
    and least: "\<forall>m<j. \<not> (m < length t \<and> entry_for live key k (t ! m))"
    using exists_least_iff [of "\<lambda>j. j < length t \<and> entry_for live key k (t ! j)"] by blast
  then have "\<forall>m<j. \<not> entry_for live key k (t ! m)" by auto
  with j that(1) [of j] slot_hit [of j t k] show ?thesis by (auto simp: entry_for_def)
next
  case False
  then have none: "\<forall>e\<in>set t. \<not> entry_for live key k e" by (auto simp: in_set_conv_nth)
  from slot_miss [OF assms this] that(2) none show ?thesis by blast
qed

lemma slot_index: "t \<noteq> [] \<Longrightarrow> slot k t = (j, t') \<Longrightarrow> j < length t \<and> length t' = length t"
  by (erule slot_cases [of t k]) auto

lemma slot_key: "t \<noteq> [] \<Longrightarrow> slot k t = (j, t') \<Longrightarrow> key (t' ! j) = k"
  by (erule slot_cases [of t k]) (auto simp: key_blank)

lemma slot_frame: "t \<noteq> [] \<Longrightarrow> slot k t = (j, t') \<Longrightarrow> i \<noteq> j \<Longrightarrow> t' ! i = t ! i"
  by (erule slot_cases [of t k]) auto

lemma slot_set: "t \<noteq> [] \<Longrightarrow> slot k t = (j, t') \<Longrightarrow> t'[j := e] = t[j := e]"
  by (erule slot_cases [of t k]) auto

lemma slot_live_entry: "t \<noteq> [] \<Longrightarrow> slot k t = (j, t') \<Longrightarrow> t' ! j = t ! j \<and> live (t ! j) \<or> t' ! j = blank k"
  by (erule slot_cases [of t k]) auto

lemma slot_found: "t \<noteq> [] \<Longrightarrow> slot k t = (j, t') \<Longrightarrow> live (t' ! j) \<Longrightarrow> \<not> live (blank k) \<Longrightarrow> t' = t"
  by (erule slot_cases [of t k]) auto

text \<open>An entry written to the slot found keeps live keys apart, and is found again there.\<close>

lemma uniq_set:
  assumes "t \<noteq> []" "uniq live key t" "slot k t = (j, t')" "key e = k"
  shows "uniq live key (t'[j := e])"
proof -
  have other: "\<not> (live (t ! i) \<and> key (t ! i) = k)" if "i < length t" "i \<noteq> j" for i
    using assms(1)
  proof (cases rule: slot_cases [of t k])
    case (1 j')
    with assms(3) have "j' = j" by simp
    with 1 that assms(2) show ?thesis by (auto simp: uniq_def)
  next
    case (2 j')
    with that show ?thesis by (auto simp: entry_for_def)
  qed
  have "j < length t" "t'[j := e] = t[j := e]"
    using slot_index [OF assms(1,3)] slot_set [OF assms(1,3)] by auto
  with other assms(2,4) show ?thesis
    unfolding uniq_def by (auto simp: nth_list_update split: if_splits) metis+
qed

lemma found_again:
  assumes "t \<noteq> []" "uniq live key t" "slot k t = (j, t')" "key e = k" "live e"
  shows "slot k (t'[j := e]) = (j, t'[j := e])"
proof -
  from slot_index [OF assms(1,3)] have j: "j < length (t'[j := e])" by simp
  from uniq_set [OF assms(1-4)] have u: "uniq live key (t'[j := e])" .
  have "\<not> entry_for live key k (t'[j := e] ! m)" if "m < j" for m
  proof
    assume "entry_for live key k (t'[j := e] ! m)"
    with u j that assms(4,5) have "m = j"
      unfolding uniq_def entry_for_def by (auto simp del: nth_list_update_neq)
    with that show False by simp
  qed
  with j assms(4,5) show ?thesis
    by (intro slot_hit) (auto simp: entry_for_def)
qed

end

text \<open>Every table of the code is such a scan.\<close>

lemma slot_table_scan:
  fixes live :: "'e \<Rightarrow> bool"
  assumes "\<And>k. key (blank k) = k"
    and "\<And>k t. slot k t = (case slot_find (\<lambda>e. live e \<and> key e = k) older t of
                 Inl j \<Rightarrow> (j, t) | Inr j \<Rightarrow> (j, t[j := blank k]))"
  shows "slot_table live key blank slot"
proof
  show "key (blank k) = k" for k by (rule assms(1))
next
  fix j k and t :: "'e list"
  assume "j < length t" "entry_for live key k (t ! j)" "\<forall>m<j. \<not> entry_for live key k (t ! m)"
  then show "slot k t = (j, t)" by (simp add: assms(2) entry_for_def slot_find_hit)
next
  fix t :: "'e list" and k
  assume "t \<noteq> []" "\<forall>e\<in>set t. \<not> entry_for live key k e"
  then obtain m where "m < length t" "slot_find (\<lambda>e. live e \<and> key e = k) older t = Inr m"
    using slot_find_miss [of t "\<lambda>e. live e \<and> key e = k" older] by (auto simp: entry_for_def)
  then show "\<exists>j<length t. slot k t = (j, t[j := blank k])" by (auto simp: assms(2))
qed

section \<open>Ring positions\<close>

text \<open>An unsigned counter modulo a ring of 64 keeps its place when the counter wraps.\<close>

lemma ring_index: "unat ((w::u32) + of_nat m) mod 64 = (unat w + m) mod 64"
proof -
  have "unat (w + of_nat m) = (unat w + m mod 2 ^ 32) mod 2 ^ 32"
    by (simp add: unat_word_ariths unat_of_nat)
  also have "\<dots> mod 64 = (unat w + m mod 2 ^ 32) mod 64"
    by (rule mod_mod_cancel) simp
  also have "\<dots> = (unat w + m mod 2 ^ 32 mod 64) mod 64"
    by (simp add: mod_simps)
  also have "m mod 2 ^ 32 mod 64 = m mod 64"
    by (rule mod_mod_cancel) simp
  finally show ?thesis by (simp add: mod_simps)
qed

lemma ring_index_inj: "unat ((w::u32) + of_nat m) mod 64 = unat w mod 64 \<Longrightarrow> m < 64 \<Longrightarrow> m = 0"
  unfolding ring_index by (simp add: mod_eq_dvd_iff_nat dvd_imp_le) presburger

section \<open>The order of \<open>memcmp\<close> and \<open>strcmp\<close>\<close>

fun bless :: "bytes \<Rightarrow> bytes \<Rightarrow> bool" where
  "bless [] [] = False"
| "bless [] (y # ys) = True"
| "bless (x # xs) [] = False"
| "bless (x # xs) (y # ys) = (x < y \<or> x = y \<and> bless xs ys)"

lemma bless_irrefl [simp]: "\<not> bless x x"
  by (induction x) auto

lemma bless_trans: "bless x y \<Longrightarrow> bless y z \<Longrightarrow> bless x z"
proof (induction x y arbitrary: z rule: bless.induct)
  case (4 x xs y ys)
  then show ?case by (cases z) auto
qed (auto elim: bless.elims)

lemma bless_total: "x \<noteq> y \<Longrightarrow> bless x y \<or> bless y x"
  by (induction x y rule: bless.induct) auto

section \<open>Elections\<close>

text \<open>
  Of the claims every participant sees, exactly one is beaten by none: the law an order of claims
  has to obey for the devices to agree without a coordinator.
\<close>

locale election =
  fixes beats :: "'c \<Rightarrow> 'c \<Rightarrow> bool"
  assumes beats_irrefl: "\<not> beats x x"
    and beats_trans: "beats x y \<Longrightarrow> beats y z \<Longrightarrow> beats x z"
    and beats_total: "x \<noteq> y \<Longrightarrow> beats x y \<or> beats y x"
begin

lemma best_exists: "finite S \<Longrightarrow> S \<noteq> {} \<Longrightarrow> \<exists>x\<in>S. \<forall>y\<in>S. \<not> beats y x"
proof (induction S rule: finite_ne_induct)
  case (singleton x)
  then show ?case by (simp add: beats_irrefl)
next
  case (insert z S)
  then obtain x where x: "x \<in> S" "\<forall>y\<in>S. \<not> beats y x" by blast
  show ?case
  proof (cases "beats z x")
    case True
    have "\<not> beats y z" if "y \<in> S" for y
      using x(2) that True beats_trans by blast
    then show ?thesis using beats_irrefl by auto
  next
    case False
    with x show ?thesis by auto
  qed
qed

lemma best_unique: "x \<in> S \<Longrightarrow> y \<in> S \<Longrightarrow> \<forall>z\<in>S. \<not> beats z x \<Longrightarrow> \<forall>z\<in>S. \<not> beats z y \<Longrightarrow> x = y"
  by (metis beats_total)

lemma one_best: "finite S \<Longrightarrow> S \<noteq> {} \<Longrightarrow> \<exists>!x. x \<in> S \<and> (\<forall>y\<in>S. \<not> beats y x)"
proof -
  assume "finite S" "S \<noteq> {}"
  then obtain x where "x \<in> S" "\<forall>y\<in>S. \<not> beats y x" using best_exists by blast
  then show ?thesis by (intro ex1I [of _ x]) (auto dest: best_unique)
qed

end

end
