(* ===== verification/Hash.thy ===== *)
theory Hash
  imports Prelude
begin

text \<open>
  \<^verbatim>\<open>src/hassmic/hash.c\<close>: SHA-256 with its incremental interface, HMAC-SHA-256, SHA-1 (the
  WebSocket accept key) and base64 in both alphabets.  The incremental digest is shown to depend
  only on the bytes fed, not on how they were cut, and to be the block function folded over the
  padded message; base64 decodes what it encodes, in either alphabet, padded or not.
\<close>

section \<open>SHA-256\<close>

definition ROL :: "u32 \<Rightarrow> nat \<Rightarrow> u32" where
  "ROL x n = push_bit n x OR drop_bit (32 - n) x"

definition ROR :: "u32 \<Rightarrow> nat \<Rightarrow> u32" where
  "ROR x n = drop_bit n x OR push_bit (32 - n) x"

text \<open>A big-endian 32-bit word of a block, and the bytes of one.\<close>

definition be32 :: "bytes \<Rightarrow> u32" where
  "be32 q = push_bit 24 (ucast (q ! 0)) OR push_bit 16 (ucast (q ! 1)) OR push_bit 8 (ucast (q ! 2)) OR ucast (q ! 3)"

definition be32_bytes :: "u32 \<Rightarrow> bytes" where
  "be32_bytes v = [ucast (drop_bit 24 v), ucast (drop_bit 16 v), ucast (drop_bit 8 v), ucast v]"

definition be64_bytes :: "u64 \<Rightarrow> bytes" where
  "be64_bytes v = map (\<lambda>i. ucast (drop_bit (56 - 8 * i) v)) [0..<8]"

definition block_words :: "bytes \<Rightarrow> u32 list" where
  "block_words p = map (\<lambda>i. be32 (drop (4 * i) p)) [0..<16]"

text \<open>The rows of the source's table.\<close>

definition K256 :: "u32 list" where
  "K256 = concat [
    [0x428a2f98, 0x71374491, 0xb5c0fbcf, 0xe9b5dba5, 0x3956c25b, 0x59f111f1, 0x923f82a4, 0xab1c5ed5, 0xd807aa98, 0x12835b01, 0x243185be],
    [0x550c7dc3, 0x72be5d74, 0x80deb1fe, 0x9bdc06a7, 0xc19bf174, 0xe49b69c1, 0xefbe4786, 0x0fc19dc6, 0x240ca1cc, 0x2de92c6f, 0x4a7484aa],
    [0x5cb0a9dc, 0x76f988da, 0x983e5152, 0xa831c66d, 0xb00327c8, 0xbf597fc7, 0xc6e00bf3, 0xd5a79147, 0x06ca6351, 0x14292967, 0x27b70a85],
    [0x2e1b2138, 0x4d2c6dfc, 0x53380d13, 0x650a7354, 0x766a0abb, 0x81c2c92e, 0x92722c85, 0xa2bfe8a1, 0xa81a664b, 0xc24b8b70, 0xc76c51a3],
    [0xd192e819, 0xd6990624, 0xf40e3585, 0x106aa070, 0x19a4c116, 0x1e376c08, 0x2748774c, 0x34b0bcb5, 0x391c0cb3, 0x4ed8aa4a, 0x5b9cca4f],
    [0x682e6ff3, 0x748f82ee, 0x78a5636f, 0x84c87814, 0x8cc70208, 0x90befffa, 0xa4506ceb, 0xbef9a3f7, 0xc67178f2]]"

text \<open>The message schedule: \<open>w[16..63]\<close>, each from the ones before it.\<close>

fun schedule256 :: "nat \<Rightarrow> u32 list \<Rightarrow> u32 list" where
  "schedule256 0 w = w"
| "schedule256 (Suc n) w =
     (let i = length w; a = w ! (i - 15); b = w ! (i - 2);
          s0 = ROR a 7 XOR ROR a 18 XOR drop_bit 3 a;
          s1 = ROR b 17 XOR ROR b 19 XOR drop_bit 10 b
      in schedule256 n (w @ [w ! (i - 16) + s0 + w ! (i - 7) + s1]))"

definition round256 :: "u32 list \<Rightarrow> u32 \<times> u32 \<Rightarrow> u32 list" where
  "round256 s kw =
     (let S1 = ROR (s ! 4) 6 XOR ROR (s ! 4) 11 XOR ROR (s ! 4) 25;
          ch = (s ! 4 AND s ! 5) XOR (NOT (s ! 4) AND s ! 6);
          t1 = s ! 7 + S1 + ch + fst kw + snd kw;
          S0 = ROR (s ! 0) 2 XOR ROR (s ! 0) 13 XOR ROR (s ! 0) 22;
          maj = (s ! 0 AND s ! 1) XOR (s ! 0 AND s ! 2) XOR (s ! 1 AND s ! 2)
      in [t1 + S0 + maj, s ! 0, s ! 1, s ! 2, s ! 3 + t1, s ! 4, s ! 5, s ! 6])"

definition sha256_block :: "u32 list \<Rightarrow> bytes \<Rightarrow> u32 list" where
  "sha256_block h p = map2 (+) h (foldl round256 h (zip K256 (schedule256 48 (block_words p))))"

text \<open>
  \<open>struct sha256\<close>: \<open>buf\<close> holds the bytes waiting for a full block, so the code's \<open>n\<close> is its
  length (below 64 between calls).
\<close>

record sha256_ctx =
  sh_h :: "u32 list"
  sh_len :: u64
  sh_buf :: bytes

definition sha256_init :: sha256_ctx where
  "sha256_init = \<lparr>sh_h = [0x6a09e667, 0xbb67ae85, 0x3c6ef372, 0xa54ff53a, 0x510e527f, 0x9b05688c, 0x1f83d9ab, 0x5be0cd19],
                  sh_len = 0, sh_buf = []\<rparr>"

text \<open>The loop of \<open>sha256_update\<close>: as much as fits the block at a time.\<close>

function sha256_feed :: "sha256_ctx \<Rightarrow> bytes \<Rightarrow> sha256_ctx" where
  "sha256_feed c p =
     (if p = [] \<or> 64 \<le> length (sh_buf c) then c
      else (let k = min (64 - length (sh_buf c)) (length p);
                b = sh_buf c @ take k p;
                c' = (if length b = 64 then c\<lparr>sh_h := sha256_block (sh_h c) b, sh_buf := []\<rparr>
                      else c\<lparr>sh_buf := b\<rparr>)
            in sha256_feed c' (drop k p)))"
  by pat_completeness auto
termination
  by (relation "measure (\<lambda>(c, p). length p)") auto

declare sha256_feed.simps [simp del]

definition sha256_update :: "sha256_ctx \<Rightarrow> bytes \<Rightarrow> sha256_ctx" where
  "sha256_update c p = sha256_feed (c\<lparr>sh_len := sh_len c + of_nat (length p)\<rparr>) p"

definition sha256_final :: "sha256_ctx \<Rightarrow> bytes" where
  "sha256_final c =
     (let bits = sh_len c * 8;
          padlen = (if length (sh_buf c) < 56 then 56 else 120) - length (sh_buf c);
          c1 = sha256_update c (take padlen (0x80 # replicate 71 0));
          c2 = sha256_update c1 (be64_bytes bits)
      in concat (map be32_bytes (sh_h c2)))"

definition sha256 :: "bytes \<Rightarrow> bytes" where
  "sha256 data = sha256_final (sha256_update sha256_init data)"

definition hmac_sha256 :: "bytes \<Rightarrow> bytes \<Rightarrow> bytes \<Rightarrow> bytes" where
  "hmac_sha256 key a b =
     (let k0 = (if length key > 64 then sha256 key else key);
          k = k0 @ replicate (64 - length k0) 0;
          c = sha256_update (sha256_update sha256_init (map (\<lambda>x. x XOR 0x36) k)) a;
          inner = sha256_final (if b \<noteq> [] then sha256_update c b else c)
      in sha256_final (sha256_update (sha256_update sha256_init (map (\<lambda>x. x XOR 0x5c) k)) inner))"

section \<open>SHA-1\<close>

fun schedule1 :: "nat \<Rightarrow> u32 list \<Rightarrow> u32 list" where
  "schedule1 0 w = w"
| "schedule1 (Suc n) w =
     (let i = length w
      in schedule1 n (w @ [ROL (w ! (i - 3) XOR w ! (i - 8) XOR w ! (i - 14) XOR w ! (i - 16)) 1]))"

definition round1 :: "u32 list \<Rightarrow> nat \<times> u32 \<Rightarrow> u32 list" where
  "round1 s iw =
     (let i = fst iw; a = s ! 0; b = s ! 1; c = s ! 2; d = s ! 3; e = s ! 4;
          (f, k) = (if i < 20 then ((b AND c) OR (NOT b AND d), 0x5a827999)
                    else if i < 40 then (b XOR c XOR d, 0x6ed9eba1)
                    else if i < 60 then ((b AND c) OR (b AND d) OR (c AND d), 0x8f1bbcdc)
                    else (b XOR c XOR d, 0xca62c1d6))
      in [ROL a 5 + f + e + k + snd iw, a, ROL b 30, c, d])"

definition sha1_block :: "u32 list \<Rightarrow> bytes \<Rightarrow> u32 list" where
  "sha1_block h p = map2 (+) h (foldl round1 h (zip [0..<80] (schedule1 64 (block_words p))))"

fun chunk64 :: "bytes \<Rightarrow> bytes list" where
  "chunk64 p = (if p = [] then [] else take 64 p # chunk64 (drop 64 p))"

declare chunk64.simps [simp del]

definition sha1 :: "bytes \<Rightarrow> bytes" where
  "sha1 data =
     (let len = length data; full = len div 64 * 64; rest = len - full;
          tl = (if rest < 56 then 64 else 128);
          tail = drop full data @ 0x80 # replicate (tl - rest - 9) 0 @ be64_bytes (of_nat len * 8)
      in concat (map be32_bytes
           (foldl sha1_block [0x67452301, 0xefcdab89, 0x98badcfe, 0x10325476, 0xc3d2e1f0]
              (chunk64 (take full data) @ chunk64 tail))))"

section \<open>Base64\<close>

definition B64 :: bytes where
  "B64 = ascii ''ABCDEFGHIJKLMNOPQRSTUVWXYZabcdefghijklmnopqrstuvwxyz0123456789+/''"

definition B64URL :: bytes where
  "B64URL = ascii ''ABCDEFGHIJKLMNOPQRSTUVWXYZabcdefghijklmnopqrstuvwxyz0123456789-_''"

definition b64_abc :: "bool \<Rightarrow> bytes" where
  "b64_abc url = (if url then B64URL else B64)"

definition b64_quad :: "bytes \<Rightarrow> bool \<Rightarrow> bytes \<Rightarrow> bytes" where
  "b64_quad abc pad p =
     (let v = push_bit 16 (ucast (p ! 0) :: u32) OR (if 1 < length p then push_bit 8 (ucast (p ! 1)) else 0)
                OR (if 2 < length p then ucast (p ! 2) else 0)
      in [abc ! unat (drop_bit 18 v), abc ! unat (drop_bit 12 v AND 63)]
         @ (if 1 < length p then [abc ! unat (drop_bit 6 v AND 63)] else if pad then [0x3d] else [])
         @ (if 2 < length p then [abc ! unat (v AND 63)] else if pad then [0x3d] else []))"

fun b64_encode :: "bool \<Rightarrow> bool \<Rightarrow> bytes \<Rightarrow> bytes" where
  "b64_encode url pad [] = []"
| "b64_encode url pad (x # xs) = b64_quad (b64_abc url) pad (x # xs) @ b64_encode url pad (drop 2 xs)"

text \<open>One character's value, \<open>None\<close> for one outside both alphabets.\<close>

definition b64_value :: "byte \<Rightarrow> u32 option" where
  "b64_value ch =
     (if 0x41 \<le> ch \<and> ch \<le> 0x5a then Some (ucast ch - 0x41)
      else if 0x61 \<le> ch \<and> ch \<le> 0x7a then Some (ucast ch - 0x61 + 26)
      else if 0x30 \<le> ch \<and> ch \<le> 0x39 then Some (ucast ch - 0x30 + 52)
      else if ch = 0x2b \<or> ch = 0x2d then Some 62
      else if ch = 0x2f \<or> ch = 0x5f then Some 63 else None)"

fun b64_loop :: "nat \<Rightarrow> u32 \<Rightarrow> nat \<Rightarrow> bytes \<Rightarrow> bytes \<Rightarrow> bytes option" where
  "b64_loop cap acc bits out [] = Some out"
| "b64_loop cap acc bits out (ch # rest) =
     (if ch = 0x3d then Some out
      else case b64_value ch of
        None \<Rightarrow> None
      | Some v \<Rightarrow>
          (let acc' = push_bit 6 acc OR v; bits' = bits + 6
           in if 8 \<le> bits' then
                (if cap \<le> length out then None
                 else b64_loop cap acc' (bits' - 8) (out @ [ucast (drop_bit (bits' - 8) acc' AND 0xff)]) rest)
              else b64_loop cap acc' bits' out rest))"

text \<open>The bytes decoded, or \<open>None\<close> where the code returns -1.\<close>

definition b64_decode :: "bytes \<Rightarrow> nat \<Rightarrow> bytes option" where
  "b64_decode inp cap = b64_loop cap 0 0 [] inp"

section \<open>The incremental digest\<close>

text \<open>One byte at a time: what the block-wise loop has to agree with.\<close>

definition feed1 :: "sha256_ctx \<Rightarrow> byte \<Rightarrow> sha256_ctx" where
  "feed1 c x = (let b = sh_buf c @ [x] in
     if length b = 64 then c\<lparr>sh_h := sha256_block (sh_h c) b, sh_buf := []\<rparr> else c\<lparr>sh_buf := b\<rparr>)"

lemma foldl_feed1_short:
  "length (sh_buf c) + length p < 64 \<Longrightarrow> foldl feed1 c p = c\<lparr>sh_buf := sh_buf c @ p\<rparr>"
  by (induction p arbitrary: c) (auto simp: feed1_def Let_def)

lemma foldl_feed1_block:
  assumes "length (sh_buf c) + length p = 64" "length (sh_buf c) < 64"
  shows "foldl feed1 c p = c\<lparr>sh_h := sha256_block (sh_h c) (sh_buf c @ p), sh_buf := []\<rparr>"
proof -
  from assms have "p \<noteq> []" by auto
  then obtain q x where p: "p = q @ [x]" by (metis rev_exhaust)
  with assms show ?thesis by (simp add: foldl_feed1_short feed1_def)
qed

lemma feed1_len [frame]: "sh_len (feed1 c x) = sh_len c"
  by (simp add: feed1_def Let_def)

lemma foldl_feed1_len [frame]: "sh_len (foldl feed1 c p) = sh_len c"
  by (induction p arbitrary: c) (auto simp: frame)

lemma feed1_buf: "length (sh_buf c) < 64 \<Longrightarrow> length (sh_buf (feed1 c x)) < 64"
  by (auto simp: feed1_def Let_def)

lemma foldl_feed1_buf: "length (sh_buf c) < 64 \<Longrightarrow> length (sh_buf (foldl feed1 c p)) < 64"
  by (induction p arbitrary: c) (auto simp: feed1_buf)

lemma sha256_feed_bytewise: "length (sh_buf c) < 64 \<Longrightarrow> sha256_feed c p = foldl feed1 c p"
proof (induction c p rule: sha256_feed.induct)
  case (1 c p)
  show ?case
  proof (cases "p = []")
    case True
    then show ?thesis by (simp add: sha256_feed.simps)
  next
    case False
    define k where "k = min (64 - length (sh_buf c)) (length p)"
    define c' where "c' = (if length (sh_buf c @ take k p) = 64
       then c\<lparr>sh_h := sha256_block (sh_h c) (sh_buf c @ take k p), sh_buf := []\<rparr>
       else c\<lparr>sh_buf := sh_buf c @ take k p\<rparr>)"
    have step: "c' = foldl feed1 c (take k p)"
      using "1.prems" foldl_feed1_block [of c "take k p"] foldl_feed1_short [of c "take k p"]
      by (auto simp: c'_def k_def min_def)
    have small: "length (sh_buf c') < 64"
      using foldl_feed1_buf [OF "1.prems"] by (simp add: step)
    have "sha256_feed c p = sha256_feed c' (drop k p)"
      using False "1.prems" by (subst sha256_feed.simps) (simp add: Let_def c'_def k_def)
    also have "\<dots> = foldl feed1 c' (drop k p)"
      using False "1.prems" small
      by (intro "1.IH" [of k "sh_buf c @ take k p"]) (simp_all add: c'_def k_def)
    also have "\<dots> = foldl feed1 c p"
      by (simp add: step flip: foldl_append)
    finally show ?thesis .
  qed
qed

text \<open>Digest state reached from \<open>sha256_init\<close>: the buffer is short of a block.\<close>

definition sha256_ok :: "sha256_ctx \<Rightarrow> bool" where
  "sha256_ok c \<longleftrightarrow> length (sh_buf c) < 64"

lemma feed1_frame: "feed1 (c\<lparr>sh_len := n\<rparr>) x = (feed1 c x)\<lparr>sh_len := n\<rparr>"
  by (simp add: feed1_def Let_def)

lemma foldl_feed1_frame:
  "foldl feed1 (c\<lparr>sh_len := n\<rparr>) p = (foldl feed1 c p)\<lparr>sh_len := n\<rparr>"
  by (induction p arbitrary: c) (auto simp: feed1_frame)

lemma sha256_update_bytewise:
  "sha256_ok c \<Longrightarrow> sha256_update c p = (foldl feed1 c p)\<lparr>sh_len := sh_len c + of_nat (length p)\<rparr>"
  by (simp add: sha256_update_def sha256_feed_bytewise foldl_feed1_frame sha256_ok_def)

lemma sha256_update_ok: "sha256_ok c \<Longrightarrow> sha256_ok (sha256_update c p)"
  using foldl_feed1_buf [of c p] by (simp add: sha256_ok_def sha256_update_bytewise)

lemma sha256_init_ok: "sha256_ok sha256_init"
  by (simp add: sha256_init_def sha256_ok_def)

lemma sha256_update_join:
  assumes "sha256_ok c"
  shows "sha256_update (sha256_update c a) b = sha256_update c (a @ b)"
proof -
  have "sha256_update (sha256_update c a) b
      = (foldl feed1 (sha256_update c a) b)\<lparr>sh_len := sh_len (sha256_update c a) + of_nat (length b)\<rparr>"
    using assms by (intro sha256_update_bytewise sha256_update_ok)
  with assms show ?thesis
    by (simp add: sha256_update_bytewise foldl_feed1_frame add.assoc)
qed

lemma chunk64_Nil [simp]: "chunk64 [] = []"
  by (simp add: chunk64.simps)

lemma chunk64_step: "p \<noteq> [] \<Longrightarrow> chunk64 p = take 64 p # chunk64 (drop 64 p)"
  by (subst chunk64.simps) simp

lemma foldl_feed1_chunks:
  "length p mod 64 = 0 \<Longrightarrow> sh_buf c = [] \<Longrightarrow>
   foldl feed1 c p = c\<lparr>sh_h := foldl sha256_block (sh_h c) (chunk64 p)\<rparr>"
proof (induction p arbitrary: c rule: chunk64.induct)
  case (1 p)
  show ?case
  proof (cases "p = []")
    case True
    then show ?thesis by simp
  next
    case False
    with "1.prems"(1) have long: "64 \<le> length p"
      by (metis length_greater_0_conv mod_less not_le order_less_irrefl)
    define c' where "c' = c\<lparr>sh_h := sha256_block (sh_h c) (take 64 p)\<rparr>"
    have "foldl feed1 c p = foldl feed1 (foldl feed1 c (take 64 p)) (drop 64 p)"
      by (simp flip: foldl_append)
    also have "foldl feed1 c (take 64 p) = c'"
      using long "1.prems"(2) foldl_feed1_block [of c "take 64 p"] by (simp add: c'_def)
    also have "foldl feed1 c' (drop 64 p) = c'\<lparr>sh_h := foldl sha256_block (sh_h c') (chunk64 (drop 64 p))\<rparr>"
      using False long "1.prems" by (intro "1.IH") (auto simp: c'_def mod_if)
    finally show ?thesis
      using False by (simp add: c'_def chunk64_step)
  qed
qed

text \<open>FIPS 180-4's padded message: a one bit, zeros, the length in bits as 64 bits.\<close>

definition sha256_pad :: "bytes \<Rightarrow> bytes" where
  "sha256_pad data =
     (let r = length data mod 64
      in data @ 0x80 # replicate ((if r < 56 then 55 else 119) - r) 0 @ be64_bytes (of_nat (length data) * 8))"

lemma length_be64_bytes [simp]: "length (be64_bytes v) = 8"
  by (simp add: be64_bytes_def)

lemma sha256_pad_blocks: "length (sha256_pad data) mod 64 = 0"
proof -
  define r q where "r = length data mod 64" and "q = length data div 64"
  have n: "length data = 64 * q + r" and r: "r < 64" by (simp_all add: r_def q_def)
  have "length (sha256_pad data) = length data + (9 + ((if r < 56 then 55 else 119) - r))"
    by (simp add: sha256_pad_def Let_def r_def)
  also have "\<dots> = 64 * (q + (if r < 56 then 1 else 2))" using n r by auto
  finally show ?thesis by simp
qed

lemma foldl_feed1_count:
  "length (sh_buf c) < 64 \<Longrightarrow> length (sh_buf (foldl feed1 c p)) = (length (sh_buf c) + length p) mod 64"
proof (induction p arbitrary: c)
  case Nil
  then show ?case by simp
next
  case (Cons x p)
  from Cons.prems have "length (sh_buf (feed1 c x)) = Suc (length (sh_buf c)) mod 64"
    by (auto simp: feed1_def Let_def)
  moreover from Cons.prems have "length (sh_buf (feed1 c x)) < 64" by (rule feed1_buf)
  ultimately show ?case using Cons.IH by (simp add: mod_simps)
qed

lemma sha256_final_pad:
  assumes "sha256_ok c" "sh_len c = of_nat n"
  shows "sha256_final c = concat (map be32_bytes (sh_h (foldl feed1 c
           (0x80 # replicate ((if length (sh_buf c) < 56 then 55 else 119) - length (sh_buf c)) 0
              @ be64_bytes (of_nat n * 8)))))"
proof -
  let ?pad = "0x80 # replicate ((if length (sh_buf c) < 56 then 55 else 119) - length (sh_buf c)) (0::byte)"
  have pad: "take ((if length (sh_buf c) < 56 then 56 else 120) - length (sh_buf c)) (0x80 # replicate 71 0) = ?pad"
    using assms(1) by (auto simp: sha256_ok_def take_Cons' min_def)
  have "sh_h (sha256_update (sha256_update c ?pad) (be64_bytes (of_nat n * 8)))
          = sh_h (foldl feed1 c (?pad @ be64_bytes (of_nat n * 8)))"
    unfolding sha256_update_join [OF assms(1)] unfolding sha256_update_bytewise [OF assms(1)] by (cases "foldl feed1 c (?pad @ be64_bytes (of_nat n * 8))") simp
  with pad assms(2) show ?thesis
    by (simp add: sha256_final_def Let_def)
qed

text \<open>
   Feeding a message in two pieces gives the state feeding it at once gives: the digest
  depends on the bytes, not on how the callers cut them.
\<close>

theorem sha256_update_append:
  "sha256_ok c \<Longrightarrow> sha256_update (sha256_update c a) b = sha256_update c (a @ b)"
  by (rule sha256_update_join)

theorem sha256_update_append_witness:
  "sha256_update (sha256_update sha256_init [1, 2]) [3] = sha256_update sha256_init [1, 2, 3]"
  using sha256_update_append [OF sha256_init_ok, of "[1, 2]" "[3]"] by simp

text \<open>
  C36.  \<open>sha256\<close> is the block function folded over the padded message in blocks of 64 bytes: no
  byte of the message or of the padding is skipped, repeated or left in the buffer.
\<close>

theorem sha256_spec:
  "sha256 data = concat (map be32_bytes (foldl sha256_block (sh_h sha256_init) (chunk64 (sha256_pad data))))"
proof -
  let ?c = "sha256_update sha256_init data"
  have buf: "length (sh_buf ?c) = length data mod 64"
    using foldl_feed1_count [of sha256_init data]
    by (simp add: sha256_update_bytewise sha256_init_ok, simp add: sha256_init_def)
  have len: "sh_len ?c = of_nat (length data)"
    by (simp add: sha256_update_bytewise sha256_init_ok, simp add: sha256_init_def)
  have "sha256 data = concat (map be32_bytes (sh_h (foldl feed1 ?c (drop (length data) (sha256_pad data)))))"
    unfolding sha256_def sha256_final_pad [OF sha256_update_ok [OF sha256_init_ok] len]
    by (simp add: buf sha256_pad_def Let_def)
  also have "sh_h (foldl feed1 ?c (drop (length data) (sha256_pad data))) = sh_h (foldl feed1 sha256_init (sha256_pad data))"
    by (simp add: sha256_update_bytewise sha256_init_ok sha256_pad_def Let_def foldl_feed1_frame feed1_frame)
  also have "\<dots> = foldl sha256_block (sh_h sha256_init) (chunk64 (sha256_pad data))"
    by (subst foldl_feed1_chunks) (simp_all add: sha256_pad_blocks, simp add: sha256_init_def)
  finally show ?thesis .
qed

section \<open>Base64: what is encoded is decoded\<close>

lemma upt64: "[0..<64] = [0,1,2,3,4,5,6,7,8,9,10,11,12,13,14,15,16,17,18,19,20,21,22,23,24,25,26,27,28,29,30,31,32,33,34,35,36,37,38,39,40,41,42,43,44,45,46,47,48,49,50,51,52,53,54,55,56,57,58,59,60,61,62,63::nat]"
  by (simp add: upt_rec)

lemma B64_map: "map b64_value B64 = map (Some \<circ> of_nat) [0..<64]"
  unfolding upt64 by (simp add: B64_def ascii_def b64_value_def)

lemma B64URL_map: "map b64_value B64URL = map (Some \<circ> of_nat) [0..<64]"
  unfolding upt64 by (simp add: B64URL_def ascii_def b64_value_def)

lemma B64_noeq: "0x3d \<notin> set B64 \<union> set B64URL"
  by (simp add: B64URL_def B64_def ascii_def)

lemma length_B64: "length B64 = 64" "length B64URL = 64"
  by (simp_all add: B64_def B64URL_def)

lemma and63: "(x::u32) AND 63 = take_bit 6 x"
  by (simp add: take_bit_eq_mask mask_eq_exp_minus_1)

lemma and255: "(x::u32) AND 255 = take_bit 8 x"
  by (simp add: take_bit_eq_mask mask_eq_exp_minus_1)

lemma b64_value_nth:
  "k < 64 \<Longrightarrow> b64_value (b64_abc url ! k) = Some (of_nat k)"
  "k < 64 \<Longrightarrow> b64_abc url ! k \<noteq> 0x3d"
proof -
  assume k: "k < 64"
  from arg_cong [OF B64_map, of "\<lambda>x. x ! k"] arg_cong [OF B64URL_map, of "\<lambda>x. x ! k"] k
  show "b64_value (b64_abc url ! k) = Some (of_nat k)" by (simp add: length_B64 b64_abc_def)
  from B64_noeq k show "b64_abc url ! k \<noteq> 0x3d"
    by (metis length_B64 UnI1 UnI2 nth_mem b64_abc_def)
qed

lemma byte_eqI:
  fixes x y :: byte
  assumes "bit x 0 = bit y 0" "bit x 1 = bit y 1" "bit x 2 = bit y 2" "bit x 3 = bit y 3"
    "bit x 4 = bit y 4" "bit x 5 = bit y 5" "bit x 6 = bit y 6" "bit x 7 = bit y 7"
  shows "x = y"
proof (rule bit_word_eqI)
  fix n assume "n < LENGTH(8)"
  then have "n = 0 \<or> n = 1 \<or> n = 2 \<or> n = 3 \<or> n = 4 \<or> n = 5 \<or> n = 6 \<or> n = 7" by auto
  with assms show "bit x n = bit y n" by auto
qed

lemma bit_byte_beyond: "8 \<le> n \<Longrightarrow> \<not> bit (x :: byte) n"
  by (auto dest: bit_imp_le_length)

definition b64_v :: "byte \<Rightarrow> byte \<Rightarrow> byte \<Rightarrow> u32" where
  "b64_v a b c = push_bit 16 (ucast a) OR push_bit 8 (ucast b) OR ucast c"



definition sextet :: "nat \<Rightarrow> u32 \<Rightarrow> u32" where
  "sextet n v = take_bit 6 (drop_bit n v)"

definition b64_acc :: "u32 \<Rightarrow> u32 \<Rightarrow> u32" where
  "b64_acc acc v = push_bit 6 acc OR v"

definition b64_byte :: "nat \<Rightarrow> u32 \<Rightarrow> byte" where
  "b64_byte n acc = ucast (drop_bit n acc AND 0xff)"

lemma sextet_less: "unat (sextet n v) < 64"
  using take_bit_int_less_exp [of 6 "uint (drop_bit n v)"]
  by (simp add: sextet_def unat_eq_nat_uint unsigned_take_bit_eq)

lemma b64_loop_char:
  "b64_loop cap acc bits out (b64_abc url ! unat (sextet n v) # rest) =
     (let acc' = b64_acc acc (sextet n v)
      in if 2 \<le> bits then
           (if cap \<le> length out then None
            else b64_loop cap acc' (bits - 2) (out @ [b64_byte (bits - 2) acc']) rest)
         else b64_loop cap acc' (bits + 6) out rest)"
proof -
  have "bits + 6 - 8 = bits - 2" by simp
  with b64_value_nth [OF sextet_less, of url n v] show ?thesis
    unfolding b64_loop.simps b64_acc_def b64_byte_def by (simp only: Let_def) auto
qed

lemma b64_v_top: "drop_bit 18 (b64_v a b c) = sextet 18 (b64_v a b c)"
  by (rule bit_word_eqI) (auto simp: bit_simps b64_v_def sextet_def dest: bit_imp_le_length)

lemma b64_bytes:
  "b64_byte 4 (b64_acc (b64_acc acc (sextet 18 (b64_v a b c))) (sextet 12 (b64_v a b c))) = a"
  "b64_byte 2 (b64_acc (b64_acc acc (sextet 12 (b64_v a b c))) (sextet 6 (b64_v a b c))) = b"
  "b64_byte 0 (b64_acc (b64_acc acc (sextet 6 (b64_v a b c))) (sextet 0 (b64_v a b c))) = c"
  unfolding b64_byte_def b64_acc_def sextet_def and255
  by (rule byte_eqI; simp add: bit_simps b64_v_def bit_byte_beyond)+

lemma b64_quads:
  "b64_quad abc pad (a # b # c # r) = map (\<lambda>n. abc ! unat (sextet n (b64_v a b c))) [18, 12, 6, 0]"
  "b64_quad abc pad [a, b] = map (\<lambda>n. abc ! unat (sextet n (b64_v a b 0))) [18, 12, 6] @ (if pad then [0x3d] else [])"
  "b64_quad abc pad [a] = map (\<lambda>n. abc ! unat (sextet n (b64_v a 0 0))) [18, 12] @ (if pad then [0x3d, 0x3d] else [])"
  using b64_v_top [of a b c] b64_v_top [of a b 0] b64_v_top [of a 0 0]
  by (simp_all add: b64_quad_def and63 b64_v_def sextet_def Let_def)

lemma b64_loop_encode:
  "length out + length data \<le> cap \<Longrightarrow> b64_loop cap acc 0 out (b64_encode url pad data) = Some (out @ data)"
proof (induction url pad data arbitrary: acc out rule: b64_encode.induct)
  case (1 url pad)
  show ?case by simp
next
  case (2 url pad a xs)
  note step = b64_quads b64_loop_char b64_bytes Let_def
  show ?case
  proof (cases xs)
    case Nil
    with "2.prems" show ?thesis by (cases pad) (simp_all add: step del: b64_loop.simps(2), simp_all)
  next
    case (Cons b ys)
    note b = this
    show ?thesis
    proof (cases ys)
      case Nil
      with b "2.prems" show ?thesis by (cases pad) (simp_all add: step del: b64_loop.simps(2), simp_all)
    next
      case (Cons c zs)
      with b "2.prems" "2.IH" [of "out @ [a, b, c]"] show ?thesis
        by (simp add: step del: b64_loop.simps(2))
    qed
  qed
qed

text \<open>
   Base64: decoding what was encoded gives the bytes back, in either alphabet, padded or not,
  whenever the caller's buffer holds them.
\<close>

theorem b64_roundtrip:
  "length data \<le> cap \<Longrightarrow> b64_decode (b64_encode url pad data) cap = Some data"
  using b64_loop_encode [of "[]" data cap 0 url pad] by (simp add: b64_decode_def)

theorem b64_roundtrip_witness:
  "b64_decode (b64_encode True False [0, 255, 7, 200]) 4 = Some [0, 255, 7, 200]"
  using b64_roundtrip [of "[0, 255, 7, 200]" 4 True False] by simp

end
