(* ===== verification/Json.thy ===== *)
theory Json
  imports Prelude
begin

text \<open>
  \<^verbatim>\<open>src/hassmic/json.c\<close>: the reader of JSON documents (untrusted input), its token array and the
  walk over it, strings unescaped and escaped.

  A document is its bytes, a position an index into them.  \<open>json_value\<close> and the loop over a container's
  members (\<open>members\<close>) call each other; both take fuel, and \<open>json_parse\<close> gives them an amount that
  is proved to be enough for every document.  The token array always grows when it may
  (\<open>realloc\<close> does not fail here).  Numbers as doubles (\<open>json_num\<close>, and what \<open>json_int\<close> does with
  one that has a fraction or an exponent) are left out.
\<close>

section \<open>Tokens\<close>

datatype jtype = J_OBJ | J_ARR | J_STR | J_NUM | J_TRUE | J_FALSE | J_NULL

record jtok =
  j_type :: jtype
  j_start :: nat
  j_end :: nat
  j_next :: int

type_synonym toks = "jtok list"

abbreviation (input) JSON_DEPTH :: nat where "JSON_DEPTH \<equiv> 64"
abbreviation (input) JSON_MAX_TOKENS :: nat where "JSON_MAX_TOKENS \<equiv> 262144"

definition tok :: "toks \<Rightarrow> jtype \<Rightarrow> nat \<Rightarrow> toks option" where
  "tok ts ty start =
     (if length ts = JSON_MAX_TOKENS then None
      else Some (ts @ [\<lparr>j_type = ty, j_start = start, j_end = start, j_next = -1\<rparr>]))"

text \<open>A token that is finished as soon as it is made: all but containers.\<close>

definition tok_done :: "toks \<Rightarrow> jtype \<Rightarrow> nat \<Rightarrow> nat \<Rightarrow> toks option" where
  "tok_done ts ty start fin =
     map_option (\<lambda>ts'. ts'[length ts := (ts' ! length ts)\<lparr>j_end := fin, j_next := int (length ts) + 1\<rparr>]) (tok ts ty start)"

section \<open>Parsing\<close>

function ws :: "bytes \<Rightarrow> nat \<Rightarrow> nat" where
  "ws s i = (if i < length s \<and> (s ! i = 0x20 \<or> s ! i = 0x09 \<or> s ! i = 0x0a \<or> s ! i = 0x0d) then ws s (Suc i) else i)"
  by pat_completeness auto
termination by (relation "measure (\<lambda>(s, i). length s - i)") auto

definition hex4 :: "bytes \<Rightarrow> nat \<Rightarrow> bool" where
  "hex4 s i \<longleftrightarrow> (\<forall>k<4. hexval (s ! (i + k)) \<noteq> None)"

text \<open>\<open>strchr\<close> finds the end of the string it searches, so a NUL byte passes as one of its characters.\<close>

definition esc_char :: "byte \<Rightarrow> bool" where
  "esc_char e \<longleftrightarrow> e \<in> {0x22, 0x5c, 0x2f, 0x62, 0x66, 0x6e, 0x72, 0x74, 0}"

definition num_char :: "byte \<Rightarrow> bool" where
  "num_char c \<longleftrightarrow> 0x30 \<le> c \<and> c \<le> 0x39 \<or> c \<in> {0x2b, 0x2d, 0x2e, 0x65, 0x45, 0}"

text \<open>The closing quote of the string whose content starts at \<open>i\<close>.\<close>

function str_end :: "bytes \<Rightarrow> nat \<Rightarrow> nat option" where
  "str_end s i =
     (if length s \<le> i then None
      else if s ! i = 0x22 then Some i
      else if s ! i < 0x20 then None
      else if s ! i = 0x5c then
        (if length s \<le> i + 1 then None
         else if s ! (i + 1) = 0x75 then (if length s < i + 6 \<or> \<not> hex4 s (i + 2) then None else str_end s (i + 6))
         else if \<not> esc_char (s ! (i + 1)) then None else str_end s (i + 2))
      else str_end s (i + 1))"
  by pat_completeness auto
termination by (relation "measure (\<lambda>(s, i). length s - i)") auto

declare ws.simps [simp del] str_end.simps [simp del]

definition string_tok :: "bytes \<Rightarrow> toks \<Rightarrow> nat \<Rightarrow> (toks \<times> nat) option" where
  "string_tok s ts i =
     (case str_end s (i + 1) of
        None \<Rightarrow> None
      | Some e \<Rightarrow> map_option (\<lambda>ts'. (ts', e + 1)) (tok_done ts J_STR (i + 1) e))"

function num_end :: "bytes \<Rightarrow> nat \<Rightarrow> nat" where
  "num_end s i = (if i < length s \<and> num_char (s ! i) then num_end s (Suc i) else i)"
  by pat_completeness auto
termination by (relation "measure (\<lambda>(s, i). length s - i)") auto

declare num_end.simps [simp del]

definition words :: "(bytes \<times> jtype) list" where
  "words = [(ascii ''true'', J_TRUE), (ascii ''false'', J_FALSE), (ascii ''null'', J_NULL)]"

definition starts :: "bytes \<Rightarrow> nat \<Rightarrow> bytes \<Rightarrow> bool" where
  "starts s i w \<longleftrightarrow> length w \<le> length s - i \<and> take (length w) (drop i s) = w"

datatype parse = Fuel | Fail | Done toks nat

definition scalar :: "bytes \<Rightarrow> toks \<Rightarrow> nat \<Rightarrow> parse" where
  "scalar s ts i =
     (if 0x30 \<le> s ! i \<and> s ! i \<le> 0x39 \<or> s ! i = 0x2d then
        (case tok_done ts J_NUM i (num_end s i) of None \<Rightarrow> Fail | Some ts' \<Rightarrow> Done ts' (num_end s i))
      else case find (\<lambda>w. starts s i (fst w)) words of
             None \<Rightarrow> Fail
           | Some w \<Rightarrow> (case tok_done ts (snd w) i (i + length (fst w)) of None \<Rightarrow> Fail | Some ts' \<Rightarrow> Done ts' (i + length (fst w))))"

text \<open>A key and its colon.\<close>

definition key_tok :: "bytes \<Rightarrow> toks \<Rightarrow> nat \<Rightarrow> (toks \<times> nat) option" where
  "key_tok s ts i =
     (if length s \<le> i \<or> s ! i \<noteq> 0x22 then None
      else case string_tok s ts i of
             None \<Rightarrow> None
           | Some (ts', j) \<Rightarrow> (let k = ws s j in if length s \<le> k \<or> s ! k \<noteq> 0x3a then None else Some (ts', k + 1)))"

fun json_value :: "nat \<Rightarrow> bytes \<Rightarrow> toks \<Rightarrow> nat \<Rightarrow> nat \<Rightarrow> parse"
  and members :: "nat \<Rightarrow> bytes \<Rightarrow> bool \<Rightarrow> bool \<Rightarrow> toks \<Rightarrow> nat \<Rightarrow> nat \<Rightarrow> parse" where
  "json_value 0 s ts i0 depth = Fuel"
| "json_value (Suc f) s ts i0 depth =
     (let i = ws s i0
      in if length s \<le> i \<or> JSON_DEPTH < depth then Fail
         else if s ! i = 0x22 then (case string_tok s ts i of None \<Rightarrow> Fail | Some (ts', j) \<Rightarrow> Done ts' j)
         else if s ! i = 0x7b \<or> s ! i = 0x5b then
           (case tok ts (if s ! i = 0x7b then J_OBJ else J_ARR) i of
              None \<Rightarrow> Fail
            | Some ts1 \<Rightarrow>
                (case members f s (s ! i = 0x7b) True ts1 (i + 1) depth of
                   Done ts2 j \<Rightarrow> Done (ts2[length ts := (ts2 ! length ts)\<lparr>j_end := j, j_next := int (length ts2)\<rparr>]) j
                 | r \<Rightarrow> r))
         else scalar s ts i)"
| "members 0 s ob first ts i0 depth = Fuel"
| "members (Suc f) s ob first ts i0 depth =
     (let i = ws s i0
      in if length s \<le> i then Fail
         else if s ! i = (if ob then 0x7d else 0x5d) then Done ts (i + 1)
         else if \<not> first \<and> s ! i \<noteq> 0x2c then Fail
         else (let i1 = (if first then i else ws s (i + 1))
               in case (if ob then key_tok s ts i1 else Some (ts, i1)) of
                    None \<Rightarrow> Fail
                  | Some (ts1, i2) \<Rightarrow>
                      (case json_value f s ts1 i2 (depth + 1) of
                         Done ts2 i3 \<Rightarrow> members f s ob False ts2 i3 depth
                       | r \<Rightarrow> r)))"

definition json_fuel :: "bytes \<Rightarrow> nat" where
  "json_fuel s = 2 * length s + 1"

definition json_parse :: "bytes \<Rightarrow> toks option" where
  "json_parse s =
     (if 0x3FFFFFFF < length s then None
      else case json_value (json_fuel s) s [] 0 0 of
             Done ts i \<Rightarrow> (let j = ws s i in if j = length s \<or> j < length s \<and> s ! j = 0 then Some ts else None)
           | _ \<Rightarrow> None)"

section \<open>Walking\<close>

text \<open>Tokens by number; -1 is none.\<close>

definition json_type :: "toks \<Rightarrow> int \<Rightarrow> jtype option" where
  "json_type ts t = (if 0 \<le> t \<and> t < int (length ts) then Some (j_type (ts ! nat t)) else None)"

definition json_first :: "toks \<Rightarrow> int \<Rightarrow> int" where
  "json_first ts t =
     (if json_type ts t \<noteq> Some J_OBJ \<and> json_type ts t \<noteq> Some J_ARR then -1
      else if t + 1 < j_next (ts ! nat t) then t + 1 else -1)"

definition json_next :: "toks \<Rightarrow> int \<Rightarrow> int \<Rightarrow> int" where
  "json_next ts c t =
     (if t < 0 \<or> int (length ts) \<le> t \<or> c < 0 \<or> int (length ts) \<le> c then -1
      else let nx = j_next (ts ! nat t) in if nx < j_next (ts ! nat c) then nx else -1)"

text \<open>\<open>json_len\<close>'s and \<open>json_get\<close>'s loops take the number of tokens as fuel: every token's next is behind it.\<close>

fun json_count :: "nat \<Rightarrow> toks \<Rightarrow> int \<Rightarrow> int \<Rightarrow> nat" where
  "json_count 0 ts fin k = 0"
| "json_count (Suc f) ts fin k = (if 0 \<le> k \<and> k < fin then Suc (json_count f ts fin (j_next (ts ! nat k))) else 0)"

definition json_len :: "toks \<Rightarrow> int \<Rightarrow> nat" where
  "json_len ts t =
     (let n = json_count (length ts) ts (j_next (ts ! nat t)) (json_first ts t)
      in if json_type ts t = Some J_OBJ then n div 2 else n)"

definition tok_text :: "bytes \<Rightarrow> jtok \<Rightarrow> bytes" where
  "tok_text s t = take (j_end t - j_start t) (drop (j_start t) s)"

definition key_is :: "bytes \<Rightarrow> bytes \<Rightarrow> jtok \<Rightarrow> bool" where
  "key_is s key t \<longleftrightarrow> j_end t - j_start t = length key \<and> take (length key) (drop (j_start t) s) = key \<and> 0x5c \<notin> set key"

fun json_find :: "nat \<Rightarrow> bytes \<Rightarrow> toks \<Rightarrow> int \<Rightarrow> bytes \<Rightarrow> int \<Rightarrow> int" where
  "json_find 0 s ts fin key k = -1"
| "json_find (Suc f) s ts fin key k =
     (if fin \<le> k then -1
      else let v = j_next (ts ! nat k)
           in if fin \<le> v then -1
              else if key_is s key (ts ! nat k) then v
              else json_find f s ts fin key (j_next (ts ! nat v)))"

definition json_get :: "bytes \<Rightarrow> toks \<Rightarrow> int \<Rightarrow> bytes \<Rightarrow> int" where
  "json_get s ts obj key =
     (if json_type ts obj \<noteq> Some J_OBJ then -1
      else json_find (length ts) s ts (j_next (ts ! nat obj)) key (obj + 1))"

section \<open>Strings\<close>

definition put_utf8 :: "nat \<Rightarrow> bytes" where
  "put_utf8 v =
     (if v < 0x80 then [of_nat v]
      else if v < 0x800 then [of_nat (0xC0 + v div 64), of_nat (0x80 + v mod 64)]
      else if v < 0x10000 then [of_nat (0xE0 + v div 4096), of_nat (0x80 + v div 64 mod 64), of_nat (0x80 + v mod 64)]
      else [of_nat (0xF0 + v div 262144), of_nat (0x80 + v div 4096 mod 64), of_nat (0x80 + v div 64 mod 64), of_nat (0x80 + v mod 64)])"

definition hex_of :: "bytes \<Rightarrow> nat" where
  "hex_of h = fst (hex_digits 0 h)"

text \<open>\<open>\u\<close>: a code unit, with the low surrogate after a high one; what is written, and what is left to read.\<close>

definition unit :: "bytes \<Rightarrow> nat \<times> bytes" where
  "unit xs =
     (let v = hex_of (take 4 xs); r = drop 4 xs
      in if 0xD800 \<le> v \<and> v < 0xDC00 \<and> 6 \<le> length r \<and> r ! 0 = 0x5c \<and> r ! 1 = 0x75 \<and> hex4 r 2
            \<and> 0xDC00 \<le> hex_of (take 4 (drop 2 r)) \<and> hex_of (take 4 (drop 2 r)) < 0xE000
         then (0x10000 + (v - 0xD800) * 1024 + (hex_of (take 4 (drop 2 r)) - 0xDC00), drop 6 r)
         else (v, r))"

definition seq_len :: "bytes \<Rightarrow> nat" where
  "seq_len xs =
     (let c = hd xs; k = (if 0xF0 \<le> c then 4 else if 0xE0 \<le> c then 3 else if 0xC0 \<le> c then 2 else 1)
      in if length xs < k then 1
         else if \<exists>m\<in>set [1..<k]. xs ! m AND 0xC0 \<noteq> 0x80 then 1 else k)"

text \<open>One step of \<open>json_str\<close>'s loop: the bytes to write (none: passed over) and what is left.\<close>

definition unesc1 :: "bytes \<Rightarrow> bytes \<times> bytes" where
  "unesc1 xs =
     (if hd xs = 0x5c then
        (let e = xs ! 1; r = drop 2 xs
         in if e = 0x6e \<or> e = 0x72 \<or> e = 0x74 then ([0x20], r)
            else if e = 0x62 \<or> e = 0x66 then ([], r)
            else if e = 0x75 then
              (let (v, r') = unit r; v' = (if 0xD800 \<le> v \<and> v < 0xE000 then 0xFFFD else v)
               in (if v' = 0 then [] else put_utf8 (if v' < 0x20 then 0x20 else v'), r'))
            else ([e], r))
      else (take (seq_len xs) xs, drop (seq_len xs) xs))"

lemma unit_length: "length (snd (unit xs)) \<le> length xs"
  by (simp add: unit_def Let_def)

lemma seq_len_pos: "0 < seq_len xs"
  by (simp add: seq_len_def Let_def)

lemma unesc1_length: "xs \<noteq> [] \<Longrightarrow> length (snd (unesc1 xs)) < length xs"
  using unit_length [of "drop 2 xs"] seq_len_pos [of xs]
  by (cases xs) (auto simp: unesc1_def Let_def split: prod.split)

function unesc :: "nat \<Rightarrow> bytes \<Rightarrow> bytes \<Rightarrow> bytes" where
  "unesc n out xs =
     (if xs = [] then out
      else let (u, r) = unesc1 xs
           in if u = [] then unesc n out r
              else if n \<le> length out + length u then out
              else unesc n (out @ u) r)"
  by pat_completeness auto
termination
proof (relation "measure (\<lambda>(n, out, xs). length xs)", goal_cases)
  case (2 n out xs x u r)
  then show ?case using unesc1_length [of xs] by (metis in_measure case_prod_conv snd_conv)
next
  case (3 n out xs x u r)
  then show ?case using unesc1_length [of xs] by (metis in_measure case_prod_conv snd_conv)
qed simp

declare unesc.simps [simp del]

definition json_str :: "bytes \<Rightarrow> toks \<Rightarrow> int \<Rightarrow> nat \<Rightarrow> bytes option" where
  "json_str s ts t n =
     (if n = 0 then None
      else case json_type ts t of
             Some ty \<Rightarrow>
               if ty = J_NUM \<or> ty = J_TRUE \<or> ty = J_FALSE then Some (take (n - 1) (tok_text s (ts ! nat t)))
               else if ty = J_STR then Some (unesc n [] (tok_text s (ts ! nat t))) else None
           | None \<Rightarrow> None)"

definition json_streq :: "bytes \<Rightarrow> toks \<Rightarrow> int \<Rightarrow> bytes \<Rightarrow> bool" where
  "json_streq s ts t w =
     (if json_type ts t \<noteq> Some J_STR then False
      else if tok_text s (ts ! nat t) = w then True
      else if 256 \<le> length w then False
      else map_option cstr (json_str s ts t 256) = Some w)"

definition json_bool :: "(bytes \<Rightarrow> bool) \<Rightarrow> bytes \<Rightarrow> toks \<Rightarrow> int \<Rightarrow> bool \<Rightarrow> bool" where
  "json_bool nonzero s ts t def =
     (case json_type ts t of
        Some J_TRUE \<Rightarrow> True | Some J_FALSE \<Rightarrow> False
      | Some J_NUM \<Rightarrow> nonzero (take 39 (tok_text s (ts ! nat t))) | _ \<Rightarrow> def)"

section \<open>Writing a string\<close>

definition esc1 :: "byte \<Rightarrow> bytes" where
  "esc1 c = (if c = 0x22 \<or> c = 0x5c then [0x5c, c]
             else if c < 0x20 then [0x5c, 0x75, 0x30, 0x30, of_nat (48 + unat c div 16), (if unat c mod 16 < 10 then of_nat (48 + unat c mod 16) else of_nat (87 + unat c mod 16))]
             else [c])"

text \<open>\<open>None\<close> is -1: it did not fit.\<close>

fun json_esc_loop :: "nat \<Rightarrow> bytes \<Rightarrow> bytes \<Rightarrow> bytes option" where
  "json_esc_loop n out [] = (if n \<le> length out + 1 then None else Some (out @ [0x22]))"
| "json_esc_loop n out (c # cs) =
     (if n \<le> length out + length (esc1 c) + (if c < 0x20 then 1 else 0) then None
      else json_esc_loop n (out @ esc1 c) cs)"

definition json_esc :: "nat \<Rightarrow> bytes \<Rightarrow> bytes option" where
  "json_esc n s = (if n \<le> 1 then None else json_esc_loop n [0x22] s)"

section \<open>Parsing ends, and stays inside the document\<close>

text \<open>A token in order: its text lies in the document, and its next is behind it.\<close>

definition tok_ok :: "nat \<Rightarrow> nat \<Rightarrow> nat \<Rightarrow> jtok \<Rightarrow> bool" where
  "tok_ok n len k t \<longleftrightarrow> j_start t \<le> j_end t \<and> j_end t \<le> n \<and> int k < j_next t \<and> j_next t \<le> int len"

definition toks_ok :: "nat \<Rightarrow> nat \<Rightarrow> toks \<Rightarrow> bool" where
  "toks_ok n from ts \<longleftrightarrow> (\<forall>k. from \<le> k \<and> k < length ts \<longrightarrow> tok_ok n (length ts) k (ts ! k))"

text \<open>What a part of the parser adds: tokens in order behind those it found, which it leaves alone.\<close>

definition adds :: "bytes \<Rightarrow> toks \<Rightarrow> nat \<Rightarrow> toks \<Rightarrow> nat \<Rightarrow> bool" where
  "adds s ts i ts' i' \<longleftrightarrow>
     i \<le> i' \<and> i' \<le> length s \<and> length ts \<le> length ts' \<and> length ts' \<le> JSON_MAX_TOKENS
     \<and> take (length ts) ts' = ts \<and> toks_ok (length s) (length ts) ts'"

lemma ws_ge: "i \<le> ws s i"
  by (induction s i rule: ws.induct) (subst ws.simps, auto)

lemma ws_le: "i \<le> length s \<Longrightarrow> ws s i \<le> length s"
  by (induction s i rule: ws.induct) (subst ws.simps, auto)

lemma num_end_ge: "i \<le> num_end s i"
  by (induction s i rule: num_end.induct) (subst num_end.simps, auto)

lemma num_end_le: "i \<le> length s \<Longrightarrow> num_end s i \<le> length s"
  by (induction s i rule: num_end.induct) (subst num_end.simps, auto)

lemma num_end_gt: "i < length s \<Longrightarrow> num_char (s ! i) \<Longrightarrow> i < num_end s i"
  using num_end_ge [of "Suc i" s] by (subst num_end.simps) simp

lemma str_end_bounds: "str_end s i = Some e \<Longrightarrow> i \<le> e \<and> e < length s"
proof (induction "length s - i" arbitrary: i rule: less_induct)
  case less
  from less.prems show ?case
    by (subst (asm) str_end.simps) (auto split: if_splits dest!: less.hyps [rotated])
qed

lemma adds_refl: "i \<le> length s \<Longrightarrow> length ts \<le> JSON_MAX_TOKENS \<Longrightarrow> adds s ts i ts i"
  by (auto simp: adds_def toks_ok_def)

lemma toks_ok_trans:
  assumes "toks_ok n a ts" "toks_ok n (length ts) ts'" "take (length ts) ts' = ts" "length ts \<le> length ts'"
  shows "toks_ok n a ts'"
  unfolding toks_ok_def
proof (intro allI impI)
  fix k assume k: "a \<le> k \<and> k < length ts'"
  show "tok_ok n (length ts') k (ts' ! k)"
  proof (cases "k < length ts")
    case True
    then have "ts' ! k = ts ! k" using assms(3) by (metis nth_take)
    with True k assms(1,4) show ?thesis by (auto simp: toks_ok_def tok_ok_def)
  next
    case False
    with k assms(2) show ?thesis by (auto simp: toks_ok_def)
  qed
qed

lemma adds_trans:
  assumes "adds s ts i ts1 i1" "adds s ts1 i2 ts2 i3" "i1 \<le> i2"
  shows "adds s ts i ts2 i3"
proof -
  have l: "length ts \<le> length ts1" "length ts1 \<le> length ts2" using assms by (auto simp: adds_def)
  have "take (length ts) (take (length ts1) ts2) = ts" using assms by (simp add: adds_def)
  then have "take (length ts) ts2 = ts" using l by (simp add: min_def)
  moreover have "toks_ok (length s) (length ts) ts2"
    using assms toks_ok_trans [of "length s" "length ts" ts1 ts2] by (simp add: adds_def)
  ultimately show ?thesis using assms by (auto simp: adds_def)
qed

lemma tok_done_adds:
  assumes "tok_done ts ty a b = Some ts'" "i \<le> j" "a \<le> b" "b \<le> j" "j \<le> length s" "length ts \<le> JSON_MAX_TOKENS"
  shows "adds s ts i ts' j" "length ts' = Suc (length ts)" "ts' ! length ts = \<lparr>j_type = ty, j_start = a, j_end = b, j_next = int (length ts) + 1\<rparr>"
  using assms by (auto simp: tok_done_def tok_def adds_def toks_ok_def tok_ok_def nth_append less_Suc_eq split: if_splits)

lemma string_tok_adds:
  assumes "string_tok s ts i = Some (ts', j)" "length ts \<le> JSON_MAX_TOKENS"
  shows "adds s ts i ts' j" "i < j"
proof -
  from assms(1) obtain e where e: "str_end s (i + 1) = Some e" "tok_done ts J_STR (i + 1) e = Some ts'" "j = e + 1"
    by (auto simp: string_tok_def split: option.splits)
  from str_end_bounds [OF e(1)] e assms(2) show "adds s ts i ts' j" "i < j"
    by (auto intro: tok_done_adds(1))
qed

lemma key_tok_adds:
  assumes "key_tok s ts i = Some (ts', j)" "length ts \<le> JSON_MAX_TOKENS"
  shows "adds s ts i ts' j" "i < j"
proof -
  from assms(1) obtain m where m: "string_tok s ts i = Some (ts', m)" "j = ws s m + 1" "ws s m < length s"
    by (auto simp: key_tok_def Let_def split: if_splits option.splits)
  note a = string_tok_adds [OF m(1) assms(2)]
  have "m \<le> ws s m" by (rule ws_ge)
  then show "adds s ts i ts' j" "i < j" using a m by (auto simp: adds_def)
qed

lemma scalar_adds:
  assumes "scalar s ts i = Done ts' j" "i < length s" "length ts \<le> JSON_MAX_TOKENS"
  shows "adds s ts i ts' j" "i < j"
proof -
  have "adds s ts i ts' j \<and> i < j"
  proof (cases "0x30 \<le> s ! i \<and> s ! i \<le> 0x39 \<or> s ! i = 0x2d")
    case True
    then have "num_char (s ! i)" by (auto simp: num_char_def)
    with True assms show ?thesis
      using num_end_gt [of i s] num_end_le [of i s] by (auto simp: scalar_def intro!: tok_done_adds(1) split: option.splits)
  next
    case False
    with assms(1) obtain w where w: "find (\<lambda>w. starts s i (fst w)) words = Some w"
        "tok_done ts (snd w) i (i + length (fst w)) = Some ts'" "j = i + length (fst w)"
      by (auto simp: scalar_def split: option.splits)
    then have "w \<in> set words" "starts s i (fst w)" by (auto simp: find_Some_iff)
    then have "0 < length (fst w)" "i + length (fst w) \<le> length s" using assms(2) by (auto simp: words_def starts_def)
    with w assms show ?thesis by (auto intro!: tok_done_adds(1))
  qed
  then show "adds s ts i ts' j" "i < j" by auto
qed

lemma tok_adds:
  assumes "tok ts ty a = Some ts1"
  shows "length ts1 = Suc (length ts)" "take (length ts) ts1 = ts" "ts1 ! length ts = \<lparr>j_type = ty, j_start = a, j_end = a, j_next = -1\<rparr>"
    "length ts1 \<le> JSON_MAX_TOKENS \<longleftrightarrow> length ts < JSON_MAX_TOKENS"
  using assms by (auto simp: tok_def split: if_splits)

text \<open>A container is closed over the tokens its members added.\<close>

lemma close_adds:
  assumes t: "tok ts ty i = Some ts1" and m: "adds s ts1 (i + 1) ts2 j" and "length ts \<le> JSON_MAX_TOKENS"
  shows "adds s ts i (ts2[length ts := (ts2 ! length ts)\<lparr>j_end := j, j_next := int (length ts2)\<rparr>]) j"
proof -
  let ?x = "(ts2 ! length ts)\<lparr>j_end := j, j_next := int (length ts2)\<rparr>"
  note a = tok_adds [OF t]
  have l: "length ts < length ts2" "i < j" "j \<le> length s" "length ts2 \<le> JSON_MAX_TOKENS" using m a by (auto simp: adds_def)
  have p: "take (Suc (length ts)) ts2 = ts1" using m a by (simp add: adds_def)
  have "ts2 ! length ts = ts1 ! length ts" using p by (metis lessI nth_take)
  then have x: "j_start ?x = i" "j_end ?x = j" "j_next ?x = int (length ts2)" using a by simp_all
  have "take (length ts) ts2 = take (length ts) (take (Suc (length ts)) ts2)" by (simp add: min_def)
  then have tk: "take (length ts) ts2 = ts" using p a(2) by simp
  have "tok_ok (length s) (length ts2) k (ts2[length ts := ?x] ! k)" if "length ts \<le> k" "k < length ts2" for k
  proof (cases "k = length ts")
    case True
    with x l show ?thesis by (simp add: tok_ok_def)
  next
    case False
    with that m a show ?thesis by (auto simp: adds_def toks_ok_def)
  qed
  then show ?thesis using l tk by (simp add: adds_def toks_ok_def)
qed

lemma parse_adds:
  "json_value f s ts i d = Done ts' j \<Longrightarrow> i \<le> length s \<Longrightarrow> length ts \<le> JSON_MAX_TOKENS \<Longrightarrow> adds s ts i ts' j \<and> i < j"
  "members f s ob fst0 ts i d = Done ts' j \<Longrightarrow> i \<le> length s \<Longrightarrow> length ts \<le> JSON_MAX_TOKENS \<Longrightarrow> adds s ts i ts' j \<and> i < j"
proof (induction f s ts i d and f s ob fst0 ts i d arbitrary: ts' j and ts' j rule: json_value_members.induct)
  case (2 f s ts i0 depth)
  define i where "i = ws s i0"
  have ii: "i0 \<le> i" "i \<le> length s" using ws_ge ws_le "2.prems"(2) by (auto simp: i_def)
  have from_i: "adds s ts i0 t k \<and> i0 < k" if "adds s ts i t k" "i < k" for t k
    using that ii by (auto simp: adds_def)
  have i: "i < length s" "depth \<le> JSON_DEPTH" using "2.prems"(1) by (auto simp: i_def Let_def split: if_splits)
  consider (str) "s ! i = 0x22" | (cont) "s ! i \<noteq> 0x22" "s ! i = 0x7b \<or> s ! i = 0x5b"
    | (scal) "s ! i \<noteq> 0x22" "s ! i \<noteq> 0x7b" "s ! i \<noteq> 0x5b" by blast
  then show ?case
  proof cases
    case str
    with "2.prems"(1) i have "string_tok s ts i = Some (ts', j)"
      by (auto simp: i_def [symmetric] Let_def split: option.splits)
    from string_tok_adds [OF this "2.prems"(3)] from_i show ?thesis by blast
  next
    case cont
    with "2.prems"(1) i obtain ts1 ts2 where t: "tok ts (if s ! i = 0x7b then J_OBJ else J_ARR) i = Some ts1"
      and m: "members f s (s ! i = 0x7b) True ts1 (i + 1) depth = Done ts2 j"
      and r: "ts' = ts2[length ts := (ts2 ! length ts)\<lparr>j_end := j, j_next := int (length ts2)\<rparr>]"
      by (auto simp: i_def [symmetric] Let_def split: option.splits parse.splits)
    have "length ts1 \<le> JSON_MAX_TOKENS" using tok_adds [OF t] "2.prems"(3) t by (auto simp: tok_def split: if_splits)
    with "2.IH" [OF i_def _ _ cont(2) t m] i have a: "adds s ts1 (i + 1) ts2 j" using cont by auto
    from close_adds [OF t a "2.prems"(3)] r have "adds s ts i ts' j" by simp
    moreover have "i < j" using a by (simp add: adds_def)
    ultimately show ?thesis by (rule from_i)
  next
    case scal
    with "2.prems"(1) i have "scalar s ts i = Done ts' j"
      by (auto simp: i_def [symmetric] Let_def)
    from scalar_adds [OF this i(1) "2.prems"(3)] from_i show ?thesis by blast
  qed
next
  case (4 f s ob fst0 ts i0 depth)
  define i where "i = ws s i0"
  have ii: "i0 \<le> i" "i \<le> length s" using ws_ge ws_le "4.prems"(2) by (auto simp: i_def)
  have i: "i < length s" using "4.prems"(1) by (auto simp: i_def Let_def split: if_splits)
  show ?case
  proof (cases "s ! i = (if ob then 0x7d else 0x5d)")
    case True
    with "4.prems" i have "ts' = ts" "j = i + 1" by (simp_all add: i_def [symmetric] Let_def)
    with i ii "4.prems"(3) show ?thesis by (auto simp: adds_def toks_ok_def)
  next
    case False
    define i1 where "i1 = (if fst0 then i else ws s (i + 1))"
    have c: "\<not> (\<not> fst0 \<and> s ! i \<noteq> 0x2c)" using "4.prems"(1) i False by (auto simp: i_def [symmetric] Let_def split: if_splits)
    have i1: "i \<le> i1" "i1 \<le> length s" using i ws_ge [of "i + 1" s] ws_le [of "i + 1" s] by (auto simp: i1_def)
    from "4.prems"(1) i False c obtain ts1 i2 where k: "(if ob then key_tok s ts i1 else Some (ts, i1)) = Some (ts1, i2)"
      by (auto simp: i_def [symmetric] i1_def [symmetric] Let_def split: option.splits if_splits)
    have k': "adds s ts i1 ts1 i2"
      using k key_tok_adds [of s ts i1 ts1 i2] "4.prems"(3) adds_refl [OF i1(2) "4.prems"(3)] by (auto split: if_splits)
    from "4.prems"(1) i False c k obtain ts2 i3 where
      v: "json_value f s ts1 i2 (depth + 1) = Done ts2 i3" and m: "members f s ob False ts2 i3 depth = Done ts' j"
      by (auto simp: i_def [symmetric] i1_def [symmetric] Let_def split: option.splits if_splits parse.splits)
    note prem = i_def _ False c i1_def k refl
    have l1: "length ts1 \<le> JSON_MAX_TOKENS" "i2 \<le> length s" using k' by (auto simp: adds_def)
    have a2: "adds s ts1 i2 ts2 i3" "i2 < i3"
      using "4.IH"(1) [OF prem _ l1(2,1), of ts2 i3] v i by auto
    have l2: "length ts2 \<le> JSON_MAX_TOKENS" "i3 \<le> length s" using a2 by (auto simp: adds_def)
    have a3: "adds s ts2 i3 ts' j" "i3 < j"
      using "4.IH"(2) [OF prem v m l2(2,1)] i by auto
    have "adds s ts i1 ts' j" using adds_trans [OF adds_trans [OF k' a2(1) order_refl] a3(1) order_refl] .
    then show ?thesis using ii i1 a2(2) a3(2) k' by (auto simp: adds_def)
  qed
qed simp_all

lemma parse_fuel:
  "i \<le> length s \<Longrightarrow> length ts \<le> JSON_MAX_TOKENS \<Longrightarrow> 2 * (length s - i) + 1 \<le> f \<Longrightarrow> json_value f s ts i d \<noteq> Fuel"
  "i \<le> length s \<Longrightarrow> length ts \<le> JSON_MAX_TOKENS \<Longrightarrow> 2 * (length s - i) + 2 \<le> f \<Longrightarrow> members f s ob fst0 ts i d \<noteq> Fuel"
proof (induction f s ts i d and f s ob fst0 ts i d rule: json_value_members.induct)
  case (2 f s ts i0 depth)
  define i where "i = ws s i0"
  have i: "i0 \<le> i" "i \<le> length s" using ws_ge ws_le "2.prems"(1) by (auto simp: i_def)
  have "members f s (s ! i = 0x7b) True ts1 (i + 1) depth \<noteq> Fuel"
    if "i < length s" "depth \<le> JSON_DEPTH" "s ! i \<noteq> 0x22" "s ! i = 0x7b \<or> s ! i = 0x5b"
      "tok ts (if s ! i = 0x7b then J_OBJ else J_ARR) i = Some ts1" for ts1
  proof (rule "2.IH" [OF i_def _ that(3,4,5)])
    show "length ts1 \<le> JSON_MAX_TOKENS" using that(5) "2.prems"(2) by (auto simp: tok_def split: if_splits)
  qed (use that i "2.prems"(3) in auto)
  note sub = this
  show ?case
  proof (cases "i < length s \<and> depth \<le> JSON_DEPTH \<and> s ! i \<noteq> 0x22 \<and> (s ! i = 0x7b \<or> s ! i = 0x5b)")
    case True
    then show ?thesis
      using sub by (cases "tok ts (if s ! i = 0x7b then J_OBJ else J_ARR) i")
        (simp_all add: i_def [symmetric] Let_def split: parse.split)
  next
    case False
    have sc: "scalar s ts i \<noteq> Fuel" by (simp add: scalar_def split: option.split)
    consider "length s \<le> i \<or> JSON_DEPTH < depth" | "i < length s" "depth \<le> JSON_DEPTH" "s ! i = 0x22"
      | "i < length s" "depth \<le> JSON_DEPTH" "s ! i \<noteq> 0x22" "s ! i \<noteq> 0x7b" "s ! i \<noteq> 0x5b" using False by fastforce
    then show ?thesis
      by cases (use sc in \<open>simp_all add: i_def [symmetric] Let_def split: option.split\<close>)
  qed
next
  case (4 f s ob fst0 ts i0 depth)
  define i where "i = ws s i0"
  have i: "i0 \<le> i" "i \<le> length s" using ws_ge ws_le "4.prems"(1) by (auto simp: i_def)
  show ?case
  proof (cases "length s \<le> i \<or> s ! i = (if ob then 0x7d else 0x5d) \<or> \<not> fst0 \<and> s ! i \<noteq> 0x2c")
    case True
    then show ?thesis by (auto simp: i_def [symmetric] Let_def)
  next
    case False
    define i1 where "i1 = (if fst0 then i else ws s (i + 1))"
    have i1: "i \<le> i1" "i1 \<le> length s" using i False ws_ge [of "i + 1" s] ws_le [of "i + 1" s] by (auto simp: i1_def)
    show ?thesis
    proof (cases "if ob then key_tok s ts i1 else Some (ts, i1)")
      case None
      with False show ?thesis by (auto simp: i_def [symmetric] i1_def [symmetric] Let_def)
    next
      case (Some x)
      obtain ts1 i2 where x: "x = (ts1, i2)" by (cases x)
      have k: "adds s ts i1 ts1 i2"
        using Some x key_tok_adds [of s ts i1 ts1 i2] "4.prems"(2) adds_refl [OF i1(2) "4.prems"(2)] by (auto split: if_splits)
      then have l: "i1 \<le> i2" "i2 \<le> length s" "length ts1 \<le> JSON_MAX_TOKENS" by (auto simp: adds_def)
      note prem = i_def _ _ _ i1_def Some [unfolded x] refl
      have v: "json_value f s ts1 i2 (depth + 1) \<noteq> Fuel"
        by (rule "4.IH"(1) [OF prem]) (use False l i i1 "4.prems"(3) in auto)
      have m: "members f s ob False ts2 i3 depth \<noteq> Fuel" if d: "json_value f s ts1 i2 (depth + 1) = Done ts2 i3" for ts2 i3
      proof -
        have a: "adds s ts1 i2 ts2 i3 \<and> i2 < i3" by (rule parse_adds(1) [OF d l(2,3)])
        show ?thesis
          by (rule "4.IH"(2) [OF prem d]) (use False a l i i1 "4.prems"(3) in \<open>auto simp: adds_def\<close>)
      qed
      from v m Some x False show ?thesis
        by (auto simp: i_def [symmetric] i1_def [symmetric] Let_def split: parse.splits)
    qed
  qed
qed simp_all

lemma parse_more_fuel:
  "json_value f s ts i d \<noteq> Fuel \<Longrightarrow> json_value (Suc f) s ts i d = json_value f s ts i d"
  "members f s ob fst0 ts i d \<noteq> Fuel \<Longrightarrow> members (Suc f) s ob fst0 ts i d = members f s ob fst0 ts i d"
proof (induction f s ts i d and f s ob fst0 ts i d rule: json_value_members.induct)
  case (2 f s ts i0 depth)
  define i where "i = ws s i0"
  show ?case
  proof (cases "i < length s \<and> depth \<le> JSON_DEPTH \<and> s ! i \<noteq> 0x22 \<and> (s ! i = 0x7b \<or> s ! i = 0x5b)")
    case c: True
    show ?thesis
    proof (cases "tok ts (if s ! i = 0x7b then J_OBJ else J_ARR) i")
      case (Some ts1)
      have "members f s (s ! i = 0x7b) True ts1 (i + 1) depth \<noteq> Fuel"
        using "2.prems" c Some by (auto simp: i_def [symmetric] Let_def)
      then have "members (Suc f) s (s ! i = 0x7b) True ts1 (i + 1) depth = members f s (s ! i = 0x7b) True ts1 (i + 1) depth"
        using c by (intro "2.IH" [OF i_def _ _ _ Some]) auto
      with c Some show ?thesis
        unfolding json_value.simps(2) [of "Suc f"] json_value.simps(2) [of f] i_def [symmetric] Let_def by (simp del: members.simps)
    qed (use c in \<open>simp add: i_def [symmetric] Let_def\<close>)
  next
    case False
    then show ?thesis
      unfolding json_value.simps(2) [of "Suc f"] json_value.simps(2) [of f] i_def [symmetric] Let_def by auto
  qed
next
  case (4 f s ob fst0 ts i0 depth)
  define i where "i = ws s i0"
  show ?case
  proof (cases "length s \<le> i \<or> s ! i = (if ob then 0x7d else 0x5d) \<or> \<not> fst0 \<and> s ! i \<noteq> 0x2c")
    case True
    then show ?thesis
      unfolding members.simps(2) [of "Suc f"] members.simps(2) [of f] i_def [symmetric] Let_def by auto
  next
    case False
    define i1 where "i1 = (if fst0 then i else ws s (i + 1))"
    note unf = members.simps(2) [of "Suc f"] members.simps(2) [of f] i_def [symmetric] Let_def i1_def [symmetric]
    show ?thesis
    proof (cases "if ob then key_tok s ts i1 else Some (ts, i1)")
      case None
      with False show ?thesis unfolding unf by auto
    next
      case (Some x)
      obtain ts1 i2 where x: "x = (ts1, i2)" by (cases x)
      note prem = i_def _ _ _ i1_def Some [unfolded x] refl
      have step: "members (Suc g) s ob fst0 ts i0 depth =
          (case json_value g s ts1 i2 (depth + 1) of Done ts2 i3 \<Rightarrow> members g s ob False ts2 i3 depth | r \<Rightarrow> r)" for g
        using False Some x unfolding members.simps(2) [of g] i_def [symmetric] Let_def i1_def [symmetric] by auto
      have v: "json_value f s ts1 i2 (depth + 1) \<noteq> Fuel" using "4.prems" unfolding step by auto
      have v': "json_value (Suc f) s ts1 i2 (depth + 1) = json_value f s ts1 i2 (depth + 1)"
        by (rule "4.IH"(1) [OF prem]) (use False v in auto)
      show ?thesis
      proof (cases "json_value f s ts1 i2 (depth + 1)")
        case (Done ts2 i3)
        have "members f s ob False ts2 i3 depth \<noteq> Fuel" using "4.prems" unfolding step Done by simp
        then have "members (Suc f) s ob False ts2 i3 depth = members f s ob False ts2 i3 depth"
          by (intro "4.IH"(2) [OF prem Done]) (use False in auto)
        with v' Done show ?thesis unfolding step by simp
      qed (use v v' in \<open>simp_all add: step del: json_value.simps members.simps\<close>)
    qed
  qed
qed simp_all

section \<open>Properties of the reader\<close>

text \<open>
  C29. Parsing always ends: for every document the fuel given is enough, and any more of it gives the
  same result, so \<open>json_parse\<close> is what the unbounded recursion computes.
\<close>

theorem json_parse_ends:
  "json_value (json_fuel s + k) s [] 0 0 = json_value (json_fuel s) s [] 0 0 \<and> json_value (json_fuel s) s [] 0 0 \<noteq> Fuel"
proof -
  have n: "json_value f s [] 0 0 \<noteq> Fuel" if "json_fuel s \<le> f" for f
    using that by (intro parse_fuel(1)) (simp_all add: json_fuel_def)
  have "json_value (json_fuel s + k) s [] 0 0 = json_value (json_fuel s) s [] 0 0"
  proof (induction k)
    case (Suc k)
    have "json_value (json_fuel s + Suc k) s [] 0 0 = json_value (json_fuel s + k) s [] 0 0"
      using parse_more_fuel(1) [OF n [of "json_fuel s + k"]] by (simp del: json_value.simps)
    with Suc.IH show ?case by simp
  qed simp
  then show ?thesis using n [of "json_fuel s"] by simp
qed

lemma tok_done_length: "tok_done ts ty a b = Some ts' \<Longrightarrow> length ts' = Suc (length ts)"
  by (auto simp: tok_done_def tok_def split: if_splits)

lemma value_grows:
  assumes "json_value f s ts i0 d = Done ts' j" "i0 \<le> length s" "length ts \<le> JSON_MAX_TOKENS"
  shows "length ts < length ts'"
proof (cases f)
  case (Suc g)
  define i where "i = ws s i0"
  have i: "i < length s" "d \<le> JSON_DEPTH" using assms(1) Suc by (auto simp: i_def Let_def split: if_splits)
  consider (str) "s ! i = 0x22" | (cont) "s ! i \<noteq> 0x22" "s ! i = 0x7b \<or> s ! i = 0x5b"
    | (scal) "s ! i \<noteq> 0x22" "s ! i \<noteq> 0x7b" "s ! i \<noteq> 0x5b" by blast
  then show ?thesis
  proof cases
    case str
    with assms(1) i Suc have "string_tok s ts i = Some (ts', j)"
      by (auto simp: i_def [symmetric] Let_def split: option.splits)
    then show ?thesis by (auto simp: string_tok_def dest!: tok_done_length split: option.splits)
  next
    case cont
    with assms(1) i Suc obtain ts1 ts2 where t: "tok ts (if s ! i = 0x7b then J_OBJ else J_ARR) i = Some ts1"
      and m: "members g s (s ! i = 0x7b) True ts1 (i + 1) d = Done ts2 j" and r: "length ts' = length ts2"
      by (auto simp: i_def [symmetric] Let_def split: option.splits parse.splits)
    have l: "length ts1 = Suc (length ts)" "length ts1 \<le> JSON_MAX_TOKENS"
      using t assms(3) by (auto simp: tok_def split: if_splits)
    from parse_adds(2) [OF m _ l(2)] i have "length ts1 \<le> length ts2" by (simp add: adds_def)
    with l r show ?thesis by simp
  next
    case scal
    with assms(1) i Suc have "scalar s ts i = Done ts' j" by (auto simp: i_def [symmetric] Let_def)
    then show ?thesis by (auto simp: scalar_def dest!: tok_done_length split: if_splits option.splits)
  qed
qed (use assms in simp)

lemma json_parse_toks:
  assumes "json_parse s = Some ts"
  shows "ts \<noteq> []" "length ts \<le> JSON_MAX_TOKENS" "toks_ok (length s) 0 ts"
proof -
  from assms obtain i where v: "json_value (json_fuel s) s [] 0 0 = Done ts i"
    by (auto simp: json_parse_def Let_def simp del: json_value.simps split: if_splits parse.splits)
  from parse_adds(1) [OF v] have a: "adds s [] 0 ts i" by (simp del: json_value.simps)
  then show "length ts \<le> JSON_MAX_TOKENS" "toks_ok (length s) 0 ts" by (simp_all add: adds_def)
  show "ts \<noteq> []" using value_grows [OF v] by auto
qed

text \<open>
  C28. What is parsed stays inside the document: every token's text is a part of it, every token's
  next sibling is behind it and within the array, and there are at least one and at most 262144 tokens.
\<close>

theorem json_tokens_in_bounds:
  assumes "json_parse s = Some ts"
  shows "0 < length ts \<and> length ts \<le> JSON_MAX_TOKENS
     \<and> (\<forall>t\<in>set ts. j_start t \<le> j_end t \<and> j_end t \<le> length s)
     \<and> (\<forall>k<length ts. int k < j_next (ts ! k) \<and> j_next (ts ! k) \<le> int (length ts))"
  using json_parse_toks [OF assms] by (auto simp: toks_ok_def tok_ok_def in_set_conv_nth)

lemma toks_next: "toks_ok n 0 ts \<Longrightarrow> 0 \<le> k \<Longrightarrow> k < int (length ts) \<Longrightarrow> k < j_next (ts ! nat k)"
  by (auto simp: toks_ok_def tok_ok_def dest!: spec [of _ "nat k"])

lemma json_find_bounds:
  assumes "toks_ok n 0 ts" "0 \<le> k" "fin \<le> int (length ts)" "json_find f s ts fin key k = v" "v \<noteq> -1"
  shows "v < fin \<and> (\<exists>m\<ge>k. m < v \<and> key_is s key (ts ! nat m) \<and> j_next (ts ! nat m) = v)"
  using assms(2,4)
proof (induction f arbitrary: k)
  case (Suc f)
  define w where "w = j_next (ts ! nat k)"
  from Suc.prems(2) assms(5) have k: "k < fin" "w < fin" by (auto simp: w_def Let_def split: if_splits)
  have kw: "k < w" using toks_next [OF assms(1) Suc.prems(1)] k assms(3) by (simp add: w_def)
  show ?case
  proof (cases "key_is s key (ts ! nat k)")
    case True
    with Suc.prems(2) k have "v = w" by (simp add: w_def)
    with True k kw show ?thesis by (auto simp: w_def)
  next
    case False
    with Suc.prems(2) k have "json_find f s ts fin key (j_next (ts ! nat w)) = v" by (simp add: w_def)
    moreover have "w < j_next (ts ! nat w)" using toks_next [OF assms(1), of w] k kw Suc.prems(1) assms(3) by simp
    ultimately obtain m where "v < fin" "j_next (ts ! nat w) \<le> m" "m < v" "key_is s key (ts ! nat m)" "j_next (ts ! nat m) = v"
      using Suc.IH [of "j_next (ts ! nat w)"] kw Suc.prems(1) by auto
    then show ?thesis using kw \<open>w < j_next (ts ! nat w)\<close> by (intro conjI exI [of _ m]) auto
  qed
qed (use assms(5) in simp)

text \<open>More fuel changes nothing: the loop has left the array by then.\<close>

lemma json_find_fuel:
  assumes "toks_ok n 0 ts" "0 \<le> k" "fin \<le> int (length ts)" "nat (fin - k) \<le> f"
  shows "json_find (f + g) s ts fin key k = json_find f s ts fin key k"
  using assms(2,4)
proof (induction f arbitrary: k)
  case 0
  then show ?case by (cases g) simp_all
next
  case (Suc f)
  define w where "w = j_next (ts ! nat k)"
  show ?case
  proof (cases "k < fin \<and> w < fin \<and> \<not> key_is s key (ts ! nat k)")
    case True
    have kw: "k < w" using toks_next [OF assms(1) Suc.prems(1)] True assms(3) by (simp add: w_def)
    have "w < j_next (ts ! nat w)" using toks_next [OF assms(1), of w] True kw Suc.prems(1) assms(3) by simp
    then have "json_find (f + g) s ts fin key (j_next (ts ! nat w)) = json_find f s ts fin key (j_next (ts ! nat w))"
      using kw Suc.prems by (intro Suc.IH) auto
    with True show ?thesis by (simp add: w_def)
  next
    case False
    then show ?thesis by (auto simp: w_def Let_def)
  qed
qed

text \<open>
  A lookup finds only what is there: on a parsed document \<open>json_get\<close> returns -1 or a token inside
  the object, the one right after a key token whose text is the key asked for; its loop ends within
  as many steps as there are tokens (more change nothing).
\<close>

theorem json_get_finds_key:
  assumes "json_parse s = Some ts" "json_get s ts obj key = v" "v \<noteq> -1"
  shows "0 \<le> obj \<and> obj < v \<and> v < j_next (ts ! nat obj)
     \<and> (\<exists>m>obj. m < v \<and> tok_text s (ts ! nat m) = key \<and> j_next (ts ! nat m) = v)
     \<and> (\<forall>g. json_find (length ts + g) s ts (j_next (ts ! nat obj)) key (obj + 1) = v)"
proof -
  have t: "toks_ok (length s) 0 ts" by (rule json_parse_toks(3) [OF assms(1)])
  from assms(2,3) have o: "0 \<le> obj" "obj < int (length ts)"
      "json_find (length ts) s ts (j_next (ts ! nat obj)) key (obj + 1) = v"
    by (auto simp: json_get_def json_type_def split: if_splits)
  have e: "j_next (ts ! nat obj) \<le> int (length ts)" using t o by (auto simp: toks_ok_def tok_ok_def)
  have k: "tok_text s x = key" if "key_is s key x" for x using that by (simp add: key_is_def tok_text_def)
  from json_find_bounds [OF t _ e o(3) assms(3)] o(1) obtain m where
    "v < j_next (ts ! nat obj)" "obj + 1 \<le> m" "m < v" "key_is s key (ts ! nat m)" "j_next (ts ! nat m) = v" by auto
  moreover have "json_find (length ts + g) s ts (j_next (ts ! nat obj)) key (obj + 1) = v" for g
    using json_find_fuel [OF t _ e, of "obj + 1" "length ts" g s key] o e by simp
  ultimately show ?thesis using k o(1) by (intro conjI exI [of _ m]) auto
qed

section \<open>Writing and reading a string\<close>

lemma json_esc_eq:
  "json_esc_loop n out s = Some r \<Longrightarrow> r = out @ concat (map esc1 s) @ [0x22]"
  by (induction n out s rule: json_esc_loop.induct) (auto split: if_splits)

text \<open>What a byte becomes: control characters are shown as a space.\<close>

definition shown :: "byte \<Rightarrow> byte" where
  "shown c = (if c < 0x20 then 0x20 else c)"

lemma hexval_digit: "k < 10 \<Longrightarrow> hexval (of_nat (48 + k)) = Some k"
proof -
  have "list_all (\<lambda>k. hexval (of_nat (48 + k)) = Some k) [0..<10]" by code_simp
  then show "k < 10 \<Longrightarrow> ?thesis" by (simp add: list_all_iff)
qed

lemma hexval_letter: "10 \<le> k \<Longrightarrow> k < 16 \<Longrightarrow> hexval (of_nat (87 + k)) = Some k"
proof -
  have "list_all (\<lambda>k. hexval (of_nat (87 + k)) = Some k) [10..<16]" by code_simp
  then have "\<forall>k\<in>{10..<16}. hexval (of_nat (87 + k)) = Some k" by (simp only: list_all_iff set_upt)
  then show "10 \<le> k \<Longrightarrow> k < 16 \<Longrightarrow> ?thesis" by force
qed

lemma hexval_low:
  "hexval (if unat (c::byte) mod 16 < 10 then of_nat (48 + unat c mod 16) else of_nat (87 + unat c mod 16)) = Some (unat c mod 16)"
  using hexval_digit [of "unat c mod 16"] hexval_letter [of "unat c mod 16"] by auto

lemma unesc1_control:
  assumes "c < 0x20" "c \<noteq> 0"
  shows "unesc1 (esc1 c @ r) = ([0x20], r)"
proof -
  let ?lo = "if unat c mod 16 < 10 then of_nat (48 + unat c mod 16) else of_nat (87 + unat c mod 16) :: byte"
  let ?hi = "of_nat (48 + unat c div 16) :: byte"
  have c: "unat c < 32" "0 < unat c" using assms by (simp_all add: word_less_nat_alt unat_gt_0)
  have e: "esc1 c = [0x5c, 0x75, 0x30, 0x30, ?hi, ?lo]"
    using assms(1) by (auto simp: esc1_def)
  have z: "hexval 0x30 = Some 0" using hexval_digit [of 0] by simp
  have "hex_digits 0 [0x30, 0x30, ?hi, ?lo] = (unat c, [])"
    unfolding hex_digits.simps using hexval_digit [of "unat c div 16"] hexval_low [of c] c by (simp only: z option.case) simp
  then have "unit ([0x30, 0x30, ?hi, ?lo] @ r) = (unat c, r)"
    using c unfolding unit_def Let_def hex_of_def by (simp only: append_Cons append_Nil take_Suc_Cons numeral_eq_Suc pred_numeral_simps take_0 drop_Suc_Cons drop_0) simp
  then show ?thesis using c by (simp add: e unesc1_def Let_def put_utf8_def)
qed

lemma unesc1_quoted: "c = 0x22 \<or> c = 0x5c \<Longrightarrow> unesc1 (esc1 c @ r) = ([c], r)"
  by (auto simp: esc1_def unesc1_def Let_def)

text \<open>A sequence of UTF-8 is written as it is.\<close>

lemma esc1_high: "0x80 \<le> c \<Longrightarrow> esc1 c = [c]"
  by (auto simp: esc1_def word_le_nat_alt word_less_nat_alt)

lemma cont_high: "(c::byte) AND 0xC0 = 0x80 \<Longrightarrow> 0x80 \<le> c"
  by (metis word_and_le1 and.commute)

lemma take_escaped:
  "k \<le> length (concat (map esc1 s)) \<Longrightarrow> \<forall>m<k. 0x80 \<le> concat (map esc1 s) ! m \<Longrightarrow>
   k \<le> length s \<and> take k (concat (map esc1 s)) = take k s \<and> drop k (concat (map esc1 s)) = concat (map esc1 (drop k s))
   \<and> (\<forall>c\<in>set (take k s). 0x80 \<le> c)"
proof (induction s arbitrary: k)
  case Nil
  then show ?case by simp
next
  case (Cons c s)
  show ?case
  proof (cases k)
    case (Suc j)
    have "0x80 \<le> (esc1 c @ concat (map esc1 s)) ! 0" using Cons.prems(2) Suc by auto
    then have c: "0x80 \<le> c" by (auto simp: esc1_def split: if_splits)
    then have e: "concat (map esc1 (c # s)) = c # concat (map esc1 s)" by (simp add: esc1_high)
    have "j \<le> length s \<and> take j (concat (map esc1 s)) = take j s \<and> drop j (concat (map esc1 s)) = concat (map esc1 (drop j s))
      \<and> (\<forall>c\<in>set (take j s). 0x80 \<le> c)"
    proof (rule Cons.IH)
      show "j \<le> length (concat (map esc1 s))" using Cons.prems(1) Suc unfolding e by simp
      show "\<forall>m<j. 0x80 \<le> concat (map esc1 s) ! m" using Cons.prems(2) unfolding Suc e by auto
    qed
    with c e Suc show ?thesis by simp
  qed simp
qed

lemma seq_len_high:
  assumes "xs \<noteq> []" "1 < seq_len xs"
  shows "seq_len xs \<le> length xs \<and> (\<forall>m. m < seq_len xs \<longrightarrow> 0x80 \<le> xs ! m)"
proof -
  define k where "k = (if 0xF0 \<le> hd xs then 4 else if 0xE0 \<le> hd xs then 3 else if 0xC0 \<le> hd xs then 2 else (1::nat))"
  have s: "seq_len xs = k" "k \<le> length xs" "\<forall>m\<in>set [1..<k]. xs ! m AND 0xC0 = 0x80"
    using assms(2) by (auto simp: seq_len_def k_def [symmetric] Let_def split: if_splits)
  have "0xC0 \<le> hd xs" using s(1) assms(2) by (auto simp: k_def word_le_nat_alt split: if_splits)
  then have h: "0x80 \<le> xs ! 0" using assms(1) by (cases xs) (auto simp: word_le_nat_alt)
  have "0x80 \<le> xs ! m" if "m < k" for m
    using s(3) h that by (cases "m = 0") (auto intro: cont_high)
  with s show ?thesis by simp
qed

lemma shown_high: "\<forall>c\<in>set s. 0x80 \<le> c \<Longrightarrow> map shown s = s"
  by (rule map_idI) (force simp: shown_def word_le_nat_alt word_less_nat_alt)

lemma unesc_step:
  assumes "xs \<noteq> []" "unesc1 xs = (u, r)" "u \<noteq> []" "length out + length u < n"
  shows "unesc n out xs = unesc n (out @ u) r"
  using assms by (subst unesc.simps) simp

lemma unesc_escaped:
  "0 \<notin> set s \<Longrightarrow> length out + length s < n \<Longrightarrow> unesc n out (concat (map esc1 s)) = out @ map shown s"
proof (induction "length s" arbitrary: s out rule: less_induct)
  case less
  show ?case
  proof (cases s)
    case Nil
    then show ?thesis by (simp add: unesc.simps)
  next
    case (Cons c t)
    let ?xs = "concat (map esc1 s)"
    have ne: "?xs \<noteq> []" by (simp add: Cons esc1_def)
    have tail: "unesc n (out @ [d]) (concat (map esc1 t)) = out @ [d] @ map shown t" for d
      using less.hyps [of t "out @ [d]"] less.prems Cons by simp
    consider (ctl) "c < 0x20" | (quo) "c = 0x22 \<or> c = 0x5c" | (plain) "\<not> c < 0x20" "c \<noteq> 0x22" "c \<noteq> 0x5c" by blast
    then show ?thesis
    proof cases
      case ctl
      then have u: "unesc1 ?xs = ([0x20], concat (map esc1 t))" using less.prems(1) Cons by (auto intro: unesc1_control)
      show ?thesis using unesc_step [OF ne u] tail less.prems(2) Cons ctl by (simp add: shown_def)
    next
      case quo
      then have u: "unesc1 ?xs = ([c], concat (map esc1 t))" using Cons by (auto intro: unesc1_quoted)
      have "shown c = c" using quo by (auto simp: shown_def)
      then show ?thesis using unesc_step [OF ne u] tail less.prems(2) Cons by simp
    next
      case plain
      then have hd: "hd ?xs = c" "esc1 c = [c]" by (simp_all add: Cons esc1_def)
      let ?k = "seq_len ?xs"
      have u: "unesc1 ?xs = (take ?k ?xs, drop ?k ?xs)" using hd plain by (simp add: unesc1_def)
      show ?thesis
      proof (cases "1 < ?k")
        case True
        from seq_len_high [OF ne True] have "?k \<le> length ?xs" "\<forall>m<?k. 0x80 \<le> ?xs ! m" by auto
        from take_escaped [OF this] have k: "?k \<le> length s" "take ?k ?xs = take ?k s"
          "drop ?k ?xs = concat (map esc1 (drop ?k s))" "\<forall>c\<in>set (take ?k s). 0x80 \<le> c" by auto
        have "take ?k ?xs \<noteq> []" using ne True by auto
        moreover have "length out + length (take ?k ?xs) < n" unfolding k(2) using k(1) less.prems(2) by simp
        ultimately have "unesc n out ?xs = unesc n (out @ take ?k ?xs) (drop ?k ?xs)" by (rule unesc_step [OF ne u])
        then have "unesc n out ?xs = unesc n (out @ take ?k s) (concat (map esc1 (drop ?k s)))" by (simp only: k(2,3))
        also have "\<dots> = (out @ take ?k s) @ map shown (drop ?k s)"
        proof (rule less.hyps)
          show "length (drop ?k s) < length s" using True Cons by simp
          show "0 \<notin> set (drop ?k s)" using less.prems(1) by (meson in_set_dropD)
          show "length (out @ take ?k s) + length (drop ?k s) < n" using k(1) less.prems(2) by simp
        qed
        also have "take ?k s = map shown (take ?k s)" using shown_high [OF k(4)] by simp
        also have "(out @ map shown (take ?k s)) @ map shown (drop ?k s) = out @ map shown s"
          by (simp flip: map_append)
        finally show ?thesis .
      next
        case False
        then have k1: "?k = 1" using seq_len_pos [of ?xs] by simp
        have "unesc1 ?xs = (take 1 ?xs, drop 1 ?xs)" using u unfolding k1 .
        then have "unesc1 ?xs = ([c], concat (map esc1 t))" using hd by (simp add: Cons)
        from unesc_step [OF ne this] tail less.prems(2) Cons plain show ?thesis by (simp add: shown_def)
      qed
    qed
  qed
qed

lemma str_end_escaped:
  "str_end (pre @ concat (map esc1 s) @ [0x22]) (length pre) = Some (length pre + length (concat (map esc1 s)))"
proof (induction s arbitrary: pre)
  case Nil
  then show ?case by (subst str_end.simps) simp
next
  case (Cons c s)
  have next': "str_end (pre @ esc1 c @ concat (map esc1 s) @ [0x22]) (length pre + length (esc1 c))
      = Some (length pre + length (esc1 c) + length (concat (map esc1 s)))"
    using Cons.IH [of "pre @ esc1 c"] by simp
  let ?d = "pre @ esc1 c @ concat (map esc1 s) @ [0x22]"
  consider (ctl) "c < 0x20" | (quo) "c = 0x22 \<or> c = 0x5c" | (plain) "\<not> c < 0x20" "c \<noteq> 0x22" "c \<noteq> 0x5c" by blast
  then have "str_end ?d (length pre) = str_end ?d (length pre + length (esc1 c))"
  proof cases
    case ctl
    define h l where "h = (of_nat (48 + unat c div 16) :: byte)"
      and "l = (if unat c mod 16 < 10 then of_nat (48 + unat c mod 16) else of_nat (87 + unat c mod 16) :: byte)"
    have c: "unat c < 32" using ctl by (simp add: word_less_nat_alt)
    have e: "esc1 c = [0x5c, 0x75, 0x30, 0x30, h, l]" using ctl by (auto simp: esc1_def h_def l_def)
    have "hexval h \<noteq> None" "hexval l \<noteq> None" "hexval 0x30 \<noteq> None"
      using hexval_digit [of "unat c div 16"] hexval_low [of c] hexval_digit [of 0] c by (simp_all add: h_def l_def)
    then have "hex4 ?d (length pre + 2)"
      by (auto simp: hex4_def e nth_append less_Suc_eq numeral_eq_Suc)
    moreover have "length (esc1 c) = 6" by (simp add: e)
    ultimately show ?thesis by (simp only:) (subst (1) str_end.simps, simp add: e nth_append)
  next
    case quo
    then have "esc1 c = [0x5c, c]" "esc_char c" by (auto simp: esc1_def esc_char_def)
    with quo show ?thesis by (subst (1) str_end.simps) (auto simp: nth_append)
  next
    case plain
    then have "esc1 c = [c]" by (simp add: esc1_def)
    with plain show ?thesis by (subst (1) str_end.simps) (simp add: nth_append)
  qed
  with next' show ?case by (simp add: add.assoc)
qed

text \<open>
  C27. A string written by \<open>json_esc\<close> is read back: the document parses to one string token, whose value is
  the string with its control characters shown as spaces, and the string itself where it has none.
\<close>

theorem json_string_roundtrip:
  assumes "json_esc n s = Some d" "0 \<notin> set s" "length s < m" "length d \<le> 0x3FFFFFFF"
  shows "\<exists>ts. json_parse d = Some ts \<and> length ts = 1 \<and> json_type ts 0 = Some J_STR \<and> json_str d ts 0 m = Some (map shown s)"
proof -
  let ?e = "concat (map esc1 s)"
  have d: "d = [0x22] @ ?e @ [0x22]" using assms(1) json_esc_eq [of n "[0x22]" s d] by (auto simp: json_esc_def split: if_splits)
  let ?t = "\<lparr>j_type = J_STR, j_start = 1, j_end = length ?e + 1, j_next = 1\<rparr>"
  have se: "str_end d 1 = Some (1 + length ?e)" using str_end_escaped [of "[0x22]" s] by (simp add: d)
  have w: "ws d 0 = 0" by (subst ws.simps) (simp add: d)
  have st: "string_tok d [] 0 = Some ([?t], length d)"
    using se by (simp add: string_tok_def tok_done_def tok_def d)
  obtain f where f: "json_fuel d = Suc f" by (simp add: json_fuel_def)
  have v: "json_value (json_fuel d) d [] 0 0 = Done [?t] (length d)"
    unfolding f using st by (simp add: w) (simp add: d)
  have "ws d (length d) = length d" by (subst ws.simps) simp
  then have p: "json_parse d = Some [?t]" using v assms(4) by (simp add: json_parse_def del: json_value.simps)
  have "unesc m [] ?e = map shown s" using unesc_escaped [of s "[]" m] assms(2,3) by simp
  then show ?thesis using p assms(3)
    by (intro exI [of _ "[?t]"]) (auto simp: json_type_def json_str_def tok_text_def d)
qed

text \<open>The document \<^verbatim>\<open>{"a":1}\<close> and its tokens.\<close>

definition doc1 :: bytes where
  "doc1 = [0x7b, 0x22, 0x61, 0x22, 0x3a, 0x31, 0x7d]"

definition toks1 :: toks where
  "toks1 = [\<lparr>j_type = J_OBJ, j_start = 0, j_end = 7, j_next = 3\<rparr>, \<lparr>j_type = J_STR, j_start = 2, j_end = 3, j_next = 2\<rparr>,
     \<lparr>j_type = J_NUM, j_start = 5, j_end = 6, j_next = 3\<rparr>]"

lemmas fuel_num = json_value.simps(2) [of "pred_numeral k" for k, folded numeral_eq_Suc]
  members.simps(2) [of "pred_numeral k" for k, folded numeral_eq_Suc]

lemma doc1_scan:
  "ws doc1 0 = 0" "ws doc1 1 = 1" "ws doc1 4 = 4" "ws doc1 5 = 5" "ws doc1 6 = 6" "ws doc1 7 = 7"
  "str_end doc1 2 = Some 3" "num_end doc1 5 = 6"
  by (simp add: ws.simps doc1_def, simp add: ws.simps doc1_def, simp add: ws.simps doc1_def, simp add: ws.simps doc1_def,
      simp add: ws.simps doc1_def, simp add: ws.simps doc1_def, simp add: str_end.simps doc1_def,
      simp add: num_end.simps num_char_def doc1_def)

lemma doc1_nth: "length doc1 = 7" "doc1 ! 0 = 0x7b" "doc1 ! 1 = 0x22" "doc1 ! 4 = 0x3a" "doc1 ! 5 = 0x31" "doc1 ! 6 = 0x7d"
  by (simp_all add: doc1_def)

lemma doc1_parses: "json_parse doc1 = Some toks1"
proof -
  have k: "key_tok doc1 t 1 = Some (t @ [\<lparr>j_type = J_STR, j_start = 2, j_end = 3, j_next = int (length t) + 1\<rparr>], 5)"
    if "length t \<noteq> JSON_MAX_TOKENS" for t
    using that doc1_scan doc1_nth by (simp add: key_tok_def string_tok_def tok_done_def tok_def numeral_2_eq_2 [symmetric])
  have "json_value (json_fuel doc1) doc1 [] 0 0 = Done toks1 7"
    using k [of "[\<lparr>j_type = J_OBJ, j_start = 0, j_end = 0, j_next = -1\<rparr>]"]
    by (simp add: json_fuel_def doc1_nth fuel_num doc1_scan tok_def tok_done_def scalar_def toks1_def Let_def
        doc1_scan(2) [simplified] doc1_nth(3) [simplified])
  then show ?thesis by (simp add: json_parse_def doc1_nth doc1_scan del: json_value.simps)
qed

theorem json_tokens_in_bounds_witness: "json_parse doc1 = Some toks1 \<and> list_all (\<lambda>t. j_start t \<le> j_end t \<and> j_end t \<le> 7) toks1"
proof -
  have "length doc1 = 7" by (simp add: doc1_def)
  with json_tokens_in_bounds [OF doc1_parses] show ?thesis by (simp add: list_all_iff doc1_parses)
qed

theorem json_get_finds_key_witness: "json_get doc1 toks1 0 [0x61] = 2 \<and> 2 < j_next (toks1 ! 0)"
proof -
  have g: "json_get doc1 toks1 0 [0x61] = 2" by code_simp
  from json_get_finds_key [OF doc1_parses g] g show ?thesis by simp
qed

theorem json_string_roundtrip_witness:
  "\<exists>ts. json_parse [0x22, 0x61, 0x5c, 0x22, 0x22] = Some ts \<and> json_str [0x22, 0x61, 0x5c, 0x22, 0x22] ts 0 9 = Some [0x61, 0x22]"
proof -
  have e: "json_esc 20 [0x61, 0x22] = Some [0x22, 0x61, 0x5c, 0x22, 0x22]" by code_simp
  from json_string_roundtrip [OF e, of 9] show ?thesis by (auto simp: shown_def)
qed

end
