(* ===== verification/Ws.thy ===== *)
theory Ws
  imports Hash
begin

text \<open>
  \<^verbatim>\<open>src/hassmic/ws.c\<close>: the WebSocket endpoint.  A connection is the bytes its peer has yet to send
  (\<open>ws_in\<close>, after which it closes) and those written to it (\<open>ws_out\<close>); writes fail once \<open>ws_up\<close> is
  gone, an allocation beyond \<open>ws_mem\<close> bytes fails, and the n-th mask drawn is \<open>ws_rand n\<close>.  The lock
  around a frame's write makes it one step.  Lengths are naturals: the source compares \<open>n\<close> with the
  limit before it adds, so no sum wraps.
\<close>

record ws =
  ws_in :: bytes
  ws_out :: bytes
  ws_client :: bool
  ws_cap :: nat
  ws_mem :: nat
  ws_up :: bool
  ws_fd :: bool
  ws_rand :: "nat \<Rightarrow> bytes"
  ws_nrand :: nat

abbreviation (input) WS_CLOSE :: nat where "WS_CLOSE \<equiv> 8"
abbreviation (input) WS_PING :: nat where "WS_PING \<equiv> 9"
abbreviation (input) WS_PONG :: nat where "WS_PONG \<equiv> 10"

definition WS_MAX_MESSAGE :: nat where "WS_MAX_MESSAGE = 4 * 1024 * 1024"

definition WS_HEAD :: nat where "WS_HEAD = 256"

section \<open>The socket\<close>

definition write_all :: "bytes \<Rightarrow> ws \<Rightarrow> bool \<times> ws" where
  "write_all bs w = (if ws_up w then (True, w\<lparr>ws_out := ws_out w @ bs\<rparr>) else (False, w))"

definition read_full :: "nat \<Rightarrow> ws \<Rightarrow> bytes option \<times> ws" where
  "read_full n w =
     (if n \<le> length (ws_in w) then Some (take n (ws_in w)) else None, w\<lparr>ws_in := drop n (ws_in w)\<rparr>)"

text \<open>\<open>ws_random(mask, 4)\<close>.\<close>

definition ws_random :: "ws \<Rightarrow> bytes \<times> ws" where
  "ws_random w = (ws_rand w (ws_nrand w), w\<lparr>ws_nrand := Suc (ws_nrand w)\<rparr>)"

section \<open>The handshake\<close>

text \<open>\<open>read_headers\<close>: byte by byte up to and including the blank line, at most \<open>cap - 1\<close> of them.\<close>

fun read_headers :: "nat \<Rightarrow> bytes \<Rightarrow> bytes \<Rightarrow> (bytes \<times> bytes) option" where
  "read_headers cap buf [] = None"
| "read_headers cap buf (x # xs) =
     (if cap - 1 \<le> length buf then None
      else (let b = buf @ [x]
            in if 4 \<le> length b \<and> drop (length b - 4) b = [13, 10, 13, 10] then Some (b, xs)
               else read_headers cap b xs))"

text \<open>The text behind the next line end, if there is one (\<open>strstr(p, "\\r\\n") + 2\<close>).\<close>

fun next_line :: "bytes \<Rightarrow> bytes option" where
  "next_line (x # y # xs) = (if x = 13 \<and> y = 10 then Some xs else next_line (y # xs))"
| "next_line xs = None"

definition lower :: "byte \<Rightarrow> byte" where
  "lower c = (if 0x41 \<le> c \<and> c \<le> 0x5a then c + 0x20 else c)"

lemma next_line_shorter: "next_line p = Some q \<Longrightarrow> length q < length p"
  by (induction p rule: next_line.induct) (auto split: if_splits)

function header :: "bytes \<Rightarrow> bytes \<Rightarrow> nat \<Rightarrow> bytes option" where
  "header p name outsz =
     (case next_line p of
        None \<Rightarrow> None
      | Some q \<Rightarrow>
          (if map lower (take (length name) q) = map lower name \<and> take 1 (drop (length name) q) = [0x3a]
           then Some (take (outsz - 1) (takeWhile (\<lambda>c. c \<noteq> 0 \<and> c \<noteq> 13) (dropWhile (\<lambda>c. c = 0x20) (drop (length name + 1) q))))
           else header q name outsz))"
  by pat_completeness auto
termination
  by (relation "measure (\<lambda>(p, name, outsz). length p)") (auto dest: next_line_shorter)

declare header.simps [simp del]

definition WS_GUID :: bytes where
  "WS_GUID = ascii ''258EAFA5-E914-47DA-95CA-C5AB0DC85B11''"

definition accept_key :: "bytes \<Rightarrow> bytes" where
  "accept_key key = b64_encode False True (sha1 (fit 128 (key @ WS_GUID)))"

definition crlf :: bytes where
  "crlf = [13, 10]"

definition ws_forbidden :: bytes where
  "ws_forbidden = ascii ''HTTP/1.1 403 Forbidden'' @ crlf @ ascii ''Content-Length: 0'' @ crlf @ ascii ''Connection: close'' @ crlf @ crlf"

definition ws_response :: "bytes \<Rightarrow> bytes" where
  "ws_response acc =
     ascii ''HTTP/1.1 101 Switching Protocols'' @ crlf @ ascii ''Upgrade: websocket'' @ crlf @ ascii ''Connection: Upgrade'' @ crlf
     @ ascii ''Sec-WebSocket-Accept: '' @ acc @ crlf @ crlf"

definition ws_init :: "bool \<Rightarrow> ws \<Rightarrow> ws" where
  "ws_init client w = w\<lparr>ws_client := client, ws_cap := 0, ws_fd := True\<rparr>"

text \<open>
  \<open>ws_accept\<close>: the path of the GET, or \<open>None\<close>.  Headers end at the blank line, so that a NUL in them
  ends the text \<open>strncmp\<close> and \<open>strstr\<close> see.
\<close>

definition ws_accept :: "nat \<Rightarrow> ws \<Rightarrow> bytes option \<times> ws" where
  "ws_accept pathsz w =
     (case read_headers 4096 [] (ws_in w) of
        None \<Rightarrow> (None, w\<lparr>ws_in := []\<rparr>)
      | Some (b, rest) \<Rightarrow>
          (let h = cstr b; w1 = w\<lparr>ws_in := rest\<rparr>
           in if take 4 h \<noteq> ascii ''GET '' then (None, w1)
              else case header h (ascii ''Sec-WebSocket-Key'') 128 of
                     None \<Rightarrow> (None, w1)
                   | Some key \<Rightarrow>
                       if header h (ascii ''Origin'') 8 \<noteq> None then (None, snd (write_all ws_forbidden w1))
                       else (let (ok, w2) = write_all (fit 256 (ws_response (accept_key key))) w1
                             in if ok then (Some (take (pathsz - 1) (takeWhile (\<lambda>c. c \<noteq> 0x20) (drop 4 h))), ws_init False w2)
                                else (None, w2))))"

text \<open>
  \<open>ws_connect\<close> over a connection \<open>net_connect\<close> made, or none; \<open>nonce\<close> the 16 random bytes.  The request is
  written with the length \<open>snprintf\<close> returns, which may exceed the array of 512 bytes: \<open>beyond\<close> is what
  lies behind it in memory.
\<close>

definition host_text :: "bytes \<Rightarrow> bytes" where
  "host_text host = (if 0x3a \<in> set host then [0x5b] @ host @ [0x5d] else host)"

definition ws_request :: "bytes \<Rightarrow> bytes \<Rightarrow> bytes \<Rightarrow> bytes \<Rightarrow> bytes" where
  "ws_request host port path key =
     ascii ''GET '' @ path @ ascii '' HTTP/1.1'' @ crlf @ ascii ''Host: '' @ host_text host @ [0x3a] @ port @ crlf
     @ ascii ''Upgrade: websocket'' @ crlf @ ascii ''Connection: Upgrade'' @ crlf
     @ ascii ''Sec-WebSocket-Key: '' @ key @ crlf @ ascii ''Sec-WebSocket-Version: 13'' @ crlf @ crlf"

fun contains :: "bytes \<Rightarrow> bytes \<Rightarrow> bool" where
  "contains p [] = (p = [])"
| "contains p (x # xs) = (take (length p) (x # xs) = p \<or> contains p xs)"

definition ws_connect :: "bytes \<Rightarrow> bytes \<Rightarrow> bytes \<Rightarrow> bytes \<Rightarrow> bytes \<Rightarrow> ws option \<Rightarrow> ws option" where
  "ws_connect beyond nonce host port path net =
     (case net of
        None \<Rightarrow> None
      | Some w \<Rightarrow>
          (let key = b64_encode False True nonce; r = ws_request host port path key;
               (ok, w1) = write_all (take (length r) (fit 512 r @ 0 # beyond)) w
           in if \<not> ok then None
              else case read_headers 4096 [] (ws_in w1) of
                     None \<Rightarrow> None
                   | Some (b, rest) \<Rightarrow>
                       (let h = cstr b
                        in if contains (ascii '' 101'') h \<and> header h (ascii ''Sec-WebSocket-Accept'') 64 = Some (accept_key key)
                           then Some (ws_init True (w1\<lparr>ws_in := rest\<rparr>)) else None)))"

section \<open>Frames\<close>

definition xor_mask :: "bytes \<Rightarrow> bytes \<Rightarrow> bytes" where
  "xor_mask m xs = map (\<lambda>i. xs ! i XOR m ! (i mod 4)) [0..<length xs]"

definition be_bytes :: "nat \<Rightarrow> nat \<Rightarrow> bytes" where
  "be_bytes k n = map (\<lambda>i. of_nat (n div 256 ^ (k - 1 - i))) [0..<k]"

definition frame_head :: "nat \<Rightarrow> byte \<Rightarrow> nat \<Rightarrow> bytes" where
  "frame_head op masked len =
     [0x80 OR of_nat op]
     @ (if len < 126 then [of_nat len OR masked]
        else if len < 65536 then [126 OR masked] @ be_bytes 2 len
        else [127 OR masked] @ be_bytes 8 len)"

definition send_frame :: "nat \<Rightarrow> bytes \<Rightarrow> ws \<Rightarrow> bool \<times> ws" where
  "send_frame op data w =
     (if ws_client w then
        (if ws_mem w < max 1 (length data) then (False, w)
         else (let (mask, w1) = ws_random w; (ok, w2) = write_all (frame_head op 0x80 (length data) @ mask) w1
               in if ok \<and> data \<noteq> [] then write_all (xor_mask mask data) w2 else (ok, w2)))
      else (let (ok, w1) = write_all (frame_head op 0 (length data)) w
            in if ok \<and> data \<noteq> [] then write_all data w1 else (ok, w1)))"

definition ws_send :: "nat \<Rightarrow> bytes \<Rightarrow> ws \<Rightarrow> bool \<times> ws" where
  "ws_send op data w = send_frame op data w"

text \<open>\<open>skip\<close>: n bytes read and dropped, 4096 at a time.\<close>

function skip :: "nat \<Rightarrow> ws \<Rightarrow> bool \<times> ws" where
  "skip n w =
     (if n = 0 then (True, w)
      else (let k = min n 4096
            in case read_full k w of (None, w1) \<Rightarrow> (False, w1) | (Some b, w1) \<Rightarrow> skip (n - k) w1))"
  by pat_completeness auto
termination
  by (relation "measure fst") auto

declare skip.simps [simp del]

definition be_dec :: "bytes \<Rightarrow> nat" where
  "be_dec bs = foldl (\<lambda>n b. n * 256 + unat b) 0 bs"

record head =
  f_fin :: bool
  f_op :: nat
  f_n :: nat
  f_mask :: "bytes option"

definition read_length :: "nat \<Rightarrow> ws \<Rightarrow> nat option \<times> ws" where
  "read_length n w =
     (if n = 126 then map_prod (map_option be_dec) id (read_full 2 w)
      else if n = 127 then map_prod (map_option be_dec) id (read_full 8 w)
      else (Some n, w))"

definition read_head :: "ws \<Rightarrow> head option \<times> ws" where
  "read_head w =
     (case read_full 2 w of
        (None, w1) \<Rightarrow> (None, w1)
      | (Some h, w1) \<Rightarrow>
          (case read_length (unat (h ! 1 AND 0x7f)) w1 of
             (None, w2) \<Rightarrow> (None, w2)
           | (Some n, w2) \<Rightarrow>
               (let hd = \<lparr>f_fin = bit (h ! 0) 7, f_op = unat (h ! 0 AND 0x0f), f_n = n, f_mask = None\<rparr>
                in if bit (h ! 1) 7 then
                     (case read_full 4 w2 of (None, w3) \<Rightarrow> (None, w3) | (Some m, w3) \<Rightarrow> (Some (hd\<lparr>f_mask := Some m\<rparr>), w3))
                   else (Some hd, w2))))"

definition unmask :: "bytes option \<Rightarrow> bytes \<Rightarrow> bytes" where
  "unmask m xs = (case m of None \<Rightarrow> xs | Some k \<Rightarrow> xor_mask k xs)"

text \<open>\<open>realloc\<close> to \<open>cap\<close> bytes where \<open>need\<close> do not fit.\<close>

definition grow :: "nat \<Rightarrow> nat \<Rightarrow> ws \<Rightarrow> ws option" where
  "grow need cap w = (if need \<le> ws_cap w then Some w else if ws_mem w < cap then None else Some (w\<lparr>ws_cap := cap\<rparr>))"

datatype ws_result = Ws_closed | Ws_error | Ws_message nat bytes | Ws_over nat bytes

lemma read_full_shorter: "length (ws_in (snd (read_full n w))) \<le> length (ws_in w)"
  by (simp add: read_full_def)

lemma read_full_Some: "read_full n w = (Some b, w1) \<Longrightarrow> length b = n \<and> ws_in w = b @ ws_in w1"
  by (auto simp: read_full_def split: if_splits)

lemma read_full_in: "read_full n w = (r, w1) \<Longrightarrow> length (ws_in w1) \<le> length (ws_in w)"
  using read_full_shorter [of n w] by simp

lemma read_length_in: "read_length n w = (r, w1) \<Longrightarrow> length (ws_in w1) \<le> length (ws_in w)"
  using read_full_shorter [of 2 w] read_full_shorter [of 8 w] by (auto simp: read_length_def map_prod_def split: if_splits prod.splits)

lemma read_head_in: "read_head w = (Some h, w1) \<Longrightarrow> length (ws_in w1) < length (ws_in w)"
  by (auto simp: read_head_def Let_def split: prod.splits option.splits if_splits
           dest!: read_full_in read_length_in read_full_Some)

lemma write_all_in: "ws_in (snd (write_all b w)) = ws_in w"
  by (simp add: write_all_def)

lemma send_frame_in: "ws_in (snd (send_frame op d w)) = ws_in w"
  using write_all_in by (auto simp: send_frame_def ws_random_def Let_def write_all_def split: prod.splits)

lemma skip_in: "skip n w = (r, w1) \<Longrightarrow> length (ws_in w1) \<le> length (ws_in w)"
proof (induction n w rule: skip.induct)
  case (1 n w)
  show ?case
  proof (cases "n = 0")
    case True
    with 1 show ?thesis by (simp add: skip.simps)
  next
    case False
    obtain b w2 where r: "read_full (min n 4096) w = (b, w2)" by fastforce
    show ?thesis
    proof (cases b)
      case (Some d)
      with 1(2) False r have "skip (n - min n 4096) w2 = (r, w1)" by (simp add: skip.simps [of n])
      with 1(1) [OF False refl r [symmetric] Some] show ?thesis using read_full_in [OF r] by simp
    qed (use 1(2) False r read_full_in [OF r] in \<open>simp add: skip.simps [of n]\<close>)
  qed
qed

lemma skip_case: "(case skip n w of (r, w1) \<Rightarrow> length (ws_in w1)) \<le> length (ws_in w)"
  using skip_in [of n w] by (cases "skip n w") simp

lemma grow_in: "grow a b w = Some w1 \<Longrightarrow> ws_in w1 = ws_in w"
  by (auto simp: grow_def split: if_splits)

function ws_recv_loop :: "bytes \<Rightarrow> nat \<Rightarrow> bool \<Rightarrow> ws \<Rightarrow> ws_result \<times> ws" where
  "ws_recv_loop buf first_op over w =
     (case read_head w of
        (None, w1) \<Rightarrow> (Ws_closed, w1)
      | (Some h, w1) \<Rightarrow>
          (let total = length buf; n = f_n h; op = f_op h; first' = (if op \<noteq> 0 then op else first_op)
           in if 8 \<le> op \<and> 125 < n then (Ws_error, w1)
              else if op < 8 \<and> (over \<or> WS_MAX_MESSAGE < n \<or> WS_MAX_MESSAGE < total + n) then
                (if 16 * WS_MAX_MESSAGE < n \<or> 16 * WS_MAX_MESSAGE < total + n then (Ws_error, w1)
                 else (let keep = min n (if total < WS_HEAD then WS_HEAD - total else 0)
                       in case grow (total + keep + 1) (total + keep + 1) w1 of
                            None \<Rightarrow> (Ws_error, w1)
                          | Some w2 \<Rightarrow>
                              (case read_full keep w2 of
                                 (None, w3) \<Rightarrow> (Ws_closed, w3)
                               | (Some d, w3) \<Rightarrow>
                                   (case skip (n - keep) w3 of
                                      (ok, w4) \<Rightarrow>
                                        if \<not> ok then (Ws_closed, w4)
                                        else if f_fin h then (Ws_over first' (buf @ unmask (f_mask h) d), w4)
                                        else ws_recv_loop (buf @ unmask (f_mask h) d) first' True w4))))
              else
                (case grow (total + n + 1) (total + n + 1 + 4096) w1 of
                   None \<Rightarrow> (Ws_error, w1)
                 | Some w2 \<Rightarrow>
                     (case read_full n w2 of
                        (None, w3) \<Rightarrow> (Ws_closed, w3)
                      | (Some d', w3) \<Rightarrow>
                          (let d = unmask (f_mask h) d'
                           in if 8 \<le> op then
                                (if op = WS_PING then ws_recv_loop buf first_op over (snd (send_frame WS_PONG d w3))
                                 else if op = WS_CLOSE then (Ws_closed, snd (send_frame WS_CLOSE (if n < 2 then [] else take 2 d) w3))
                                 else ws_recv_loop buf first_op over w3)
                              else if f_fin h then (Ws_message first' (buf @ d), w3)
                              else ws_recv_loop (buf @ d) first' over w3)))))"
  by pat_completeness auto
termination
  by (relation "measure (\<lambda>(buf, fo, ov, w). length (ws_in w))")
     (auto simp: send_frame_in dest!: sym [of _ "read_head _"] sym [of _ "read_full _ _"]
        read_head_in grow_in read_full_in intro: le_less_trans [OF skip_case])

declare ws_recv_loop.simps [simp del]

definition ws_recv :: "ws \<Rightarrow> ws_result \<times> ws" where
  "ws_recv w = ws_recv_loop [] 0 False w"

definition ws_close :: "ws \<Rightarrow> ws" where
  "ws_close w = (if ws_fd w then (snd (send_frame WS_CLOSE [0x03, 0xe8] w))\<lparr>ws_fd := False, ws_cap := 0\<rparr> else w\<lparr>ws_cap := 0\<rparr>)"

section \<open>Frames as the protocol has them\<close>

text \<open>A frame of RFC 6455: what the peer may send, fragmented and masked as it likes.\<close>

definition ws_frame :: "bool \<Rightarrow> nat \<Rightarrow> bytes option \<Rightarrow> bytes \<Rightarrow> bytes" where
  "ws_frame fin op m d =
     [(if fin then 0x80 else 0) OR of_nat op]
     @ (let b = (if m = None then 0 else 0x80)
        in if length d < 126 then [of_nat (length d) OR b]
           else if length d < 65536 then [126 OR b] @ be_bytes 2 (length d)
           else [127 OR b] @ be_bytes 8 (length d))
     @ (case m of None \<Rightarrow> [] | Some k \<Rightarrow> k) @ unmask m d"

definition mask_ok :: "bytes option \<Rightarrow> bool" where
  "mask_ok m \<longleftrightarrow> (case m of None \<Rightarrow> True | Some k \<Rightarrow> length k = 4)"

lemma length_xor_mask [simp]: "length (xor_mask m d) = length d"
  by (simp add: xor_mask_def)

lemma xor_mask_xor_mask [simp]: "xor_mask m (xor_mask m d) = d"
  by (rule nth_equalityI) (simp_all add: xor_mask_def xor.assoc)

lemma length_unmask [simp]: "length (unmask m d) = length d"
  by (simp add: unmask_def split: option.split)

lemma unmask_unmask [wire]: "unmask m (unmask m d) = d"
  by (simp add: unmask_def split: option.split)

lemma length_be_bytes [simp]: "length (be_bytes k n) = k"
  by (simp add: be_bytes_def)

lemma be_bytes_Suc: "be_bytes (Suc k) n = of_nat (n div 256 ^ k) # be_bytes k n"
  unfolding be_bytes_def by (subst upt_conv_Cons) (simp_all add: map_Suc_upt [symmetric] del: upt_Suc)

lemma be_dec_be_bytes_acc: "foldl (\<lambda>n b. n * 256 + unat b) a (be_bytes k n) = a * 256 ^ k + n mod 256 ^ k"
proof (induction k arbitrary: a)
  case (Suc k)
  have "n mod 256 ^ Suc k = (n div 256 ^ k mod 256) * 256 ^ k + n mod 256 ^ k"
    by (metis mod_mult2_eq mult.commute power_Suc2)
  with Suc show ?case by (simp add: be_bytes_Suc unat_of_nat algebra_simps)
qed (simp add: be_bytes_def)

lemma be_dec_be_bytes [wire]: "n < 256 ^ k \<Longrightarrow> be_dec (be_bytes k n) = n"
  by (simp add: be_dec_def be_dec_be_bytes_acc)

lemma byte_low7:
  fixes b :: byte
  assumes "b = 0 \<or> b = 0x80" "n < 128"
  shows "unat ((of_nat n OR b) AND 0x7f) = n" "bit (of_nat n OR b :: byte) 7 = (b \<noteq> 0)"
proof -
  have m: "(0x7f :: byte) = mask 7" by (simp add: mask_eq_exp_minus_1)
  have t: "take_bit 7 b = 0" using assms(1) by auto
  have n: "take_bit 7 (of_nat n :: byte) = of_nat n"
    using assms(2) by (simp add: of_nat_take_bit [symmetric] take_bit_nat_eq_self)
  have "(of_nat n OR b) AND 0x7f = take_bit 7 (of_nat n :: byte)"
    unfolding m take_bit_eq_mask [symmetric] by (simp add: t)
  then show "unat ((of_nat n OR b) AND 0x7f) = n" using assms(2) by (simp add: n unat_of_nat)
  have "\<not> bit (take_bit 7 (of_nat n :: byte)) 7" by (simp add: bit_take_bit_iff)
  then show "bit (of_nat n OR b :: byte) 7 = (b \<noteq> 0)" using assms(1) by (auto simp: bit_or_iff n)
qed

lemma byte_op:
  assumes "op < 16"
  shows "unat (((if fin then 0x80 else 0) OR of_nat op :: byte) AND 0x0f) = op"
    "bit ((if fin then 0x80 else 0) OR of_nat op :: byte) 7 = fin"
proof -
  have m: "(0x0f :: byte) = mask 4" by (simp add: mask_eq_exp_minus_1)
  have n: "take_bit 4 (of_nat op :: byte) = of_nat op"
    using assms by (simp add: of_nat_take_bit [symmetric] take_bit_nat_eq_self)
  have "((if fin then 0x80 else 0) OR of_nat op :: byte) AND 0x0f = take_bit 4 (of_nat op)"
    unfolding m take_bit_eq_mask [symmetric] by simp
  then show "unat (((if fin then 0x80 else 0) OR of_nat op :: byte) AND 0x0f) = op"
    using assms by (simp add: n unat_of_nat)
  have "\<not> bit (take_bit 4 (of_nat op :: byte)) 7" by (simp add: bit_take_bit_iff)
  then show "bit ((if fin then 0x80 else 0) OR of_nat op :: byte) 7 = fin" by (simp add: bit_or_iff n)
qed

lemma read_full_append [wire]: "ws_in w = b @ rest \<Longrightarrow> length b = n \<Longrightarrow> read_full n w = (Some b, w\<lparr>ws_in := rest\<rparr>)"
  by (simp add: read_full_def)

lemma read_head_frame [wire]:
  assumes "ws_in w = ws_frame fin op m d @ rest" "op < 16" "length d < 256 ^ 8" "mask_ok m"
  shows "read_head w = (Some \<lparr>f_fin = fin, f_op = op, f_n = length d, f_mask = m\<rparr>, w\<lparr>ws_in := unmask m d @ rest\<rparr>)"
proof -
  define b :: byte where "b = (if m = None then 0 else 0x80)"
  define n0 where "n0 = (if length d < 126 then length d else if length d < 65536 then 126 else 127)"
  define ext where "ext = (if length d < 126 then [] else if length d < 65536 then be_bytes 2 (length d) else be_bytes 8 (length d))"
  define tail where "tail = (case m of None \<Rightarrow> [] | Some k \<Rightarrow> k) @ unmask m d @ rest"
  have b: "b = 0 \<or> b = 0x80" and n0: "n0 < 128" by (auto simp: b_def n0_def)
  have w: "ws_in w = [(if fin then 0x80 else 0) OR of_nat op, of_nat n0 OR b] @ ext @ tail"
    using assms(1) by (auto simp: ws_frame_def b_def n0_def ext_def tail_def Let_def)
  have l: "read_length n0 (w\<lparr>ws_in := ext @ tail\<rparr>) = (Some (length d), w\<lparr>ws_in := tail\<rparr>)"
    using assms(3) by (auto simp: read_length_def n0_def ext_def wire)
  have k: "read_full 4 (w\<lparr>ws_in := tail\<rparr>) = (Some k, w\<lparr>ws_in := unmask m d @ rest\<rparr>)" if "m = Some k" for k
    using that assms(4) by (simp add: tail_def mask_ok_def wire)
  define x :: byte where "x = (if fin then 0x80 else 0) OR of_nat op"
  define y where "y = of_nat n0 OR b"
  have x: "unat (x AND 0x0f) = op" "bit x 7 = fin"
    unfolding x_def using byte_op [OF assms(2), of fin] by simp_all
  have y: "unat (y AND 0x7f) = n0" "bit y 7 = (m \<noteq> None)"
    unfolding y_def using byte_low7 [OF b n0] by (simp_all add: b_def)
  have h: "read_full 2 w = (Some [x, y], w\<lparr>ws_in := ext @ tail\<rparr>)"
    using w by (intro read_full_append) (simp_all add: x_def y_def)
  show ?thesis
  proof (cases m)
    case None
    then show ?thesis by (simp add: read_head_def h l x y) (simp add: tail_def)
  next
    case (Some k')
    then show ?thesis by (simp add: read_head_def h l x y k [OF Some])
  qed
qed

lemma send_frame_writes:
  assumes "ws_up w" "ws_client w \<Longrightarrow> max 1 (length d) \<le> ws_mem w"
  obtains m k where "send_frame op d w = (True, w\<lparr>ws_out := ws_out w @ ws_frame True op m d, ws_nrand := k\<rparr>)"
    "m = (if ws_client w then Some (ws_rand w (ws_nrand w)) else None)"
proof (cases "ws_client w")
  case True
  with assms show ?thesis
    by (intro that [of "Suc (ws_nrand w)" "Some (ws_rand w (ws_nrand w))"])
       (auto simp: send_frame_def write_all_def ws_random_def frame_head_def ws_frame_def unmask_def Let_def xor_mask_def)
next
  case False
  with assms show ?thesis
    by (intro that [of "ws_nrand w" None])
       (auto simp: send_frame_def write_all_def frame_head_def ws_frame_def unmask_def Let_def)
qed

lemma send_frame_frame [frame]:
  "ws_mem (snd (send_frame op d w)) = ws_mem w" "ws_cap (snd (send_frame op d w)) = ws_cap w"
  "snd (send_frame op d (w\<lparr>ws_in := a, ws_cap := c\<rparr>)) = (snd (send_frame op d w))\<lparr>ws_in := a, ws_cap := c\<rparr>"
  by (auto simp: send_frame_def write_all_def ws_random_def Let_def)

section \<open>Properties\<close>

text \<open>A message in fragments, with control frames between them.\<close>

datatype piece = Part "bytes option" bytes | Control nat "bytes option" bytes

fun pieces_bytes :: "nat \<Rightarrow> piece list \<Rightarrow> bytes" where
  "pieces_bytes op [] = []"
| "pieces_bytes op (Part m d # ps) = ws_frame (ps = []) op m d @ pieces_bytes 0 ps"
| "pieces_bytes op (Control c m d # ps) = ws_frame True c m d @ pieces_bytes op ps"

fun pieces_ok :: "piece list \<Rightarrow> bool" where
  "pieces_ok [] = False"
| "pieces_ok (Part m d # ps) = (mask_ok m \<and> (ps = [] \<or> pieces_ok ps))"
| "pieces_ok (Control c m d # ps) = (mask_ok m \<and> WS_PING \<le> c \<and> c < 16 \<and> length d \<le> 125 \<and> pieces_ok ps)"

fun parts :: "piece list \<Rightarrow> bytes" where
  "parts [] = []"
| "parts (Part m d # ps) = d @ parts ps"
| "parts (Control c m d # ps) = parts ps"

fun pings :: "piece list \<Rightarrow> bytes list" where
  "pings [] = []"
| "pings (Part m d # ps) = pings ps"
| "pings (Control c m d # ps) = (if c = WS_PING then d # pings ps else pings ps)"

definition answered :: "ws \<Rightarrow> bytes list \<Rightarrow> ws" where
  "answered w ds = foldl (\<lambda>w d. snd (send_frame WS_PONG d w)) w ds"

lemma answered_upd [frame]: "answered (w\<lparr>ws_in := a, ws_cap := c\<rparr>) ds = (answered w ds)\<lparr>ws_in := a, ws_cap := c\<rparr>"
  by (induction ds arbitrary: w) (simp_all add: answered_def frame)

lemma grow_enough: "cap \<le> ws_mem w \<Longrightarrow> \<exists>c. grow need cap w = Some (w\<lparr>ws_cap := c\<rparr>)"
  by (auto simp: grow_def intro: exI [of _ "ws_cap w"])

lemma recv_frame:
  assumes "ws_in w = ws_frame fin op m d @ rest" "op < 16" "mask_ok m" "op < 8 \<or> length d \<le> 125"
    "op < 8 \<longrightarrow> \<not> over \<and> length buf + length d \<le> WS_MAX_MESSAGE" "length buf \<le> WS_MAX_MESSAGE" "WS_MAX_MESSAGE + 5000 \<le> ws_mem w"
  shows "\<exists>c. ws_recv_loop buf first_op over w =
     (let w' = w\<lparr>ws_in := rest, ws_cap := c\<rparr>; first' = (if op \<noteq> 0 then op else first_op)
      in if 8 \<le> op then
           (if op = WS_PING then ws_recv_loop buf first_op over (snd (send_frame WS_PONG d w'))
            else if op = WS_CLOSE then (Ws_closed, snd (send_frame WS_CLOSE (if length d < 2 then [] else take 2 d) w'))
            else ws_recv_loop buf first_op over w')
         else if fin then (Ws_message first' (buf @ d), w')
         else ws_recv_loop (buf @ d) first' over w')"
proof -
  have n: "length d < 256 ^ 8" "length buf + length d + 1 + 4096 \<le> ws_mem w"
    using assms(4-7) by (auto simp: WS_MAX_MESSAGE_def)
  let ?w1 = "w\<lparr>ws_in := unmask m d @ rest\<rparr>"
  obtain c where c: "grow (length buf + length d + 1) (length buf + length d + 1 + 4096) ?w1 = Some (?w1\<lparr>ws_cap := c\<rparr>)"
    using grow_enough [of "length buf + length d + 1 + 4096" ?w1] n by auto
  have r: "read_full (length d) (?w1\<lparr>ws_cap := c\<rparr>) = (Some (unmask m d), w\<lparr>ws_in := rest, ws_cap := c\<rparr>)"
    by (simp add: wire)
  have b: "\<not> (8 \<le> op \<and> 125 < length d)"
    "\<not> (op < 8 \<and> (over \<or> WS_MAX_MESSAGE < length d \<or> WS_MAX_MESSAGE < length buf + length d))"
    using assms(4,5) by auto
  note simps = read_head_frame [OF assms(1,2) n(1) assms(3)] Let_def prod.case option.case head.simps
  show ?thesis
    unfolding ws_recv_loop.simps [of buf first_op over w] simps if_not_P [OF b(1)] if_not_P [OF b(2)] c r unmask_unmask
    by (rule exI [of _ c]) simp
qed

lemma recv_pieces:
  assumes "pieces_ok ps" "op < 8" "length buf + length (parts ps) \<le> WS_MAX_MESSAGE" "WS_MAX_MESSAGE + 5000 \<le> ws_mem w"
    "ws_in w = pieces_bytes op ps @ rest"
  shows "\<exists>c. ws_recv_loop buf first_op False w =
    (Ws_message (if op \<noteq> 0 then op else first_op) (buf @ parts ps), (answered w (pings ps))\<lparr>ws_in := rest, ws_cap := c\<rparr>)"
  using assms
proof (induction ps arbitrary: op buf first_op w)
  case (Cons p ps)
  show ?case
  proof (cases p)
    case (Part m d)
    with Cons.prems have "ws_in w = ws_frame (ps = []) op m d @ (pieces_bytes 0 ps @ rest)" by simp
    then have "\<exists>c. ws_recv_loop buf first_op False w =
       (if ps = [] then (Ws_message (if op \<noteq> 0 then op else first_op) (buf @ d), w\<lparr>ws_in := pieces_bytes 0 ps @ rest, ws_cap := c\<rparr>)
        else ws_recv_loop (buf @ d) (if op \<noteq> 0 then op else first_op) False (w\<lparr>ws_in := pieces_bytes 0 ps @ rest, ws_cap := c\<rparr>))"
      using Cons.prems Part recv_frame [of w "ps = []" op m d "pieces_bytes 0 ps @ rest" False buf first_op]
      by (simp add: Let_def split del: if_split) (simp only: neq0_conv)
    then obtain c where c: "ws_recv_loop buf first_op False w =
       (if ps = [] then (Ws_message (if op \<noteq> 0 then op else first_op) (buf @ d), w\<lparr>ws_in := pieces_bytes 0 ps @ rest, ws_cap := c\<rparr>)
        else ws_recv_loop (buf @ d) (if op \<noteq> 0 then op else first_op) False (w\<lparr>ws_in := pieces_bytes 0 ps @ rest, ws_cap := c\<rparr>))" ..
    show ?thesis
    proof (cases "ps = []")
      case True
      then show ?thesis using c Part by (auto simp: answered_def intro!: exI [of _ c])
    next
      case False
      with Cons.prems Part have "pieces_ok ps" "length (buf @ d) + length (parts ps) \<le> WS_MAX_MESSAGE" by simp_all
      from Cons.IH [OF this(1) _ this(2), of 0 "w\<lparr>ws_in := pieces_bytes 0 ps @ rest, ws_cap := c\<rparr>" "if op \<noteq> 0 then op else first_op"]
      show ?thesis using c False Part Cons.prems(4) by (auto simp: frame)
    qed
  next
    case (Control o' m d)
    with Cons.prems have "ws_in w = ws_frame True o' m d @ (pieces_bytes op ps @ rest)" by simp
    then have "\<exists>c. ws_recv_loop buf first_op False w = ws_recv_loop buf first_op False
        (if o' = WS_PING then snd (send_frame WS_PONG d (w\<lparr>ws_in := pieces_bytes op ps @ rest, ws_cap := c\<rparr>))
         else w\<lparr>ws_in := pieces_bytes op ps @ rest, ws_cap := c\<rparr>)"
      using Cons.prems Control recv_frame [of w True o' m d "pieces_bytes op ps @ rest" False buf first_op]
      by (cases "o' = WS_PING") (simp_all add: Let_def)
    then obtain c where c: "ws_recv_loop buf first_op False w = ws_recv_loop buf first_op False
        (if o' = WS_PING then snd (send_frame WS_PONG d (w\<lparr>ws_in := pieces_bytes op ps @ rest, ws_cap := c\<rparr>))
         else w\<lparr>ws_in := pieces_bytes op ps @ rest, ws_cap := c\<rparr>)" ..
    define v where "v = (if o' = WS_PING then snd (send_frame WS_PONG d w) else w)"
    have v: "ws_recv_loop buf first_op False w = ws_recv_loop buf first_op False (v\<lparr>ws_in := pieces_bytes op ps @ rest, ws_cap := c\<rparr>)"
      using c by (simp add: v_def frame)
    have answers: "answered w (pings (p # ps)) = answered v (pings ps)" by (simp add: v_def Control answered_def)
    have "ws_mem v = ws_mem w" by (simp add: v_def frame)
    then have "\<exists>c'. ws_recv_loop buf first_op False (v\<lparr>ws_in := pieces_bytes op ps @ rest, ws_cap := c\<rparr>) =
      (Ws_message (if op \<noteq> 0 then op else first_op) (buf @ parts ps), (answered v (pings ps))\<lparr>ws_in := rest, ws_cap := c'\<rparr>)"
      using Cons.IH [of op buf "v\<lparr>ws_in := pieces_bytes op ps @ rest, ws_cap := c\<rparr>" first_op] Cons.prems Control
      by (simp add: frame split del: if_split)
    then show ?thesis unfolding v answers by (simp add: Control split del: if_split)
  qed
qed simp

text \<open>
  A message arrives whole: however the peer fragments and masks a message of up to 4 MB, and whatever pings and
  other control frames it puts between the fragments, \<open>ws_recv\<close> returns its opcode and the fragments joined, leaves
  the bytes behind it unread, and has answered each ping, in order, with a pong of the same payload.
\<close>

theorem ws_recv_reassembles:
  assumes "pieces_ok ps" "0 < op" "op < 8" "length (parts ps) \<le> WS_MAX_MESSAGE" "WS_MAX_MESSAGE + 5000 \<le> ws_mem w"
    "ws_in w = pieces_bytes op ps @ rest"
  shows "fst (ws_recv w) = Ws_message op (parts ps)
    \<and> ws_in (snd (ws_recv w)) = rest \<and> ws_out (snd (ws_recv w)) = ws_out (answered w (pings ps))"
  using recv_pieces [OF assms(1,3) _ assms(5,6), of "[]" 0] assms(2,4) by (auto simp: ws_recv_def)

theorem ws_recv_reassembles_witness:
  "let ps = [Part None [1, 2], Control 9 None [7], Part (Some [1, 0, 0, 0]) [3]];
       w = \<lparr>ws_in = pieces_bytes 2 ps @ [5], ws_out = [], ws_client = False, ws_cap = 0, ws_mem = 5000000, ws_up = True,
            ws_fd = True, ws_rand = \<lambda>n. [], ws_nrand = 0\<rparr>
   in fst (ws_recv w) = Ws_message 2 [1, 2, 3] \<and> ws_in (snd (ws_recv w)) = [5] \<and> ws_out (snd (ws_recv w)) = [0x8a, 1, 7]"
proof -
  let ?ps = "[Part None [1, 2], Control 9 None [7], Part (Some [1, 0, 0, 0]) [3]]"
  let ?w = "\<lparr>ws_in = pieces_bytes 2 ?ps @ [5], ws_out = [], ws_client = False, ws_cap = 0, ws_mem = 5000000, ws_up = True,
    ws_fd = True, ws_rand = \<lambda>n. [], ws_nrand = 0\<rparr>"
  have "ws_out (answered ?w (pings ?ps)) = [0x8a, 1, 7]"
    by (simp add: answered_def send_frame_def write_all_def frame_head_def)
  with ws_recv_reassembles [of ?ps 2 ?w "[5]"] show ?thesis
    by (simp add: mask_ok_def WS_MAX_MESSAGE_def)
qed

text \<open>
  C30. What one end sends the other receives: \<open>ws_recv\<close> on the bytes \<open>ws_send\<close> wrote, masked by a client or plain by a
  server, returns the opcode and the data, for every length up to 4 MB.
\<close>

theorem ws_send_recv:
  assumes "ws_up a" "0 < op" "op < 8" "length d \<le> WS_MAX_MESSAGE" "length (ws_rand a (ws_nrand a)) = 4"
    "WS_MAX_MESSAGE \<le> ws_mem a" "WS_MAX_MESSAGE + 5000 \<le> ws_mem b"
    "ws_in b = drop (length (ws_out a)) (ws_out (snd (ws_send op d a))) @ rest"
  shows "fst (ws_send op d a) \<and> fst (ws_recv b) = Ws_message op d \<and> ws_in (snd (ws_recv b)) = rest"
proof -
  have "max 1 (length d) \<le> ws_mem a" using assms(4,6) by (simp add: WS_MAX_MESSAGE_def)
  then obtain m k where s: "send_frame op d a = (True, a\<lparr>ws_out := ws_out a @ ws_frame True op m d, ws_nrand := k\<rparr>)"
    and m: "m = (if ws_client a then Some (ws_rand a (ws_nrand a)) else None)"
    using send_frame_writes [OF assms(1)] by metis
  have "mask_ok m" using assms(5) by (simp add: m mask_ok_def)
  with recv_pieces [of "[Part m d]" op "[]" b rest 0] s assms show ?thesis
    by (auto simp: ws_send_def ws_recv_def)
qed

theorem ws_send_recv_witness:
  "let a = \<lparr>ws_in = [], ws_out = [9], ws_client = True, ws_cap = 0, ws_mem = 5000000, ws_up = True, ws_fd = True,
            ws_rand = \<lambda>n. [1, 2, 3, 4], ws_nrand = 0\<rparr>;
       b = a\<lparr>ws_in := drop 1 (ws_out (snd (ws_send 1 [65, 66] a))), ws_client := False\<rparr>
   in fst (ws_recv b) = Ws_message 1 [65, 66]"
  using ws_send_recv [of "\<lparr>ws_in = [], ws_out = [9], ws_client = True, ws_cap = 0, ws_mem = 5000000, ws_up = True, ws_fd = True,
            ws_rand = \<lambda>n. [1, 2, 3, 4], ws_nrand = 0\<rparr>" 1 "[65, 66]" _ "[]"]
  by (simp add: WS_MAX_MESSAGE_def Let_def)

section \<open>A message beyond the limit\<close>

lemma skip_append: "ws_in w = a @ rest \<Longrightarrow> length a = n \<Longrightarrow> skip n w = (True, w\<lparr>ws_in := rest\<rparr>)"
proof (induction n w arbitrary: a rule: skip.induct)
  case (1 n w)
  show ?case
  proof (cases "n = 0")
    case True
    with 1 show ?thesis by (cases w) (simp add: skip.simps)
  next
    case False
    let ?k = "min n 4096"
    have r: "read_full ?k w = (Some (take ?k a), w\<lparr>ws_in := drop ?k a @ rest\<rparr>)"
      using 1(2,3) by (intro read_full_append) (simp_all add: append_assoc [symmetric] del: append_assoc)
    from 1(1) [OF False refl r [symmetric] refl, of "drop ?k a"] 1(3)
    have "skip (n - ?k) (w\<lparr>ws_in := drop ?k a @ rest\<rparr>) = (True, w\<lparr>ws_in := rest\<rparr>)" by simp
    with False show ?thesis by (simp add: skip.simps [of n] r)
  qed
qed

lemma unmask_take: "unmask m (take k (unmask m d)) = take k d"
proof -
  have "xor_mask x (take k (xor_mask x d)) = take k d" for x
    by (rule nth_equalityI) (auto simp: xor_mask_def xor.assoc)
  then show ?thesis by (simp add: unmask_def split: option.split)
qed

text \<open>How much of \<open>d\<close> is kept once a message is over the limit, after \<open>buf\<close>.\<close>

definition kept :: "bytes \<Rightarrow> bytes \<Rightarrow> bytes" where
  "kept buf d = take (WS_HEAD - length buf) d"

lemma recv_over_frame:
  assumes "ws_in w = ws_frame fin op m d @ rest" "op < 8" "mask_ok m" "over \<or> WS_MAX_MESSAGE < length buf + length d"
    "length buf + length d \<le> 16 * WS_MAX_MESSAGE" "length buf \<le> WS_MAX_MESSAGE" "WS_MAX_MESSAGE + 5000 \<le> ws_mem w"
  shows "\<exists>c. ws_recv_loop buf first_op over w =
     (let w' = w\<lparr>ws_in := rest, ws_cap := c\<rparr>; first' = (if op \<noteq> 0 then op else first_op)
      in if fin then (Ws_over first' (buf @ kept buf d), w') else ws_recv_loop (buf @ kept buf d) first' True w')"
proof -
  define keep where "keep = min (length d) (if length buf < WS_HEAD then WS_HEAD - length buf else 0)"
  have n: "length d < 256 ^ 8" "length buf + keep + 1 \<le> ws_mem w"
    using assms(5-7) by (auto simp: WS_MAX_MESSAGE_def WS_HEAD_def keep_def)
  let ?w1 = "w\<lparr>ws_in := unmask m d @ rest\<rparr>"
  obtain c where c: "grow (length buf + keep + 1) (length buf + keep + 1) ?w1 = Some (?w1\<lparr>ws_cap := c\<rparr>)"
    using grow_enough [of "length buf + keep + 1" ?w1] n by auto
  have r: "read_full keep (?w1\<lparr>ws_cap := c\<rparr>) = (Some (take keep (unmask m d)), w\<lparr>ws_in := drop keep (unmask m d) @ rest, ws_cap := c\<rparr>)"
    using read_full_append [of "?w1\<lparr>ws_cap := c\<rparr>" "take keep (unmask m d)" "drop keep (unmask m d) @ rest" keep]
    by (simp add: keep_def append_assoc [symmetric] del: append_assoc)
  have sk: "skip (length d - keep) (w\<lparr>ws_in := drop keep (unmask m d) @ rest, ws_cap := c\<rparr>) = (True, w\<lparr>ws_in := rest, ws_cap := c\<rparr>)"
    using skip_append [of "w\<lparr>ws_in := drop keep (unmask m d) @ rest, ws_cap := c\<rparr>" "drop keep (unmask m d)" rest] by simp
  have k: "take keep d = kept buf d" by (auto simp: kept_def keep_def min_def)
  have b: "\<not> (8 \<le> op \<and> 125 < length d)"
    "op < 8 \<and> (over \<or> WS_MAX_MESSAGE < length d \<or> WS_MAX_MESSAGE < length buf + length d)"
    "\<not> (16 * WS_MAX_MESSAGE < length d \<or> 16 * WS_MAX_MESSAGE < length buf + length d)"
    using assms(2,4,5) by auto
  have op: "op < 16" using assms(2) by simp
  note simps = read_head_frame [OF assms(1) op n(1) assms(3)] Let_def prod.case option.case head.simps
  show ?thesis
    unfolding ws_recv_loop.simps [of buf first_op over w] simps if_not_P [OF b(1)] if_P [OF b(2)] if_not_P [OF b(3)]
      keep_def [symmetric] c r sk unmask_take k
    by (rule exI [of _ c]) simp
qed

lemma recv_over:
  assumes "pieces_ok ps" "op < 8" "over \<or> WS_MAX_MESSAGE < length buf + length (parts ps)" "length buf \<le> WS_MAX_MESSAGE"
    "length (parts ps) \<le> 15 * WS_MAX_MESSAGE" "WS_MAX_MESSAGE + 5000 \<le> ws_mem w" "ws_in w = pieces_bytes op ps @ rest"
  shows "\<exists>c k. ws_recv_loop buf first_op over w =
      (Ws_over (if op \<noteq> 0 then op else first_op) (buf @ take k (parts ps)), (answered w (pings ps))\<lparr>ws_in := rest, ws_cap := c\<rparr>)
    \<and> WS_HEAD \<le> length buf + k \<and> length buf + k \<le> WS_MAX_MESSAGE \<and> (over \<longrightarrow> k = WS_HEAD - length buf)"
  using assms
proof (induction ps arbitrary: op buf first_op over w)
  case (Cons p ps)
  show ?case
  proof (cases p)
    case (Part m d)
    then have w: "ws_in w = ws_frame (ps = []) op m d @ (pieces_bytes 0 ps @ rest)" using Cons.prems by simp
    define first' where "first' = (if op \<noteq> 0 then op else first_op)"
    consider (fits) "\<not> over" "length buf + length d \<le> WS_MAX_MESSAGE" | (big) "over \<or> WS_MAX_MESSAGE < length buf + length d"
      by linarith
    then show ?thesis
    proof cases
      case fits
      with Cons.prems(3) Part have ps: "ps \<noteq> []" by auto
      from recv_frame [OF w, of over buf first_op] Cons.prems Part fits ps
      obtain c where c: "ws_recv_loop buf first_op over w = ws_recv_loop (buf @ d) first' False (w\<lparr>ws_in := pieces_bytes 0 ps @ rest, ws_cap := c\<rparr>)"
        by (auto simp: Let_def first'_def)
      from Cons.IH [of 0 False "buf @ d" "w\<lparr>ws_in := pieces_bytes 0 ps @ rest, ws_cap := c\<rparr>" first'] Cons.prems Part fits ps
      obtain c' k where "ws_recv_loop (buf @ d) first' False (w\<lparr>ws_in := pieces_bytes 0 ps @ rest, ws_cap := c\<rparr>) =
          (Ws_over first' ((buf @ d) @ take k (parts ps)), (answered w (pings ps))\<lparr>ws_in := rest, ws_cap := c'\<rparr>)"
        "WS_HEAD \<le> length (buf @ d) + k" "length (buf @ d) + k \<le> WS_MAX_MESSAGE"
        by (auto simp: frame)
      then show ?thesis
        using fits c by - (rule exI [of _ c'], rule exI [of _ "length d + k"], auto simp: Part first'_def)
    next
      case big
      let ?b = "buf @ kept buf d"
      have kb: "length ?b \<le> WS_MAX_MESSAGE"
        using Cons.prems(4) by (simp add: kept_def WS_HEAD_def WS_MAX_MESSAGE_def)
      from recv_over_frame [OF w Cons.prems(2) _ big] Cons.prems Part
      obtain c where c: "ws_recv_loop buf first_op over w =
          (if ps = [] then (Ws_over first' ?b, w\<lparr>ws_in := pieces_bytes 0 ps @ rest, ws_cap := c\<rparr>)
           else ws_recv_loop ?b first' True (w\<lparr>ws_in := pieces_bytes 0 ps @ rest, ws_cap := c\<rparr>))"
        unfolding Let_def first'_def by fastforce
      show ?thesis
      proof (cases "ps = []")
        case True
        then show ?thesis using c Part Cons.prems(4) kb
          by - (rule exI [of _ c], rule exI [of _ "WS_HEAD - length buf"], auto simp: answered_def first'_def kept_def WS_HEAD_def WS_MAX_MESSAGE_def)
      next
        case False
        from Cons.IH [of 0 True ?b "w\<lparr>ws_in := pieces_bytes 0 ps @ rest, ws_cap := c\<rparr>" first'] Cons.prems Part False kb
        obtain c' where r: "ws_recv_loop ?b first' True (w\<lparr>ws_in := pieces_bytes 0 ps @ rest, ws_cap := c\<rparr>) =
            (Ws_over first' (?b @ take (WS_HEAD - length ?b) (parts ps)), (answered w (pings ps))\<lparr>ws_in := rest, ws_cap := c'\<rparr>)"
          by (auto simp: frame)
        have "?b @ take (WS_HEAD - length ?b) (parts ps) = buf @ take (WS_HEAD - length buf) (parts (p # ps))"
          by (simp add: kept_def Part min_def)
        then show ?thesis
          using c r False Part Cons.prems(4)
          by - (rule exI [of _ c'], rule exI [of _ "WS_HEAD - length buf"], auto simp: first'_def WS_HEAD_def WS_MAX_MESSAGE_def)
      qed
    qed
  next
    case (Control o' m d)
    then have w: "ws_in w = ws_frame True o' m d @ (pieces_bytes op ps @ rest)" using Cons.prems by simp
    define v where "v = (if o' = WS_PING then snd (send_frame WS_PONG d w) else w)"
    from recv_frame [OF w, of over buf first_op] Cons.prems Control
    have "\<exists>c. ws_recv_loop buf first_op over w = ws_recv_loop buf first_op over (v\<lparr>ws_in := pieces_bytes op ps @ rest, ws_cap := c\<rparr>)"
      by (cases "o' = WS_PING") (simp_all add: Let_def v_def frame)
    then obtain c where c: "ws_recv_loop buf first_op over w = ws_recv_loop buf first_op over (v\<lparr>ws_in := pieces_bytes op ps @ rest, ws_cap := c\<rparr>)" ..
    have answers: "answered w (pings (p # ps)) = answered v (pings ps)" by (simp add: v_def Control answered_def)
    have "ws_mem v = ws_mem w" by (simp add: v_def frame)
    with Cons.IH [of op over buf "v\<lparr>ws_in := pieces_bytes op ps @ rest, ws_cap := c\<rparr>" first_op] Cons.prems Control
    show ?thesis unfolding c answers by (simp add: frame split del: if_split)
  qed
qed simp



end
