(* ===== verification/Ledq.thy ===== *)
theory Ledq
  imports Prelude "HOL-Library.Sublist"
begin

text \<open>
  \<^verbatim>\<open>src/hassmic/ledq.c\<close>: hassmic's \<open>ledctrl\<close> calls, queued in a ring of 64 and run one \<open>ledctrl\<close> at a time by
  a thread of its own.  The lock makes \<open>ledq_args\<close>, \<open>ledq_start\<close>, the thread's taking of a batch and its coming
  back from running it one step each; any of the first two may come between the last two.  What a
  \<open>ledctrl\<close> does (runs to its end, hangs and is killed, cannot be started) is an argument, what was taken
  from the queue and what was run are logs.
\<close>

abbreviation (input) LEDQ_MAX :: nat where "LEDQ_MAX \<equiv> 64"
abbreviation (input) LEDQ_ARGS :: nat where "LEDQ_ARGS \<equiv> 4"
abbreviation (input) LEDQ_TIMEOUT_MS :: int where "LEDQ_TIMEOUT_MS \<equiv> 2000"
abbreviation (input) LEDQ_BATCH :: nat where "LEDQ_BATCH \<equiv> 32"

text \<open>\<open>struct call\<close>: its arguments, of which the array behind the last holds empty strings.\<close>

type_synonym call = "bytes list"

datatype outcome = Ran | Killed | Not_started

record ledq =
  lq_q :: "call list"
  lq_head :: nat
  lq_len :: nat
  lq_running :: bool
  lq_path :: bytes
  lq_fake :: bytes
  lq_timeout :: int
  lq_started :: bool
  lq_batch :: "call list"
  lq_bin :: bytes
  lq_taken :: "call list"
  lq_ran :: "(call list \<times> outcome) list"
  lq_file :: "bytes list"

definition ledq0 :: ledq where
  "ledq0 = \<lparr>lq_q = replicate LEDQ_MAX [], lq_head = 0, lq_len = 0, lq_running = False, lq_path = [], lq_fake = [],
            lq_timeout = LEDQ_TIMEOUT_MS, lq_started = False, lq_batch = [], lq_bin = [], lq_taken = [], lq_ran = [], lq_file = []\<rparr>"

section \<open>Calls\<close>

definition arg0 :: "call \<Rightarrow> bytes" where
  "arg0 c = (case c of [] \<Rightarrow> [] | a # as \<Rightarrow> a)"

definition is_set :: "call \<Rightarrow> bool" where
  "is_set c \<longleftrightarrow> arg0 c = ascii ''-s''"

definition is_unset :: "call \<Rightarrow> bool" where
  "is_unset c \<longleftrightarrow> arg0 c = ascii ''-u''"

definition pattern :: "call \<Rightarrow> bool" where
  "pattern c \<longleftrightarrow> length c = 2 \<and> (is_set c \<or> is_unset c)"

text \<open>\<open>text\<close>: the arguments with spaces between, as far as they fit the buffer.\<close>

definition call_text :: "nat \<Rightarrow> call list \<Rightarrow> bytes" where
  "call_text n cs =
     fit n (foldl (\<lambda>b a. if length b < n then b @ (if b = [] then [] else [0x20]) @ a else b) [] (concat cs))"

section \<open>The operations\<close>

definition slot :: "ledq \<Rightarrow> nat \<Rightarrow> nat" where
  "slot s i = (lq_head s + i) mod LEDQ_MAX"

definition waiting :: "ledq \<Rightarrow> nat \<Rightarrow> call" where
  "waiting s i = lq_q s ! slot s i"

text \<open>The oldest queued set: the loop's \<open>i\<close>, \<open>len\<close> when there is none.\<close>

fun first_set :: "ledq \<Rightarrow> nat \<Rightarrow> nat \<Rightarrow> nat" where
  "first_set s i 0 = i"
| "first_set s i (Suc n) = (if is_set (waiting s i) then i else first_set s (Suc i) n)"

text \<open>The calls behind it move up, one slot each.\<close>

fun move_up :: "nat \<Rightarrow> nat \<Rightarrow> ledq \<Rightarrow> ledq" where
  "move_up i 0 s = s"
| "move_up i (Suc n) s = move_up (Suc i) n (s\<lparr>lq_q := (lq_q s)[slot s i := waiting s (Suc i)]\<rparr>)"

definition enqueue :: "call \<Rightarrow> ledq \<Rightarrow> ledq" where
  "enqueue c s = s\<lparr>lq_q := (lq_q s)[slot s (lq_len s) := c], lq_len := lq_len s + 1\<rparr>"

definition put_call :: "call \<Rightarrow> ledq \<Rightarrow> ledq" where
  "put_call c s =
     (if lq_len s = LEDQ_MAX then
        (let i = first_set s 0 (lq_len s)
         in if i = lq_len s then s
            else enqueue c ((move_up i (lq_len s - 1 - i) s)\<lparr>lq_len := lq_len s - 1\<rparr>))
      else enqueue c s)"

definition ledq_args :: "bytes list \<Rightarrow> ledq \<Rightarrow> ledq" where
  "ledq_args args s =
     (let c = map (fit 48) (take LEDQ_ARGS args)
      in if lq_fake s \<noteq> [] then s\<lparr>lq_file := lq_file s @ [call_text 200 [c]]\<rparr>
         else if \<not> lq_started s then s
         else put_call c s)"

definition ledq_run :: "bytes \<Rightarrow> bytes \<Rightarrow> ledq \<Rightarrow> ledq" where
  "ledq_run op pat s = ledq_args [op, pat] s"

text \<open>\<open>created\<close>: whether the thread could be created.\<close>

definition ledq_start :: "bytes option \<Rightarrow> bytes option \<Rightarrow> int \<Rightarrow> bool \<Rightarrow> ledq \<Rightarrow> int \<times> ledq" where
  "ledq_start ledctrl fake_file timeout_ms created s =
     (let s1 = s\<lparr>lq_path := (case ledctrl of None \<Rightarrow> [] | Some p \<Rightarrow> fit 128 p),
                  lq_fake := (case fake_file of None \<Rightarrow> [] | Some p \<Rightarrow> fit 256 p),
                  lq_timeout := (if 0 < timeout_ms then timeout_ms else LEDQ_TIMEOUT_MS)\<rparr>
      in if \<not> lq_started s1 \<and> lq_path s1 \<noteq> [] then (if created then (0, s1\<lparr>lq_started := True\<rparr>) else (-1, s1)) else (0, s1))"

text \<open>The thread takes calls: one, and behind a pattern call the pattern calls that follow, 32 at most.\<close>

function batch_loop :: "call list \<Rightarrow> ledq \<Rightarrow> call list \<times> ledq" where
  "batch_loop c s =
     (let c1 = c @ [lq_q s ! lq_head s]; s1 = s\<lparr>lq_head := (lq_head s + 1) mod LEDQ_MAX, lq_len := lq_len s - 1\<rparr>
      in if 0 < lq_len s1 \<and> length c1 < LEDQ_BATCH \<and> pattern (c1 ! 0) \<and> pattern (lq_q s1 ! lq_head s1)
         then batch_loop c1 s1 else (c1, s1))"
  by pat_completeness auto
termination
  by (relation "measure (\<lambda>(c, s). lq_len s)") auto

declare batch_loop.simps [simp del]

definition thread_take :: "ledq \<Rightarrow> ledq" where
  "thread_take s =
     (if lq_len s = 0 \<or> lq_running s then s
      else (let (c, s1) = batch_loop [] s in s1\<lparr>lq_batch := c, lq_running := True, lq_bin := lq_path s1, lq_taken := lq_taken s1 @ c\<rparr>))"

definition exec_one :: "outcome \<Rightarrow> call list \<Rightarrow> ledq \<Rightarrow> bool \<times> ledq" where
  "exec_one r cs s = (r = Killed, s\<lparr>lq_ran := lq_ran s @ [(cs, r)]\<rparr>)"

text \<open>The unsets of a batch that was killed, each alone; \<open>rs\<close>, what happens to each of them.\<close>

fun rerun :: "outcome list \<Rightarrow> call list \<Rightarrow> ledq \<Rightarrow> ledq" where
  "rerun rs [] s = s"
| "rerun rs (c # cs) s =
     (if is_unset c then rerun (tl rs) cs (snd (exec_one (if rs = [] then Ran else hd rs) [c] s)) else rerun rs cs s)"

definition thread_run :: "outcome \<Rightarrow> outcome list \<Rightarrow> ledq \<Rightarrow> ledq" where
  "thread_run r rs s =
     (if \<not> lq_running s then s
      else (let c = lq_batch s;
                s1 = (if lq_bin s = [] then s
                      else (let (killed, s2) = exec_one r c s in if killed \<and> 1 < length c then rerun rs c s2 else s2))
            in s1\<lparr>lq_running := False, lq_batch := []\<rparr>))"

text \<open>What \<open>ledq_wait\<close> returns at its end.\<close>

definition ledq_busy :: "ledq \<Rightarrow> int" where
  "ledq_busy s = (if lq_len s \<noteq> 0 \<or> lq_running s then -1 else 0)"

section \<open>The queue as a list\<close>

definition queued :: "ledq \<Rightarrow> call list" where
  "queued s = map (waiting s) [0..<lq_len s]"

definition ledq_ok :: "ledq \<Rightarrow> bool" where
  "ledq_ok s \<longleftrightarrow> length (lq_q s) = LEDQ_MAX \<and> lq_head s < LEDQ_MAX \<and> lq_len s \<le> LEDQ_MAX"

text \<open>What the queue promises, on lists: a call joins at the end; in a full queue the oldest set gives way.\<close>

fun drop_set :: "call list \<Rightarrow> call list" where
  "drop_set [] = []"
| "drop_set (c # cs) = (if is_set c then cs else c # drop_set cs)"

definition put_spec :: "call \<Rightarrow> call list \<Rightarrow> call list" where
  "put_spec c cs =
     (if length cs < LEDQ_MAX then cs @ [c]
      else if \<exists>x\<in>set cs. is_set x then drop_set cs @ [c] else cs)"

text \<open>The calls a put takes in: all but those a full queue without a set refuses.\<close>

definition takes :: "call \<Rightarrow> call list \<Rightarrow> call list" where
  "takes c cs = (if length cs < LEDQ_MAX \<or> (\<exists>x\<in>set cs. is_set x) then [c] else [])"

definition batch_spec :: "call list \<Rightarrow> call list" where
  "batch_spec cs =
     (case cs of [] \<Rightarrow> [] | c # r \<Rightarrow> c # (if pattern c then take (LEDQ_BATCH - 1) (takeWhile pattern r) else []))"

lemma ring_slot_inj:
  fixes h i j :: nat
  assumes "(h + i) mod n = (h + j) mod n" "i < n" "j < n" "i \<le> j"
  shows "i = j"
proof -
  from assms(1,4) have "n dvd j - i" using mod_eq_dvd_iff_nat [of "h + i" "h + j" n] by simp
  with assms(3,4) show ?thesis by (auto dest: dvd_imp_le)
qed

lemma slot_inj: "i < LEDQ_MAX \<Longrightarrow> j < LEDQ_MAX \<Longrightarrow> slot s i = slot s j \<longleftrightarrow> i = j"
  unfolding slot_def using ring_slot_inj [of "lq_head s" i 64 j] ring_slot_inj [of "lq_head s" j 64 i]
  by (cases "i \<le> j") auto

lemma slot_upd [simp]:
  "slot (s\<lparr>lq_q := q\<rparr>) i = slot s i" "slot (s\<lparr>lq_len := n\<rparr>) i = slot s i"
  by (simp_all add: slot_def)

lemma slot_less: "slot s i < LEDQ_MAX"
  by (simp add: slot_def)

lemma waiting_update:
  assumes "ledq_ok s" "i < LEDQ_MAX" "j < LEDQ_MAX"
  shows "waiting (s\<lparr>lq_q := (lq_q s)[slot s i := x]\<rparr>) j = (if i = j then x else waiting s j)"
  using assms slot_inj [of i j s] slot_less [of s i] by (auto simp: waiting_def ledq_ok_def nth_list_update)

lemma waiting_len [simp]: "waiting (s\<lparr>lq_len := n\<rparr>) = waiting s"
  by (simp add: waiting_def fun_eq_iff)

lemma queued_enqueue:
  assumes "ledq_ok s" "lq_len s < LEDQ_MAX"
  shows "queued (enqueue c s) = queued s @ [c]" "ledq_ok (enqueue c s)"
proof -
  have "waiting (enqueue c s) j = (if j = lq_len s then c else waiting s j)" if "j \<le> lq_len s" for j
    using waiting_update [OF assms(1,2), of j c] that assms(2) by (auto simp: enqueue_def waiting_def)
  then show "queued (enqueue c s) = queued s @ [c]" by (simp add: queued_def) (simp add: enqueue_def)
  show "ledq_ok (enqueue c s)" using assms by (simp add: ledq_ok_def enqueue_def)
qed

lemma first_set_spec:
  "first_set s i n = i + length (takeWhile (\<lambda>c. \<not> is_set c) (map (waiting s) [i..<i + n]))"
  by (induction s i n rule: first_set.induct) (simp_all add: upt_conv_Cons del: upt_Suc)

lemma move_up_ok: "ledq_ok s \<Longrightarrow> ledq_ok (move_up i n s) \<and> lq_len (move_up i n s) = lq_len s"
  by (induction i n s rule: move_up.induct) (simp_all add: ledq_ok_def)

lemma move_up_waiting:
  assumes "ledq_ok s" "i + n < LEDQ_MAX" "j < LEDQ_MAX"
  shows "waiting (move_up i n s) j = (if i \<le> j \<and> j < i + n then waiting s (Suc j) else waiting s j)"
  using assms(1,2)
proof (induction i n s rule: move_up.induct)
  case (2 i n s)
  let ?s = "s\<lparr>lq_q := (lq_q s)[slot s i := waiting s (Suc i)]\<rparr>"
  have "ledq_ok ?s" using 2(2) by (simp add: ledq_ok_def)
  with 2 have "waiting (move_up i (Suc n) s) j = (if Suc i \<le> j \<and> j < Suc i + n then waiting ?s (Suc j) else waiting ?s j)" by simp
  moreover have "waiting ?s j = (if i = j then waiting s (Suc i) else waiting s j)"
    using waiting_update [OF 2(2), of i j] assms(3) 2(3) by simp
  moreover have "waiting ?s (Suc j) = (if i = Suc j then waiting s (Suc i) else waiting s (Suc j))" if "j < Suc i + n"
    using waiting_update [OF 2(2), of i "Suc j"] that 2(3) by simp
  ultimately show ?case by auto
qed auto

lemma drop_set_split:
  "\<exists>x\<in>set cs. is_set x \<Longrightarrow>
   drop_set cs = (let i = length (takeWhile (\<lambda>c. \<not> is_set c) cs) in take i cs @ drop (Suc i) cs)"
  by (induction cs) (auto simp: Let_def)

lemma takeWhile_none: "length (takeWhile (\<lambda>c. \<not> is_set c) cs) = length cs \<longleftrightarrow> \<not> (\<exists>x\<in>set cs. is_set x)"
  by (induction cs) auto

lemma queued_put:
  assumes "ledq_ok s"
  shows "queued (put_call c s) = put_spec c (queued s)" "ledq_ok (put_call c s)"
proof -
  let ?i = "first_set s 0 (lq_len s)"
  have i: "?i = length (takeWhile (\<lambda>c. \<not> is_set c) (queued s))" by (simp add: first_set_spec queued_def)
  have l: "length (queued s) = lq_len s" by (simp add: queued_def)
  consider (room) "lq_len s < LEDQ_MAX" | (none) "lq_len s = LEDQ_MAX" "?i = LEDQ_MAX" | (gives) "lq_len s = LEDQ_MAX" "?i < LEDQ_MAX"
    using assms length_takeWhile_le [of "\<lambda>c. \<not> is_set c" "queued s"] i l by (force simp: ledq_ok_def)
  then have "queued (put_call c s) = put_spec c (queued s) \<and> ledq_ok (put_call c s)"
  proof cases
    case room
    with queued_enqueue [OF assms room] l show ?thesis by (simp add: put_call_def put_spec_def)
  next
    case none
    with takeWhile_none [of "queued s"] i l assms show ?thesis by (simp add: put_call_def put_spec_def)
  next
    case gives
    let ?s = "(move_up ?i (LEDQ_MAX - 1 - ?i) s)\<lparr>lq_len := LEDQ_MAX - 1\<rparr>"
    from gives takeWhile_none [of "queued s"] i l have sets: "\<exists>x\<in>set (queued s). is_set x" by auto
    have ok: "ledq_ok ?s" using move_up_ok [OF assms] by (simp add: ledq_ok_def)
    have "queued ?s = take ?i (queued s) @ drop (Suc ?i) (queued s)"
    proof (rule nth_equalityI)
      show "length (queued ?s) = length (take ?i (queued s) @ drop (Suc ?i) (queued s))"
        using gives l by (simp add: queued_def)
      fix j assume "j < length (queued ?s)"
      then have j: "j < 63" by (simp add: queued_def)
      then show "queued ?s ! j = (take ?i (queued s) @ drop (Suc ?i) (queued s)) ! j"
        using move_up_waiting [OF assms, of ?i "LEDQ_MAX - 1 - ?i" j] gives l
        by (auto simp: queued_def nth_append min_def)
    qed
    with drop_set_split [OF sets] i have "queued ?s = drop_set (queued s)" by (simp add: Let_def)
    moreover have "lq_len ?s < LEDQ_MAX" by simp
    ultimately show ?thesis
      using queued_enqueue [OF ok, of c] gives sets l by (simp add: put_call_def put_spec_def Let_def)
  qed
  then show "queued (put_call c s) = put_spec c (queued s)" "ledq_ok (put_call c s)" by auto
qed

definition pop :: "ledq \<Rightarrow> ledq" where
  "pop s = s\<lparr>lq_head := (lq_head s + 1) mod LEDQ_MAX, lq_len := lq_len s - 1\<rparr>"

lemma pop_queued:
  assumes "ledq_ok s" "0 < lq_len s"
  shows "queued s = (lq_q s ! lq_head s) # queued (pop s)" "ledq_ok (pop s)"
proof -
  obtain n where n: "lq_len s = Suc n" using assms(2) by (cases "lq_len s") auto
  have w: "waiting (pop s) = (\<lambda>i. waiting s (Suc i))"
    by (simp add: waiting_def slot_def pop_def mod_simps fun_eq_iff)
  have "[0..<Suc n] = 0 # map Suc [0..<n]" unfolding map_Suc_upt by (rule upt_conv_Cons) simp
  then have "queued s = waiting s 0 # map (waiting s \<circ> Suc) [0..<n]" unfolding queued_def n by simp
  moreover have "waiting s 0 = lq_q s ! lq_head s" using assms(1) by (simp add: waiting_def slot_def ledq_ok_def)
  ultimately show "queued s = (lq_q s ! lq_head s) # queued (pop s)"
    by (simp add: queued_def w comp_def) (simp add: pop_def n)
  show "ledq_ok (pop s)" using assms(1) by (auto simp: ledq_ok_def pop_def)
qed

lemma batch_loop_pop:
  "batch_loop c s =
     (let c1 = c @ [lq_q s ! lq_head s]
      in if 0 < lq_len (pop s) \<and> length c1 < LEDQ_BATCH \<and> pattern (c1 ! 0) \<and> pattern (lq_q (pop s) ! lq_head (pop s))
         then batch_loop c1 (pop s) else (c1, pop s))"
  unfolding batch_loop.simps [of c s] Let_def pop_def by simp

definition taken :: "nat \<Rightarrow> bool \<Rightarrow> call list \<Rightarrow> nat" where
  "taken n p xs = Suc (if p then min (LEDQ_BATCH - 1 - n) (length (takeWhile pattern (tl xs))) else 0)"

lemma batch_loop_spec:
  assumes "ledq_ok s" "0 < lq_len s" "length c < LEDQ_BATCH"
  shows "batch_loop c s = (let k = taken (length c) (pattern ((c @ queued s) ! 0)) (queued s) in (c @ take k (queued s), (pop ^^ k) s))"
  using assms
proof (induction c s rule: batch_loop.induct)
  case (1 c s)
  define x p where "x = lq_q s ! lq_head s" and "p = pattern ((c @ [x]) ! 0)"
  have q: "queued s = x # queued (pop s)" and ok: "ledq_ok (pop s)"
    using pop_queued [OF 1(2,3)] by (simp_all add: x_def)
  have p: "p = pattern ((c @ queued s) ! 0)" by (cases c) (simp_all add: q p_def)
  have lp: "lq_len (pop s) = length (queued (pop s))" by (simp add: queued_def)
  show ?case
  proof (cases "0 < lq_len (pop s) \<and> length (c @ [x]) < LEDQ_BATCH \<and> p \<and> pattern (lq_q (pop s) ! lq_head (pop s))")
    case True
    have c1: "(c @ [x]) @ queued (pop s) = c @ queued s" by (simp add: q)
    have "batch_loop (c @ [x]) (pop s) = (let k = taken (length (c @ [x])) p (queued (pop s)) in ((c @ [x]) @ take k (queued (pop s)), (pop ^^ k) (pop s)))"
      unfolding p c1 [symmetric]
      by (rule 1(1) [OF refl refl, folded pop_def x_def]) (use True ok in \<open>auto simp: p_def x_def\<close>)
    moreover have "taken (length c) p (queued s) = Suc (taken (length (c @ [x])) p (queued (pop s)))"
      using True pop_queued [OF ok] by (cases "queued (pop s)") (auto simp: taken_def q lp)
    ultimately show ?thesis
      using True by (simp add: batch_loop_pop [of c s] Let_def x_def [symmetric] p_def [symmetric] p [unfolded q, symmetric] q funpow_swap1)
  next
    case False
    moreover have "taken (length c) p (queued s) = 1"
      using False pop_queued [OF ok] lp by (cases "queued (pop s)") (auto simp: taken_def q)
    ultimately show ?thesis
      by (auto simp: batch_loop_pop [of c s] Let_def x_def [symmetric] p_def [symmetric] p [unfolded q, symmetric] q)
  qed
qed

lemma pop_len: "lq_len (pop s) = lq_len s - 1"
  by (simp add: pop_def)

lemma pops:
  "ledq_ok s \<Longrightarrow> k \<le> lq_len s \<Longrightarrow> queued ((pop ^^ k) s) = drop k (queued s) \<and> ledq_ok ((pop ^^ k) s) \<and> lq_len ((pop ^^ k) s) = lq_len s - k"
proof (induction k)
  case (Suc k)
  let ?s = "(pop ^^ k) s"
  from Suc have s: "queued ?s = drop k (queued s)" "ledq_ok ?s" "0 < lq_len ?s" "lq_len ?s = lq_len s - k" by auto
  from pop_queued [OF s(2,3)] s(1) have "queued (pop ?s) = drop (Suc k) (queued s)" by (metis drop_Suc list.sel(3) tl_drop)
  with pop_queued [OF s(2,3)] s(4) show ?case by (simp add: pop_len)
qed simp

lemma batch_spec_take:
  assumes "cs \<noteq> []"
  shows "batch_spec cs = take (taken 0 (pattern (hd cs)) cs) cs" "taken 0 (pattern (hd cs)) cs \<le> length cs"
proof -
  obtain c r where cs: "cs = c # r" using assms by (cases cs) auto
  have "take n (takeWhile pattern r) = take (min n (length (takeWhile pattern r))) r" for n
    by (metis takeWhile_eq_take take_take)
  then show "batch_spec cs = take (taken 0 (pattern (hd cs)) cs) cs" by (simp add: batch_spec_def taken_def cs)
  show "taken 0 (pattern (hd cs)) cs \<le> length cs"
    using length_takeWhile_le [of pattern r] by (auto simp: taken_def cs min_def)
qed

lemma batch_prefix: "batch_spec cs @ drop (length (batch_spec cs)) cs = cs"
proof (cases "cs = []")
  case False
  with batch_spec_take [OF False] show ?thesis by simp
qed (simp add: batch_spec_def)

lemma queued_take:
  assumes "ledq_ok s" "queued s \<noteq> []"
  shows "fst (batch_loop [] s) = batch_spec (queued s)" "queued (snd (batch_loop [] s)) = drop (length (batch_spec (queued s))) (queued s)"
    "ledq_ok (snd (batch_loop [] s))"
proof -
  let ?k = "taken 0 (pattern (hd (queued s))) (queued s)"
  have l: "length (queued s) = lq_len s" by (simp add: queued_def)
  have "0 < lq_len s" using assms(2) l by (metis length_greater_0_conv)
  then have b: "batch_loop [] s = (take ?k (queued s), (pop ^^ ?k) s)"
    using batch_loop_spec [OF assms(1), of "[]"] assms(2) by (simp add: Let_def hd_conv_nth)
  show "fst (batch_loop [] s) = batch_spec (queued s)"
    "queued (snd (batch_loop [] s)) = drop (length (batch_spec (queued s))) (queued s)" "ledq_ok (snd (batch_loop [] s))"
    using pops [OF assms(1), of ?k] batch_spec_take [OF assms(2)] b l by simp_all
qed

section \<open>The interface\<close>

text \<open>A queue of calls that keeps its promise on lists.\<close>

locale call_queue =
  fixes ok :: "'s \<Rightarrow> bool"
    and calls :: "'s \<Rightarrow> call list"
    and put :: "call \<Rightarrow> 's \<Rightarrow> 's"
    and get :: "'s \<Rightarrow> call list \<times> 's"
  assumes put_ok: "ok s \<Longrightarrow> ok (put c s)"
    and calls_put: "ok s \<Longrightarrow> calls (put c s) = put_spec c (calls s)"
    and get_ok: "ok s \<Longrightarrow> calls s \<noteq> [] \<Longrightarrow> ok (snd (get s))"
    and calls_get: "ok s \<Longrightarrow> calls s \<noteq> [] \<Longrightarrow>
      fst (get s) = batch_spec (calls s) \<and> calls (snd (get s)) = drop (length (batch_spec (calls s))) (calls s)"
begin

lemma get_keeps: "ok s \<Longrightarrow> calls s \<noteq> [] \<Longrightarrow> fst (get s) @ calls (snd (get s)) = calls s"
  by (simp add: calls_get batch_prefix)

lemma drop_set_unsets: "filter is_unset (drop_set cs) = filter is_unset cs"
  by (induction cs) (auto simp: is_set_def is_unset_def ascii_def)

lemma drop_set_subseq: "subseq (drop_set cs) cs"
  by (induction cs) auto

lemma put_unsets: "ok s \<Longrightarrow> filter is_unset (calls (put c s)) = filter is_unset (calls s @ takes c (calls s))"
  by (simp add: calls_put put_spec_def takes_def drop_set_unsets)

lemma put_order: "ok s \<Longrightarrow> subseq (calls (put c s)) (calls s @ takes c (calls s))"
  by (simp add: calls_put put_spec_def takes_def drop_set_subseq list_emb_append_mono)

end

interpretation led: call_queue ledq_ok queued put_call "batch_loop []"
  by unfold_locales (simp_all add: queued_put queued_take)

section \<open>Any order of calls and of the thread's steps\<close>

datatype led_event =
    E_args "bytes list"
  | E_start "bytes option" "bytes option" int bool
  | E_take
  | E_run outcome "outcome list"

fun led_step :: "led_event \<Rightarrow> ledq \<Rightarrow> ledq" where
  "led_step (E_args as) s = ledq_args as s"
| "led_step (E_start p f ms cr) s = snd (ledq_start p f ms cr s)"
| "led_step E_take s = thread_take s"
| "led_step (E_run r rs) s = thread_run r rs s"

definition led_steps :: "led_event list \<Rightarrow> ledq \<Rightarrow> ledq" where
  "led_steps es s = foldl (\<lambda>s e. led_step e s) s es"

text \<open>The calls asked for that the queue took in.\<close>

fun accepts :: "led_event \<Rightarrow> ledq \<Rightarrow> call list" where
  "accepts (E_args as) s =
     (if lq_fake s = [] \<and> lq_started s then takes (map (fit 48) (take LEDQ_ARGS as)) (queued s) else [])"
| "accepts _ s = []"

fun accepted :: "led_event list \<Rightarrow> ledq \<Rightarrow> call list" where
  "accepted [] s = []"
| "accepted (e # es) s = accepts e s @ accepted es (led_step e s)"

lemma queued_upd [simp]:
  "queued (s\<lparr>lq_file := f\<rparr>) = queued s" "queued (s\<lparr>lq_ran := r\<rparr>) = queued s" "queued (s\<lparr>lq_running := b\<rparr>) = queued s"
  "queued (s\<lparr>lq_batch := c\<rparr>) = queued s" "queued (s\<lparr>lq_bin := p\<rparr>) = queued s" "queued (s\<lparr>lq_taken := t\<rparr>) = queued s"
  "queued (s\<lparr>lq_path := p\<rparr>) = queued s" "queued (s\<lparr>lq_fake := p\<rparr>) = queued s" "queued (s\<lparr>lq_timeout := i\<rparr>) = queued s"
  "queued (s\<lparr>lq_started := b\<rparr>) = queued s"
  by (simp_all add: queued_def waiting_def [abs_def] slot_def)

lemma rerun_frame [simp]:
  "lq_q (rerun rs cs s) = lq_q s" "lq_head (rerun rs cs s) = lq_head s" "lq_len (rerun rs cs s) = lq_len s"
  "lq_taken (rerun rs cs s) = lq_taken s"
  by (induction rs cs s rule: rerun.induct) (auto simp: exec_one_def)

lemma thread_run_frame:
  "queued (thread_run r rs s) = queued s \<and> ledq_ok (thread_run r rs s) = ledq_ok s \<and> lq_taken (thread_run r rs s) = lq_taken s"
  by (simp add: thread_run_def exec_one_def Let_def queued_def waiting_def [abs_def] slot_def ledq_ok_def)

lemma ledq_start_frame:
  "queued (snd (ledq_start p f ms cr s)) = queued s \<and> ledq_ok (snd (ledq_start p f ms cr s)) = ledq_ok s
   \<and> lq_taken (snd (ledq_start p f ms cr s)) = lq_taken s"
  by (simp add: ledq_start_def Let_def ledq_ok_def)

lemma put_call_taken: "lq_taken (put_call c s) = lq_taken s"
proof -
  have "lq_taken (move_up i n s) = lq_taken s" for i n s by (induction i n s rule: move_up.induct) simp_all
  then show ?thesis by (simp add: put_call_def enqueue_def Let_def)
qed

lemma batch_loop_taken: "lq_taken (snd (batch_loop c s)) = lq_taken s"
  by (induction c s rule: batch_loop.induct) (subst batch_loop.simps, simp add: Let_def)

lemma led_step_history:
  assumes "ledq_ok s"
  shows "ledq_ok (led_step e s)
    \<and> filter is_unset (lq_taken (led_step e s) @ queued (led_step e s)) = filter is_unset (lq_taken s @ queued s @ accepts e s)
    \<and> subseq (lq_taken (led_step e s) @ queued (led_step e s)) (lq_taken s @ queued s @ accepts e s)"
proof (cases e)
  case (E_args as)
  show ?thesis
  proof (cases "lq_fake s = [] \<and> lq_started s")
    case True
    then show ?thesis
      using led.put_unsets [OF assms] led.put_order [OF assms] led.put_ok [OF assms]
      by (simp add: E_args ledq_args_def Let_def put_call_taken list_emb_append_mono)
  next
    case False
    then show ?thesis using assms by (auto simp: E_args ledq_args_def Let_def ledq_ok_def)
  qed
next
  case E_take
  show ?thesis
  proof (cases "lq_len s = 0 \<or> lq_running s")
    case False
    then have q: "queued s \<noteq> []" by (simp add: queued_def)
    obtain c s1 where b: "batch_loop [] s = (c, s1)" by fastforce
    then have "c @ queued s1 = queued s" "ledq_ok s1" "lq_taken s1 = lq_taken s"
      using led.get_keeps [OF assms q] led.get_ok [OF assms q] batch_loop_taken [of "[]" s] by simp_all
    with False show ?thesis by (simp add: E_take thread_take_def b ledq_ok_def flip: filter_append)
  qed (use assms in \<open>simp add: E_take thread_take_def\<close>)
qed (use assms thread_run_frame ledq_start_frame in \<open>simp_all\<close>)

lemma led_steps_history:
  assumes "ledq_ok s"
  shows "ledq_ok (led_steps es s)
    \<and> filter is_unset (lq_taken (led_steps es s) @ queued (led_steps es s)) = filter is_unset (lq_taken s @ queued s @ accepted es s)
    \<and> subseq (lq_taken (led_steps es s) @ queued (led_steps es s)) (lq_taken s @ queued s @ accepted es s)"
  using assms
proof (induction es arbitrary: s)
  case (Cons e es)
  let ?s = "led_step e s"
  note h = led_step_history [OF Cons.prems, of e]
  from h Cons.IH [of ?s] have ih: "ledq_ok (led_steps es ?s)"
    "filter is_unset (lq_taken (led_steps es ?s) @ queued (led_steps es ?s)) = filter is_unset ((lq_taken ?s @ queued ?s) @ accepted es ?s)"
    "subseq (lq_taken (led_steps es ?s) @ queued (led_steps es ?s)) ((lq_taken ?s @ queued ?s) @ accepted es ?s)" by simp_all
  from h have "subseq ((lq_taken ?s @ queued ?s) @ accepted es ?s) ((lq_taken s @ queued s @ accepts e s) @ accepted es ?s)"
    by (intro list_emb_append_mono [where xs = "lq_taken ?s @ queued ?s"]) simp_all
  from subseq_order.trans [OF ih(3) this] ih(1,2) h show ?case by (simp add: led_steps_def)
qed (simp add: led_steps_def)

section \<open>Properties\<close>


lemma rerun_log:
  "length rs = length (filter is_unset cs) \<Longrightarrow> lq_ran (rerun rs cs s) = lq_ran s @ zip (map (\<lambda>c. [c]) (filter is_unset cs)) rs"
proof (induction rs cs s rule: rerun.induct)
  case (2 rs c cs s)
  then show ?case by (cases rs; cases "is_unset c") (simp_all add: exec_one_def)
qed simp

text \<open>
  A \<open>ledctrl\<close> that hung and was killed takes no unset with it: after a batch of several calls was killed, each of
  its unsets is run again in a \<open>ledctrl\<close> of its own, in order; a batch that ran is not repeated.
\<close>

theorem killed_unsets_rerun:
  assumes "lq_running s" "lq_bin s \<noteq> []" "1 < length (lq_batch s)" "length rs = length (filter is_unset (lq_batch s))"
  shows "lq_ran (thread_run Killed rs s) = lq_ran s @ (lq_batch s, Killed) # zip (map (\<lambda>c. [c]) (filter is_unset (lq_batch s))) rs
    \<and> lq_ran (thread_run Ran rs s) = lq_ran s @ [(lq_batch s, Ran)]"
  using assms by (simp add: thread_run_def exec_one_def Let_def rerun_log)

theorem killed_unsets_rerun_witness:
  "let u = [ascii ''-u'', ascii ''a'']; v = [ascii ''-s'', ascii ''b''];
       s = ledq0\<lparr>lq_running := True, lq_bin := [1], lq_batch := [u, v]\<rparr>
   in lq_ran (thread_run Killed [Ran] s) = [([u, v], Killed), ([u], Ran)]"
  using killed_unsets_rerun [of "ledq0\<lparr>lq_running := True, lq_bin := [1], lq_batch := [[ascii ''-u'', ascii ''a''], [ascii ''-s'', ascii ''b'']]\<rparr>" "[Ran]"]
  by (simp add: ledq0_def is_unset_def arg0_def ascii_def)

end
