(* ===== verification/Buttons.thy ===== *)
theory Buttons
  imports Prelude
begin

text \<open>
  \<^verbatim>\<open>src/hassmic/buttons.c\<close>: the keys.  A keypad's reader is a state machine over looks at the clock and key
  events; the mute state is shared with the readers of the privacy device and the poll of the latch.  The
  handlers' calls are the outputs.  \<open>now_ms\<close> and the latch's sysfs file are arguments; opening devices and
  the log lines are left out.
\<close>

abbreviation (input) SHORT_PRESS_MS :: int where "SHORT_PRESS_MS \<equiv> 1000"
abbreviation (input) COMBO_MS :: int where "COMBO_MS \<equiv> 2000"
abbreviation (input) CHORD_MS :: int where "CHORD_MS \<equiv> 400"

datatype button = BUTTON_ACTION | BUTTON_VOLUME_UP | BUTTON_VOLUME_DOWN

text \<open>A call of the handler: \<open>event(button, held)\<close>, \<open>hold(stage)\<close>, \<open>volume(step)\<close> and the rest.\<close>

datatype act = A_action | A_event button bool | A_hold nat | A_mute bool | A_volume int | A_pair

text \<open>Which handlers are set, the hold times and the board's settings.\<close>

record config =
  h_action :: bool
  h_event :: bool
  h_hold :: bool
  h_mute :: bool
  h_volume :: bool
  h_pair :: bool
  HOLD_WARN_MS :: int
  HOLD_RESET_MS :: int
  action_combo :: bool
  latched :: bool
  privacy_settle_ms :: int

definition tell :: "bool \<Rightarrow> act \<Rightarrow> act list" where
  "tell h a = (if h then [a] else [])"

section \<open>The mute state\<close>

record mute =
  muted_state :: bool
  early_until :: int
  early_state :: bool

definition buttons_muted :: "config \<Rightarrow> int \<Rightarrow> bool \<Rightarrow> mute \<Rightarrow> bool" where
  "buttons_muted g now latch m =
     (if \<not> latched g then muted_state m
      else if early_until m \<noteq> 0 \<and> now < early_until m then early_state m else latch)"

definition report :: "config \<Rightarrow> bool \<Rightarrow> mute \<Rightarrow> act list \<times> mute" where
  "report g now m = (if now \<noteq> muted_state m then (tell (h_mute g) (A_mute now), m\<lparr>muted_state := now\<rparr>) else ([], m))"

definition latch_check :: "config \<Rightarrow> int \<Rightarrow> bool \<Rightarrow> mute \<Rightarrow> act list \<times> mute" where
  "latch_check g now latch m =
     (let st = (if latched g then latch else buttons_muted g now latch m)
      in if early_until m \<noteq> 0 then
           (if st = muted_state m \<or> early_until m \<le> now then report g st (m\<lparr>early_until := 0\<rparr>) else ([], m))
         else report g st m)"

definition early_press :: "config \<Rightarrow> int \<Rightarrow> mute \<Rightarrow> act list \<times> mute" where
  "early_press g now m =
     (if early_until m = 0 then
        (let s = \<not> muted_state m
         in (tell (h_mute g) (A_mute s), m\<lparr>muted_state := s, early_state := s, early_until := now + privacy_settle_ms g\<rparr>))
      else ([], m))"

definition mute_key :: "config \<Rightarrow> int \<Rightarrow> bool \<Rightarrow> mute \<Rightarrow> act list \<times> mute" where
  "mute_key g now latch m =
     (if \<not> h_mute g then ([], m)
      else if latched g then latch_check g now latch m
      else ([A_mute (\<not> muted_state m)], m\<lparr>muted_state := \<not> muted_state m\<rparr>))"

section \<open>A keypad's reader\<close>

text \<open>The volume keys' state by \<open>k\<close>: \<open>False\<close> up, \<open>True\<close> down.\<close>

record reader =
  action_down :: int
  held :: nat
  action_told :: bool
  vol_down :: "bool \<Rightarrow> int"
  vol_told :: "bool \<Rightarrow> bool"
  combo_done :: bool

definition reader0 :: reader where
  "reader0 = \<lparr>action_down = 0, held = 0, action_told = False, vol_down = (\<lambda>k. 0), vol_told = (\<lambda>k. False), combo_done = False\<rparr>"

definition vol_button :: "bool \<Rightarrow> button" where
  "vol_button k = (if k then BUTTON_VOLUME_DOWN else BUTTON_VOLUME_UP)"

definition hold_ms :: "config \<Rightarrow> nat \<Rightarrow> int" where
  "hold_ms g h = (if h \<noteq> 0 then HOLD_RESET_MS g else HOLD_WARN_MS g)"

text \<open>The stages that are due by the clock: the action key's, then each volume key's.\<close>

definition stage_event :: "config \<Rightarrow> int \<Rightarrow> reader \<Rightarrow> act list \<times> reader" where
  "stage_event g now r =
     (if \<not> action_told r \<and> SHORT_PRESS_MS \<le> now - action_down r
      then (tell (h_event g) (A_event BUTTON_ACTION True), r\<lparr>action_told := True\<rparr>) else ([], r))"

definition stage_hold :: "config \<Rightarrow> int \<Rightarrow> reader \<Rightarrow> act list \<times> reader" where
  "stage_hold g now r =
     (if h_hold g \<and> held r < 2 \<and> hold_ms g (held r) \<le> now - action_down r
      then ([A_hold (Suc (held r))], r\<lparr>held := Suc (held r)\<rparr>) else ([], r))"

definition stage_action :: "config \<Rightarrow> int \<Rightarrow> reader \<Rightarrow> act list \<times> reader" where
  "stage_action g now r =
     (if action_down r = 0 then ([], r)
      else (let (a, r1) = stage_event g now r; (b, r2) = stage_hold g now r1 in (a @ b, r2)))"

definition stage_vol :: "config \<Rightarrow> int \<Rightarrow> bool \<Rightarrow> reader \<Rightarrow> act list \<times> reader" where
  "stage_vol g now k r =
     (if vol_down r k \<noteq> 0 \<and> \<not> vol_told r k \<and> SHORT_PRESS_MS \<le> now - vol_down r k
      then (tell (h_event g) (A_event (vol_button k) True), r\<lparr>vol_told := (vol_told r)(k := True)\<rparr>) else ([], r))"

definition stage :: "config \<Rightarrow> int \<Rightarrow> reader \<Rightarrow> act list \<times> reader" where
  "stage g now r =
     (let (a, r1) = stage_action g now r; (b, r2) = stage_vol g now False r1; (c, r3) = stage_vol g now True r2
      in (a @ b @ c, r3))"

text \<open>When the next stage is due, -1 for none: how long \<open>poll\<close> waits.\<close>

definition next_due :: "config \<Rightarrow> reader \<Rightarrow> int" where
  "next_due g r =
     (let n = (if action_down r = 0 then -1
               else if \<not> action_told r then action_down r + SHORT_PRESS_MS
               else if h_hold g \<and> held r < 2 then action_down r + hold_ms g (held r) else -1);
          sooner = (\<lambda>n k. if vol_down r k \<noteq> 0 \<and> \<not> vol_told r k \<and> (n < 0 \<or> vol_down r k + SHORT_PRESS_MS < n)
                          then vol_down r k + SHORT_PRESS_MS else n)
      in sooner (sooner n False) True)"

text \<open>Key events; \<open>value\<close> 1 down, 0 up, 2 a repeat.\<close>

datatype key = KEY_HELP | KEY_MUTE | KEY_VOLUMEUP | KEY_VOLUMEDOWN | KEY_OTHER

definition key_action :: "config \<Rightarrow> int \<Rightarrow> int \<Rightarrow> reader \<Rightarrow> act list \<times> reader" where
  "key_action g now val r =
     (if val = 1 then ([], r\<lparr>action_down := now, held := 0, action_told := False\<rparr>)
      else if val = 0 then
        ((if action_down r \<noteq> 0 \<and> now - action_down r < SHORT_PRESS_MS then tell (h_action g) A_action
          else if action_down r \<noteq> 0 \<and> \<not> action_told r then tell (h_event g) (A_event BUTTON_ACTION True) else [])
         @ (if held r = 1 then tell (h_hold g) (A_hold 0) else []),
         r\<lparr>action_down := 0, held := 0\<rparr>)
      else ([], r))"

definition both_down :: "reader \<Rightarrow> bool" where
  "both_down r \<longleftrightarrow> vol_down r False \<noteq> 0 \<and> vol_down r True \<noteq> 0"

definition vol_press :: "int \<Rightarrow> bool \<Rightarrow> reader \<Rightarrow> reader" where
  "vol_press now k r =
     (let r1 = r\<lparr>vol_down := (vol_down r)(k := now), vol_told := (vol_told r)(k := False)\<rparr>
      in if vol_down r1 (\<not> k) \<noteq> 0 then r1\<lparr>vol_told := (\<lambda>k. True)\<rparr> else r1)"

definition chord :: "config \<Rightarrow> int \<Rightarrow> reader \<Rightarrow> bool" where
  "chord g now r \<longleftrightarrow>
     action_combo g \<and> both_down r \<and> \<not> combo_done r \<and> \<bar>vol_down r False - vol_down r True\<bar> \<le> CHORD_MS
     \<and> now - max (vol_down r False) (vol_down r True) < SHORT_PRESS_MS"

definition vol_release :: "config \<Rightarrow> int \<Rightarrow> bool \<Rightarrow> reader \<Rightarrow> act list \<times> reader" where
  "vol_release g now k r =
     ((if chord g now r then tell (h_action g) A_action else [])
      @ (if vol_down r k \<noteq> 0 \<and> \<not> vol_told r k then
           (let long = SHORT_PRESS_MS \<le> now - vol_down r k
            in (if \<not> long then tell (h_volume g) (A_volume (if k then -1 else 1)) else []) @ tell (h_event g) (A_event (vol_button k) long))
         else []),
      r\<lparr>vol_down := (vol_down r)(k := 0), combo_done := False\<rparr>)"

definition pair_due :: "config \<Rightarrow> int \<Rightarrow> reader \<Rightarrow> bool" where
  "pair_due g now r \<longleftrightarrow>
     both_down r \<and> \<not> combo_done r \<and> COMBO_MS \<le> now - max (vol_down r False) (vol_down r True) \<and> h_pair g"

definition key_volume :: "config \<Rightarrow> int \<Rightarrow> bool \<Rightarrow> int \<Rightarrow> reader \<Rightarrow> act list \<times> reader" where
  "key_volume g now k val r =
     (let (a, r1) = (if val = 1 then ([], vol_press now k r) else if val = 0 then vol_release g now k r else ([], r))
      in if pair_due g now r1 then (a @ [A_pair], r1\<lparr>combo_done := True\<rparr>) else (a, r1))"

definition key_event :: "config \<Rightarrow> int \<Rightarrow> bool \<Rightarrow> key \<Rightarrow> int \<Rightarrow> reader \<times> mute \<Rightarrow> act list \<times> reader \<times> mute" where
  "key_event g now latch code val s =
     (case code of
        KEY_HELP \<Rightarrow> (let (a, r) = key_action g now val (fst s) in (a, r, snd s))
      | KEY_MUTE \<Rightarrow> (if val = 0 then (let (a, m) = mute_key g now latch (snd s) in (a, fst s, m)) else ([], s))
      | KEY_VOLUMEUP \<Rightarrow> (let (a, r) = key_volume g now False val (fst s) in (a, r, snd s))
      | KEY_VOLUMEDOWN \<Rightarrow> (let (a, r) = key_volume g now True val (fst s) in (a, r, snd s))
      | KEY_OTHER \<Rightarrow> ([], s))"

section \<open>Taking the keys over\<close>

text \<open>
  One turn of \<open>grab\<close>'s loop sees a key down or none (-1: cannot say), whether the grab works, and the key down once
  grabbed.  It waits on \<open>None\<close>; \<open>Some\<close> is whether the keys are ours.
\<close>

fun grab_loop :: "(int \<times> bool \<times> int) list \<Rightarrow> bool option" where
  "grab_loop [] = None"
| "grab_loop ((k, works, k') # ts) =
     (if k \<le> 0 then (if \<not> works then Some False else if k' \<le> 0 then Some True else grab_loop ts) else grab_loop ts)"

definition grab :: "bool \<Rightarrow> (int \<times> bool \<times> int) list \<Rightarrow> bool option" where
  "grab grab_keys ts = (if \<not> grab_keys then Some False else grab_loop ts)"

section \<open>Presses of the action key\<close>

text \<open>Looks at the clock, one after the other.\<close>

fun looks :: "config \<Rightarrow> int list \<Rightarrow> reader \<Rightarrow> act list \<times> reader" where
  "looks g [] r = ([], r)"
| "looks g (t # ts) r = (let (a, r1) = stage g t r; (b, r2) = looks g ts r1 in (a @ b, r2))"

definition action_press :: "config \<Rightarrow> int \<Rightarrow> int list \<Rightarrow> int \<Rightarrow> reader \<Rightarrow> act list" where
  "action_press g t0 ts t1 r =
     (let (a, r1) = key_action g t0 1 r; (b, r2) = looks g ts r1; (c, r3) = key_action g t1 0 r2 in a @ b @ c)"

definition volume_press :: "config \<Rightarrow> bool \<Rightarrow> int \<Rightarrow> int list \<Rightarrow> int \<Rightarrow> reader \<Rightarrow> act list" where
  "volume_press g k t0 ts t1 r =
     (let (a, r1) = key_volume g t0 k 1 r; (b, r2) = looks g ts r1; (c, r3) = key_volume g t1 k 0 r2 in a @ b @ c)"

fun is_press :: "act \<Rightarrow> bool" where
  "is_press A_action = True"
| "is_press (A_event b h) = (b = BUTTON_ACTION)"
| "is_press _ = False"

fun is_hold :: "act \<Rightarrow> bool" where
  "is_hold (A_hold n) = True"
| "is_hold _ = False"

lemma stage_idle:
  assumes "vol_down r = (\<lambda>k. 0)"
  shows "stage g t r = stage_action g t r"
proof -
  have "vol_down (snd (stage_action g t r)) = (\<lambda>k. 0)"
    using assms by (simp add: stage_action_def stage_event_def stage_hold_def)
  then show ?thesis
    by (cases "stage_action g t r") (simp add: stage_def stage_vol_def)
qed

lemma looks_action:
  assumes "looks g ts r = (a, r')" "vol_down r = (\<lambda>k. 0)" "action_down r = t0" "t0 \<noteq> 0" "h_event g" "h_hold g" "held r \<le> 2"
  shows "vol_down r' = (\<lambda>k. 0) \<and> action_down r' = t0
    \<and> filter is_press a = (if action_told r' \<and> \<not> action_told r then [A_event BUTTON_ACTION True] else [])
    \<and> (action_told r \<longrightarrow> action_told r') \<and> (action_told r' \<and> \<not> action_told r \<longrightarrow> (\<exists>t\<in>set ts. SHORT_PRESS_MS \<le> t - t0))
    \<and> held r \<le> held r' \<and> held r' \<le> 2 \<and> filter is_hold a = map A_hold [Suc (held r)..<Suc (held r')]
    \<and> (held r < 2 \<and> held r' = 2 \<longrightarrow> (\<exists>t\<in>set ts. HOLD_RESET_MS g \<le> t - t0))"
  using assms
proof (induction ts arbitrary: r a)
  case (Cons t ts)
  obtain b r1 where s: "stage g t r = (b, r1)" by fastforce
  obtain c where l: "looks g ts r1 = (c, r')" and a: "a = b @ c" using Cons.prems(1) s by (auto split: prod.splits)
  have sa: "stage_action g t r = (b, r1)" using s stage_idle [OF Cons.prems(2)] by simp
  then have r1: "vol_down r1 = (\<lambda>k. 0)" "action_down r1 = t0" "held r1 \<le> 2"
    "filter is_press b = (if action_told r1 \<and> \<not> action_told r then [A_event BUTTON_ACTION True] else [])"
    "action_told r \<longrightarrow> action_told r1" "action_told r1 \<and> \<not> action_told r \<longrightarrow> SHORT_PRESS_MS \<le> t - t0"
    "held r \<le> held r1" "filter is_hold b = map A_hold [Suc (held r)..<Suc (held r1)]"
    "held r < 2 \<and> held r1 = 2 \<longrightarrow> HOLD_RESET_MS g \<le> t - t0"
    using Cons.prems(2-) by (auto simp: stage_action_def stage_event_def stage_hold_def tell_def hold_ms_def split: if_splits)
  from Cons.IH [OF l r1(1,2) Cons.prems(4,5,6) r1(3)] have ih:
    "vol_down r' = (\<lambda>k. 0)" "action_down r' = t0"
    "filter is_press c = (if action_told r' \<and> \<not> action_told r1 then [A_event BUTTON_ACTION True] else [])"
    "action_told r1 \<longrightarrow> action_told r'" "action_told r' \<and> \<not> action_told r1 \<longrightarrow> (\<exists>t\<in>set ts. SHORT_PRESS_MS \<le> t - t0)"
    "held r1 \<le> held r'" "held r' \<le> 2" "filter is_hold c = map A_hold [Suc (held r1)..<Suc (held r')]"
    "held r1 < 2 \<and> held r' = 2 \<longrightarrow> (\<exists>t\<in>set ts. HOLD_RESET_MS g \<le> t - t0)" by auto
  have "filter is_hold a = map A_hold [Suc (held r)..<Suc (held r')]"
    using upt_add_eq_append [of "Suc (held r)" "Suc (held r1)" "held r' - held r1"] r1(7) ih(6)
    unfolding a filter_append r1(8) ih(8) map_append [symmetric] by (simp del: upt_Suc)
  moreover have "filter is_press a = (if action_told r' \<and> \<not> action_told r then [A_event BUTTON_ACTION True] else [])"
    unfolding a filter_append r1(4) ih(3) using r1(5) ih(4)
    by (cases "action_told r"; cases "action_told r1"; cases "action_told r'") simp_all
  moreover have "held r < 2 \<and> held r' = 2 \<longrightarrow> (\<exists>t\<in>set (t # ts). HOLD_RESET_MS g \<le> t - t0)"
    using r1(3,9) ih(9) by (cases "held r1 = 2") auto
  moreover have "action_told r' \<and> \<not> action_told r \<longrightarrow> (\<exists>t\<in>set (t # ts). SHORT_PRESS_MS \<le> t - t0)"
    using r1(6) ih(5) by auto
  ultimately show ?case using r1(5,7) ih(1,2,4,6,7) by auto
qed auto

text \<open>
  C33. A press of the action key means one thing: whatever looks at the clock fall between it going down and up, it is
  exactly one action when let go within the second, else exactly one hold event; and the ring's warning is either never
  shown, taken back on release, or followed by the reset, which needs the full hold.
\<close>

theorem action_press_once:
  assumes "vol_down r = (\<lambda>k. 0)" "h_action g" "h_event g" "h_hold g" "t0 \<noteq> 0" "\<forall>t\<in>set ts. t \<le> t1"
  shows "filter is_press (action_press g t0 ts t1 r) = [if t1 - t0 < SHORT_PRESS_MS then A_action else A_event BUTTON_ACTION True]
    \<and> filter is_hold (action_press g t0 ts t1 r) \<in> {[], [A_hold 1, A_hold 0], [A_hold 1, A_hold 2]}
    \<and> (A_hold 2 \<in> set (action_press g t0 ts t1 r) \<longrightarrow> HOLD_RESET_MS g \<le> t1 - t0)"
proof -
  let ?r = "r\<lparr>action_down := t0, held := 0, action_told := False\<rparr>"
  obtain b r2 where l: "looks g ts ?r = (b, r2)" by fastforce
  define c where "c = fst (key_action g t1 0 r2)"
  have p: "action_press g t0 ts t1 r = b @ c"
    by (simp add: action_press_def key_action_def c_def l Let_def)
  from looks_action [OF l] assms have f: "action_down r2 = t0"
    "filter is_press b = (if action_told r2 then [A_event BUTTON_ACTION True] else [])"
    "action_told r2 \<longrightarrow> (\<exists>t\<in>set ts. SHORT_PRESS_MS \<le> t - t0)"
    "held r2 \<le> 2" "filter is_hold b = map A_hold [1..<Suc (held r2)]"
    "held r2 = 2 \<longrightarrow> (\<exists>t\<in>set ts. HOLD_RESET_MS g \<le> t - t0)" by auto
  have told: "action_told r2 \<longrightarrow> SHORT_PRESS_MS \<le> t1 - t0" and reset: "held r2 = 2 \<longrightarrow> HOLD_RESET_MS g \<le> t1 - t0"
    using f(3,6) assms(6) by force+
  have c: "c = (if t1 - t0 < SHORT_PRESS_MS then [A_action] else if \<not> action_told r2 then [A_event BUTTON_ACTION True] else [])
      @ (if held r2 = 1 then [A_hold 0] else [])"
    using f(1) assms(2-5) by (simp add: c_def key_action_def tell_def)
  have h: "held r2 = 0 \<or> held r2 = 1 \<or> held r2 = 2" using f(4) by linarith
  have "filter is_press (b @ c) = [if t1 - t0 < SHORT_PRESS_MS then A_action else A_event BUTTON_ACTION True]"
    using f(2) told by (auto simp: c)
  moreover have hc: "filter is_hold c = (if held r2 = 1 then [A_hold 0] else [])" by (simp add: c)
  then have hb: "filter is_hold (b @ c) = (if held r2 = 0 then [] else if held r2 = 1 then [A_hold 1, A_hold 0] else [A_hold 1, A_hold 2])"
    using h f(5) by (auto simp: upt_rec)
  moreover have "A_hold 2 \<in> set (b @ c) \<longrightarrow> HOLD_RESET_MS g \<le> t1 - t0"
  proof
    assume "A_hold 2 \<in> set (b @ c)"
    then have "A_hold 2 \<in> set (filter is_hold (b @ c))" by simp
    then have "held r2 = 2" using h unfolding hb by (auto split: if_splits)
    with reset show "HOLD_RESET_MS g \<le> t1 - t0" by simp
  qed
  ultimately show ?thesis using h unfolding p hb by (auto split: if_splits)
qed

definition keys_all :: config where
  "keys_all = \<lparr>h_action = True, h_event = True, h_hold = True, h_mute = True, h_volume = True, h_pair = True,
               HOLD_WARN_MS = 5000, HOLD_RESET_MS = 10000, action_combo = False, latched = True, privacy_settle_ms = 1500\<rparr>"

theorem action_press_once_witness:
  "filter is_press (action_press keys_all 7 [600, 1010, 5200] 6000 reader0) = [A_event BUTTON_ACTION True]
   \<and> filter is_hold (action_press keys_all 7 [600, 1010, 5200] 6000 reader0) = [A_hold 1, A_hold 0]"
proof -
  have "filter is_hold (action_press keys_all 7 [600, 1010, 5200] 6000 reader0) = [A_hold 1, A_hold 0]"
    by (simp add: action_press_def key_action_def stage_idle stage_action_def stage_event_def stage_hold_def tell_def
          hold_ms_def keys_all_def reader0_def Let_def)
  with action_press_once [of reader0 keys_all 7 "[600, 1010, 5200]" 6000] show ?thesis
    by (simp add: keys_all_def reader0_def)
qed

section \<open>What is reported of the mute state\<close>

datatype mute_in = M_check int bool | M_press int | M_key int bool

fun mute_step :: "config \<Rightarrow> mute_in \<Rightarrow> mute \<Rightarrow> act list \<times> mute" where
  "mute_step g (M_check now latch) m = latch_check g now latch m"
| "mute_step g (M_press now) m = early_press g now m"
| "mute_step g (M_key now latch) m = mute_key g now latch m"

fun mute_steps :: "config \<Rightarrow> mute_in list \<Rightarrow> mute \<Rightarrow> act list \<times> mute" where
  "mute_steps g [] m = ([], m)"
| "mute_steps g (i # is) m = (let (a, m1) = mute_step g i m; (b, m2) = mute_steps g is m1 in (a @ b, m2))"

definition mute_ok :: "mute \<Rightarrow> bool" where
  "mute_ok m \<longleftrightarrow> (early_until m \<noteq> 0 \<longrightarrow> early_state m = muted_state m)"

text \<open>Each report says something new: it differs from the one before it.\<close>

fun news :: "bool \<Rightarrow> act list \<Rightarrow> bool option" where
  "news b [] = Some b"
| "news b (A_mute x # as) = (if x = b then None else news x as)"
| "news b (_ # as) = None"

lemma news_append: "news b (as @ bs) = (case news b as of None \<Rightarrow> None | Some x \<Rightarrow> news x bs)"
  by (induction b as rule: news.induct) auto

lemma mute_step_news:
  assumes "h_mute g" "mute_ok m" "latched g \<or> early_until m = 0" "\<And>t. i = M_press t \<Longrightarrow> latched g"
  shows "news (muted_state m) (fst (mute_step g i m)) = Some (muted_state (snd (mute_step g i m)))
    \<and> mute_ok (snd (mute_step g i m)) \<and> (latched g \<or> early_until (snd (mute_step g i m)) = 0)"
  using assms
  by (cases i) (auto simp: latch_check_def early_press_def mute_key_def report_def buttons_muted_def tell_def mute_ok_def Let_def)

lemma mute_steps_news:
  assumes "h_mute g" "mute_ok m" "latched g \<or> early_until m = 0" "\<forall>t. M_press t \<in> set is \<longrightarrow> latched g"
  shows "news (muted_state m) (fst (mute_steps g is m)) = Some (muted_state (snd (mute_steps g is m)))
    \<and> mute_ok (snd (mute_steps g is m)) \<and> (latched g \<or> early_until (snd (mute_steps g is m)) = 0)"
  using assms
proof (induction "is" arbitrary: m)
  case (Cons i "is")
  obtain a m1 where s: "mute_step g i m = (a, m1)" by fastforce
  from mute_step_news [OF Cons.prems(1-3), of i] Cons.prems(4) s
  have m1: "news (muted_state m) a = Some (muted_state m1)" "mute_ok m1" "latched g \<or> early_until m1 = 0" by auto
  from Cons.IH [OF Cons.prems(1) m1(2,3)] Cons.prems(4) show ?case
    by (cases "mute_steps g is m1") (auto simp: s news_append m1(1))
qed simp

text \<open>
  The mute state as reported is never repeated and never left wrong: over any mix of looks at the latch, early
  presses and mute keys, each report differs from the one before, the last one is the state kept and, while a press
  is ahead of the driver, the state anyone who asks is told; and a look once that time is over leaves the kept state
  equal to the latch.
\<close>

theorem mute_reports:
  assumes "h_mute g" "latched g" "mute_ok m"
  shows "let (as, m') = mute_steps g is m
    in news (muted_state m) as = Some (muted_state m')
       \<and> (\<forall>now latch. early_until m' \<noteq> 0 \<and> now < early_until m' \<longrightarrow> buttons_muted g now latch m' = muted_state m')
       \<and> (\<forall>now latch. early_until m' \<le> now \<longrightarrow>
            muted_state (snd (latch_check g now latch m')) = latch \<and> buttons_muted g now latch (snd (latch_check g now latch m')) = latch)"
proof -
  obtain as m' where r: "mute_steps g is m = (as, m')" by fastforce
  from mute_steps_news [OF assms(1,3), of "is"] assms(2) r have "news (muted_state m) as = Some (muted_state m')" "mute_ok m'" by auto
  with assms(2) show ?thesis
    by (auto simp: r buttons_muted_def latch_check_def report_def mute_ok_def Let_def)
qed

theorem mute_reports_witness:
  "let (as, m') = mute_steps keys_all [M_press 100, M_check 500 False, M_check 1700 True] \<lparr>muted_state = False, early_until = 0, early_state = False\<rparr>
   in as = [A_mute True] \<and> news False as = Some (muted_state m')"
proof -
  have "fst (mute_steps keys_all [M_press 100, M_check 500 False, M_check 1700 True] \<lparr>muted_state = False, early_until = 0, early_state = False\<rparr>) = [A_mute True]"
    by (simp add: early_press_def latch_check_def report_def tell_def keys_all_def buttons_muted_def)
  with mute_reports [of keys_all "\<lparr>muted_state = False, early_until = 0, early_state = False\<rparr>" "[M_press 100, M_check 500 False, M_check 1700 True]"]
  show ?thesis by (auto simp: keys_all_def mute_ok_def split: prod.splits)
qed

end
