(* ===== verification/Arb_State.thy ===== *)
theory Arb_State
  imports Hash "HOL-Library.Monad_Syntax"
begin

text \<open>
  \<^verbatim>\<open>src/hassmic/arb.c\<close>, part 1: the constants, the static variables as one record, the state
  file (\<open>save\<close>, \<open>load\<close>) and the packet counter reserved in it (\<open>next_ctr\<close>).

  The record \<open>arb\<close> holds every static variable that decides something; counts of C arrays are the
  lengths of lists, fixed tables are lists of their fixed length.  \<open>disk\<close> is what
  \<open>state/arbitration\<close> holds, line by line with its fields already scanned, \<open>disk_ok\<close> whether a
  write of it succeeds; \<open>sent\<close> and \<open>ksent\<close> collect the datagrams handed to the two sockets, oldest first.  The
  log is left out.  Monocypher is the argument \<open>crypto\<close>.
\<close>

section \<open>Third-party functions\<close>

record crypto =
  blake2b :: "nat \<Rightarrow> bytes \<Rightarrow> bytes"
  blake2b_keyed :: "nat \<Rightarrow> bytes \<Rightarrow> bytes \<Rightarrow> bytes"
  x25519 :: "bytes \<Rightarrow> bytes \<Rightarrow> bytes"
  x25519_public_key :: "bytes \<Rightarrow> bytes"
  aead_lock :: "bytes \<Rightarrow> bytes \<Rightarrow> bytes \<Rightarrow> bytes \<Rightarrow> bytes \<times> bytes"
  aead_unlock :: "bytes \<Rightarrow> bytes \<Rightarrow> bytes \<Rightarrow> bytes \<Rightarrow> bytes \<Rightarrow> bytes option"

section \<open>Constants\<close>

abbreviation (input) AUTO_START_MS :: int where "AUTO_START_MS \<equiv> 500"
abbreviation (input) AUTO_MIN_MS :: int where "AUTO_MIN_MS \<equiv> 150"
abbreviation (input) AUTO_MAX_MS :: int where "AUTO_MAX_MS \<equiv> 1000"
abbreviation (input) AUTO_MARGIN_MS :: int where "AUTO_MARGIN_MS \<equiv> 50"
abbreviation (input) AUTO_LEARN :: nat where "AUTO_LEARN \<equiv> 10"
abbreviation (input) AUTO_PEER_MIN :: nat where "AUTO_PEER_MIN \<equiv> 3"
abbreviation (input) MEASURE_MS :: int where "MEASURE_MS \<equiv> 1500"
abbreviation (input) NDELAY :: nat where "NDELAY \<equiv> 64"
abbreviation (input) OBS_KEEP :: nat where "OBS_KEEP \<equiv> 64"
abbreviation (input) RIVAL_DB :: int where "RIVAL_DB \<equiv> 300"
abbreviation (input) KERN_DB :: int where "KERN_DB \<equiv> 400"
abbreviation (input) D_NONE :: int where "D_NONE \<equiv> - 2147483648"
abbreviation (input) D_PRIO :: int where "D_PRIO \<equiv> 2147483647"
abbreviation (input) LOOKBACK_MS :: int where "LOOKBACK_MS \<equiv> 1000"
abbreviation (input) CTR_BLOCK :: u64 where "CTR_BLOCK \<equiv> 4096"
abbreviation (input) SCAN_N :: int where "SCAN_N \<equiv> 12"
abbreviation (input) NPEER :: nat where "NPEER \<equiv> 16"
abbreviation (input) NCLAIM :: nat where "NCLAIM \<equiv> 16"
abbreviation (input) NLEN :: nat where "NLEN \<equiv> 64"
abbreviation (input) BLOB :: nat where "BLOB \<equiv> 104"
abbreviation (input) ARB_MSG_MAX :: nat where "ARB_MSG_MAX \<equiv> 160"
abbreviation (input) NMSG :: nat where "NMSG \<equiv> 8"

abbreviation (input) T_BEACON :: byte where "T_BEACON \<equiv> 1"
abbreviation (input) T_CLAIM :: byte where "T_CLAIM \<equiv> 4"
abbreviation (input) T_PAIR :: byte where "T_PAIR \<equiv> 5"
abbreviation (input) T_GIVE :: byte where "T_GIVE \<equiv> 6"
abbreviation (input) T_MSG :: byte where "T_MSG \<equiv> 7"

abbreviation (input) F_QUIET :: byte where "F_QUIET \<equiv> 1"
abbreviation (input) F_KIOSK :: byte where "F_KIOSK \<equiv> 2"
abbreviation (input) F_HELLO :: byte where "F_HELLO \<equiv> 4"

text \<open>\<open>COPY_MS\<close>: when the second and third copy of a claim go out, after the first.\<close>

definition COPY_MS :: "int list" where
  "COPY_MS = [30, 80]"

text \<open>\<open>PACE\<close>: a time of the network's own pace, in per mille of the real one.\<close>

definition PACE :: "int \<Rightarrow> int \<Rightarrow> int" where
  "PACE p ms = ms * p div 1000"

section \<open>State\<close>

record peer =
  p_id :: bytes
  p_ctr :: u64
  p_seen :: int
  p_node :: bytes
  p_ip :: u32
  p_quiet :: bool
  p_kiosk :: bool

record claim =
  c_id :: bytes
  c_kw :: bytes
  c_score :: int
  c_prio :: int
  c_won :: bool
  c_at :: int

record cand =
  cd_pub :: bytes
  cd_node :: bytes
  cd_net :: u64
  cd_attested :: bool
  cd_tag0 :: bytes
  cd_ip :: u32
  cd_seen :: int
  cd_first :: int
  cd_pushed :: int
  cd_gave :: int
  cd_polled :: int

record push_req =
  q_node :: bytes
  q_net :: bytes
  q_key :: bytes

record preq =
  pq_pub :: bytes
  pq_node :: bytes
  pq_net :: u64
  pq_seen :: int

record obs =
  o_own :: int
  o_d :: int

record rival =
  r_id :: bytes
  r_n :: nat
  r_next :: u32
  r_at :: int
  r_o :: "obs list"

record delay =
  d_id :: bytes
  d_ms :: int

record got =
  g_id :: bytes
  g_slot :: u32
  g_when :: int

record want =
  w_id :: bytes
  w_waits :: bool

record heard_claim =
  h_id :: bytes
  h_at :: int
  h_score :: int
  h_prio :: int
  h_won :: bool

record round_state =
  rd_kw :: bytes
  rd_score :: int
  rd_prio :: int
  rd_kiosk :: bool
  rd_open :: bool
  rd_decided :: bool
  rd_won :: bool
  rd_dirty :: bool
  rd_at :: int
  rd_due :: int
  rd_got :: "got list"
  rd_want :: "want list"
  rd_heard :: "heard_claim list"

record kclaim =
  kc_id :: bytes
  kc_p :: bytes
  kc_n :: int
  kc_at :: int
  kc_e :: int

record copy =
  cp_p :: bytes
  cp_at :: int
  cp_left :: nat

record msg =
  m_from :: bytes
  m_p :: bytes
  m_node :: bytes
  m_ip :: u32

text \<open>The state file's lines, in the fields \<open>fprintf\<close> writes and \<open>sscanf\<close> reads.\<close>

datatype line =
    L_arbitrate bool
  | L_join bool
  | L_ctr u64
  | L_net u64 bytes
  | L_delay bytes int
  | L_obs bytes "obs list"

record arb =
  pace :: int
  running :: bool
  arbitrate :: bool
  node :: bytes
  sk :: bytes
  pk :: bytes
  in_net :: bool
  net_id :: u64
  net_key :: bytes
  mac_key :: bytes
  ctr :: u64
  ctr_saved :: u64
  ctr_known :: bool
  started :: int
  beacon_at :: int
  answer_at :: int
  beacon_gap :: int
  hello_until :: int
  reported_peers :: int
  notify :: bool
  peers :: "peer list"
  claims :: "claim list"
  claim_next :: u32
  cands :: "cand list"
  pushes :: "push_req list"
  polls :: "bytes list"
  self_tag :: bytes
  scan_at :: int
  scans :: int
  scan_due :: bool
  sped :: int
  ha_since :: int
  preqs :: "preq list"
  pair_at :: int
  pair_until :: int
  pair_sent :: int
  give_at :: int
  pair_gave :: bool
  give_left :: nat
  pair_event :: int
  give_pkt :: bytes
  rnd :: round_state
  rivals :: "rival list"
  rivals_on :: bool
  delays :: "delay list"
  ndelay :: u32
  wauto :: bool
  unsaved :: bool
  saved_at :: int
  kiosk_mode :: bool
  kwindow :: int
  koffset :: int
  ksock :: bool
  kid :: bytes
  kclaims :: "kclaim list"
  kclaim_next :: u32
  kheard :: int
  kround_p :: bytes
  kround_e :: int
  kfailed :: int
  kpkt :: bytes
  kcopies :: nat
  kcopy_at :: int
  ksent :: "bytes list"
  copies :: "copy list"
  msgs :: "msg list"
  sent :: "bytes list"
  disk :: "line list option"
  disk_ok :: bool
  key_disk :: "bytes option"

definition peer0 :: peer where
  "peer0 = \<lparr>p_id = replicate 8 0, p_ctr = 0, p_seen = 0, p_node = [], p_ip = 0, p_quiet = False, p_kiosk = False\<rparr>"

definition claim0 :: claim where
  "claim0 = \<lparr>c_id = replicate 8 0, c_kw = replicate 8 0, c_score = 0, c_prio = 0, c_won = False, c_at = 0\<rparr>"

definition cand0 :: cand where
  "cand0 = \<lparr>cd_pub = replicate 32 0, cd_node = [], cd_net = 0, cd_attested = False, cd_tag0 = [], cd_ip = 0,
            cd_seen = 0, cd_first = 0, cd_pushed = 0, cd_gave = 0, cd_polled = 0\<rparr>"

definition preq0 :: preq where
  "preq0 = \<lparr>pq_pub = replicate 32 0, pq_node = [], pq_net = 0, pq_seen = 0\<rparr>"

definition rival0 :: rival where
  "rival0 = \<lparr>r_id = replicate 8 0, r_n = 0, r_next = 0, r_at = 0, r_o = replicate 64 \<lparr>o_own = 0, o_d = 0\<rparr>\<rparr>"

definition delay0 :: delay where
  "delay0 = \<lparr>d_id = replicate 8 0, d_ms = 0\<rparr>"

definition kclaim0 :: kclaim where
  "kclaim0 = \<lparr>kc_id = [], kc_p = [], kc_n = 0, kc_at = 0, kc_e = 0\<rparr>"

definition round0 :: round_state where
  "round0 = \<lparr>rd_kw = replicate 8 0, rd_score = 0, rd_prio = 0, rd_kiosk = False, rd_open = False, rd_decided = False,
             rd_won = False, rd_dirty = False, rd_at = 0, rd_due = 0, rd_got = [], rd_want = [], rd_heard = []\<rparr>"

text \<open>The static initialisers: a process just started, with what its disk holds.\<close>

definition arb0 :: "line list option \<Rightarrow> bytes option \<Rightarrow> arb" where
  "arb0 d kd = \<lparr>
     pace = 1000, running = False, arbitrate = True, node = [], sk = replicate 32 0, pk = replicate 32 0,
     in_net = False, net_id = 0, net_key = replicate 32 0, mac_key = replicate 32 0,
     ctr = 0, ctr_saved = 0, ctr_known = False,
     started = 0, beacon_at = 0, answer_at = 0, beacon_gap = 0, hello_until = 0, reported_peers = -1, notify = False,
     peers = replicate 16 peer0, claims = replicate 16 claim0, claim_next = 0, cands = replicate 16 cand0,
     pushes = [], polls = [], self_tag = [], scan_at = 0, scans = 0, scan_due = False, sped = 0, ha_since = 0,
     preqs = replicate 16 preq0, pair_at = 0, pair_until = 0, pair_sent = 0, give_at = 0, pair_gave = False,
     give_left = 0, pair_event = 0, give_pkt = replicate 149 0,
     rnd = round0, rivals = replicate 16 rival0, rivals_on = True, delays = replicate 64 delay0, ndelay = 0,
     wauto = True, unsaved = False, saved_at = 0,
     kiosk_mode = False, kwindow = 400, koffset = 0, ksock = False, kid = [],
     kclaims = replicate 16 kclaim0, kclaim_next = 0, kheard = 0, kround_p = [], kround_e = 0,
     kfailed = 0, kpkt = [], kcopies = 0, kcopy_at = 0, ksent = [],
     copies = replicate 2 \<lparr>cp_p = [], cp_at = 0, cp_left = 0\<rparr>, msgs = [], sent = [],
     disk = d, disk_ok = True, key_disk = kd\<rparr>"

section \<open>Rivals: the rounds kept per member\<close>

definition rival_new :: "bytes \<Rightarrow> rival" where
  "rival_new i = rival0\<lparr>r_id := i\<rparr>"

text \<open>
  \<open>rival(id, make)\<close>: the member's entry, else a fresh one in place of an empty or the oldest entry
  (\<open>make\<close>), else \<open>NULL\<close>.
\<close>

definition rival_find :: "bytes \<Rightarrow> rival list \<Rightarrow> nat + nat" where
  "rival_find i t = slot_find (\<lambda>v. r_n v \<noteq> 0 \<and> r_id v = i) (\<lambda>v w. r_n v = 0 \<or> r_at v < r_at w) t"

definition rival :: "bytes \<Rightarrow> rival list \<Rightarrow> nat \<times> rival list" where
  "rival i t = (case rival_find i t of Inl j \<Rightarrow> (j, t) | Inr j \<Rightarrow> (j, t[j := rival_new i]))"

definition rival_get :: "bytes \<Rightarrow> rival list \<Rightarrow> rival option" where
  "rival_get i t = (case rival_find i t of Inl j \<Rightarrow> Some (t ! j) | Inr j \<Rightarrow> None)"

definition observe :: "rival \<Rightarrow> int \<Rightarrow> int \<Rightarrow> int \<Rightarrow> rival" where
  "observe v own d at =
     v\<lparr>r_o := (r_o v)[unat (r_next v) mod OBS_KEEP := \<lparr>o_own = own, o_d = d\<rparr>],
       r_next := r_next v + 1, r_at := at, r_n := (if r_n v < OBS_KEEP then Suc (r_n v) else r_n v)\<rparr>"

text \<open>The rounds kept, oldest first: from \<open>next - n\<close> to \<open>next\<close>, modulo the ring.\<close>

definition rival_obs :: "rival \<Rightarrow> obs list" where
  "rival_obs v = map (\<lambda>k. r_o v ! (unat (r_next v - of_nat (r_n v) + of_nat k) mod OBS_KEEP)) [0..<r_n v]"

section \<open>The state file\<close>

definition delay_order :: "arb \<Rightarrow> delay list" where
  "delay_order s =
     (let n = unat (ndelay s)
      in map (\<lambda>i. delays s ! (i mod NDELAY)) [(if n > NDELAY then n - NDELAY else 0)..<n])"

definition state_lines :: "arb \<Rightarrow> line list" where
  "state_lines s =
     [L_arbitrate (arbitrate s), L_ctr (ctr_saved s)]
     @ (if in_net s then [L_net (net_id s) (net_key s)] else [])
     @ map (\<lambda>d. L_delay (d_id d) (d_ms d)) (filter (\<lambda>d. 0 \<le> d_ms d) (delay_order s))
     @ map (\<lambda>v. L_obs (r_id v) (rival_obs v)) (filter (\<lambda>v. r_n v \<noteq> 0) (rivals s))"

definition save :: "arb \<Rightarrow> arb" where
  "save s = (if disk_ok s then s\<lparr>disk := Some (state_lines s)\<rparr> else s)"

definition mac_label :: bytes where
  "mac_label = ascii ''hassmic arbitration mac''"

definition derive :: "crypto \<Rightarrow> arb \<Rightarrow> arb" where
  "derive C s = s\<lparr>mac_key := blake2b_keyed C 32 (net_key s) mac_label\<rparr>"

definition put_delay :: "delay \<Rightarrow> arb \<Rightarrow> arb" where
  "put_delay d s = s\<lparr>delays := (delays s)[unat (ndelay s) mod NDELAY := d], ndelay := ndelay s + 1\<rparr>"

definition obs_ok :: "obs \<Rightarrow> bool" where
  "obs_ok x \<longleftrightarrow> -100000 \<le> o_own x \<and> o_own x \<le> 100000 \<and> D_NONE \<le> o_d x \<and> o_d x \<le> D_PRIO"

fun load_line :: "crypto \<Rightarrow> arb \<Rightarrow> line \<Rightarrow> arb" where
  "load_line C s (L_arbitrate b) = s\<lparr>arbitrate := b\<rparr>"
| "load_line C s (L_join b) = s\<lparr>arbitrate := b\<rparr>"
| "load_line C s (L_ctr v) = s\<lparr>ctr_saved := v, ctr_known := True\<rparr>"
| "load_line C s (L_net v k) =
     (if v \<noteq> 0 \<and> length k = 32 then derive C (s\<lparr>net_key := k, net_id := v, in_net := True\<rparr>) else s)"
| "load_line C s (L_delay i ms) =
     (if length i = 8 \<and> 0 \<le> ms \<and> ms \<le> MEASURE_MS then put_delay \<lparr>d_id = i, d_ms = ms\<rparr> s else s)"
| "load_line C s (L_obs i os) =
     (if length i = 8 then
        (let (j, t) = rival i (rivals s);
             v = foldl (\<lambda>v x. observe v (o_own x) (o_d x) 1) (t ! j) (takeWhile obs_ok os)
         in s\<lparr>rivals := t[j := (if r_n v = 0 then rival0 else v)]\<rparr>)
      else s)"

definition load :: "crypto \<Rightarrow> arb \<Rightarrow> arb" where
  "load C s = (case disk s of None \<Rightarrow> s | Some ls \<Rightarrow> foldl (load_line C) s ls)"

text \<open>
  \<open>identity(renew)\<close>: the key file's key, or a new one (\<open>r\<close>, the random bytes) when there is none
  or no counter is known; \<open>None\<close> when the new one cannot be written.
\<close>

definition identity :: "crypto \<Rightarrow> bool \<Rightarrow> bytes \<Rightarrow> arb \<Rightarrow> arb option" where
  "identity C renew r s =
     (case (if renew then None else case key_disk s of Some k \<Rightarrow> if length k = 32 then Some k else None | None \<Rightarrow> None) of
        Some k \<Rightarrow> Some (s\<lparr>sk := k, pk := x25519_public_key C k\<rparr>)
      | None \<Rightarrow> (if disk_ok s then Some (s\<lparr>sk := r, pk := x25519_public_key C r, key_disk := Some r\<rparr>) else None))"

definition next_ctr :: "arb \<Rightarrow> u64 \<times> arb" where
  "next_ctr s =
     (let c = ctr s + 1
      in (c, if ctr_saved s \<le> c then save (s\<lparr>ctr := c, ctr_saved := c + CTR_BLOCK\<rparr>) else s\<lparr>ctr := c\<rparr>))"

section \<open>The rings and tables keep their contracts\<close>

definition rival_ok :: "rival \<Rightarrow> bool" where
  "rival_ok v \<longleftrightarrow> length (r_o v) = OBS_KEEP \<and> r_n v \<le> OBS_KEEP"

lemma observe_ok: "rival_ok v \<Longrightarrow> rival_ok (observe v own d at)"
  by (auto simp: rival_ok_def observe_def)

lemma rival_obs_slot:
  assumes "rival_ok v" "m < OBS_KEEP" "0 < m"
  shows "(r_o v)[unat (r_next v) mod OBS_KEEP := x] ! (unat (r_next v - of_nat m) mod OBS_KEEP)
       = r_o v ! (unat (r_next v - of_nat m) mod OBS_KEEP)"
proof -
  have "unat (r_next v - of_nat m) mod OBS_KEEP \<noteq> unat (r_next v) mod OBS_KEEP"
  proof
    assume "unat (r_next v - of_nat m) mod OBS_KEEP = unat (r_next v) mod OBS_KEEP"
    then have "unat ((r_next v - of_nat m) + of_nat m) mod 64 = unat (r_next v - of_nat m) mod 64" by simp
    from ring_index_inj [OF this] assms show False by simp
  qed
  then show ?thesis by simp
qed

lemma rival_obs_observe:
  assumes "rival_ok v"
  shows "rival_obs (observe v own d at) = newest OBS_KEEP (rival_obs v @ [\<lparr>o_own = own, o_d = d\<rparr>])"
proof (cases "r_n v < OBS_KEEP")
  case True
  let ?x = "\<lparr>o_own = own, o_d = d\<rparr>"
  have "rival_obs (observe v own d at) ! k = (rival_obs v @ [?x]) ! k" if "k < Suc (r_n v)" for k
  proof (cases "k < r_n v")
    case k: True
    have e: "r_next v - of_nat (r_n v) + of_nat k = r_next v - of_nat (r_n v - k)"
      using k by (simp add: of_nat_diff)
    from k True assms show ?thesis
      using rival_obs_slot [OF assms, of "r_n v - k" ?x]
      by (simp add: rival_obs_def observe_def nth_append del: upt_Suc)  (simp add: e)
  next
    case False
    with that have "k = r_n v" by simp
    with True assms show ?thesis
      by (simp add: rival_obs_def observe_def nth_append rival_ok_def del: upt_Suc)
  qed
  then have "rival_obs (observe v own d at) = rival_obs v @ [?x]"
    using True by (intro nth_equalityI) (simp_all add: rival_obs_def observe_def del: upt_Suc)
  with True show ?thesis by (simp add: newest_small rival_obs_def)
next
  case False
  with assms have n: "r_n v = 64" by (simp add: rival_ok_def)
  let ?x = "\<lparr>o_own = own, o_d = d\<rparr>"
  have "rival_obs (observe v own d at) ! k = (tl (rival_obs v) @ [?x]) ! k" if "k < 64" for k
  proof (cases "k < 63")
    case k: True
    have e: "r_next v + 1 - 64 + of_nat k = r_next v - of_nat (63 - k)"
      using k by (simp add: of_nat_diff)
    have e': "r_next v - 64 + of_nat (Suc k) = r_next v - of_nat (63 - k)"
      using k by (simp add: of_nat_diff)
    from k n have new: "rival_obs (observe v own d at) ! k
        = (r_o v)[unat (r_next v) mod 64 := ?x] ! (unat (r_next v + 1 - 64 + of_nat k) mod 64)"
      by (simp add: rival_obs_def observe_def del: upt_Suc)
    from k n have "(tl (rival_obs v) @ [?x]) ! k = r_o v ! (unat (r_next v - 64 + of_nat (Suc k)) mod 64)"
      by (simp add: rival_obs_def nth_append nth_tl del: upt_Suc)
    with new k show ?thesis
      using rival_obs_slot [OF assms, of "63 - k" ?x] by (simp only: e e')
  next
    case False
    with that have "k = 63" by simp
    with n assms show ?thesis
      by (simp add: rival_obs_def observe_def nth_append rival_ok_def del: upt_Suc)
  qed
  then have "rival_obs (observe v own d at) = tl (rival_obs v) @ [?x]"
    using n by (intro nth_equalityI) (simp_all add: rival_obs_def observe_def del: upt_Suc)
  with n show ?thesis by (simp add: newest_def rival_obs_def drop_Suc del: upt_Suc)
qed

interpretation rounds_kept: keep_last OBS_KEEP rival_ok rival_obs "\<lambda>x v. observe v (o_own x) (o_d x) at"
  for at :: int
proof unfold_locales
  fix r and x :: obs
  assume "rival_ok r"
  then show "rival_obs (observe r (o_own x) (o_d x) at) = newest OBS_KEEP (rival_obs r @ [x])"
    by (cases x) (simp add: rival_obs_observe)
qed (simp_all add: observe_ok)

interpretation rival_table: slot_table "\<lambda>v. r_n v \<noteq> 0" r_id rival_new rival
  by (rule slot_table_scan [where older = "\<lambda>v w. r_n v = 0 \<or> r_at v < r_at w"])
     (simp_all add: rival_new_def rival_def rival_find_def)

end
