(* ===== verification/Arb_Packet.thy ===== *)
theory Arb_Packet
  imports Arb_State
begin

text \<open>
  \<^verbatim>\<open>src/hassmic/arb.c\<close>, part 2: writing and reading the datagrams, and the table of members with
  the counter last taken from each.  The reader's \<open>bad\<close> flag is the \<open>None\<close> of the option monad:
  every handler returns before it uses a value read once the flag is up.
\<close>

section \<open>Writing\<close>

definition put :: "bytes \<Rightarrow> bytes \<Rightarrow> bytes" where
  "put b d = (if length b + length d \<le> 256 then b @ d else b)"

definition put64 :: "bytes \<Rightarrow> u64 \<Rightarrow> bytes" where
  "put64 b v = put b (le_enc 8 v)"

definition HMA1 :: bytes where
  "HMA1 = ascii ''HMA1''"

definition head_pkt :: "byte \<Rightarrow> bytes" where
  "head_pkt t = put (put [] HMA1) [t]"

definition tag :: "crypto \<Rightarrow> arb \<Rightarrow> bytes \<Rightarrow> bytes" where
  "tag C s b = put b (blake2b_keyed C 16 (mac_key s) b)"

definition tag_ok :: "crypto \<Rightarrow> arb \<Rightarrow> bytes \<Rightarrow> bool" where
  "tag_ok C s p \<longleftrightarrow>
     16 \<le> length p \<and> blake2b_keyed C 16 (mac_key s) (take (length p - 16) p) = drop (length p - 16) p"

definition send_pkt :: "bytes \<Rightarrow> arb \<Rightarrow> arb" where
  "send_pkt b s = s\<lparr>sent := sent s @ [b]\<rparr>"

text \<open>Sent now, and noted for the loop's two later copies: in a free slot, else the older one's.\<close>

definition send_spread :: "bytes \<Rightarrow> int \<Rightarrow> arb \<Rightarrow> arb" where
  "send_spread b now s =
     (let i = (if cp_left (copies s ! 0) = 0 then 0
               else if cp_left (copies s ! 1) = 0 then 1
               else if cp_at (copies s ! 1) < cp_at (copies s ! 0) then 1 else 0)
      in (send_pkt b s)\<lparr>copies := (copies s)[i := \<lparr>cp_p = b, cp_at = now, cp_left = 2\<rparr>]\<rparr>)"

section \<open>Reading\<close>

definition take_n :: "nat \<Rightarrow> bytes \<Rightarrow> (bytes \<times> bytes) option" where
  "take_n n p = (if length p < n then None else Some (take n p, drop n p))"

definition get64 :: "bytes \<Rightarrow> (u64 \<times> bytes) option" where
  "get64 p = do { (q, r) \<leftarrow> take_n 8 p; Some (le_dec q, r) }"

definition islower_b :: "byte \<Rightarrow> bool" where
  "islower_b c \<longleftrightarrow> 0x61 \<le> c \<and> c \<le> 0x7a"

definition isdigit_b :: "byte \<Rightarrow> bool" where
  "isdigit_b c \<longleftrightarrow> 0x30 \<le> c \<and> c \<le> 0x39"

definition valid_node :: "bytes \<Rightarrow> bool" where
  "valid_node s \<longleftrightarrow> s \<noteq> [] \<and> list_all (\<lambda>c. islower_b c \<or> isdigit_b c \<or> c = 0x2d) s"

definition get_node :: "bytes \<Rightarrow> (bytes \<times> bytes) option" where
  "get_node p = do {
     (l, r) \<leftarrow> take_n 1 p;
     (if NLEN \<le> unat (hd l) then None
      else do {
        (q, r') \<leftarrow> take_n (unat (hd l)) r;
        (if valid_node (cstr q) then Some (cstr q, r') else None) }) }"

section \<open>Members (\<open>peers\<close>)\<close>

definition peer_new :: "bytes \<Rightarrow> peer" where
  "peer_new i = peer0\<lparr>p_id := i\<rparr>"

definition peer :: "bytes \<Rightarrow> peer list \<Rightarrow> nat \<times> peer list" where
  "peer i t = (case slot_find (\<lambda>p. p_seen p \<noteq> 0 \<and> p_id p = i) (\<lambda>p w. p_seen p < p_seen w) t of
     Inl j \<Rightarrow> (j, t) | Inr j \<Rightarrow> (j, t[j := peer_new i]))"

text \<open>A packet that authenticated: taken only when its counter is above the last one taken.\<close>

definition fresh :: "bytes \<Rightarrow> u64 \<Rightarrow> int \<Rightarrow> arb \<Rightarrow> bool \<times> arb" where
  "fresh i c now s =
     (let (j, t) = peer i (peers s); p = t ! j
      in if c \<le> p_ctr p then (False, s\<lparr>peers := (if p_seen p = 0 then t[j := peer0] else t)\<rparr>)
         else (True, s\<lparr>peers := t[j := p\<lparr>p_ctr := c, p_seen := now\<rparr>]\<rparr>))"

definition peer_ttl :: "arb \<Rightarrow> int" where
  "peer_ttl s = PACE (pace s) 300000"

definition counted :: "arb \<Rightarrow> int \<Rightarrow> peer \<Rightarrow> bool" where
  "counted s now p \<longleftrightarrow> ago (p_seen p) now (peer_ttl s) \<and> \<not> p_quiet p"

definition count_peers :: "arb \<Rightarrow> int \<Rightarrow> nat" where
  "count_peers s now = length (filter (counted s now) (peers s))"

section \<open>Reading what was written\<close>

lemma take_n_append [wire]: "length a = n \<Longrightarrow> take_n n (a @ r) = Some (a, r)"
  by (simp add: take_n_def)

lemma take_n_Cons [wire]: "take_n (Suc 0) (x # r) = Some ([x], r)"
  by (simp add: take_n_def)

lemma take_n_Some: "take_n n p = Some (q, r) \<longleftrightarrow> p = q @ r \<and> length q = n"
  by (auto simp: take_n_def split: if_splits)

lemma get64_put [wire]: "get64 (le_enc 8 v @ r) = Some (v, r)"
  by (simp add: get64_def wire)

lemma get64_Some: "get64 p = Some (v, r) \<longleftrightarrow> (\<exists>q. p = q @ r \<and> length q = 8 \<and> v = le_dec q)"
  by (auto simp: get64_def take_n_Some bind_eq_Some_conv)

lemma valid_node_cstr: "valid_node s \<Longrightarrow> cstr s = s"
  by (rule cstr_id) (auto simp: valid_node_def list_all_iff islower_b_def isdigit_b_def)

lemma get_node_put [wire]:
  assumes "valid_node s" "length s < NLEN"
  shows "get_node (of_nat (length s) # s @ r) = Some (s, r)"
proof -
  have "unat (of_nat (length s) :: byte) = length s"
    using assms(2) by (simp add: unat_of_nat)
  with assms show ?thesis
    by (simp add: get_node_def take_n_def valid_node_cstr)
qed

lemma put_room: "length b + length d \<le> 256 \<Longrightarrow> put b d = b @ d"
  by (simp add: put_def)

lemma put_bound: "length b \<le> 256 \<Longrightarrow> length (put b d) \<le> 256"
  by (simp add: put_def)

lemma length_HMA1 [simp]: "length HMA1 = 4"
  by (simp add: HMA1_def)

lemma head_pkt_eq: "head_pkt t = HMA1 @ [t]"
  by (simp add: head_pkt_def put_def)

lemma tag_accepted:
  assumes "length b \<le> 240" "length (blake2b_keyed C 16 (mac_key s) b) = 16"
  shows "tag C s b = b @ blake2b_keyed C 16 (mac_key s) b" "tag_ok C s (tag C s b)"
  using assms by (simp_all add: tag_def tag_ok_def put_def)

section \<open>The member table keeps its contract\<close>

interpretation peer_table: slot_table "\<lambda>p. p_seen p \<noteq> 0" p_id peer_new peer
  by (rule slot_table_scan [where older = "\<lambda>p w. p_seen p < p_seen w"])
     (simp_all add: peer_new_def peer_def peer0_def)

definition peers_ok :: "peer list \<Rightarrow> bool" where
  "peers_ok t \<longleftrightarrow> length t = NPEER \<and> uniq (\<lambda>p. p_seen p \<noteq> 0) p_id t"

lemma peers_ok_nonempty: "peers_ok t \<Longrightarrow> t \<noteq> []"
  by (auto simp: peers_ok_def)

lemma fresh_cases:
  assumes "peers_ok (peers s)" "peer i (peers s) = (j, t)"
  obtains "c \<le> p_ctr (t ! j)" "p_seen (t ! j) \<noteq> 0" "fresh i c now s = (False, s)"
  | "c \<le> p_ctr (t ! j)" "p_seen (t ! j) = 0" "fresh i c now s = (False, s\<lparr>peers := t[j := peer0]\<rparr>)" "c = 0"
  | "p_ctr (t ! j) < c" "fresh i c now s = (True, s\<lparr>peers := t[j := (t ! j)\<lparr>p_ctr := c, p_seen := now\<rparr>]\<rparr>)"
proof (cases "c \<le> p_ctr (t ! j)")
  case False
  then show ?thesis using that(3) assms(2) by (simp add: fresh_def)
next
  case le: True
  show ?thesis
  proof (cases "p_seen (t ! j) = 0")
    case True
    have "t ! j = peer_new i"
      using peer_table.slot_live_entry [OF peers_ok_nonempty [OF assms(1)] assms(2)] True by auto
    with le have "c = 0" by (simp add: peer_new_def peer0_def)
    with le True that(2) assms(2) show ?thesis by (simp add: fresh_def)
  next
    case False
    have "t = peers s"
      using peer_table.slot_found [OF peers_ok_nonempty [OF assms(1)] assms(2)] False
      by (simp add: peer_new_def peer0_def)
    with le False that(1) assms(2) show ?thesis by (simp add: fresh_def)
  qed
qed

lemma fresh_ok:
  assumes "peers_ok (peers s)" "fresh i c now s = (f, s')"
  shows "peers_ok (peers s')"
proof -
  obtain j t where slot: "peer i (peers s) = (j, t)" by fastforce
  note ne = peers_ok_nonempty [OF assms(1)]
  have key: "p_id (t ! j) = i" and len: "length t = 16"
    using peer_table.slot_key [OF ne slot] peer_table.slot_index [OF ne slot] assms(1)
    by (auto simp: peers_ok_def)
  have u: "uniq (\<lambda>p. p_seen p \<noteq> 0) p_id (peers s)" using assms(1) by (simp add: peers_ok_def)
  show ?thesis
    using assms(1) slot
  proof (cases rule: fresh_cases [where c = c and now = now])
    case 1
    with assms show ?thesis by simp
  next
    case 2
    have "uniq (\<lambda>p. p_seen p \<noteq> 0) p_id (t[j := peer0])"
      using uniq_dead [OF u, of peer0 j] peer_table.slot_set [OF ne slot, of peer0] by (simp add: peer0_def)
    with 2 assms(2) len show ?thesis by (auto simp: peers_ok_def)
  next
    case 3
    have "uniq (\<lambda>p. p_seen p \<noteq> 0) p_id (t[j := (t ! j)\<lparr>p_ctr := c, p_seen := now\<rparr>])"
      using key by (intro peer_table.uniq_set [OF ne u slot]) simp
    with 3 assms(2) len show ?thesis by (auto simp: peers_ok_def)
  qed
qed

text \<open>Once a counter is taken, that counter and every lower one are refused and change nothing.\<close>

lemma fresh_taken:
  assumes "peers_ok (peers s)" "fresh i c now s = (True, s')" "now \<noteq> 0"
  obtains j where "peer i (peers s') = (j, peers s')" "p_ctr (peers s' ! j) = c" "p_seen (peers s' ! j) = now"
    "j < length (peers s')" "p_id (peers s' ! j) = i"
proof -
  obtain j t where slot: "peer i (peers s) = (j, t)" by fastforce
  note ne = peers_ok_nonempty [OF assms(1)]
  let ?p = "(t ! j)\<lparr>p_ctr := c, p_seen := now\<rparr>"
  have key: "p_id (t ! j) = i" and j: "j < length t"
    using peer_table.slot_key [OF ne slot] peer_table.slot_index [OF ne slot] by auto
  from assms(1) slot have s': "s' = s\<lparr>peers := t[j := ?p]\<rparr>"
    by (cases rule: fresh_cases [where c = c and now = now]) (use assms(2) in auto)
  have "peer i (t[j := ?p]) = (j, t[j := ?p])"
    using assms(1,3) key by (intro peer_table.found_again [OF ne _ slot]) (auto simp: peers_ok_def)
  with s' j key that show ?thesis by simp
qed

lemma fresh_old:
  assumes "peers_ok (peers s)" "fresh i c now s = (True, s')" "now \<noteq> 0" "c' \<le> c"
  shows "fresh i c' now' s' = (False, s')"
  using assms(1-3) by (rule fresh_taken) (use assms(3,4) in \<open>simp add: fresh_def\<close>)

lemma fresh_frame [frame]:
  "fresh i c now s = (f, s') \<Longrightarrow> s' = s\<lparr>peers := peers s'\<rparr>"
  by (auto simp: fresh_def Let_def split: prod.splits if_splits)

end
