(* ===== verification/Arb_Window.thy ===== *)
theory Arb_Window
  imports Complex_Main Arb_Packet
begin

text \<open>
  \<^verbatim>\<open>src/hassmic/arb.c\<close>, part 3: the samples the window is learned from, the rounds kept per
  member (rivals) and whether a round waits for one, and the learned window itself.  The code's
  doubles in \<open>rival_waits\<close> are reals here: rounding is left out.
\<close>

section \<open>Samples of how late claims come\<close>

definition sample :: "bytes \<Rightarrow> int \<Rightarrow> int \<Rightarrow> arb \<Rightarrow> arb" where
  "sample i ms tm s =
     (if \<exists>g\<in>set (rd_got (rnd s)). g_id g = i then s
      else if length (rd_got (rnd s)) = NPEER then s
      else put_delay \<lparr>d_id = i, d_ms = (if ms < 0 then 0 else ms)\<rparr>
             (s\<lparr>rnd := (rnd s)\<lparr>rd_got := rd_got (rnd s) @ [\<lparr>g_id = i, g_slot = ndelay s, g_when = tm\<rparr>],
                                 rd_dirty := True\<rparr>\<rparr>))"

text \<open>The 95th percentile, nearest rank.\<close>

definition p95 :: "int list \<Rightarrow> int" where
  "p95 v = sort v ! ((length v * 95 + 99) div 100 - 1)"

definition samples_of :: "arb \<Rightarrow> peer \<Rightarrow> int list" where
  "samples_of s p =
     map d_ms (filter (\<lambda>d. 0 \<le> d_ms d \<and> d_id d = p_id p) (take (min NDELAY (unat (ndelay s))) (delays s)))"

section \<open>Rivals\<close>

definition close_call :: "int \<Rightarrow> bool" where
  "close_call d \<longleftrightarrow> d \<noteq> D_NONE \<and> - RIVAL_DB < d"

text \<open>
  The loop of \<open>rival_waits\<close>, newest round first: the weight of close calls and of all rounds, each
  kept round weighing less with its age and with its distance from our score.
\<close>

fun risk_sums :: "int \<Rightarrow> real \<Rightarrow> real \<Rightarrow> real \<Rightarrow> obs list \<Rightarrow> real \<times> real" where
  "risk_sums sc age close al [] = (close, al)"
| "risk_sums sc age close al (x # xs) =
     (let w = age * exp (- \<bar>real_of_int (o_own x) - real_of_int sc\<bar> / real_of_int KERN_DB)
      in if close_call (o_d x) then risk_sums sc (age * (99/100)) (close + w * 3) (al + w * 3) xs
         else risk_sums sc (age * (99/100)) close (al + w) xs)"

definition rival_waits :: "arb \<Rightarrow> bytes \<Rightarrow> int \<Rightarrow> bool" where
  "rival_waits s i sc =
     (if \<not> rivals_on s then True
      else (let os = (case rival_get i (rivals s) of None \<Rightarrow> [] | Some v \<Rightarrow> rev (rival_obs v));
                (close, al) = risk_sums sc 1 (1/2) 2 os
            in close / al > 15/100))"

definition close_calls :: "rival option \<Rightarrow> nat" where
  "close_calls v = (case v of None \<Rightarrow> 0 | Some r \<Rightarrow> length (filter (\<lambda>x. close_call (o_d x)) (take (r_n r) (r_o r))))"

text \<open>Who claimed in the round, with its best score and priority; the first 16 of them.\<close>

fun heard_list :: "bytes \<Rightarrow> int \<Rightarrow> int \<Rightarrow> int \<Rightarrow> bool \<Rightarrow> heard_claim list \<Rightarrow> heard_claim list option" where
  "heard_list i tm sc pr won [] = None"
| "heard_list i tm sc pr won (h # hs) =
     (if h_id h = i then
        Some (h\<lparr>h_score := max (h_score h) sc, h_prio := max (h_prio h) pr, h_won := h_won h \<or> won\<rparr> # hs)
      else map_option (Cons h) (heard_list i tm sc pr won hs))"

definition heard :: "bytes \<Rightarrow> int \<Rightarrow> int \<Rightarrow> int \<Rightarrow> bool \<Rightarrow> arb \<Rightarrow> arb" where
  "heard i tm sc pr won s =
     (case heard_list i tm sc pr won (rd_heard (rnd s)) of
        Some hs \<Rightarrow> s\<lparr>rnd := (rnd s)\<lparr>rd_heard := hs\<rparr>\<rparr>
      | None \<Rightarrow> (if length (rd_heard (rnd s)) < NPEER
                 then s\<lparr>rnd := (rnd s)\<lparr>rd_heard := rd_heard (rnd s) @ [\<lparr>h_id = i, h_at = tm, h_score = sc, h_prio = pr, h_won = won\<rparr>]\<rparr>\<rparr>
                 else s))"

text \<open>One member's claims against ours, as kept when the round is over.\<close>

definition rival_diff :: "round_state \<Rightarrow> int \<Rightarrow> bytes \<Rightarrow> int" where
  "rival_diff r cutoff i =
     foldl (\<lambda>d h. if h_id h = i \<and> h_at h \<le> cutoff then
              (let x = h_score h - rd_score r;
                   d' = (if rd_prio r < h_prio h then D_PRIO else if D_PRIO \<le> x then D_PRIO - 1
                         else if x \<le> D_NONE then D_NONE + 1 else x)
               in if rd_won r \<and> h_won h \<and> d' < 0 then 0 else d')
            else d) D_NONE (rd_heard r)"

definition rivals_observe :: "bytes \<Rightarrow> int \<Rightarrow> int \<Rightarrow> int \<Rightarrow> rival list \<Rightarrow> rival list" where
  "rivals_observe i own d tm t = (let (j, t') = rival i t in t'[j := observe (t' ! j) own d tm])"

definition rivals_take :: "int \<Rightarrow> arb \<Rightarrow> arb" where
  "rivals_take cutoff s =
     (let r = rnd s
      in s\<lparr>rivals := foldl (\<lambda>t w. rivals_observe (w_id w) (rd_score r) (rival_diff r cutoff (w_id w)) cutoff t) (rivals s) (rd_want r),
           rnd := r\<lparr>rd_dirty := rd_dirty r \<or> rd_want r \<noteq> [], rd_want := [], rd_heard := []\<rparr>\<rparr>)"

text \<open>A member this round waits for; outside a round every member counted.\<close>

definition waited :: "arb \<Rightarrow> int \<Rightarrow> peer \<Rightarrow> bool" where
  "waited s now p \<longleftrightarrow>
     (if \<not> counted s now p then False
      else case find (\<lambda>w. w_id w = p_id p) (rd_want (rnd s)) of Some w \<Rightarrow> w_waits w | None \<Rightarrow> True)"

section \<open>The learned window\<close>

text \<open>The loop over the members: the samples of those waited for, and the slowest one's own percentile.\<close>

definition learned_loop :: "arb \<Rightarrow> int \<Rightarrow> int list \<times> int" where
  "learned_loop s now =
     foldl (\<lambda>(al, w) p. if waited s now p then
              (let mine = samples_of s p
               in (al @ mine, if AUTO_PEER_MIN \<le> length mine then max w (p95 mine + AUTO_MARGIN_MS) else w))
            else (al, w)) ([], 0) (peers s)"

definition learned :: "arb \<Rightarrow> int \<Rightarrow> int \<times> nat \<times> int" where
  "learned s now =
     (let (al, w) = learned_loop s now; na = length al; q = (if al \<noteq> [] then p95 al else -1);
          w' = (if na < AUTO_LEARN then max w AUTO_START_MS else max w (q + AUTO_MARGIN_MS))
      in (if w' < AUTO_MIN_MS then AUTO_MIN_MS else if w' > AUTO_MAX_MS then AUTO_MAX_MS else w', na, q))"

definition window_now :: "arb \<Rightarrow> int \<Rightarrow> int" where
  "window_now s now = (if kiosk_mode s \<or> \<not> wauto s then kwindow s else fst (learned s now))"

section \<open>Lemmas\<close>

lemma p95_rank:
  assumes "v \<noteq> []"
  shows "(length v * 95 + 99) div 100 - 1 < length v"
  using assms by (cases v) auto

lemma p95_mem: "v \<noteq> [] \<Longrightarrow> p95 v \<in> set v"
  using p95_rank [of v] nth_mem [of "(length v * 95 + 99) div 100 - 1" "sort v"] by (simp add: p95_def)

lemma sorted_count_le:
  assumes "sorted (xs :: int list)" "k < length xs"
  shows "Suc k \<le> length (filter (\<lambda>x. x \<le> xs ! k) xs)"
proof -
  have "\<forall>x\<in>set (take (Suc k) xs). x \<le> xs ! k"
    using assms by (auto simp: in_set_conv_nth sorted_iff_nth_mono)
  then have "filter (\<lambda>x. x \<le> xs ! k) (take (Suc k) xs) = take (Suc k) xs" by simp
  then have "length (take (Suc k) xs) \<le> length (filter (\<lambda>x. x \<le> xs ! k) xs)"
    by (metis append_take_drop_id filter_append length_append le_add1)
  with assms(2) show ?thesis by simp
qed

lemma length_filter_sort: "length (filter P (sort xs)) = length (filter P xs)"
  by (simp add: filter_sort)

text \<open>Samples of different members never overlap, so together they fit the ring they come from.\<close>

lemma filter_ids_bound:
  "distinct ids \<Longrightarrow> (\<Sum>i\<leftarrow>ids. length (filter (\<lambda>d. P d \<and> f d = i) xs)) \<le> length xs"
proof (induction xs)
  case Nil
  then show ?case by simp
next
  case (Cons x xs)
  have "(\<Sum>i\<leftarrow>ids. if P x \<and> f x = i then 1 else 0) \<le> (1::nat)"
    using Cons.prems by (induction ids) auto
  moreover have "(\<Sum>i\<leftarrow>ids. length (filter (\<lambda>d. P d \<and> f d = i) (x # xs)))
      = (\<Sum>i\<leftarrow>ids. if P x \<and> f x = i then 1 else 0) + (\<Sum>i\<leftarrow>ids. length (filter (\<lambda>d. P d \<and> f d = i) xs))"
    by (induction ids) auto
  ultimately show ?case using Cons by simp
qed

lemma learned_loop_samples: "fst (learned_loop s now) = concat (map (samples_of s) (filter (waited s now) (peers s)))"
proof -
  have "fst (foldl (\<lambda>(al, w) p. if waited s now p then
              (let mine = samples_of s p
               in (al @ mine, if AUTO_PEER_MIN \<le> length mine then max w (p95 mine + AUTO_MARGIN_MS) else w))
            else (al, w)) (al, w) ps) = al @ concat (map (samples_of s) (filter (waited s now) ps))" for al w ps
    by (induction ps arbitrary: al w) (simp_all add: Let_def)
  then show ?thesis by (simp add: learned_loop_def)
qed

lemma waited_live: "waited s now p \<Longrightarrow> p_seen p \<noteq> 0"
  by (auto simp: waited_def counted_def ago_def split: if_splits)

lemma uniq_distinct:
  assumes "uniq live key t" "\<And>x. P x \<Longrightarrow> live x"
  shows "distinct (map key (filter P t))"
  using assms(1)
proof (induction t)
  case Nil
  then show ?case by simp
next
  case (Cons x t)
  have "uniq live key t"
    unfolding uniq_def
  proof (intro allI impI)
    fix i j assume "i < length t" "j < length t" "live (t ! i) \<and> live (t ! j) \<and> key (t ! i) = key (t ! j)"
    with Cons.prems [unfolded uniq_def, rule_format, of "Suc i" "Suc j"] show "i = j" by simp
  qed
  moreover have "key x \<noteq> key y" if "P x" "y \<in> set t" "P y" for y
  proof
    assume "key x = key y"
    from that(2) obtain j where "j < length t" "t ! j = y" by (auto simp: in_set_conv_nth)
    with Cons.prems [unfolded uniq_def, rule_format, of 0 "Suc j"] that \<open>key x = key y\<close> assms(2)
    show False by simp
  qed
  ultimately show ?case using Cons.IH by auto
qed

lemma samples_fit:
  assumes "peers_ok (peers s)" "length (delays s) = NDELAY"
  shows "length (fst (learned_loop s now)) \<le> NDELAY"
proof -
  let ?ps = "filter (waited s now) (peers s)" and ?xs = "take (min NDELAY (unat (ndelay s))) (delays s)"
  have "distinct (map p_id ?ps)"
    using assms(1) by (intro uniq_distinct [where live = "\<lambda>p. p_seen p \<noteq> 0"]) (auto simp: peers_ok_def waited_live)
  then have "(\<Sum>i\<leftarrow>map p_id ?ps. length (filter (\<lambda>d. 0 \<le> d_ms d \<and> d_id d = i) ?xs)) \<le> length ?xs"
    by (rule filter_ids_bound)
  also have "(\<Sum>i\<leftarrow>map p_id ?ps. length (filter (\<lambda>d. 0 \<le> d_ms d \<and> d_id d = i) ?xs)) = length (fst (learned_loop s now))"
    by (simp add: learned_loop_samples length_concat samples_of_def comp_def)
  finally show ?thesis by simp
qed

section \<open>Properties\<close>

lemma learned_loop_covers:
  assumes "p \<in> set (peers s)" "waited s now p" "AUTO_PEER_MIN \<le> length (samples_of s p)"
  shows "p95 (samples_of s p) + AUTO_MARGIN_MS \<le> snd (learned_loop s now)"
proof -
  let ?f = "\<lambda>(al, w) p. if waited s now p then
              (let mine = samples_of s p
               in (al @ mine, if AUTO_PEER_MIN \<le> length mine then max w (p95 mine + AUTO_MARGIN_MS) else w))
            else (al, w)"
  have grows: "w \<le> snd (foldl ?f (al, w) ps)" for al w ps
  proof (induction ps arbitrary: al w)
    case (Cons q ps)
    have "w \<le> snd (?f (al, w) q)" by (simp add: Let_def)
    also have "\<dots> \<le> snd (foldl ?f (?f (al, w) q) ps)" using Cons.IH by (cases "?f (al, w) q") simp
    finally show ?case by simp
  qed simp
  from assms(1) obtain ys zs where ps: "peers s = ys @ p # zs" by (auto simp: in_set_conv_decomp)
  obtain al w where a: "foldl ?f ([], 0) ys = (al, w)" by fastforce
  have "p95 (samples_of s p) + AUTO_MARGIN_MS \<le> snd (?f (al, w) p)" using assms(2,3) by (simp add: Let_def)
  also have "\<dots> \<le> snd (foldl ?f (?f (al, w) p) zs)" by (cases "?f (al, w) p") (simp only: grows snd_conv)
  finally show ?thesis by (simp add: learned_loop_def ps a)
qed

text \<open>
   The learned window never leaves \<open>AUTO_MIN_MS..AUTO_MAX_MS\<close>; within them it covers, with the
  margin, the 95th percentile of every member waited for that has samples enough of its own, and that
  of all samples together once \<open>AUTO_LEARN\<close> of them are in (until then, \<open>AUTO_START_MS\<close>).
\<close>

theorem learned_window_bounds:
  assumes "p \<in> set (peers s)" "waited s now p" "AUTO_PEER_MIN \<le> length (samples_of s p)"
  shows "AUTO_MIN_MS \<le> fst (learned s now) \<and> fst (learned s now) \<le> AUTO_MAX_MS
    \<and> min AUTO_MAX_MS (p95 (samples_of s p) + AUTO_MARGIN_MS) \<le> fst (learned s now)
    \<and> min AUTO_MAX_MS (if AUTO_LEARN \<le> fst (snd (learned s now)) then snd (snd (learned s now)) + AUTO_MARGIN_MS
                       else AUTO_START_MS) \<le> fst (learned s now)"
  using learned_loop_covers [OF assms] by (auto simp: learned_def Let_def min_def max_def split: prod.splits)

theorem learned_window_bounds_witness:
  "let p = peer0\<lparr>p_seen := 1\<rparr>; d = delay0\<lparr>d_ms := 700\<rparr>;
       s = (arb0 None None)\<lparr>peers := [p], delays := [d, d, d], ndelay := 3\<rparr>
   in 750 \<le> fst (learned s 5) \<and> fst (learned s 5) \<le> AUTO_MAX_MS"
proof -
  let ?p = "peer0\<lparr>p_seen := 1\<rparr>" and ?d = "delay0\<lparr>d_ms := 700\<rparr>"
  let ?s = "(arb0 None None)\<lparr>peers := [?p], delays := [?d, ?d, ?d], ndelay := 3\<rparr>"
  have m: "samples_of ?s ?p = [700, 700, 700]" by (simp add: samples_of_def peer0_def delay0_def)
  have w: "waited ?s 5 ?p" by (simp add: waited_def counted_def ago_def peer_ttl_def PACE_def arb0_def peer0_def round0_def)
  from learned_window_bounds [of ?p ?s 5] m w show ?thesis by (simp add: p95_def)
qed

text \<open>
  \<open>p95\<close> is the nearest-rank percentile: a sample, at or above at least 95 % of the samples, and
  the least such sample.
\<close>

theorem p95_nearest_rank:
  assumes "v \<noteq> []"
  shows "p95 v \<in> set v \<and> 95 * length v \<le> 100 * length (filter (\<lambda>x. x \<le> p95 v) v)
         \<and> (\<forall>y. y < p95 v \<longrightarrow> 100 * length (filter (\<lambda>x. x \<le> y) v) < 95 * length v)"
proof -
  define k where "k = (length v * 95 + 99) div 100 - 1"
  have k: "k < length v" unfolding k_def by (rule p95_rank [OF assms])
  have rank: "95 * length v \<le> 100 * Suc k" "100 * k < 95 * length v"
    using assms unfolding k_def by (cases v; simp)+
  have "Suc k \<le> length (filter (\<lambda>x. x \<le> sort v ! k) (sort v))"
    using k by (intro sorted_count_le) simp_all
  then have up: "Suc k \<le> length (filter (\<lambda>x. x \<le> p95 v) v)"
    by (simp add: length_filter_sort p95_def k_def)
  have low: "length (filter (\<lambda>x. x \<le> y) v) \<le> k" if "y < p95 v" for y
  proof -
    have "sort v ! k \<le> x" if "x \<in> set (drop k (sort v))" for x
      using that by (auto simp: in_set_conv_nth intro!: sorted_nth_mono)
    with that have "\<forall>x\<in>set (drop k (sort v)). \<not> x \<le> y"
      by (fastforce simp: p95_def k_def)
    then have "filter (\<lambda>x. x \<le> y) (drop k (sort v)) = []" by (simp add: filter_empty_conv)
    then have "filter (\<lambda>x. x \<le> y) (sort v) = filter (\<lambda>x. x \<le> y) (take k (sort v))"
      by (metis append_Nil2 append_take_drop_id filter_append)
    then have "length (filter (\<lambda>x. x \<le> y) (sort v)) \<le> k"
      by (metis length_filter_le length_take min.cobounded2 order_trans)
    then show ?thesis by (simp add: length_filter_sort)
  qed
  have "100 * length (filter (\<lambda>x. x \<le> y) v) < 95 * length v" if "y < p95 v" for y
    using low [OF that] rank(2) by linarith
  moreover have "95 * length v \<le> 100 * length (filter (\<lambda>x. x \<le> p95 v) v)"
    by (rule order_trans [OF rank(1) mult_le_mono2 [OF up]])
  ultimately show ?thesis using p95_mem [OF assms] by blast
qed

theorem p95_nearest_rank_witness:
  "p95 [7, 3, 5] \<in> set [7, 3, 5::int] \<and> 95 * length [7, 3, 5::int] \<le> 100 * length (filter (\<lambda>x. x \<le> p95 [7, 3, 5]) [7, 3, 5])"
  using p95_nearest_rank [of "[7, 3, 5]"] by simp

text \<open>
  Memory safety of \<open>learned\<close>: the samples it gathers of all members waited for fit its array of
  \<open>NDELAY\<close> ints, because no two live members share an id.
\<close>

theorem learned_samples_fit:
  "peers_ok (peers s) \<Longrightarrow> length (delays s) = NDELAY \<Longrightarrow> length (fst (learned_loop s now)) \<le> NDELAY
   \<and> fst (snd (learned s now)) \<le> NDELAY"
  using samples_fit [of s now] by (auto simp: learned_def Let_def split: prod.splits)

lemma peers_ok_init: "peers_ok (peers (arb0 d k))"
  by (simp add: peers_ok_def arb0_def uniq_def peer0_def)

theorem learned_samples_fit_witness:
  "length (fst (learned_loop (arb0 None None) 5)) \<le> NDELAY \<and> fst (snd (learned (arb0 None None) 5)) \<le> NDELAY"
  using learned_samples_fit [OF peers_ok_init, of None None 5] by (simp add: arb0_def)

lemma rival_get_dead: "\<forall>v\<in>set t. r_n v = 0 \<Longrightarrow> rival_get i t = None"
  using slot_find_miss [of t "\<lambda>v. r_n v \<noteq> 0 \<and> r_id v = i" "\<lambda>v w. r_n v = 0 \<or> r_at v < r_at w"]
  by (cases t) (auto simp: rival_get_def rival_find_def slot_find_def)

lemma rival_waits_obs:
  "rivals_on s \<Longrightarrow> rival_get i (rivals s) = Some v \<Longrightarrow>
   rival_waits s i sc = (let (close, al) = risk_sums sc 1 (1/2) 2 (rev (rival_obs v)) in close / al > 15/100)"
  by (simp add: rival_waits_def)

text \<open>
   Whom a round waits for: a member nothing is known of is waited for; two kept rounds at this
  very score without a close call and it is not; one close call at this score among them and it is
  again.
\<close>

theorem rival_waits_prior:
  "(rival_get i (rivals s) = None \<longrightarrow> rival_waits s i sc)
   \<and> (\<forall>v d1 d2. rivals_on s \<and> rival_get i (rivals s) = Some v
        \<and> rival_obs v = [\<lparr>o_own = sc, o_d = d1\<rparr>, \<lparr>o_own = sc, o_d = d2\<rparr>]
        \<longrightarrow> (rival_waits s i sc \<longleftrightarrow> close_call d1 \<or> close_call d2))"
proof (intro conjI allI impI)
  assume "rival_get i (rivals s) = None"
  then show "rival_waits s i sc" by (simp add: rival_waits_def)
next
  fix v d1 d2
  assume "rivals_on s \<and> rival_get i (rivals s) = Some v
        \<and> rival_obs v = [\<lparr>o_own = sc, o_d = d1\<rparr>, \<lparr>o_own = sc, o_d = d2\<rparr>]"
  then show "rival_waits s i sc \<longleftrightarrow> close_call d1 \<or> close_call d2"
    by (simp add: rival_waits_obs Let_def)
qed

theorem rival_waits_prior_witness:
  "rival_waits (arb0 None None) [1, 2, 3, 4, 5, 6, 7, 8] 1200
   \<and> (let v = observe (observe (rival_new [9]) 1200 (- 900) 1) 1200 (- 2147483648) 2;
          s = (arb0 None None)\<lparr>rivals := [v]\<rparr>
      in \<not> rival_waits s [9] 1200)"
proof -
  let ?v = "observe (observe (rival_new [9]) 1200 (- 900) 1) 1200 (- 2147483648) 2"
  let ?s = "(arb0 None None)\<lparr>rivals := [?v]\<rparr>"
  have "rival_get [1, 2, 3, 4, 5, 6, 7, 8] (rivals (arb0 None None)) = None"
    by (rule rival_get_dead) (simp add: arb0_def rival0_def)
  moreover have "rival_get [9] (rivals ?s) = Some ?v"
    by (simp add: rival_get_def rival_find_def slot_find_def rival_new_def observe_def)
  moreover have "rival_obs ?v = [\<lparr>o_own = 1200, o_d = - 900\<rparr>, \<lparr>o_own = 1200, o_d = - 2147483648\<rparr>]"
    by (simp add: rival_obs_def rival_new_def observe_def rival0_def upt_rec)
  moreover have "rivals_on ?s" by (simp add: arb0_def)
  ultimately show ?thesis
    using rival_waits_prior [of "[1, 2, 3, 4, 5, 6, 7, 8]" "arb0 None None" 1200]
      rival_waits_prior [of "[9]" ?s 1200]
    unfolding Let_def close_call_def by fastforce
qed

end
