(* ===== verification/Arb_Kiosk.thy ===== *)
theory Arb_Kiosk
  imports Arb_Window
begin

text \<open>
  \<^verbatim>\<open>src/hassmic/arb.c\<close>, part 4: Kiosk Satellite mode, where rounds are settled by loudness alone
  with devices of another make.  \<open>kiosk_packet\<close> takes the claim \<open>kiosk_parse\<close> read (or none).
\<close>

abbreviation (input) KIOSK_KEEP_MS :: int where "KIOSK_KEEP_MS \<equiv> 2000"
abbreviation (input) KIOSK_GAP_MS :: int where "KIOSK_GAP_MS \<equiv> 15"
abbreviation (input) KIOSK_PHRASE :: nat where "KIOSK_PHRASE \<equiv> 64"

definition isspace_b :: "byte \<Rightarrow> bool" where
  "isspace_b c \<longleftrightarrow> c = 0x20 \<or> 0x09 \<le> c \<and> c \<le> 0x0d"

definition tolower_b :: "byte \<Rightarrow> byte" where
  "tolower_b c = (if 0x41 \<le> c \<and> c \<le> 0x5a then c + 0x20 else c)"

fun kiosk_phrase_loop :: "bytes \<Rightarrow> bool \<Rightarrow> bytes \<Rightarrow> bytes" where
  "kiosk_phrase_loop out gap [] = out"
| "kiosk_phrase_loop out gap (c # cs) =
     (if isspace_b c then kiosk_phrase_loop out (out \<noteq> []) cs
      else (let out1 = (if gap \<and> length out + 1 < KIOSK_PHRASE then out @ [0x20] else out);
                out2 = (if length out1 + 1 < KIOSK_PHRASE then out1 @ [tolower_b c] else out1)
            in kiosk_phrase_loop out2 False cs))"

definition kiosk_phrase :: "bytes \<Rightarrow> bytes" where
  "kiosk_phrase s = kiosk_phrase_loop [] False s"

definition kiosk_packet :: "kclaim option \<Rightarrow> int \<Rightarrow> arb \<Rightarrow> arb" where
  "kiosk_packet k now s =
     (case k of
        None \<Rightarrow> s
      | Some c \<Rightarrow>
          if kc_id c = kid s then s
          else if \<exists>x\<in>set (kclaims s). ago (kc_at x) now KIOSK_KEEP_MS \<and> kc_n x = kc_n c \<and> kc_id x = kc_id c then s
          else s\<lparr>kheard := now, kclaims := (kclaims s)[unat (kclaim_next s) mod NCLAIM := c\<lparr>kc_at := now\<rparr>],
                 kclaim_next := kclaim_next s + 1\<rparr>)"

definition kiosk_send :: "arb \<Rightarrow> arb" where
  "kiosk_send s = (if ksock s then s\<lparr>ksent := ksent s @ [kpkt s]\<rparr> else s)"

text \<open>The socket follows the mode; \<open>opens\<close>: whether socket, options and bind succeed.\<close>

definition kiosk_sync :: "bool \<Rightarrow> int \<Rightarrow> arb \<Rightarrow> arb" where
  "kiosk_sync opens now s =
     (let want = running s \<and> arbitrate s \<and> kiosk_mode s;
          s1 = (if \<not> want \<and> ksock s then s\<lparr>ksock := False, kcopies := 0\<rparr> else s)
      in if \<not> want \<or> ksock s1 \<or> ago (kfailed s1) now 10000 then s1
         else if \<not> opens then s1\<lparr>ksock := False, kfailed := now\<rparr>
         else s1\<lparr>ksock := True, kfailed := 0\<rparr>)"

definition hexdig :: "nat \<Rightarrow> byte" where
  "hexdig n = of_nat (if n < 10 then 48 + n else 87 + n)"

definition hex2 :: "byte \<Rightarrow> bytes" where
  "hex2 b = [hexdig (unat b div 16), hexdig (unat b mod 16)]"

text \<open>The phrase as a JSON string's content.\<close>

fun kiosk_esc :: "bytes \<Rightarrow> bytes \<Rightarrow> bytes" where
  "kiosk_esc out [] = out"
| "kiosk_esc out (c # cs) =
     (if length out + 7 < KIOSK_PHRASE * 6 then
        (if c = 0x22 \<or> c = 0x5c then kiosk_esc (out @ [0x5c, c]) cs
         else if c < 0x20 then kiosk_esc (out @ [0x5c] @ ascii ''u00'' @ hex2 c) cs
         else kiosk_esc (out @ [c]) cs)
      else out)"

text \<open>\<open>lround(score / 10.0)\<close>: halves away from zero.\<close>

definition round_tenth :: "int \<Rightarrow> int" where
  "round_tenth x = (if 0 \<le> x then (x + 5) div 10 else - ((5 - x) div 10))"

definition kiosk_text :: "bytes \<Rightarrow> u32 \<Rightarrow> bytes \<Rightarrow> int \<Rightarrow> bytes" where
  "kiosk_text i r esc e =
     ascii ''{'' @ [0x22] @ ascii ''ks'' @ [0x22] @ ascii '':'' @ [0x22] @ ascii ''wake'' @ [0x22] @ ascii '',''
     @ [0x22] @ ascii ''v'' @ [0x22] @ ascii '':1,'' @ [0x22] @ ascii ''id'' @ [0x22] @ ascii '':'' @ [0x22] @ i @ [0x22]
     @ ascii '','' @ [0x22] @ ascii ''n'' @ [0x22] @ ascii '':'' @ dec_digits (unat (r AND 0x3fffffff))
     @ ascii '','' @ [0x22] @ ascii ''p'' @ [0x22] @ ascii '':'' @ [0x22] @ esc @ [0x22]
     @ ascii '','' @ [0x22] @ ascii ''e'' @ [0x22] @ ascii '':'' @ (if e < 0 then ascii ''-'' else [])
     @ dec_digits (nat \<bar>e\<bar> div 10) @ ascii ''.'' @ dec_digits (nat \<bar>e\<bar> mod 10) @ ascii ''}''"

definition kiosk_claim :: "bytes \<Rightarrow> int \<Rightarrow> int \<Rightarrow> u32 \<Rightarrow> arb \<Rightarrow> int \<times> arb" where
  "kiosk_claim keyword score now r s =
     (let ph = kiosk_phrase keyword
      in if \<not> running s \<or> \<not> arbitrate s \<or> \<not> ksock s \<or> ph = [] then (0, s)
         else (let e = round_tenth score + koffset s * 10;
                   s1 = s\<lparr>kround_p := ph, kround_e := e\<rparr>;
                   t = kiosk_text (kid s) r (kiosk_esc [] ph) e
               in if 300 \<le> length t then (0, s1)
                  else (now + kwindow s, (kiosk_send (s1\<lparr>kpkt := t\<rparr>))\<lparr>kcopies := 2, kcopy_at := now + KIOSK_GAP_MS\<rparr>)))"

text \<open>Their order: the louder claim, an exact tie to the lower id.\<close>

definition kiosk_beats :: "int \<times> bytes \<Rightarrow> int \<times> bytes \<Rightarrow> bool" where
  "kiosk_beats x y \<longleftrightarrow> fst y < fst x \<or> fst x = fst y \<and> bless (snd x) (snd y)"

definition kiosk_decide :: "arb \<Rightarrow> bool" where
  "kiosk_decide s \<longleftrightarrow>
     \<not> (\<exists>k\<in>set (kclaims s). kc_at k \<noteq> 0 \<and> \<bar>kc_at k - rd_at (rnd s)\<bar> \<le> kwindow s \<and> kc_p k = kround_p s
          \<and> kiosk_beats (kc_e k, kc_id k) (kround_e s, kid s))"

section \<open>Lemmas\<close>

interpretation kiosk_order: election kiosk_beats
  by unfold_locales
     (auto simp: kiosk_beats_def prod_eq_iff intro: bless_trans dest: bless_total)

lemma kiosk_phrase_loop_bound:
  "length out < KIOSK_PHRASE \<Longrightarrow> length (kiosk_phrase_loop out gap cs) < KIOSK_PHRASE"
  by (induction out gap cs rule: kiosk_phrase_loop.induct) (auto simp: Let_def)

lemma kiosk_phrase_bound: "length (kiosk_phrase s) < KIOSK_PHRASE"
  by (simp add: kiosk_phrase_def kiosk_phrase_loop_bound)

end
