(* ===== verification/Arb_Network.thy ===== *)
theory Arb_Network
  imports Arb_Kiosk
begin

text \<open>
  \<^verbatim>\<open>src/hassmic/arb.c\<close>, part 5: beacons, joining a network, handing its key on, and \<open>on_packet\<close>,
  the handler of every datagram heard.  Random bytes are arguments (\<open>nonce\<close>, \<open>k\<close>, \<open>ids\<close>); one
  reading of the clock, \<open>now\<close>, serves a whole call.
\<close>

section \<open>Echos outside our network\<close>

definition cand_new :: "bytes \<Rightarrow> cand" where
  "cand_new p = cand0\<lparr>cd_pub := p\<rparr>"

definition cand :: "bytes \<Rightarrow> cand list \<Rightarrow> nat \<times> cand list" where
  "cand p t = (case slot_find (\<lambda>c. cd_seen c \<noteq> 0 \<and> cd_pub c = p) (\<lambda>c w. cd_seen c < cd_seen w) t of
     Inl j \<Rightarrow> (j, t) | Inr j \<Rightarrow> (j, t[j := cand_new p]))"

interpretation cand_table: slot_table "\<lambda>c. cd_seen c \<noteq> 0" cd_pub cand_new cand
  by (rule slot_table_scan [where older = "\<lambda>c w. cd_seen c < cd_seen w"])
     (simp_all add: cand_new_def cand_def cand0_def)

section \<open>Network\<close>

definition beacon_flags :: "bool \<Rightarrow> int \<Rightarrow> arb \<Rightarrow> byte" where
  "beacon_flags answer now s =
     (if \<not> arbitrate s \<or> kiosk_mode s then F_QUIET else 0)
     OR (if arbitrate s \<and> kiosk_mode s then F_KIOSK else 0)
     OR (if \<not> answer \<and> now < hello_until s then F_HELLO else 0)"

definition beacon_head :: "byte \<Rightarrow> arb \<Rightarrow> bytes" where
  "beacon_head t s =
     put (put (put64 (put (head_pkt t) (pk s)) (if in_net s then net_id s else 0)) [of_nat (length (node s))]) (node s)"

definition beacon :: "crypto \<Rightarrow> bool \<Rightarrow> int \<Rightarrow> arb \<Rightarrow> arb" where
  "beacon C answer now s =
     (let b = beacon_head T_BEACON s
      in if in_net s then
           (let f = beacon_flags answer now s; (c, s1) = next_ctr s;
                b1 = put64 b c; b2 = (if f \<noteq> 0 then put b1 [f] else b1)
            in send_pkt (tag C s1 b2) s1)
         else send_pkt b s)"

definition adopt :: "crypto \<Rightarrow> bytes \<Rightarrow> u64 \<Rightarrow> int \<Rightarrow> arb \<Rightarrow> arb" where
  "adopt C k i now s =
     (save ((derive C (s\<lparr>net_key := k, net_id := i, in_net := True\<rparr>))
              \<lparr>peers := replicate NPEER peer0, claims := replicate NCLAIM claim0\<rparr>))
       \<lparr>beacon_at := 0, hello_until := now + PACE (pace s) 40000, notify := True\<rparr>"

text \<open>A network of our own: a random key and the first random id that is not 0.\<close>

definition create :: "crypto \<Rightarrow> bytes \<Rightarrow> u64 list \<Rightarrow> int \<Rightarrow> arb \<Rightarrow> arb" where
  "create C k ids now s = (case find (\<lambda>i. i \<noteq> 0) ids of None \<Rightarrow> s | Some i \<Rightarrow> adopt C k i now s)"

definition wrap_label :: bytes where
  "wrap_label = ascii ''hassmic arb key'' @ [0]"

definition wrap_key :: "crypto \<Rightarrow> arb \<Rightarrow> bytes \<Rightarrow> bytes \<Rightarrow> bytes \<Rightarrow> u64 \<Rightarrow> bytes option" where
  "wrap_key C s their from to net =
     (let shared = x25519 C (sk s) their
      in if shared = replicate 32 0 then None
         else Some (blake2b_keyed C 32 shared (wrap_label @ from @ to @ le_enc 8 net)))"

definition seal :: "crypto \<Rightarrow> bytes \<Rightarrow> arb \<Rightarrow> bytes \<Rightarrow> bytes option" where
  "seal C nonce s to =
     (case wrap_key C s to (pk s) to (net_id s) of
        None \<Rightarrow> None
      | Some key \<Rightarrow> (let (cipher, mac) = aead_lock C key nonce (pk s) (net_key s)
                     in Some (pk s @ nonce @ mac @ cipher)))"

text \<open>The key a sealed blob opens to with ours.\<close>

definition unseal :: "crypto \<Rightarrow> arb \<Rightarrow> u64 \<Rightarrow> bytes \<Rightarrow> bytes option" where
  "unseal C s i blob =
     (let from = take 32 blob
      in if from = pk s then None
         else (case wrap_key C s from from (pk s) i of
                 None \<Rightarrow> None
               | Some w \<Rightarrow> aead_unlock C w (take 24 (drop 32 blob)) from (take 16 (drop 56 blob)) (take 32 (drop 72 blob))))"

definition take_key :: "crypto \<Rightarrow> u64 \<Rightarrow> bytes \<Rightarrow> int \<Rightarrow> arb \<Rightarrow> bool \<times> arb" where
  "take_key C i blob now s =
     (if \<not> running s then (False, s)
      else if in_net s \<and> net_id s \<le> i then (False, s)
      else case unseal C s i blob of
             None \<Rightarrow> (False, s)
           | Some k \<Rightarrow> (let s1 = adopt C k i now s
                        in (True, if pair_until s1 \<noteq> 0 then s1\<lparr>pair_until := 0, pair_event := 2\<rparr> else s1)))"

definition hex64 :: "u64 \<Rightarrow> bytes" where
  "hex64 v = concat (map hex2 (rev (le_enc 8 v)))"

definition give_pkt_of :: "bytes \<Rightarrow> u64 \<Rightarrow> bytes \<Rightarrow> bytes" where
  "give_pkt_of to net blob = put (put64 (put (head_pkt T_GIVE) to) net) blob"

definition push :: "crypto \<Rightarrow> bytes \<Rightarrow> nat \<Rightarrow> int \<Rightarrow> arb \<Rightarrow> arb" where
  "push C nonce j now s =
     (let c = cands s ! j
      in if \<not> in_net s \<or> cd_net c \<noteq> 0 \<and> cd_net c \<le> net_id s then s
         else if cd_attested c then
           (if ago (cd_gave c) now (PACE (pace s) 5000) then s
            else case seal C nonce s (cd_pub c) of
                   None \<Rightarrow> s
                 | Some blob \<Rightarrow>
                     (let b = give_pkt_of (cd_pub c) (net_id s) blob
                      in send_pkt b (send_pkt b (s\<lparr>cands := (cands s)[j := c\<lparr>cd_gave := now\<rparr>]\<rparr>))))
         else if ago (cd_pushed c) now (PACE (pace s) 30000) \<or> cd_node c = [] \<or> ha_since s = 0
                 \<or> now - max (cd_first c) (ha_since s) < PACE (pace s) 30000 \<or> length (pushes s) = NPEER then s
         else case seal C nonce s (cd_pub c) of
                None \<Rightarrow> s
              | Some blob \<Rightarrow>
                  s\<lparr>cands := (cands s)[j := c\<lparr>cd_pushed := now\<rparr>],
                    pushes := pushes s @ [\<lparr>q_node = cd_node c, q_net = hex64 (net_id s), q_key = fit 160 (b64_encode False True blob)\<rparr>]\<rparr>)"

definition tag_entity :: "bytes \<Rightarrow> bytes" where
  "tag_entity pub = ascii ''tag.hassmic_'' @ concat (map hex2 pub)"

definition poll_tag :: "bytes \<Rightarrow> arb \<Rightarrow> arb" where
  "poll_tag pub s = (if length (polls s) < NPEER then s\<lparr>polls := polls s @ [tag_entity pub]\<rparr> else s)"

section \<open>Datagrams heard\<close>

text \<open>A beacon of our own network: counted as a member once it authenticates and is fresh.\<close>

definition on_member :: "crypto \<Rightarrow> bytes \<Rightarrow> bytes \<Rightarrow> bytes \<Rightarrow> bytes \<Rightarrow> int \<Rightarrow> u32 \<Rightarrow> arb \<Rightarrow> arb" where
  "on_member C p pub nd r now ip s =
     (case get64 r of
        None \<Rightarrow> s
      | Some (c, r') \<Rightarrow>
          if length r' \<noteq> 16 \<and> length r' \<noteq> 17 \<or> \<not> tag_ok C s p then s
          else (let flags = (if length r' = 17 then hd r' else 0); i = take 8 pub;
                    known = (\<exists>x\<in>set (peers s). p_id x = i \<and> ago (p_seen x) now (peer_ttl s));
                    s1 = s\<lparr>cands := map (\<lambda>x. if cd_seen x \<noteq> 0 \<and> cd_pub x = pub then x\<lparr>cd_seen := 0\<rparr> else x) (cands s)\<rparr>;
                    (f, s2) = fresh i c now s1
                in if f then
                     (let (j, t) = peer i (peers s2);
                          s3 = s2\<lparr>peers := t[j := (t ! j)\<lparr>p_node := fit NLEN nd, p_ip := ip,
                                       p_quiet := (flags AND F_QUIET \<noteq> 0), p_kiosk := (flags AND F_KIOSK \<noteq> 0)\<rparr>]\<rparr>
                      in if \<not> known \<or> flags AND F_HELLO \<noteq> 0 then beacon C True now s3 else s3)
                   else s2))"

text \<open>A beacon from outside: noted, answered when it looks for a network, and handed ours if it is due.\<close>

definition on_outsider :: "crypto \<Rightarrow> bytes \<Rightarrow> bytes \<Rightarrow> u64 \<Rightarrow> bytes \<Rightarrow> int \<Rightarrow> u32 \<Rightarrow> arb \<Rightarrow> arb" where
  "on_outsider C nonce pub net nd now ip s =
     (let (j, t) = cand pub (cands s); c = t ! j;
          speed = (cd_first c = 0 \<and> \<not> ago (sped s) now (PACE (pace s) 300000));
          c1 = c\<lparr>cd_first := (if cd_first c = 0 then now else cd_first c), cd_ip := ip, cd_node := fit NLEN nd,
                 cd_net := net, cd_seen := now\<rparr>;
          s1 = s\<lparr>cands := t[j := c1], sped := (if speed then now else sped s), scans := (if speed then 0 else scans s)\<rparr>;
          s2 = (if in_net s1 \<and> net = 0 \<and> \<not> ago (answer_at s1) now 1000
                then beacon C True now (s1\<lparr>answer_at := now\<rparr>) else s1)
      in push C nonce j now s2)"

definition on_beacon :: "crypto \<Rightarrow> bytes \<Rightarrow> bytes \<Rightarrow> bytes \<Rightarrow> int \<Rightarrow> u32 \<Rightarrow> arb \<Rightarrow> arb" where
  "on_beacon C nonce p r0 now ip s =
     (case do { (pub, r1) \<leftarrow> take_n 32 r0; (net, r2) \<leftarrow> get64 r1; (nd, r3) \<leftarrow> get_node r2; Some (pub, net, nd, r3) } of
        None \<Rightarrow> s
      | Some (pub, net, nd, r) \<Rightarrow>
          if pub = pk s then s
          else if in_net s \<and> net = net_id s then on_member C p pub nd r now ip s
          else on_outsider C nonce pub net nd now ip s)"

definition preq_slot :: "bytes \<Rightarrow> preq list \<Rightarrow> nat \<times> preq list" where
  "preq_slot p t = (case slot_find (\<lambda>q. pq_seen q \<noteq> 0 \<and> pq_pub q = p) (\<lambda>q w. pq_seen q < pq_seen w) t of
     Inl j \<Rightarrow> (j, t) | Inr j \<Rightarrow> (j, t[j := preq0\<lparr>pq_pub := p\<rparr>]))"

interpretation preq_table: slot_table "\<lambda>q. pq_seen q \<noteq> 0" pq_pub "\<lambda>p. preq0\<lparr>pq_pub := p\<rparr>" preq_slot
  by (rule slot_table_scan [where older = "\<lambda>q w. pq_seen q < pq_seen w"]) (simp_all add: preq_slot_def)

definition on_pair :: "bytes \<Rightarrow> int \<Rightarrow> arb \<Rightarrow> arb" where
  "on_pair r0 now s =
     (case do { (pub, r1) \<leftarrow> take_n 32 r0; (net, r2) \<leftarrow> get64 r1; (nd, r3) \<leftarrow> get_node r2; Some (pub, net, nd) } of
        None \<Rightarrow> s
      | Some (pub, net, nd) \<Rightarrow>
          if pub = pk s then s
          else (let (j, t) = preq_slot pub (preqs s)
                in s\<lparr>preqs := t[j := \<lparr>pq_pub = pub, pq_node = fit NLEN nd, pq_net = net, pq_seen = now\<rparr>]\<rparr>))"

text \<open>A key handed to us: taken while pairing, else only from an Echo Home Assistant confirmed.\<close>

definition giver :: "arb \<Rightarrow> u64 \<Rightarrow> bytes \<Rightarrow> cand \<Rightarrow> bool" where
  "giver s net blob c \<longleftrightarrow> cd_seen c \<noteq> 0 \<and> cd_attested c \<and> cd_net c = net \<and> cd_pub c = take 32 blob"

definition on_give :: "crypto \<Rightarrow> bytes \<Rightarrow> int \<Rightarrow> arb \<Rightarrow> arb" where
  "on_give C r0 now s =
     (case do { (to, r1) \<leftarrow> take_n 32 r0; (net, r2) \<leftarrow> get64 r1; (blob, r3) \<leftarrow> take_n BLOB r2; Some (to, net, blob, r3) } of
        None \<Rightarrow> s
      | Some (to, net, blob, r) \<Rightarrow>
          if r \<noteq> [] \<or> to \<noteq> pk s then s
          else if pair_until s \<noteq> 0 \<and> now < pair_until s then snd (take_key C net blob now s)
          else if (\<exists>c\<in>set (cands s). giver s net blob c) \<and> (\<not> in_net s \<or> net < net_id s)
               then snd (take_key C net blob now s)
          else s)"

definition on_msg :: "crypto \<Rightarrow> bytes \<Rightarrow> bytes \<Rightarrow> int \<Rightarrow> u32 \<Rightarrow> arb \<Rightarrow> arb" where
  "on_msg C p r0 now ip s =
     (case do { (net, r1) \<leftarrow> get64 r0; (from, r2) \<leftarrow> take_n 8 r1; (to, r3) \<leftarrow> take_n 8 r2; (c, r4) \<leftarrow> get64 r3;
                (l, r5) \<leftarrow> take_n 1 r4; (q, r6) \<leftarrow> take_n (unat (hd l)) r5; Some (net, from, to, c, q, r6) } of
        None \<Rightarrow> s
      | Some (net, from, to, c, q, r) \<Rightarrow>
          if length r \<noteq> 16 \<or> \<not> in_net s \<or> net \<noteq> net_id s \<or> to \<noteq> take 8 (pk s) \<or> from = take 8 (pk s)
             \<or> ARB_MSG_MAX < length q \<or> \<not> tag_ok C s p then s
          else (let (f, s1) = fresh from c now s
                in if \<not> f \<or> length (msgs s1) = NMSG then s1
                   else (let (j, t) = peer from (peers s1)
                         in s1\<lparr>peers := t, msgs := msgs s1 @ [\<lparr>m_from = from, m_p = q, m_node = p_node (t ! j), m_ip = ip\<rparr>]\<rparr>)))"

text \<open>A claim taken: into the ring of claims, and a sample of our open round if it is one of that round.\<close>

definition take_claim :: "claim \<Rightarrow> int \<Rightarrow> arb \<Rightarrow> arb" where
  "take_claim k now s =
     (let s1 = s\<lparr>claims := (claims s)[unat (claim_next s) mod NCLAIM := k], claim_next := claim_next s + 1\<rparr>;
          d = now - rd_at (rnd s)
      in if rd_open (rnd s) \<and> c_kw k = rd_kw (rnd s) \<and> d \<le> MEASURE_MS then
           (let s2 = heard (c_id k) now (c_score k) (c_prio k) (c_won k) s1
            in if \<not> c_won k then sample (c_id k) d now s2 else s2)
         else s1)"

definition on_claim :: "crypto \<Rightarrow> bytes \<Rightarrow> bytes \<Rightarrow> int \<Rightarrow> arb \<Rightarrow> arb" where
  "on_claim C p r0 now s =
     (case do { (net, r1) \<leftarrow> get64 r0; (i, r2) \<leftarrow> take_n 8 r1; (c, r3) \<leftarrow> get64 r2; (kw, r4) \<leftarrow> take_n 8 r3;
                (sc, r5) \<leftarrow> take_n 4 r4; (pw, r6) \<leftarrow> take_n 2 r5; Some (net, i, c, kw, sc, pw, r6) } of
        None \<Rightarrow> s
      | Some (net, i, c, kw, sc, pw, r) \<Rightarrow>
          if length r \<noteq> 16 \<or> \<not> in_net s \<or> net \<noteq> net_id s \<or> i = take 8 (pk s) \<or> \<not> tag_ok C s p then s
          else (let (f, s1) = fresh i c now s
                in if \<not> f then s1
                   else take_claim \<lparr>c_id = i, c_kw = kw, c_score = sint (le_dec sc :: u32), c_prio = uint (pw ! 0),
                                    c_won = (pw ! 1 \<noteq> 0), c_at = now\<rparr> now s1))"

definition on_packet :: "crypto \<Rightarrow> bytes \<Rightarrow> bytes \<Rightarrow> int \<Rightarrow> u32 \<Rightarrow> arb \<Rightarrow> arb" where
  "on_packet C nonce p now ip s =
     (case take_n 5 p of
        None \<Rightarrow> s
      | Some (m, r) \<Rightarrow>
          if take 4 m \<noteq> HMA1 then s
          else if m ! 4 = T_BEACON then on_beacon C nonce p r now ip s
          else if m ! 4 = T_PAIR then on_pair r now s
          else if m ! 4 = T_GIVE then on_give C r now s
          else if m ! 4 = T_MSG then on_msg C p r now ip s
          else if m ! 4 = T_CLAIM then on_claim C p r now s
          else s)"

end
