(* ===== verification/Arb_Round.thy ===== *)
theory Arb_Round
  imports Arb_Network
begin

text \<open>
  \<^verbatim>\<open>src/hassmic/arb.c\<close>, part 6: a round of wake word arbitration, from the claim to the decision,
  and the settings that shape it.
\<close>

section \<open>Which claim is better\<close>

type_synonym rank = "int \<times> int \<times> bytes"

text \<open>Priority first, then the score, then the higher id.\<close>

definition outranks :: "rank \<Rightarrow> rank \<Rightarrow> bool" where
  "outranks x y \<longleftrightarrow>
     (case (x, y) of ((px, sx, ix), (py, sy, iy)) \<Rightarrow> py < px \<or> px = py \<and> (sy < sx \<or> sx = sy \<and> bless iy ix))"

definition claim_rank :: "claim \<Rightarrow> rank" where
  "claim_rank k = (c_prio k, c_score k, c_id k)"

definition own_rank :: "arb \<Rightarrow> rank" where
  "own_rank s = (rd_prio (rnd s), rd_score (rnd s), take 8 (pk s))"

definition in_round :: "arb \<Rightarrow> claim \<Rightarrow> bool" where
  "in_round s k \<longleftrightarrow> c_at k \<noteq> 0 \<and> rd_at (rnd s) - LOOKBACK_MS \<le> c_at k \<and> c_kw k = rd_kw (rnd s)"

definition beaten :: "arb \<Rightarrow> bool" where
  "beaten s \<longleftrightarrow> (\<exists>k\<in>set (claims s). in_round s k \<and> (c_won k \<or> outranks (claim_rank k) (own_rank s)))"

section \<open>A round\<close>

definition claim_pkt :: "crypto \<Rightarrow> int \<Rightarrow> int \<Rightarrow> bool \<Rightarrow> arb \<Rightarrow> bytes \<times> arb" where
  "claim_pkt C score prio won s =
     (let b1 = put (put64 (head_pkt T_CLAIM) (net_id s)) (take 8 (pk s)); (c, s1) = next_ctr s;
          b2 = put (put (put (put64 b1 c) (rd_kw (rnd s))) (le_enc 4 (word_of_int score :: u32)))
                 [word_of_int prio, if won then 1 else 0]
      in (tag C s1 b2, s1))"

definition keyword_low :: "bytes \<Rightarrow> bytes" where
  "keyword_low keyword = map tolower_b (take 64 keyword)"

text \<open>
  A new wake word while the last round still samples: claims nearer to this detection are withdrawn
  from that round's samples, and that round's rivals are settled.
\<close>

definition withdraw1 :: "int \<Rightarrow> arb \<Rightarrow> got \<Rightarrow> arb" where
  "withdraw1 now s g =
     (if now - g_when g < g_when g - rd_at (rnd s) \<and> unat (ndelay s - g_slot g) \<le> NDELAY
      then s\<lparr>delays := (delays s)[unat (g_slot g) mod NDELAY := (delays s ! (unat (g_slot g) mod NDELAY))\<lparr>d_ms := -1\<rparr>],
             rnd := (rnd s)\<lparr>rd_dirty := True\<rparr>\<rparr>
      else s)"

definition withdraw_late :: "int \<Rightarrow> arb \<Rightarrow> arb" where
  "withdraw_late now s = (if rd_open (rnd s) then foldl (withdraw1 now) s (rd_got (rnd s)) else s)"

definition round_reset :: "crypto \<Rightarrow> bytes \<Rightarrow> int \<Rightarrow> arb \<Rightarrow> arb" where
  "round_reset C keyword now s =
     s\<lparr>rnd := (rnd s)\<lparr>rd_kw := blake2b C 8 (keyword_low keyword), rd_kiosk := kiosk_mode s, rd_at := now,
                       rd_open := False, rd_decided := False, rd_won := False, rd_got := []\<rparr>\<rparr>"

definition want_members :: "int \<Rightarrow> int \<Rightarrow> arb \<Rightarrow> want list" where
  "want_members score now s =
     map (\<lambda>p. \<lparr>w_id = p_id p, w_waits = rival_waits s (p_id p) score\<rparr>) (filter (counted s now) (peers s))"

definition early_claims :: "int \<Rightarrow> arb \<Rightarrow> arb" where
  "early_claims now s =
     foldl (\<lambda>s k. if c_at k \<noteq> 0 \<and> now - LOOKBACK_MS \<le> c_at k \<and> c_kw k = rd_kw (rnd s) then
              (let s' = heard (c_id k) (c_at k) (c_score k) (c_prio k) (c_won k) s
               in if \<not> c_won k then sample (c_id k) 0 (c_at k) s' else s')
            else s) s (claims s)"

definition open_round :: "crypto \<Rightarrow> int \<Rightarrow> int \<Rightarrow> int \<Rightarrow> arb \<Rightarrow> int \<times> arb" where
  "open_round C score prio now s =
     (let s1 = s\<lparr>rnd := (rnd s)\<lparr>rd_score := score, rd_prio := prio, rd_open := True,
                                  rd_want := take NPEER (rd_want (rnd s) @ want_members score now s)\<rparr>\<rparr>;
          nw = length (filter w_waits (want_members score now s));
          w = (if wauto s1 then fst (learned s1 now) else kwindow s1);
          s2 = early_claims now s1;
          (b, s3) = claim_pkt C score prio False s2;
          s4 = send_spread b now s3;
          due = now + (if nw = 0 then 0 else w)
      in (due, s4\<lparr>rnd := (rnd s4)\<lparr>rd_due := due\<rparr>\<rparr>))"

definition arb_claim :: "crypto \<Rightarrow> u32 \<Rightarrow> bytes \<Rightarrow> int \<Rightarrow> int \<Rightarrow> int \<Rightarrow> arb \<Rightarrow> int \<times> arb" where
  "arb_claim C r keyword score prio now s =
     (let s1 = withdraw_late now s;
          s2 = (if rd_open (rnd s1) then rivals_take ((rd_at (rnd s1) + now) div 2) s1 else s1);
          s3 = round_reset C keyword now s2
      in if rd_kiosk (rnd s3) then kiosk_claim keyword score now r s3
         else if running s3 \<and> arbitrate s3 \<and> in_net s3 \<and> count_peers s3 now \<noteq> 0 then open_round C score prio now s3
         else (0, s3))"

definition claimed :: "arb \<Rightarrow> peer \<Rightarrow> bool" where
  "claimed s p \<longleftrightarrow> (\<exists>k\<in>set (claims s). in_round s k \<and> c_id k = p_id p)"

definition arb_settled :: "int \<Rightarrow> arb \<Rightarrow> bool" where
  "arb_settled now s \<longleftrightarrow>
     \<not> rd_kiosk (rnd s) \<and> rd_open (rnd s) \<and> \<not> rd_decided (rnd s)
     \<and> (beaten s \<or> (\<forall>p\<in>set (peers s). waited s now p \<longrightarrow> claimed s p))"

definition arb_decide :: "crypto \<Rightarrow> int \<Rightarrow> arb \<Rightarrow> bool \<times> arb" where
  "arb_decide C now s =
     (if rd_kiosk (rnd s) then (kiosk_decide s, s)
      else (let win = (\<not> beaten s); s1 = s\<lparr>rnd := (rnd s)\<lparr>rd_decided := True, rd_won := win\<rparr>\<rparr>
            in (win, if win \<and> in_net s1
                     then (let (b, s2) = claim_pkt C (rd_score (rnd s1)) (rd_prio (rnd s1)) True s1 in send_spread b now s2)
                     else s1)))"

section \<open>Settings\<close>

text \<open>A negative argument (or one out of range) only reads.\<close>

definition arb_arbitrate :: "int \<Rightarrow> arb \<Rightarrow> bool \<times> arb" where
  "arb_arbitrate v s =
     (let s' = (if 0 \<le> v \<and> v \<noteq> (if arbitrate s then 1 else 0)
                then (save (s\<lparr>arbitrate := (v \<noteq> 0), claims := replicate NCLAIM claim0, beacon_at := 0\<rparr>))\<lparr>notify := True\<rparr>
                else s)
      in (arbitrate s', s'))"

definition arb_mode :: "int \<Rightarrow> arb \<Rightarrow> bool \<times> arb" where
  "arb_mode v s =
     (let s' = (if (v = 0 \<or> v = 1) \<and> (v = 1) \<noteq> kiosk_mode s
                then s\<lparr>kiosk_mode := (v = 1), claims := replicate NCLAIM claim0, kclaims := replicate NCLAIM kclaim0,
                       beacon_at := 0, notify := True\<rparr>
                else s)
      in (kiosk_mode s', s'))"

definition arb_offset :: "int \<Rightarrow> arb \<Rightarrow> int \<times> arb" where
  "arb_offset v s = (let s' = (if -20 \<le> v \<and> v \<le> 20 then s\<lparr>koffset := v\<rparr> else s) in (koffset s', s'))"

definition arb_window :: "int \<Rightarrow> arb \<Rightarrow> int \<times> arb" where
  "arb_window v s = (let s' = (if 100 \<le> v \<and> v \<le> AUTO_MAX_MS then s\<lparr>kwindow := v\<rparr> else s) in (kwindow s', s'))"

definition arb_window_auto :: "int \<Rightarrow> arb \<Rightarrow> bool \<times> arb" where
  "arb_window_auto v s =
     (let s' = (if 0 \<le> v \<and> (v = 0) \<noteq> (\<not> wauto s) then s\<lparr>wauto := (v \<noteq> 0)\<rparr> else s) in (wauto s', s'))"

definition arb_peers :: "int \<Rightarrow> arb \<Rightarrow> nat" where
  "arb_peers now s = (if running s then count_peers s now else 0)"

definition arb_rounds :: "int \<Rightarrow> arb \<Rightarrow> bool" where
  "arb_rounds now s \<longleftrightarrow> running s \<and> arbitrate s \<and> in_net s \<and> \<not> kiosk_mode s \<and> count_peers s now \<noteq> 0"

interpretation claim_order: election outranks
proof
  fix x y z :: rank
  show "\<not> outranks x x" by (simp add: outranks_def split: prod.splits)
  show "outranks x y \<Longrightarrow> outranks y z \<Longrightarrow> outranks x z"
    by (auto simp: outranks_def split: prod.splits intro: bless_trans)
  show "x \<noteq> y \<Longrightarrow> outranks x y \<or> outranks y x"
    using bless_total by (fastforce simp: outranks_def split: prod.splits)
qed

end
