(* ===== verification/Arb_Loop.thy ===== *)
theory Arb_Loop
  imports Arb_Round
begin

text \<open>
  \<^verbatim>\<open>src/hassmic/arb.c\<close>, part 7: one pass of the loop, the calls the other components make, and
  the start.  The loop's blocks are definitions of their own, in the order they run; what the pass
  takes from outside (datagrams, the clock, random bytes, the hooks' answers) is the record
  \<open>loop_in\<close>, what it hands to the hooks once the lock is released is a list of \<open>hook\<close> calls.
  The log, and \<open>hinted\<close> and \<open>wlogged\<close> which only pace it, are left out.
\<close>

section \<open>The loop's blocks\<close>

definition copy_at :: "copy \<Rightarrow> int" where
  "copy_at c = cp_at c + COPY_MS ! (2 - cp_left c)"

definition loop_kcopies :: "int \<Rightarrow> arb \<Rightarrow> arb" where
  "loop_kcopies now s =
     (if kcopies s \<noteq> 0 \<and> kcopy_at s \<le> now
      then (kiosk_send s)\<lparr>kcopy_at := kcopy_at s + KIOSK_GAP_MS, kcopies := kcopies s - 1\<rparr> else s)"

definition loop_copy :: "int \<Rightarrow> nat \<Rightarrow> arb \<Rightarrow> arb" where
  "loop_copy now i s =
     (let c = copies s ! i
      in if cp_left c \<noteq> 0 \<and> copy_at c \<le> now
         then (send_pkt (cp_p c) s)\<lparr>copies := (copies s)[i := c\<lparr>cp_left := cp_left c - 1\<rparr>]\<rparr> else s)"

definition loop_measure :: "int \<Rightarrow> arb \<Rightarrow> arb" where
  "loop_measure now s =
     (let s1 = (if rd_open (rnd s) \<and> MEASURE_MS \<le> now - rd_at (rnd s)
                then rivals_take (rd_at (rnd s) + MEASURE_MS) (s\<lparr>rnd := (rnd s)\<lparr>rd_open := False\<rparr>\<rparr>) else s)
      in if \<not> rd_open (rnd s1) \<and> rd_dirty (rnd s1) then s1\<lparr>rnd := (rnd s1)\<lparr>rd_dirty := False\<rparr>, unsaved := True\<rparr> else s1)"

definition loop_save :: "int \<Rightarrow> arb \<Rightarrow> arb" where
  "loop_save now s =
     (if unsaved s \<and> \<not> ago (saved_at s) now (PACE (pace s) 60000)
      then save (s\<lparr>unsaved := False, saved_at := now\<rparr>) else s)"

definition in_sight :: "arb \<Rightarrow> int \<Rightarrow> cand \<Rightarrow> bool" where
  "in_sight s now c \<longleftrightarrow> ago (cd_seen c) now (peer_ttl s)"

definition loop_create :: "crypto \<Rightarrow> bytes \<Rightarrow> u64 list \<Rightarrow> int \<Rightarrow> arb \<Rightarrow> arb" where
  "loop_create C k ids now s =
     (if \<not> in_net s \<and> \<not> (\<exists>c\<in>set (cands s). cd_net c \<noteq> 0 \<and> in_sight s now c) \<and> PACE (pace s) 5000 < now - started s
      then create C k ids now s else s)"

definition loop_push :: "crypto \<Rightarrow> (nat \<Rightarrow> bytes) \<Rightarrow> int \<Rightarrow> arb \<Rightarrow> arb" where
  "loop_push C nonce now s =
     foldl (\<lambda>s j. if in_sight s now (cands s ! j) then push C (nonce j) j now s else s) s [0..<NPEER]"

definition beacon_due :: "int \<Rightarrow> arb \<Rightarrow> bool" where
  "beacon_due now s \<longleftrightarrow>
     \<not> ago (beacon_at s) now (if in_net s then beacon_gap s
                              else if now - started s < PACE (pace s) 5000 then PACE (pace s) 1200 else PACE (pace s) 10000)"

definition loop_beacon :: "crypto \<Rightarrow> u32 \<Rightarrow> int \<Rightarrow> arb \<Rightarrow> arb" where
  "loop_beacon C r now s =
     (if beacon_due now s
      then beacon C False now
             (s\<lparr>beacon_at := now,
                beacon_gap := PACE (pace s) 20000 + uint r mod (PACE (pace s) 40000 - PACE (pace s) 20000)\<rparr>)
      else s)"

definition loop_scan :: "int \<Rightarrow> arb \<Rightarrow> arb" where
  "loop_scan now s =
     (if \<not> (\<not> in_net s \<or> (\<exists>c\<in>set (cands s). in_sight s now c)) then s\<lparr>scans := 0\<rparr>
      else if \<not> ago (scan_at s) now (if scans s < SCAN_N then PACE (pace s) 10000 else PACE (pace s) 300000)
      then s\<lparr>scan_at := now, scans := scans s + 1, scan_due := True\<rparr> else s)"

definition poll_due :: "int \<Rightarrow> arb \<Rightarrow> cand \<Rightarrow> bool" where
  "poll_due now s c \<longleftrightarrow>
     \<not> cd_attested c \<and> in_sight s now c
     \<and> (in_net s \<and> (cd_net c = 0 \<or> net_id s < cd_net c) \<or> cd_net c \<noteq> 0 \<and> (\<not> in_net s \<or> cd_net c < net_id s))
     \<and> \<not> ago (cd_polled c) now (PACE (pace s) 3000)"

definition loop_polls :: "int \<Rightarrow> arb \<Rightarrow> arb" where
  "loop_polls now s =
     foldl (\<lambda>s j. let c = cands s ! j
                  in if poll_due now s c then poll_tag (cd_pub c) (s\<lparr>cands := (cands s)[j := c\<lparr>cd_polled := now\<rparr>]\<rparr>) else s)
       s [0..<NPEER]"

definition pair_pkt :: "arb \<Rightarrow> bytes" where
  "pair_pkt s = beacon_head T_PAIR s"

definition loop_pair_end :: "int \<Rightarrow> arb \<Rightarrow> arb" where
  "loop_pair_end now s =
     (if pair_until s \<noteq> 0 \<and> pair_until s \<le> now
      then (if pair_gave s then s\<lparr>pair_until := 0\<rparr> else s\<lparr>pair_until := 0, pair_event := -1\<rparr>) else s)"

definition loop_pair_ask :: "int \<Rightarrow> arb \<Rightarrow> arb" where
  "loop_pair_ask now s =
     (if pair_until s \<noteq> 0 \<and> \<not> ago (pair_sent s) now 1000 then send_pkt (pair_pkt s) (s\<lparr>pair_sent := now\<rparr>) else s)"

text \<open>The requests that count, those from outside that take our network, and those of an older one.\<close>

definition asked :: "arb \<Rightarrow> preq list" where
  "asked s = filter (\<lambda>p. pq_seen p \<noteq> 0 \<and> pair_at s - PACE (pace s) 120000 \<le> pq_seen p) (preqs s)"

definition takers :: "arb \<Rightarrow> preq list" where
  "takers s = filter (\<lambda>p. pq_net p = 0 \<or> net_id s < pq_net p) (asked s)"

definition older_asked :: "arb \<Rightarrow> bool" where
  "older_asked s \<longleftrightarrow> (\<exists>p\<in>set (asked s). pq_net p \<noteq> 0 \<and> pq_net p < net_id s)"

definition loop_pair_give :: "crypto \<Rightarrow> bytes \<Rightarrow> int \<Rightarrow> arb \<Rightarrow> arb" where
  "loop_pair_give C nonce now s =
     (if pair_until s \<noteq> 0 \<and> in_net s \<and> \<not> pair_gave s \<and> PACE (pace s) 2000 \<le> now - pair_at s then
        (if older_asked s then s
         else if 1 < length (takers s) then s\<lparr>pair_until := 0, pair_event := -1\<rparr>
         else if length (takers s) = 1 then
           (let one = last (takers s)
            in case seal C nonce s (pq_pub one) of
                 None \<Rightarrow> s
               | Some blob \<Rightarrow> s\<lparr>give_pkt := give_pkt_of (pq_pub one) (net_id s) blob,
                                give_left := 3, give_at := 0, pair_gave := True\<rparr>)
         else s)
      else s)"

definition loop_give :: "int \<Rightarrow> arb \<Rightarrow> arb" where
  "loop_give now s =
     (if give_left s \<noteq> 0 \<and> \<not> ago (give_at s) now 500 then
        (let s1 = (send_pkt (give_pkt s) s)\<lparr>give_at := now, give_left := give_left s - 1\<rparr>
         in if give_left s1 = 0 then s1\<lparr>give_pkt := replicate (length (give_pkt s)) 0, pair_until := 0, pair_event := 2\<rparr> else s1)
      else s)"

section \<open>A pass\<close>

datatype hook =
    Send_key push_req
  | Request bytes
  | Scan bytes
  | Paired int
  | Message msg
  | Changed

definition loop_report :: "int \<Rightarrow> arb \<Rightarrow> arb" where
  "loop_report now s =
     (let np = int (count_peers s now) in if np \<noteq> reported_peers s then s\<lparr>reported_peers := np, notify := True\<rparr> else s)"

text \<open>The link to Home Assistant as the requests' results tell it.\<close>

definition loop_link :: "(bytes \<Rightarrow> bool) \<Rightarrow> bytes list \<Rightarrow> int \<Rightarrow> int \<Rightarrow> int" where
  "loop_link ha ps now h = foldl (\<lambda>h p. if \<not> ha p then 0 else if h = 0 then now else h) h ps"

definition loop_hooks :: "(bytes \<Rightarrow> bool) \<Rightarrow> int \<Rightarrow> arb \<Rightarrow> hook list \<times> arb" where
  "loop_hooks ha now s =
     (map Send_key (pushes s) @ map Request (polls s) @ (if scan_due s then [Scan (self_tag s)] else [])
      @ (if pair_event s \<noteq> 0 then [Paired (pair_event s)] else []) @ map Message (msgs s) @ (if notify s then [Changed] else []),
      s\<lparr>pushes := [], polls := [], scan_due := False, pair_event := 0, msgs := [], notify := False,
        ha_since := loop_link ha (polls s) now (ha_since s)\<rparr>)"

record loop_in =
  li_sync :: int
  li_opens :: bool
  li_pkt :: "(bytes \<times> bytes \<times> int \<times> u32) option"
  li_kiosk :: "(kclaim option \<times> int) option"
  li_now :: int
  li_k :: bytes
  li_ids :: "u64 list"
  li_nonce :: "nat \<Rightarrow> bytes"
  li_rand :: u32
  li_ha :: "bytes \<Rightarrow> bool"

definition loop_receive :: "crypto \<Rightarrow> loop_in \<Rightarrow> arb \<Rightarrow> arb" where
  "loop_receive C x s =
     (let s1 = kiosk_sync (li_opens x) (li_sync x) s;
          s2 = (case li_pkt x of Some (nonce, p, t, ip) \<Rightarrow> on_packet C nonce p t ip s1 | None \<Rightarrow> s1)
      in case li_kiosk x of Some (k, t) \<Rightarrow> if ksock s1 then kiosk_packet k t s2 else s2 | None \<Rightarrow> s2)"

definition loop_rounds :: "int \<Rightarrow> arb \<Rightarrow> arb" where
  "loop_rounds now s = loop_save now (loop_measure now (loop_copy now 1 (loop_copy now 0 (loop_kcopies now s))))"

definition loop_network :: "crypto \<Rightarrow> loop_in \<Rightarrow> arb \<Rightarrow> arb" where
  "loop_network C x s =
     (let now = li_now x
      in loop_polls now (loop_scan now (loop_beacon C (li_rand x) now
           (loop_push C (li_nonce x) now (loop_create C (li_k x) (li_ids x) now s)))))"

definition loop_pairing :: "crypto \<Rightarrow> loop_in \<Rightarrow> arb \<Rightarrow> arb" where
  "loop_pairing C x s =
     (let now = li_now x in loop_give now (loop_pair_give C (li_nonce x NPEER) now (loop_pair_ask now (loop_pair_end now s))))"

definition loop :: "crypto \<Rightarrow> loop_in \<Rightarrow> arb \<Rightarrow> hook list \<times> arb" where
  "loop C x s =
     (let now = li_now x; s1 = loop_rounds now (loop_receive C x s); s2 = loop_pairing C x (loop_network C x s1)
      in loop_hooks (li_ha x) now (loop_report now s2))"

section \<open>Calls from the other components\<close>

text \<open>\<open>strtoull(s, &end, 16)\<close>: white space, a sign, an optional 0x, the digits; saturated on overflow.\<close>

definition strtoull16 :: "bytes \<Rightarrow> u64 \<times> bytes" where
  "strtoull16 s =
     (let a = dropWhile isspace_b s;
          (neg, b) = (case a of c # r \<Rightarrow> if c = 0x2d then (True, r) else if c = 0x2b then (False, r) else (False, a) | [] \<Rightarrow> (False, a));
          d = (case b of c # x # h # r \<Rightarrow> if c = 0x30 \<and> (x = 0x78 \<or> x = 0x58) \<and> hexval h \<noteq> None then h # r else b | _ \<Rightarrow> b);
          (v, rest) = hex_digits 0 d
      in if rest = d then (0, s)
         else if 2 ^ 64 \<le> v then (- 1, rest)
         else ((if neg then - of_nat v else of_nat v), rest))"

definition arb_key :: "crypto \<Rightarrow> bytes \<Rightarrow> bytes \<Rightarrow> int \<Rightarrow> arb \<Rightarrow> arb" where
  "arb_key C network key now s =
     (let (i, rest) = strtoull16 network
      in if rest \<noteq> [] \<or> i = 0 then s
         else case b64_decode key (BLOB + 4) of
                None \<Rightarrow> s
              | Some blob \<Rightarrow> if length blob \<noteq> BLOB then s else snd (take_key C i blob now s))"

definition ha_confirms :: "bytes \<Rightarrow> bytes \<Rightarrow> cand \<Rightarrow> cand" where
  "ha_confirms entity st c =
     (if cd_seen c = 0 \<or> cd_attested c \<or> tag_entity (cd_pub c) \<noteq> entity then c
      else if cd_tag0 c = [] then c\<lparr>cd_tag0 := fit 48 st\<rparr>
      else if take 47 (cd_tag0 c) \<noteq> take 47 st then c\<lparr>cd_attested := True, cd_pushed := 0\<rparr>
      else c)"

definition arb_ha_state :: "bytes \<Rightarrow> bytes \<Rightarrow> arb \<Rightarrow> arb" where
  "arb_ha_state entity st s =
     (if st = [] \<or> st = ascii ''unknown'' \<or> st = ascii ''unavailable'' \<or> \<not> running s then s
      else s\<lparr>cands := map (ha_confirms entity st) (cands s)\<rparr>)"

definition arb_pair :: "int \<Rightarrow> arb \<Rightarrow> int \<times> arb" where
  "arb_pair now s =
     (if \<not> running s then (-1, s)
      else (0, s\<lparr>pair_at := now, pair_until := now + PACE (pace s) 120000, pair_sent := 0, pair_gave := False, pair_event := 1\<rparr>))"

definition arb_member :: "bytes \<Rightarrow> int \<Rightarrow> arb \<Rightarrow> (bytes \<times> u32) option" where
  "arb_member nd now s =
     (if running s \<and> in_net s
      then map_option (\<lambda>p. (p_id p, p_ip p))
             (find (\<lambda>p. ago (p_seen p) now (peer_ttl s) \<and> p_ip p \<noteq> 0 \<and> p_node p = nd) (peers s))
      else None)"

definition msg_pkt :: "crypto \<Rightarrow> bytes \<Rightarrow> bytes \<Rightarrow> arb \<Rightarrow> bytes \<times> arb" where
  "msg_pkt C to p s =
     (let b1 = put (put (put64 (head_pkt T_MSG) (net_id s)) (take 8 (pk s))) to; (c, s1) = next_ctr s
      in (tag C s1 (put (put (put64 b1 c) [of_nat (length p)]) p), s1))"

definition arb_tell :: "crypto \<Rightarrow> bytes \<Rightarrow> bytes \<Rightarrow> arb \<Rightarrow> int \<times> arb" where
  "arb_tell C to p s =
     (if ARB_MSG_MAX < length p \<or> \<not> running s \<or> \<not> in_net s then (-1, s)
      else (let (b, s1) = msg_pkt C to p s in (0, send_pkt b s1)))"

definition arb_derive :: "crypto \<Rightarrow> bytes \<Rightarrow> arb \<Rightarrow> bytes option" where
  "arb_derive C label s = (if running s \<and> in_net s then Some (blake2b_keyed C 32 (net_key s) label) else None)"

definition web_label :: bytes where
  "web_label = ascii ''hassmic web voucher 1''"

definition arb_web_key :: "crypto \<Rightarrow> arb \<Rightarrow> bytes option" where
  "arb_web_key C s = (if running s \<and> in_net s then Some (blake2b_keyed C 32 (net_key s) web_label) else None)"

definition arb_self :: "arb \<Rightarrow> bytes" where
  "arb_self s = take 8 (pk s)"

section \<open>The start\<close>

text \<open>
  \<open>binds\<close>: whether the socket opens and binds (and the thread starts); \<open>r\<close>: the random bytes of a
  new identity.  A counter block is reserved on disk before anything is sent.
\<close>

definition reserve :: "arb \<Rightarrow> arb" where
  "reserve s = save (s\<lparr>ctr := ctr_saved s, ctr_saved := ctr_saved s + CTR_BLOCK\<rparr>)"

definition arb_start :: "crypto \<Rightarrow> int \<Rightarrow> bool \<Rightarrow> bytes \<Rightarrow> bytes \<Rightarrow> bool \<Rightarrow> int \<Rightarrow> arb \<Rightarrow> bool \<times> arb" where
  "arb_start C scale ron nd r binds now s =
     (let s1 = load C (s\<lparr>pace := scale, rivals_on := ron, beacon_gap := PACE scale 20000, node := fit NLEN nd\<rparr>)
      in case identity C (\<not> ctr_known s1) r s1 of
           None \<Rightarrow> (False, s1)
         | Some s2 \<Rightarrow>
             (let s3 = reserve (s2\<lparr>kid := concat (map hex2 (take 8 (pk s2))), self_tag := ascii ''hassmic_'' @ concat (map hex2 (pk s2))\<rparr>)
              in if binds then (True, s3\<lparr>started := now, hello_until := now + PACE scale 40000, running := True\<rparr>)
                 else (False, s3)))"

end
