(* ===== verification/Arb_Agree.thy ===== *)
theory Arb_Agree
  imports Arb_Loop
begin

text \<open>
  What a round achieves: a claim sent is the claim heard, copies count once, and of the Echos that
  heard each other's claims exactly one answers, in both modes.
\<close>

section \<open>A claim on the wire\<close>

lemma next_ctr_frame [frame]:
  assumes "next_ctr s = (c, s')"
  shows "c = ctr s + 1" "ctr s' = ctr s + 1" "mac_key s' = mac_key s" "net_id s' = net_id s" "pk s' = pk s"
    "rnd s' = rnd s" "claims s' = claims s" "peers s' = peers s" "in_net s' = in_net s" "sent s' = sent s"
    "copies s' = copies s" "net_key s' = net_key s" "sk s' = sk s" "node s' = node s"
  using assms by (auto simp: next_ctr_def save_def Let_def split: if_splits)

text \<open>The bytes of a claim before its tag, and what they say.\<close>

definition claim_body :: "u64 \<Rightarrow> bytes \<Rightarrow> u64 \<Rightarrow> bytes \<Rightarrow> int \<Rightarrow> int \<Rightarrow> bool \<Rightarrow> bytes" where
  "claim_body net i c kw sc pr won =
     HMA1 @ [T_CLAIM] @ le_enc 8 net @ i @ le_enc 8 c @ kw @ le_enc 4 (word_of_int sc :: u32)
     @ [word_of_int pr, if won then 1 else 0]"

lemma claim_pkt_bytes:
  assumes "length kw = 8" "length (pk s) = 32" "kw = rd_kw (rnd s)"
    and "length (blake2b_keyed C 16 (mac_key s) b) = 16"
    and "b = claim_body (net_id s) (take 8 (pk s)) (ctr s + 1) kw sc pr won"
  shows "fst (claim_pkt C sc pr won s) = b @ blake2b_keyed C 16 (mac_key s) b"
proof -
  obtain c s1 where n: "next_ctr s = (c, s1)" by fastforce
  have e: "put (put (put (put64 (put (put64 (head_pkt T_CLAIM) (net_id s)) (take 8 (pk s))) c) (rd_kw (rnd s)))
              (le_enc 4 (word_of_int sc :: u32))) [word_of_int pr, if won then 1 else 0] = b"
    using assms by (simp add: head_pkt_eq put64_def put_def claim_body_def next_ctr_frame(1) [OF n])
  have l: "length b \<le> 240" using assms by (simp add: claim_body_def)
  show ?thesis
    using tag_accepted(1) [OF l, of C s1] assms(4) next_ctr_frame(3) [OF n]
    by (simp add: claim_pkt_def n e Let_def)
qed


lemma claim_parsed:
  fixes C :: crypto
  assumes "length kw = 8" "length i = 8" "length m = 16" "- (2 ^ 31) \<le> sc" "sc < 2 ^ 31" "0 \<le> pr" "pr < 256"
    and "p = claim_body net i c kw sc pr won @ m"
  shows "on_packet C nonce p now ip s =
     (if in_net s \<and> net = net_id s \<and> i \<noteq> take 8 (pk s) \<and> tag_ok C s p then
        (let (f, s1) = fresh i c now s
         in if f then take_claim \<lparr>c_id = i, c_kw = kw, c_score = sc, c_prio = pr, c_won = won, c_at = now\<rparr> now s1 else s1)
      else s)"
proof -
  have 1: "sint (word_of_int sc :: u32) = sc"
    using assms(4,5) by (simp add: signed_of_int signed_take_bit_int_eq_self)
  have 2: "uint (word_of_int pr :: byte) = pr" using assms(6,7) by (simp add: unsigned_of_int take_bit_int_eq_self)
  define q where "q = le_enc 8 net @ i @ le_enc 8 c @ kw @ le_enc 4 (word_of_int sc :: u32) @ [word_of_int pr, if won then 1 else 0] @ m"
  have 4: "p = (HMA1 @ [T_CLAIM]) @ q" using assms(8) by (simp add: claim_body_def q_def)
  have 5: "on_packet C nonce p now ip s = on_claim C p q now s"
    using take_n_append [of "HMA1 @ [T_CLAIM]" 5 q] by (simp add: on_packet_def 4 nth_append)
  have 6: "do { (net, r1) \<leftarrow> get64 q; (i, r2) \<leftarrow> take_n 8 r1; (c, r3) \<leftarrow> get64 r2; (kw, r4) \<leftarrow> take_n 8 r3;
                (sc, r5) \<leftarrow> take_n 4 r4; (pw, r6) \<leftarrow> take_n 2 r5; Some (net, i, c, kw, sc, pw, r6) }
      = Some (net, i, c, kw, le_enc 4 (word_of_int sc :: u32), [word_of_int pr, if won then 1 else 0], m)"
    using assms(1,2) take_n_append [of "[word_of_int pr, if won then 1 else 0]" 2 m]
    by (simp add: q_def wire)
  show ?thesis
    unfolding 5 on_claim_def 6 using assms(3)
    by (simp add: 1 2 wire Let_def split: prod.splits)
qed

lemma claim_read:
  fixes C :: crypto
  assumes "length kw = 8" "length i = 8" "length m = 16" "- (2 ^ 31) \<le> sc" "sc < 2 ^ 31" "0 \<le> pr" "pr < 256"
    and "p = claim_body net i c kw sc pr won @ m"
    and "in_net s" "net = net_id s" "i \<noteq> take 8 (pk s)"
    and "m = blake2b_keyed C 16 (mac_key s) (claim_body net i c kw sc pr won)"
  shows "on_packet C nonce p now ip s =
     (let (f, s1) = fresh i c now s
      in if f then take_claim \<lparr>c_id = i, c_kw = kw, c_score = sc, c_prio = pr, c_won = won, c_at = now\<rparr> now s1 else s1)"
proof -
  have "tag_ok C s p" using assms(3,8,12) by (simp add: tag_ok_def)
  with claim_parsed [OF assms(1-8)] assms(9-11) show ?thesis by simp
qed

section \<open>What a round may touch\<close>

text \<open>Only the round itself and what is learned from it: its samples and its rivals.\<close>

definition rounds_only :: "arb \<Rightarrow> arb \<Rightarrow> bool" where
  "rounds_only s t \<longleftrightarrow> t = s\<lparr>rnd := rnd t, delays := delays t, ndelay := ndelay t, rivals := rivals t\<rparr>"

lemma rounds_only_refl [simp]: "rounds_only s s"
  by (simp add: rounds_only_def)

lemma rounds_only_trans [trans]:
  assumes "rounds_only s t" "rounds_only t u"
  shows "rounds_only s u"
proof -
  have "u = (s\<lparr>rnd := rnd t, delays := delays t, ndelay := ndelay t, rivals := rivals t\<rparr>)
              \<lparr>rnd := rnd u, delays := delays u, ndelay := ndelay u, rivals := rivals u\<rparr>"
    using assms unfolding rounds_only_def by metis
  then show ?thesis unfolding rounds_only_def by simp
qed

lemma rounds_only_foldl: "(\<And>s x. rounds_only s (f s x)) \<Longrightarrow> rounds_only s (foldl f s xs)"
  by (induction xs arbitrary: s) (auto intro: rounds_only_trans)

lemma rounds_only_fields:
  assumes "rounds_only s t"
  shows "peers t = peers s" "claims t = claims s" "claim_next t = claim_next s" "pk t = pk s" "net_id t = net_id s"
    "in_net t = in_net s" "mac_key t = mac_key s" "net_key t = net_key s" "sk t = sk s" "kiosk_mode t = kiosk_mode s"
    "running t = running s" "arbitrate t = arbitrate s" "ctr t = ctr s" "ctr_saved t = ctr_saved s" "disk t = disk s"
    "disk_ok t = disk_ok s" "sent t = sent s" "copies t = copies s" "pace t = pace s" "key_disk t = key_disk s"
    "cands t = cands s" "msgs t = msgs s" "kclaims t = kclaims s"
proof -
  from assms obtain r d n v where t: "t = s\<lparr>rnd := r, delays := d, ndelay := n, rivals := v\<rparr>"
    unfolding rounds_only_def by blast
  show "peers t = peers s" "claims t = claims s" "claim_next t = claim_next s" "pk t = pk s" "net_id t = net_id s"
    "in_net t = in_net s" "mac_key t = mac_key s" "net_key t = net_key s" "sk t = sk s" "kiosk_mode t = kiosk_mode s"
    "running t = running s" "arbitrate t = arbitrate s" "ctr t = ctr s" "ctr_saved t = ctr_saved s" "disk t = disk s"
    "disk_ok t = disk_ok s" "sent t = sent s" "copies t = copies s" "pace t = pace s" "key_disk t = key_disk s"
    "cands t = cands s" "msgs t = msgs s" "kclaims t = kclaims s"
    by (simp_all add: t)
qed

lemma heard_rounds [frame]: "rounds_only s (heard i tm sc pr won s)"
  by (auto simp: rounds_only_def heard_def split: option.split)

lemma sample_rounds [frame]: "rounds_only s (sample i ms tm s)"
  by (auto simp: rounds_only_def sample_def put_delay_def)

lemma rivals_take_rounds [frame]: "rounds_only s (rivals_take cutoff s)"
  by (simp add: rounds_only_def rivals_take_def Let_def)

lemma withdraw_late_rounds [frame]: "rounds_only s (withdraw_late now s)"
  by (auto simp: withdraw_late_def intro!: rounds_only_foldl) (simp add: withdraw1_def rounds_only_def)

lemma early_claims_rounds [frame]: "rounds_only s (early_claims now s)"
  unfolding early_claims_def
  by (rule rounds_only_foldl) (auto simp: Let_def intro: rounds_only_trans heard_rounds sample_rounds)

text \<open>A round's own terms: what \<open>beaten\<close> compares with.\<close>

definition round_terms :: "arb \<Rightarrow> bytes \<times> int \<times> int \<times> int \<times> bool" where
  "round_terms s = (rd_kw (rnd s), rd_score (rnd s), rd_prio (rnd s), rd_at (rnd s), rd_kiosk (rnd s))"

lemma heard_terms [frame]: "round_terms (heard i tm sc pr won s) = round_terms s"
  by (auto simp: round_terms_def heard_def split: option.split)

lemma sample_terms [frame]: "round_terms (sample i ms tm s) = round_terms s"
  by (auto simp: round_terms_def sample_def put_delay_def)

lemma foldl_same: "(\<And>s x. g (f s x) = g s) \<Longrightarrow> g (foldl f s xs) = g s"
  by (induction xs arbitrary: s) auto

lemma early_claims_terms [frame]: "round_terms (early_claims now s) = round_terms s"
  unfolding early_claims_def by (rule foldl_same) (auto simp: Let_def frame)

lemma take_claim_terms [frame]:
  "round_terms (take_claim k now s) = round_terms s" 
  "claims (take_claim k now s) = (claims s)[unat (claim_next s) mod NCLAIM := k]"
  "claim_next (take_claim k now s) = claim_next s + 1"
  "peers (take_claim k now s) = peers s" "pk (take_claim k now s) = pk s" "net_id (take_claim k now s) = net_id s"
  "in_net (take_claim k now s) = in_net s" "mac_key (take_claim k now s) = mac_key s"
proof -
  let ?s = "s\<lparr>claims := (claims s)[unat (claim_next s) mod NCLAIM := k], claim_next := claim_next s + 1\<rparr>"
  have r: "rounds_only ?s (take_claim k now s)"
    by (auto simp: take_claim_def Let_def intro: rounds_only_trans heard_rounds sample_rounds)
  show "round_terms (take_claim k now s) = round_terms s"
    by (auto simp: take_claim_def Let_def frame) (simp_all add: round_terms_def)
  show "claims (take_claim k now s) = (claims s)[unat (claim_next s) mod NCLAIM := k]"
  "claim_next (take_claim k now s) = claim_next s + 1"
  "peers (take_claim k now s) = peers s" "pk (take_claim k now s) = pk s" "net_id (take_claim k now s) = net_id s"
  "in_net (take_claim k now s) = in_net s" "mac_key (take_claim k now s) = mac_key s"
    by (simp_all add: rounds_only_fields [OF r])
qed

section \<open>Members known to us\<close>

text \<open>The counter last taken from a member in the table.\<close>

definition knows :: "arb \<Rightarrow> bytes \<Rightarrow> u64 \<Rightarrow> bool" where
  "knows s i c \<longleftrightarrow> (\<exists>p\<in>set (peers s). p_seen p \<noteq> 0 \<and> p_id p = i \<and> p_ctr p = c)"

lemma peer_known:
  assumes "peers_ok (peers s)" "j < length (peers s)" "p_seen (peers s ! j) \<noteq> 0" "p_id (peers s ! j) = i"
  shows "peer i (peers s) = (j, peers s)"
proof -
  have u: "uniq (\<lambda>p. p_seen p \<noteq> 0) p_id (peers s)" using assms(1) by (simp add: peers_ok_def)
  show ?thesis
  proof (rule peer_table.slot_cases [OF peers_ok_nonempty [OF assms(1)], of i])
    fix j' assume "j' < length (peers s)" "peer i (peers s) = (j', peers s)"
      "p_seen (peers s ! j') \<noteq> 0" "p_id (peers s ! j') = i"
    moreover from this assms u have "j' = j" unfolding uniq_def by blast
    ultimately show ?thesis by simp
  next
    assume "\<forall>e\<in>set (peers s). \<not> entry_for (\<lambda>p. p_seen p \<noteq> 0) p_id i e"
    with assms show ?thesis by (auto simp: entry_for_def)
  qed
qed

lemma fresh_known_old:
  assumes "peers_ok (peers s)" "knows s i c0" "c \<le> c0"
  shows "fresh i c now s = (False, s)"
proof -
  from assms(2) obtain j where "j < length (peers s)" "p_seen (peers s ! j) \<noteq> 0" "p_id (peers s ! j) = i"
    "p_ctr (peers s ! j) = c0" by (auto simp: knows_def in_set_conv_nth)
  with assms show ?thesis by (simp add: fresh_def peer_known)
qed

lemma fresh_known_new:
  assumes ok: "peers_ok (peers s)" and k: "knows s i c0" and "c0 < c" "now \<noteq> 0"
  obtains t where "fresh i c now s = (True, s\<lparr>peers := t\<rparr>)" "peers_ok t" "knows (s\<lparr>peers := t\<rparr>) i c"
    "\<And>i' c'. i' \<noteq> i \<Longrightarrow> knows s i' c' \<Longrightarrow> knows (s\<lparr>peers := t\<rparr>) i' c'"
proof -
  from k obtain j where j: "j < length (peers s)" "p_seen (peers s ! j) \<noteq> 0" "p_id (peers s ! j) = i"
    "p_ctr (peers s ! j) = c0" by (auto simp: knows_def in_set_conv_nth)
  define t where "t = (peers s)[j := (peers s ! j)\<lparr>p_ctr := c, p_seen := now\<rparr>]"
  have f: "fresh i c now s = (True, s\<lparr>peers := t\<rparr>)"
    using ok j assms(3) by (simp add: fresh_def peer_known t_def Let_def leD)
  have tj: "t ! j = (peers s ! j)\<lparr>p_ctr := c, p_seen := now\<rparr>" "j < length t" using j by (simp_all add: t_def)
  have "knows (s\<lparr>peers := t\<rparr>) i c"
    using tj j(3) assms(4) nth_mem [OF tj(2)] unfolding knows_def by (intro bexI [of _ "t ! j"]) simp_all
  moreover have "knows (s\<lparr>peers := t\<rparr>) i' c'" if "i' \<noteq> i" and kn: "knows s i' c'" for i' c'
  proof -
    from kn obtain m where m: "m < length (peers s)" "p_seen (peers s ! m) \<noteq> 0" "p_id (peers s ! m) = i'"
      "p_ctr (peers s ! m) = c'" by (auto simp: knows_def in_set_conv_nth)
    with j \<open>i' \<noteq> i\<close> have "t ! m = peers s ! m" by (auto simp: t_def nth_list_update)
    moreover have "t ! m \<in> set t" using m by (intro nth_mem) (simp add: t_def)
    ultimately show ?thesis using m unfolding knows_def by (intro bexI [of _ "t ! m"]) simp_all
  qed
  ultimately show ?thesis using that [OF f] fresh_ok [OF ok f] by simp
qed

section \<open>Hearing a round's claims\<close>

type_synonym announcement = "bytes \<times> u64 \<times> int \<times> int"

definition ann_body :: "u64 \<Rightarrow> bytes \<Rightarrow> announcement \<Rightarrow> bytes" where
  "ann_body net kw a = (case a of (i, c, sc, pr) \<Rightarrow> claim_body net i c kw sc pr False)"

definition ann_pkt :: "crypto \<Rightarrow> u64 \<Rightarrow> bytes \<Rightarrow> bytes \<Rightarrow> announcement \<Rightarrow> bytes" where
  "ann_pkt C net mk kw a = ann_body net kw a @ blake2b_keyed C 16 mk (ann_body net kw a)"

definition ann_ok :: "announcement \<Rightarrow> bool" where
  "ann_ok a = (case a of (i, c, sc, pr) \<Rightarrow>
     length i = 8 \<and> - (2 ^ 31) \<le> sc \<and> sc < 2 ^ 31 \<and> 0 \<le> pr \<and> pr < 256)"

definition ann_rank :: "announcement \<Rightarrow> rank" where
  "ann_rank a = (case a of (i, c, sc, pr) \<Rightarrow> (pr, sc, i))"

type_synonym delivery = "bytes \<times> bytes \<times> int \<times> u32"

definition hears :: "crypto \<Rightarrow> delivery list \<Rightarrow> arb \<Rightarrow> arb" where
  "hears C ps s = foldl (\<lambda>s (nonce, p, now, ip). on_packet C nonce p now ip s) s ps"

text \<open>A claim of the round of keyword \<open>kw\<close> detected at \<open>tm\<close>, which may come before the detection.\<close>

definition of_round :: "int \<Rightarrow> bytes \<Rightarrow> claim \<Rightarrow> bool" where
  "of_round tm kw k \<longleftrightarrow> c_at k \<noteq> 0 \<and> tm - LOOKBACK_MS \<le> c_at k \<and> c_kw k = kw"

definition rivals_heard :: "int \<Rightarrow> bytes \<Rightarrow> arb \<Rightarrow> rank set" where
  "rivals_heard tm kw s = claim_rank ` {k \<in> set (claims s). of_round tm kw k}"

definition slots_free :: "int \<Rightarrow> bytes \<Rightarrow> nat \<Rightarrow> arb \<Rightarrow> bool" where
  "slots_free tm kw n s \<longleftrightarrow> (\<forall>m<n. \<not> of_round tm kw (claims s ! ((unat (claim_next s) + m) mod 16)))"

text \<open>A receiver before or in its round, \<open>J\<close> of the claims \<open>A\<close> heard so far.\<close>

definition listening :: "int \<Rightarrow> u64 \<Rightarrow> bytes \<Rightarrow> bytes \<Rightarrow> announcement set \<Rightarrow> announcement set \<Rightarrow> arb \<Rightarrow> bool" where
  "listening tm net mk kw A J s \<longleftrightarrow>
     in_net s \<and> net_id s = net \<and> mac_key s = mk \<and> peers_ok (peers s) \<and> length (claims s) = 16
     \<and> take 8 (pk s) \<notin> fst ` A \<and> J \<subseteq> A
     \<and> (\<forall>a\<in>A. \<exists>c0. knows s (fst a) c0 \<and> (fst (snd a) \<le> c0 \<longleftrightarrow> a \<in> J))
     \<and> slots_free tm kw (16 - card J) s \<and> (\<forall>k\<in>set (claims s). of_round tm kw k \<longrightarrow> \<not> c_won k)
     \<and> rivals_heard tm kw s = ann_rank ` J"

lemma unat_claim_next: "(unat ((w::u32) + 1) + m) mod 16 = (unat w + Suc m) mod 16"
proof -
  have "unat (w + 1) mod 16 = (unat w + 1) mod 2 ^ 32 mod 16" by (simp add: unat_word_ariths)
  also have "\<dots> = (unat w + 1) mod 16" by (rule mod_mod_cancel) simp
  finally have "unat (w + 1) mod 16 = (unat w + 1) mod 16" .
  then show ?thesis by (metis add_Suc_right add_Suc_shift mod_add_left_eq Suc_eq_plus1)
qed

lemma slot_apart: "m < 15 \<Longrightarrow> ((n::nat) + Suc m) mod 16 \<noteq> n mod 16"
proof
  assume "m < 15" "(n + Suc m) mod 16 = n mod 16"
  then have "16 dvd n + Suc m - n" using mod_eq_dvd_iff_nat [of n "n + Suc m" 16] by simp
  then have "16 dvd Suc m" by simp
  with \<open>m < 15\<close> show False by (auto dest: dvd_imp_le)
qed

lemma hear_old:
  assumes l: "listening tm net mk kw A J s" and a: "a \<in> J" "ann_ok a" and len: "length kw = 8"
    and mac: "\<And>b. length (blake2b_keyed C 16 mk b) = 16"
  shows "on_packet C nonce (ann_pkt C net mk kw a) now ip s = s"
proof -
  obtain i c sc pr where d: "a = (i, c, sc, pr)" by (cases a)
  have "a \<in> A" using l a by (auto simp: listening_def)
  then obtain c0 where k: "knows s i c0" "c \<le> c0" using l a(1) d by (fastforce simp: listening_def)
  have p: "peers_ok (peers s)" using l by (simp add: listening_def)
  show ?thesis
    using l a(2) len mac \<open>a \<in> A\<close>
    by (subst claim_read [where i = i and c = c and sc = sc and pr = pr and won = False and kw = kw and net = net,
             OF _ _ mac [of "ann_body net kw a"]])
       (auto simp: d ann_ok_def ann_pkt_def ann_body_def listening_def fresh_known_old [OF p k] image_iff)
qed

lemma claim_slot:
  assumes len: "length (claims s) = 16" and free: "slots_free tm kw (Suc n) s" and n: "n < 16"
    and t: "claims t = (claims s)[unat (claim_next s) mod 16 := k]" "claim_next t = claim_next s + 1"
    and k: "of_round tm kw k"
  shows "slots_free tm kw n t" "{x \<in> set (claims t). of_round tm kw x} = insert k {x \<in> set (claims s). of_round tm kw x}"
proof -
  let ?i = "unat (claim_next s) mod 16"
  have "\<not> of_round tm kw (claims t ! ((unat (claim_next t) + m) mod 16))" if "m < n" for m
  proof -
    have "(unat (claim_next s) + Suc m) mod 16 \<noteq> ?i" using that n by (intro slot_apart) simp
    then have "claims t ! ((unat (claim_next t) + m) mod 16) = claims s ! ((unat (claim_next s) + Suc m) mod 16)"
      unfolding t unat_claim_next by simp
    with free that show ?thesis by (auto simp: slots_free_def)
  qed
  then show "slots_free tm kw n t" by (simp add: slots_free_def)
  have i: "?i < length (claims s)" by (simp add: len)
  have old: "\<not> of_round tm kw (claims s ! ?i)"
    using free unfolding slots_free_def by (metis add.right_neutral zero_less_Suc)
  have "set (claims t) \<subseteq> insert k (set (claims s))" by (simp add: t(1) set_update_subset_insert)
  moreover have "k \<in> set (claims t)" unfolding t(1) by (rule set_update_memI [OF i])
  moreover have "x \<in> set (claims t)" if x: "x \<in> set (claims s)" "of_round tm kw x" for x
  proof -
    from x(1) obtain m where m: "m < length (claims s)" "claims s ! m = x" by (auto simp: in_set_conv_nth)
    with old x(2) have "m \<noteq> ?i" by auto
    with m have "claims t ! m = x" "m < length (claims t)" by (auto simp: t(1))
    then show ?thesis by (auto simp: in_set_conv_nth)
  qed
  ultimately show "{x \<in> set (claims t). of_round tm kw x} = insert k {x \<in> set (claims s). of_round tm kw x}"
    using k by auto
qed

lemma hear_new:
  assumes l: "listening tm net mk kw A J s" and a: "a \<in> A" "a \<notin> J" "ann_ok a" and len: "length kw = 8"
    and mac: "\<And>b. length (blake2b_keyed C 16 mk b) = 16"
    and A: "finite A" "card A \<le> 16" "inj_on fst A"
    and time: "now \<noteq> 0" "tm - LOOKBACK_MS \<le> now"
    and s': "s' = on_packet C nonce (ann_pkt C net mk kw a) now ip s"
  shows "listening tm net mk kw A (insert a J) s'" "round_terms s' = round_terms s" "pk s' = pk s"
proof -
  obtain i c sc pr where d: "a = (i, c, sc, pr)" by (cases a)
  define k where "k = \<lparr>c_id = i, c_kw = kw, c_score = sc, c_prio = pr, c_won = False, c_at = now\<rparr>"
  have J: "J \<subseteq> A" and p: "peers_ok (peers s)" using l by (simp_all add: listening_def)
  obtain c0 where "knows s i c0" "c0 < c" using l a(1,2) d by (fastforce simp: listening_def not_le)
  with p time(1) obtain t where f: "fresh i c now s = (True, s\<lparr>peers := t\<rparr>)" "peers_ok t"
    "knows (s\<lparr>peers := t\<rparr>) i c" "\<And>i' c'. i' \<noteq> i \<Longrightarrow> knows s i' c' \<Longrightarrow> knows (s\<lparr>peers := t\<rparr>) i' c'"
    using fresh_known_new [OF p] by metis
  have e: "s' = take_claim k now (s\<lparr>peers := t\<rparr>)"
    unfolding s' using l a(1,3) len mac
    by (subst claim_read [where i = i and c = c and sc = sc and pr = pr and won = False and kw = kw and net = net,
             OF _ _ mac [of "ann_body net kw a"]])
       (auto simp: d ann_ok_def ann_pkt_def ann_body_def listening_def f(1) image_iff k_def)
  have cs: "claims s' = (claims s)[unat (claim_next s) mod 16 := k]" "claim_next s' = claim_next s + 1"
    and rt: "round_terms s' = round_terms s" and pk: "pk s' = pk s" and pe: "peers s' = t"
    and nt: "net_id s' = net_id s" "in_net s' = in_net s" "mac_key s' = mac_key s"
    by (simp_all add: e take_claim_terms) (simp add: round_terms_def)
  show "round_terms s' = round_terms s" "pk s' = pk s" by (rule rt, rule pk)
  have "J \<subset> A" using J a(1,2) by blast
  then have "card J < card A" by (rule psubset_card_mono [OF A(1)])
  then have card: "card J < 16" using A(2) by linarith
  have inr: "of_round tm kw k" using time by (simp add: of_round_def k_def)
  have n: "Suc (16 - card (insert a J)) = 16 - card J" "16 - card (insert a J) < 16"
    using card a(2) finite_subset [OF J A(1)] by simp_all
  have free: "slots_free tm kw (Suc (16 - card (insert a J))) s" "length (claims s) = 16"
    using l unfolding n(1) by (simp_all add: listening_def)
  note cl = claim_slot [OF free(2,1) n(2) cs inr]
  have kn: "\<exists>c0. knows s' (fst b) c0 \<and> (fst (snd b) \<le> c0 \<longleftrightarrow> b \<in> insert a J)" if b: "b \<in> A" for b
  proof (cases "b = a")
    case True
    have "knows s' i c" using f(3) by (simp add: knows_def pe)
    with True show ?thesis by (auto simp: d)
  next
    case False
    then have ne: "fst b \<noteq> i" using inj_onD [OF A(3), of b a] a(1) b d by auto
    obtain c1 where c1: "knows s (fst b) c1" "fst (snd b) \<le> c1 \<longleftrightarrow> b \<in> J" using l b by (auto simp: listening_def)
    then have "knows s' (fst b) c1" using f(4) [OF ne] by (simp add: knows_def pe)
    with c1(2) False show ?thesis by auto
  qed
  have heard: "rivals_heard tm kw s' = ann_rank ` insert a J"
    using l cl(2) by (simp add: rivals_heard_def listening_def ann_rank_def d k_def claim_rank_def)
  have won: "\<forall>x\<in>set (claims s'). of_round tm kw x \<longrightarrow> \<not> c_won x"
  proof (intro ballI impI)
    fix x assume "x \<in> set (claims s')" "of_round tm kw x"
    then have "x \<in> insert k {x \<in> set (claims s). of_round tm kw x}" using cl(2) by blast
    then show "\<not> c_won x" using l by (auto simp: listening_def k_def)
  qed
  show "listening tm net mk kw A (insert a J) s'"
    unfolding listening_def using l J a(1) f(2) kn heard won cl(1)
    by (simp add: listening_def nt pk pe cs(1))
qed

lemma hears_all:
  assumes "listening tm net mk kw A J s" "finite A" "card A \<le> 16" "inj_on fst A" "\<forall>a\<in>A. ann_ok a" "length kw = 8"
    and mac: "\<And>b. length (blake2b_keyed C 16 mk b) = 16"
    and "\<forall>(nonce, p, now, ip)\<in>set ps. p \<in> ann_pkt C net mk kw ` A \<and> now \<noteq> 0 \<and> tm - LOOKBACK_MS \<le> now"
    and "s' = hears C ps s"
  shows "\<exists>J'. listening tm net mk kw A J' s' \<and> round_terms s' = round_terms s \<and> pk s' = pk s
           \<and> J \<subseteq> J' \<and> (\<forall>(nonce, p, now, ip)\<in>set ps. \<exists>a\<in>J'. p = ann_pkt C net mk kw a)"
  using assms(1,8,9)
proof (induction ps arbitrary: s J)
  case Nil
  then show ?case by (auto simp: hears_def)
next
  case (Cons x ps)
  obtain nonce p now ip where x: "x = (nonce, p, now, ip)" by (cases x)
  with Cons.prems(2) obtain a where a: "a \<in> A" "p = ann_pkt C net mk kw a" "now \<noteq> 0" "tm - LOOKBACK_MS \<le> now"
    by auto
  define s1 where "s1 = on_packet C nonce p now ip s"
  have ok: "ann_ok a" using a assms(5) by blast
  have l1: "listening tm net mk kw A (insert a J) s1" "round_terms s1 = round_terms s" "pk s1 = pk s"
  proof -
    have "listening tm net mk kw A (insert a J) s1 \<and> round_terms s1 = round_terms s \<and> pk s1 = pk s"
    proof (cases "a \<in> J")
      case True
      with hear_old [OF Cons.prems(1) True ok assms(6) mac] Cons.prems(1) show ?thesis
        by (simp add: s1_def a(2) insert_absorb)
    next
      case False
      from hear_new [OF Cons.prems(1) a(1) False ok assms(6) mac assms(2-4) a(3,4) s1_def [unfolded a(2)]]
      show ?thesis by simp
    qed
    then show "listening tm net mk kw A (insert a J) s1" "round_terms s1 = round_terms s" "pk s1 = pk s" by auto
  qed
  have q: "\<forall>(nonce, p, now, ip)\<in>set ps. p \<in> ann_pkt C net mk kw ` A \<and> now \<noteq> 0 \<and> tm - LOOKBACK_MS \<le> now"
    and h: "s' = hears C ps s1"
    using Cons.prems(2,3) by (simp_all add: hears_def x s1_def)
  from Cons.IH [OF l1(1) q h] obtain J' where J': "listening tm net mk kw A J' s'" "round_terms s' = round_terms s1"
      "pk s' = pk s1" "insert a J \<subseteq> J'" "\<forall>(nonce, p, now, ip)\<in>set ps. \<exists>a\<in>J'. p = ann_pkt C net mk kw a"
    by blast
  then show ?case using l1 a(2) x by (intro exI [of _ J']) auto
qed

section \<open>Opening a round\<close>

definition takes_part :: "u64 \<Rightarrow> bytes \<Rightarrow> int \<Rightarrow> arb \<Rightarrow> bool" where
  "takes_part net mk now s \<longleftrightarrow>
     running s \<and> arbitrate s \<and> in_net s \<and> \<not> kiosk_mode s \<and> net_id s = net \<and> mac_key s = mk \<and> length (pk s) = 32
     \<and> peers_ok (peers s) \<and> length (claims s) = 16 \<and> count_peers s now \<noteq> 0"

definition own_ann :: "arb \<Rightarrow> int \<Rightarrow> int \<Rightarrow> announcement" where
  "own_ann s sc pr = (take 8 (pk s), ctr s + 1, sc, pr)"

lemma claim_pkt_frame:
  assumes "claim_pkt C sc pr won s = (b, s')"
  shows "rnd s' = rnd s" "claims s' = claims s" "claim_next s' = claim_next s" "peers s' = peers s" "pk s' = pk s"
    "in_net s' = in_net s" "net_id s' = net_id s" "mac_key s' = mac_key s" "sent s' = sent s" "copies s' = copies s"
  using assms by (auto simp: claim_pkt_def next_ctr_def save_def Let_def split: if_splits)

lemma send_spread_frame:
  "rnd (send_spread b now s) = rnd s" "claims (send_spread b now s) = claims s" "peers (send_spread b now s) = peers s"
  "claim_next (send_spread b now s) = claim_next s" "pk (send_spread b now s) = pk s"
  "in_net (send_spread b now s) = in_net s" "net_id (send_spread b now s) = net_id s"
  "mac_key (send_spread b now s) = mac_key s" "sent (send_spread b now s) = sent s @ [b]"
  by (simp_all add: send_spread_def send_pkt_def Let_def)

lemma open_round_frame:
  assumes E: "open_round C sc pr now s = (due, E)" and len: "length (pk s) = 32" "length (rd_kw (rnd s)) = 8"
    and mac: "\<And>b. length (blake2b_keyed C 16 (mac_key s) b) = 16"
  shows "claims E = claims s" "claim_next E = claim_next s" "peers E = peers s" "pk E = pk s" "in_net E = in_net s"
    "net_id E = net_id s" "mac_key E = mac_key s"
    "round_terms E = (rd_kw (rnd s), sc, pr, rd_at (rnd s), rd_kiosk (rnd s))"
    "sent E = sent s @ [ann_pkt C (net_id s) (mac_key s) (rd_kw (rnd s)) (own_ann s sc pr)]"
proof -
  define s1 where "s1 = s\<lparr>rnd := (rnd s)\<lparr>rd_score := sc, rd_prio := pr, rd_open := True,
                            rd_want := take NPEER (rd_want (rnd s) @ want_members sc now s)\<rparr>\<rparr>"
  define s2 where "s2 = early_claims now s1"
  obtain b s3 where b: "claim_pkt C sc pr False s2 = (b, s3)" by fastforce
  have r: "rounds_only s s2"
    unfolding s2_def by (rule rounds_only_trans [OF _ early_claims_rounds]) (simp add: rounds_only_def s1_def)
  note fs = rounds_only_fields [OF r]
  have rt: "round_terms s2 = (rd_kw (rnd s), sc, pr, rd_at (rnd s), rd_kiosk (rnd s))"
    unfolding s2_def by (simp add: early_claims_terms) (simp add: s1_def round_terms_def)
  have kw2: "rd_kw (rnd s2) = rd_kw (rnd s)" using rt by (simp add: round_terms_def)
  have e: "E = (send_spread b now s3)\<lparr>rnd := (rnd (send_spread b now s3))\<lparr>rd_due := due\<rparr>\<rparr>"
    using E b by (auto simp: open_round_def s1_def s2_def Let_def)
  show "claims E = claims s" "claim_next E = claim_next s" "peers E = peers s" "pk E = pk s" "in_net E = in_net s"
    "net_id E = net_id s" "mac_key E = mac_key s"
    by (simp_all add: e send_spread_frame claim_pkt_frame [OF b] fs)
  show "round_terms E = (rd_kw (rnd s), sc, pr, rd_at (rnd s), rd_kiosk (rnd s))"
    using rt by (simp add: e send_spread_frame claim_pkt_frame [OF b] round_terms_def)
  have "b = ann_pkt C (net_id s) (mac_key s) (rd_kw (rnd s)) (own_ann s sc pr)"
    using claim_pkt_bytes [OF len(2) _ kw2 [symmetric] _ refl, of C sc pr False] len mac
    by (simp add: b ann_pkt_def ann_body_def own_ann_def fs)
  then show "sent E = sent s @ [ann_pkt C (net_id s) (mac_key s) (rd_kw (rnd s)) (own_ann s sc pr)]"
    by (simp add: e send_spread_frame claim_pkt_frame [OF b] fs)
qed

lemma arb_claim_frame:
  assumes E: "arb_claim C r keyword sc pr now s = (due, E)" and m: "takes_part net mk now s"
    and kw: "kw = blake2b C 8 (keyword_low keyword)" "length kw = 8"
    and mac: "\<And>b. length (blake2b_keyed C 16 mk b) = 16"
  shows "claims E = claims s" "claim_next E = claim_next s" "peers E = peers s" "pk E = pk s" "in_net E = in_net s"
    "net_id E = net_id s" "mac_key E = mac_key s"
    "round_terms E = (kw, sc, pr, now, False)"
    "sent E = sent s @ [ann_pkt C net mk kw (own_ann s sc pr)]"
proof -
  define s1 where "s1 = withdraw_late now s"
  define s2 where "s2 = (if rd_open (rnd s1) then rivals_take ((rd_at (rnd s1) + now) div 2) s1 else s1)"
  define s3 where "s3 = round_reset C keyword now s2"
  have r: "rounds_only s s3"
  proof -
    have "rounds_only s s1" by (simp add: s1_def withdraw_late_rounds)
    also have "rounds_only s1 s2" by (simp add: s2_def rivals_take_rounds)
    also have "rounds_only s2 s3" by (simp add: s3_def round_reset_def rounds_only_def)
    finally show ?thesis .
  qed
  note fs = rounds_only_fields [OF r]
  have k: "rd_kiosk (rnd s3) = kiosk_mode s" "rd_kw (rnd s3) = kw" "rd_at (rnd s3) = now"
  proof -
    have "kiosk_mode s2 = kiosk_mode s3" by (simp add: s3_def round_reset_def)
    then show "rd_kiosk (rnd s3) = kiosk_mode s" by (simp add: s3_def round_reset_def fs(10) [unfolded s3_def round_reset_def])
    show "rd_kw (rnd s3) = kw" "rd_at (rnd s3) = now" by (simp_all add: s3_def round_reset_def kw)
  qed
  have "counted s3 now = counted s now" by (rule ext) (simp add: counted_def peer_ttl_def fs)
  then have c: "count_peers s3 now = count_peers s now" by (simp add: count_peers_def fs)
  have "open_round C sc pr now s3 = (due, E)"
    using E m k(1) c by (simp add: arb_claim_def s1_def [symmetric] s2_def [symmetric] s3_def [symmetric] Let_def takes_part_def fs)
  note o = open_round_frame [OF this]
  show "claims E = claims s" "claim_next E = claim_next s" "peers E = peers s" "pk E = pk s" "in_net E = in_net s"
    "net_id E = net_id s" "mac_key E = mac_key s"
    "round_terms E = (kw, sc, pr, now, False)"
    "sent E = sent s @ [ann_pkt C net mk kw (own_ann s sc pr)]"
    using o m kw(2) mac by (simp_all add: k fs takes_part_def own_ann_def)
qed

lemma le_enc_inj:
  fixes v w :: "'a::len word"
  shows "LENGTH('a) \<le> 8 * n \<Longrightarrow> le_enc n v = le_enc n w \<longleftrightarrow> v = w"
  by (metis le_dec_le_enc)

lemma ann_pkt_inj:
  assumes "ann_pkt C net mk kw a = ann_pkt C net mk kw b" "ann_ok a" "ann_ok b" "\<And>b. length (blake2b_keyed C 16 mk b) = 16"
  shows "a = b"
proof -
  obtain i c sc pr where a: "a = (i, c, sc, pr)" by (cases a)
  obtain i' c' sc' pr' where b: "b = (i', c', sc', pr')" by (cases b)
  have "ann_body net kw a = ann_body net kw b"
    using assms(1,4) by (simp add: ann_pkt_def append_eq_append_conv)
  then have e: "i = i'" "c = c'" "(word_of_int sc :: u32) = word_of_int sc'" "(word_of_int pr :: byte) = word_of_int pr'"
    using assms(2,3) by (auto simp: a b ann_ok_def ann_body_def claim_body_def append_eq_append_conv le_enc_inj)
  have "sc = sc'"
    using arg_cong [OF e(3), of sint] assms(2,3) by (simp add: a b ann_ok_def signed_of_int signed_take_bit_int_eq_self)
  moreover have "pr = pr'"
    using arg_cong [OF e(4), of uint] assms(2,3) by (simp add: a b ann_ok_def unsigned_of_int take_bit_int_eq_self)
  ultimately show ?thesis using e by (simp add: a b)
qed

lemma listening_start:
  assumes "takes_part net mk now s" "take 8 (pk s) \<notin> fst ` A" "\<forall>k\<in>set (claims s). \<not> of_round tm kw k"
    "\<forall>a\<in>A. \<exists>c0. knows s (fst a) c0 \<and> c0 < fst (snd a)"
  shows "listening tm net mk kw A {} s"
proof -
  have "claims s ! ((unat (claim_next s) + m) mod 16) \<in> set (claims s)" for m
    using assms(1) by (intro nth_mem) (simp add: takes_part_def)
  then have "slots_free tm kw 16 s" using assms(3) by (auto simp: slots_free_def)
  moreover have "\<exists>c0. knows s (fst a) c0 \<and> \<not> fst (snd a) \<le> c0" if "a \<in> A" for a
    using assms(4) that by (auto simp: not_le)
  ultimately show ?thesis
    using assms(1-3) by (auto simp: listening_def takes_part_def rivals_heard_def)
qed

lemma listening_frame:
  assumes "listening tm net mk kw A J s" "claims t = claims s" "claim_next t = claim_next s" "peers t = peers s" "pk t = pk s"
    "in_net t = in_net s" "net_id t = net_id s" "mac_key t = mac_key s"
  shows "listening tm net mk kw A J t"
  using assms by (simp add: listening_def knows_def slots_free_def rivals_heard_def)

lemma decide_heard:
  assumes "listening tm net mk kw A J s" "round_terms s = (kw, sc, pr, tm, False)"
  shows "fst (arb_decide C now s) \<longleftrightarrow> \<not> (\<exists>x\<in>ann_rank ` J. outranks x (pr, sc, take 8 (pk s)))"
proof -
  have r: "in_round s = of_round tm kw" "own_rank s = (pr, sc, take 8 (pk s))" "\<not> rd_kiosk (rnd s)"
    using assms(2) by (auto simp: in_round_def of_round_def own_rank_def round_terms_def)
  have "ann_rank ` J = claim_rank ` {k \<in> set (claims s). of_round tm kw k}"
    using assms(1) by (simp add: listening_def rivals_heard_def)
  moreover have "\<forall>k\<in>set (claims s). of_round tm kw k \<longrightarrow> \<not> c_won k"
    using assms(1) by (simp add: listening_def)
  ultimately show ?thesis by (auto simp: arb_decide_def beaten_def r Let_def)
qed

text \<open>One Echo's round: early claims, its own detection, the rest of the claims.\<close>

lemma round_hears_all:
  assumes s: "takes_part net mk now s" "takes_part net mk tm (hears C early s)"
    and E: "E = snd (arb_claim C r keyword sc pr tm (hears C early s))"
    and kw: "kw = blake2b C 8 (keyword_low keyword)" "length kw = 8"
    and mac: "\<And>b. length (blake2b_keyed C 16 mk b) = 16"
    and A: "finite A" "card A \<le> 16" "inj_on fst A" "\<forall>a\<in>A. ann_ok a" "take 8 (pk s) \<notin> fst ` A"
    and new: "\<forall>k\<in>set (claims s). \<not> of_round tm kw k" "\<forall>a\<in>A. \<exists>c0. knows s (fst a) c0 \<and> c0 < fst (snd a)"
    and ps: "\<forall>(nonce, p, now, ip)\<in>set (early @ late). p \<in> ann_pkt C net mk kw ` A \<and> now \<noteq> 0 \<and> tm - LOOKBACK_MS \<le> now"
    and every: "\<forall>a\<in>A. \<exists>nonce now ip. (nonce, ann_pkt C net mk kw a, now, ip) \<in> set (early @ late)"
  shows "fst (arb_decide C u (hears C late E)) \<longleftrightarrow> \<not> (\<exists>x\<in>ann_rank ` A. outranks x (pr, sc, take 8 (pk s)))"
    "pk (hears C early s) = pk s"
proof -
  let ?P = "ann_pkt C net mk kw"
  have l0: "listening tm net mk kw A {} s" by (rule listening_start [OF s(1) A(5) new])
  from ps have pe: "\<forall>(nonce, p, now, ip)\<in>set early. p \<in> ?P ` A \<and> now \<noteq> 0 \<and> tm - LOOKBACK_MS \<le> now"
    and pl: "\<forall>(nonce, p, now, ip)\<in>set late. p \<in> ?P ` A \<and> now \<noteq> 0 \<and> tm - LOOKBACK_MS \<le> now" by auto
  from hears_all [OF l0 A(1-4) kw(2) mac pe refl] obtain J1 where
    J1: "listening tm net mk kw A J1 (hears C early s)" "pk (hears C early s) = pk s"
      "\<forall>(nonce, p, now, ip)\<in>set early. \<exists>a\<in>J1. p = ?P a" by blast
  obtain due where ac: "arb_claim C r keyword sc pr tm (hears C early s) = (due, E)" using E by (metis prod.collapse)
  note f = arb_claim_frame [OF ac s(2) kw mac]
  have lE: "listening tm net mk kw A J1 E" by (rule listening_frame [OF J1(1) f(1-7)])
  from hears_all [OF lE A(1-4) kw(2) mac pl refl] obtain J2 where
    J2: "listening tm net mk kw A J2 (hears C late E)" "round_terms (hears C late E) = round_terms E"
      "pk (hears C late E) = pk E" "J1 \<subseteq> J2" "\<forall>(nonce, p, now, ip)\<in>set late. \<exists>a\<in>J2. p = ?P a" by blast
  have sub: "J2 \<subseteq> A" using J2(1) by (simp add: listening_def)
  have "a \<in> J2" if a: "a \<in> A" for a
  proof -
    from every a obtain nonce now ip where "(nonce, ?P a, now, ip) \<in> set (early @ late)" by blast
    with J1(3) J2(4,5) obtain b where b: "b \<in> J2" "?P a = ?P b" by fastforce
    with ann_pkt_inj [OF b(2)] A(4) a sub mac show ?thesis by blast
  qed
  with sub have "J2 = A" by blast
  with decide_heard [OF J2(1)] J2(2,3) f(4,8) J1(2)
  show "fst (arb_decide C u (hears C late E)) \<longleftrightarrow> \<not> (\<exists>x\<in>ann_rank ` A. outranks x (pr, sc, take 8 (pk s)))"
    by simp
  show "pk (hears C early s) = pk s" by (rule J1(2))
qed

end
