(* ===== verification/Arb_Steps.thy ===== *)
theory Arb_Steps
  imports Arb_Agree
begin

text \<open>
  Every operation of the arbitration changes its identity, its network, its counter and its disk in
  four ways only: not at all, by taking the next counter, by saving, by joining a network.  The interfaces
  \<open>arb_quiet\<close> (the first three) and \<open>arb_steps\<close> (all four) state them as laws of a relation between the
  state before and after, indexed by the counters used; what is proved from the laws once holds for every
  datagram, every pass of the loop and every call, and is then interpreted for the relations of interest.
\<close>

definition core :: "arb \<Rightarrow> (bytes \<times> bytes \<times> bool) \<times> (bool \<times> u64 \<times> bytes \<times> bytes) \<times> (u64 \<times> u64) \<times> (line list option \<times> bool \<times> bytes option)" where
  "core s = ((pk s, sk s, running s), (in_net s, net_id s, net_key s, mac_key s), (ctr s, ctr_saved s), (disk s, disk_ok s, key_disk s))"

lemma core_upd [simp]:
  "core (s\<lparr>peers := x0\<rparr>) = core s" "core (s\<lparr>claims := x1\<rparr>) = core s" "core (s\<lparr>claim_next := x2\<rparr>) = core s"
  "core (s\<lparr>cands := x3\<rparr>) = core s" "core (s\<lparr>pushes := x4\<rparr>) = core s" "core (s\<lparr>polls := x5\<rparr>) = core s"
  "core (s\<lparr>preqs := x6\<rparr>) = core s" "core (s\<lparr>msgs := x7\<rparr>) = core s" "core (s\<lparr>sped := x8\<rparr>) = core s"
  "core (s\<lparr>scans := x9\<rparr>) = core s" "core (s\<lparr>scan_at := x10\<rparr>) = core s" "core (s\<lparr>scan_due := x11\<rparr>) = core s"
  "core (s\<lparr>answer_at := x12\<rparr>) = core s" "core (s\<lparr>beacon_at := x13\<rparr>) = core s" "core (s\<lparr>beacon_gap := x14\<rparr>) = core s"
  "core (s\<lparr>hello_until := x15\<rparr>) = core s" "core (s\<lparr>reported_peers := x16\<rparr>) = core s" "core (s\<lparr>notify := x17\<rparr>) = core s"
  "core (s\<lparr>ha_since := x18\<rparr>) = core s" "core (s\<lparr>pair_at := x19\<rparr>) = core s" "core (s\<lparr>pair_until := x20\<rparr>) = core s"
  "core (s\<lparr>pair_sent := x21\<rparr>) = core s" "core (s\<lparr>give_at := x22\<rparr>) = core s" "core (s\<lparr>pair_gave := x23\<rparr>) = core s"
  "core (s\<lparr>give_left := x24\<rparr>) = core s" "core (s\<lparr>pair_event := x25\<rparr>) = core s" "core (s\<lparr>give_pkt := x26\<rparr>) = core s"
  "core (s\<lparr>rnd := x27\<rparr>) = core s" "core (s\<lparr>rivals := x28\<rparr>) = core s" "core (s\<lparr>delays := x29\<rparr>) = core s"
  "core (s\<lparr>ndelay := x30\<rparr>) = core s" "core (s\<lparr>unsaved := x31\<rparr>) = core s" "core (s\<lparr>saved_at := x32\<rparr>) = core s"
  "core (s\<lparr>wauto := x33\<rparr>) = core s" "core (s\<lparr>arbitrate := x34\<rparr>) = core s" "core (s\<lparr>kiosk_mode := x35\<rparr>) = core s"
  "core (s\<lparr>kwindow := x36\<rparr>) = core s" "core (s\<lparr>koffset := x37\<rparr>) = core s" "core (s\<lparr>kclaims := x38\<rparr>) = core s"
  "core (s\<lparr>kround_p := x39\<rparr>) = core s" "core (s\<lparr>kround_e := x40\<rparr>) = core s" "core (s\<lparr>sent := x41\<rparr>) = core s"
  "core (s\<lparr>copies := x42\<rparr>) = core s" "core (s\<lparr>ksent := x43\<rparr>) = core s"
  by (simp_all add: core_def)

lemma core_rounds: "rounds_only s t \<Longrightarrow> core t = core s"
  by (simp add: core_def rounds_only_fields)

lemma core_send: "core (send_pkt b s) = core s"
  by (simp add: core_def send_pkt_def)

lemma core_spread: "core (send_spread b now s) = core s"
  by (simp add: core_def send_spread_def send_pkt_def Let_def)

lemma core_fresh: "core (snd (fresh i c now s)) = core s"
  by (auto simp: core_def fresh_def Let_def split: prod.splits)

lemma core_take_claim: "core (take_claim k now s) = core s"
proof -
  let ?s = "s\<lparr>claims := (claims s)[unat (claim_next s) mod NCLAIM := k], claim_next := claim_next s + 1\<rparr>"
  have r: "rounds_only ?s (take_claim k now s)"
    by (auto simp: take_claim_def Let_def intro: rounds_only_trans heard_rounds sample_rounds)
  show ?thesis using core_rounds [OF r] by (simp add: core_def)
qed

lemma core_push: "core (push C nonce j now s) = core s"
  by (auto simp: core_def push_def send_pkt_def Let_def split: option.split)

lemma core_loop_push: "core (loop_push C nonce now s) = core s"
  unfolding loop_push_def by (rule foldl_same) (simp add: core_push)

lemma core_kiosk_sync: "core (kiosk_sync o' now s) = core s"
  by (simp add: core_def kiosk_sync_def Let_def)

lemma core_kiosk_packet: "core (kiosk_packet k now s) = core s"
  by (simp add: core_def kiosk_packet_def split: option.split)

lemma core_kcopies: "core (loop_kcopies now s) = core s"
  by (simp add: core_def loop_kcopies_def kiosk_send_def)

lemma core_copy: "core (loop_copy now i s) = core s"
  by (simp add: core_def loop_copy_def send_pkt_def Let_def)

lemma core_measure: "core (loop_measure now s) = core s"
  by (simp add: core_def loop_measure_def rivals_take_def Let_def)

lemma core_scan: "core (loop_scan now s) = core s"
  by (simp add: core_def loop_scan_def)

lemma core_poll_tag: "core (poll_tag p s) = core s"
  by (simp add: core_def poll_tag_def)

lemma core_polls: "core (loop_polls now s) = core s"
  unfolding loop_polls_def by (rule foldl_same) (simp add: Let_def core_poll_tag)

lemma core_pairing: "core (loop_pairing C x s) = core s"
proof -
  have "core (loop_pair_end now s) = core s" "core (loop_pair_ask now s) = core s" "core (loop_give now s) = core s" for now s
    by (simp_all add: core_def loop_pair_end_def loop_pair_ask_def loop_give_def send_pkt_def Let_def)
  moreover have "core (loop_pair_give C n now s) = core s" for n now s
    by (simp add: core_def loop_pair_give_def Let_def split: option.split)
  ultimately show ?thesis by (simp add: loop_pairing_def Let_def)
qed

lemma core_report: "core (loop_report now s) = core s"
  by (simp add: core_def loop_report_def Let_def)

lemma core_hooks: "core (snd (loop_hooks ha now s)) = core s"
  by (simp add: core_def loop_hooks_def)

lemma core_kiosk_claim: "core (snd (kiosk_claim keyword score now r s)) = core s"
  by (simp add: core_def kiosk_claim_def kiosk_send_def Let_def)

lemmas core_simps = core_send core_spread core_fresh core_take_claim core_push core_loop_push core_kiosk_sync
  core_kiosk_packet core_kcopies core_copy core_measure core_scan core_polls core_pairing core_report core_hooks
  core_kiosk_claim

locale arb_quiet =
  fixes C :: crypto
    and R :: "nat \<Rightarrow> arb \<Rightarrow> arb \<Rightarrow> bool"
  assumes R_trans: "R m s t \<Longrightarrow> R n t u \<Longrightarrow> R (m + n) s u"
    and R_core: "core t = core s \<Longrightarrow> R n s t"
    and R_ctr: "R (Suc 0) s (snd (next_ctr s))"
    and R_save: "R 0 s (save s)"
begin

lemma R_refl: "R n s s"
  by (rule R_core) simp

lemma R_le: "R m s t \<Longrightarrow> m \<le> n \<Longrightarrow> R n s t"
  using R_trans [of m s t "n - m" t] R_refl by simp

lemma after: "core t = core s \<Longrightarrow> R n t u \<Longrightarrow> R n s u"
  using R_trans [of 0 s t n u] R_core by simp

lemma before: "R n s t \<Longrightarrow> core u = core t \<Longrightarrow> R n s u"
  using R_trans [of n s t 0 u] R_core by simp

lemma R_beacon: "R (Suc 0) s (beacon C answer now s)"
proof (cases "in_net s")
  case True
  have "\<exists>b. beacon C answer now s = send_pkt b (snd (next_ctr s))"
    using True by (auto simp: beacon_def Let_def split: prod.split)
  then show ?thesis using before [OF R_ctr core_send] by auto
next
  case False
  then show ?thesis by (auto simp: beacon_def Let_def core_send intro: R_core)
qed

lemma R_on_member: "R (Suc 0) s (on_member C p pub nd r now ip s)"
proof (cases "get64 r")
  case None
  then show ?thesis by (simp add: on_member_def R_refl)
next
  case (Some q)
  obtain c r' where q: "q = (c, r')" by (cases q)
  define s1 where "s1 = s\<lparr>cands := map (\<lambda>x. if cd_seen x \<noteq> 0 \<and> cd_pub x = pub then x\<lparr>cd_seen := 0\<rparr> else x) (cands s)\<rparr>"
  obtain f s2 where f: "fresh (take 8 pub) c now s1 = (f, s2)" by fastforce
  obtain j t where t: "peer (take 8 pub) (peers s2) = (j, t)" by fastforce
  have c2: "core s2 = core s" using core_fresh [of "take 8 pub" c now s1] f by (simp add: s1_def)
  have "R (Suc 0) s (if b then beacon C True now (s2\<lparr>peers := t'\<rparr>) else s2\<lparr>peers := t'\<rparr>)" for b t'
    using c2 by (auto intro: after [OF _ R_beacon] R_core)
  moreover have "R (Suc 0) s s2" using c2 by (rule R_core)
  ultimately show ?thesis
    unfolding on_member_def Some q option.case prod.case Let_def s1_def [symmetric] f t
    by (auto simp: R_refl)
qed

lemma R_on_outsider: "R (Suc 0) s (on_outsider C nonce pub net nd now ip s)"
proof -
  have "R (Suc 0) s (push C nonce j now (if b then beacon C True now (s1\<lparr>answer_at := now\<rparr>) else s1))"
    if "core s1 = core s" for s1 j b
  proof (rule before [OF _ core_push])
    show "R (Suc 0) s (if b then beacon C True now (s1\<lparr>answer_at := now\<rparr>) else s1)"
      using after [of "s1\<lparr>answer_at := now\<rparr>" s, OF _ R_beacon] that by (simp add: R_core)
  qed
  then show ?thesis
    unfolding on_outsider_def Let_def by (simp split: prod.split)
qed

lemma R_on_beacon: "R (Suc 0) s (on_beacon C nonce p r now ip s)"
  unfolding on_beacon_def by (auto simp: R_refl R_on_member R_on_outsider split: option.split prod.split)

lemma R_on_pair: "R n s (on_pair r now s)"
  by (rule R_core) (auto simp: on_pair_def core_def split: option.split prod.split)

lemma R_on_msg: "R n s (on_msg C p r now ip s)"
proof (rule R_core)
  have "core (let (f, s1) = fresh i c now s in if g f s1 then s1 else let (j, t) = peer i (peers s1) in s1\<lparr>peers := t, msgs := h s1 t j\<rparr>) = core s"
    for i c g h
    using core_fresh [of i c now s] by (auto simp: Let_def split: prod.split)
  then show "core (on_msg C p r now ip s) = core s"
    unfolding on_msg_def by (auto split: option.split prod.split)
qed

lemma R_on_claim: "R n s (on_claim C p r now s)"
proof (rule R_core)
  have "core (let (f, s1) = fresh i c now s in if \<not> f then s1 else take_claim k now s1) = core s" for i c k
    using core_fresh [of i c now s] by (auto simp: core_take_claim split: prod.split)
  then show "core (on_claim C p r now s) = core s"
    unfolding on_claim_def by (auto split: option.split prod.split)
qed

lemma R_loop_rounds: "R 0 s (loop_rounds now s)"
proof -
  let ?m = "loop_measure now (loop_copy now 1 (loop_copy now 0 (loop_kcopies now s)))"
  have m: "core ?m = core s" by (simp add: core_simps)
  have "R 0 ?m (loop_save now ?m)"
    using after [of "?m\<lparr>unsaved := False, saved_at := now\<rparr>" ?m, OF _ R_save] by (simp add: loop_save_def R_refl)
  with m show ?thesis unfolding loop_rounds_def by (rule after)
qed

lemma R_claim_pkt: "R (Suc 0) s (snd (claim_pkt C sc pr won s))"
  using R_ctr [of s] by (simp add: claim_pkt_def Let_def split: prod.split) (metis snd_conv)

lemma R_send_claim: "R (Suc 0) s (let (b, t) = claim_pkt C sc pr won s in send_spread b now t)"
  using before [OF R_claim_pkt [of s sc pr won] core_spread] by (simp split: prod.split) (metis snd_conv)

lemma R_open_round: "R (Suc 0) s (snd (open_round C sc pr now s))"
proof -
  define s1 where "s1 = s\<lparr>rnd := (rnd s)\<lparr>rd_score := sc, rd_prio := pr, rd_open := True,
                            rd_want := take NPEER (rd_want (rnd s) @ want_members sc now s)\<rparr>\<rparr>"
  have "core (early_claims now s1) = core s" by (simp add: core_rounds [OF early_claims_rounds]) (simp add: s1_def)
  then have "R (Suc 0) s (let (b, t) = claim_pkt C sc pr False (early_claims now s1) in send_spread b now t)"
    by (rule after [OF _ R_send_claim])
  then show ?thesis
    unfolding open_round_def s1_def [symmetric] Let_def
    by (auto split: prod.split intro: before)
qed

lemma R_arb_claim: "R (Suc 0) s (snd (arb_claim C r keyword sc pr now s))"
proof -
  define s1 where "s1 = withdraw_late now s"
  define s2 where "s2 = (if rd_open (rnd s1) then rivals_take ((rd_at (rnd s1) + now) div 2) s1 else s1)"
  define s3 where "s3 = round_reset C keyword now s2"
  have "core s3 = core s"
    by (simp add: s3_def s2_def s1_def round_reset_def core_rounds [OF rivals_take_rounds] core_rounds [OF withdraw_late_rounds])
  then show ?thesis
    unfolding arb_claim_def s1_def [symmetric] s2_def [symmetric] s3_def [symmetric] Let_def
    by (auto simp: core_simps intro: R_core after [OF _ R_open_round])
qed

lemma R_arb_decide: "R (Suc 0) s (snd (arb_decide C now s))"
  using after [of "s\<lparr>rnd := r\<rparr>" s for r, OF _ R_send_claim]
  by (auto simp: arb_decide_def Let_def R_refl split: prod.split intro: R_core)

lemma R_arb_tell: "R (Suc 0) s (snd (arb_tell C to p s))"
proof -
  have "R (Suc 0) s (snd (msg_pkt C to p s))"
    using R_ctr [of s] by (simp add: msg_pkt_def Let_def split: prod.split) (metis snd_conv)
  then show ?thesis
    by (auto simp: arb_tell_def R_refl Let_def split: prod.split intro: before [OF _ core_send])
qed

lemma R_arb_arbitrate: "R 0 s (snd (arb_arbitrate v s))"
proof -
  let ?t = "s\<lparr>arbitrate := (v \<noteq> 0), claims := replicate NCLAIM claim0, beacon_at := 0\<rparr>"
  have "R 0 s ((save ?t)\<lparr>notify := True\<rparr>)" by (rule before [OF after [OF _ R_save [of ?t]]]) simp_all
  then show ?thesis by (simp add: arb_arbitrate_def Let_def R_refl)
qed

lemma R_same: "R n s (arb_ha_state entity st s)" "R n s (snd (arb_pair now s))" "R n s (snd (arb_mode v s))"
  "R n s (snd (arb_offset v s))" "R n s (snd (arb_window v s))" "R n s (snd (arb_window_auto v s))"
  by (auto intro!: R_core simp: arb_ha_state_def arb_pair_def arb_mode_def arb_offset_def arb_window_def
      arb_window_auto_def Let_def)

end

text \<open>With joining a network, the fourth way, it is every operation.\<close>

locale arb_steps = arb_quiet +
  assumes R_adopt: "\<not> in_net s \<or> i < net_id s \<Longrightarrow> R 0 s (adopt C k i now s)"
begin

lemma R_take_key: "R 0 s (snd (take_key C i blob now s))"
proof -
  have "R 0 s (snd (take_key C i blob now s))" if "running s" "\<not> (in_net s \<and> net_id s \<le> i)"
  proof (cases "unseal C s i blob")
    case None
    with that show ?thesis by (simp add: take_key_def R_refl)
  next
    case (Some k)
    from that(2) have "R 0 s (adopt C k i now s)" by (intro R_adopt) auto
    then have "R 0 s (let s1 = adopt C k i now s in if pair_until s1 \<noteq> 0 then s1\<lparr>pair_until := 0, pair_event := 2\<rparr> else s1)"
      by (rule before) (simp add: Let_def)
    with that Some show ?thesis by (auto simp: take_key_def Let_def)
  qed
  then show ?thesis by (auto simp: take_key_def R_refl)
qed

lemma R_create: "\<not> in_net s \<Longrightarrow> R 0 s (create C k ids now s)"
  by (auto simp: create_def R_refl split: option.split intro: R_adopt)

lemma R_on_give: "R (Suc 0) s (on_give C r now s)"
  unfolding on_give_def by (auto simp: R_refl R_le [OF R_take_key] split: option.split prod.split)

lemma R_on_packet: "R (Suc 0) s (on_packet C nonce p now ip s)"
  unfolding on_packet_def
  by (auto simp: R_refl R_on_beacon R_on_pair R_on_give R_on_msg R_on_claim split: option.split prod.split)

lemma R_loop_receive: "R (Suc 0) s (loop_receive C x s)"
proof -
  define s1 where "s1 = kiosk_sync (li_opens x) (li_sync x) s"
  have 1: "core s1 = core s" by (simp add: s1_def core_kiosk_sync)
  define s2 where "s2 = (case li_pkt x of Some (nonce, p, t, ip) \<Rightarrow> on_packet C nonce p t ip s1 | None \<Rightarrow> s1)"
  have 2: "R (Suc 0) s s2" using after [OF 1 R_on_packet] R_core [OF 1] by (auto simp: s2_def split: option.split)
  show ?thesis
    unfolding loop_receive_def s1_def [symmetric] Let_def s2_def [symmetric]
    by (auto intro: 2 before [OF 2 core_kiosk_packet] split: option.split)
qed

lemma R_loop_network: "R (Suc 0) s (loop_network C x s)"
proof -
  let ?p = "loop_push C (li_nonce x) (li_now x) (loop_create C (li_k x) (li_ids x) (li_now x) s)"
  have "R 0 s (loop_create C (li_k x) (li_ids x) (li_now x) s)"
    by (auto simp: loop_create_def R_refl R_create)
  then have "R 0 s ?p" by (rule before) (simp add: core_simps)
  moreover have "R (Suc 0) ?p (loop_beacon C (li_rand x) (li_now x) ?p)"
    by (auto simp: loop_beacon_def R_refl intro: after [OF _ R_beacon])
  ultimately have "R (0 + Suc 0) s (loop_beacon C (li_rand x) (li_now x) ?p)" by (rule R_trans)
  then show ?thesis unfolding loop_network_def Let_def by (auto intro: before simp: core_simps)
qed

lemma R_loop: "R 2 s (snd (loop C x s))"
proof -
  let ?s1 = "loop_rounds (li_now x) (loop_receive C x s)"
  have "R (Suc 0 + 0 + Suc 0) s (loop_network C x ?s1)"
    by (rule R_trans [OF R_trans [OF R_loop_receive R_loop_rounds] R_loop_network])
  then have "R 2 s (loop_network C x ?s1)" by (simp add: numeral_2_eq_2)
  then show ?thesis unfolding loop_def Let_def by (rule before) (simp add: core_simps)
qed

lemma R_arb_key: "R 0 s (arb_key C network key now s)"
  by (auto simp: arb_key_def R_refl R_take_key split: prod.split option.split)

end

text \<open>What the daemon can do with the arbitration while it runs, and that its loop does.\<close>

inductive arb_step :: "crypto \<Rightarrow> arb \<Rightarrow> arb \<Rightarrow> bool" for C where
  step_loop: "arb_step C s (snd (loop C x s))"
| step_claim: "arb_step C s (snd (arb_claim C r keyword sc pr now s))"
| step_decide: "arb_step C s (snd (arb_decide C now s))"
| step_key: "arb_step C s (arb_key C network key now s)"
| step_tell: "arb_step C s (snd (arb_tell C to p s))"
| step_ha: "arb_step C s (arb_ha_state entity st s)"
| step_pair: "arb_step C s (snd (arb_pair now s))"
| step_arbitrate: "arb_step C s (snd (arb_arbitrate v s))"
| step_mode: "arb_step C s (snd (arb_mode v s))"
| step_offset: "arb_step C s (snd (arb_offset v s))"
| step_window: "arb_step C s (snd (arb_window v s))"
| step_auto: "arb_step C s (snd (arb_window_auto v s))"

context arb_steps
begin

lemma R_step: "arb_step C s t \<Longrightarrow> R 2 s t"
  by (induction rule: arb_step.induct)
     (auto intro: R_loop R_same R_le [OF R_arb_claim] R_le [OF R_arb_decide] R_le [OF R_arb_key] R_le [OF R_arb_tell]
        R_le [OF R_arb_arbitrate])

lemma R_steps: "(arb_step C ^^ n) s t \<Longrightarrow> R (2 * n) s t"
proof (induction n arbitrary: t)
  case 0
  then show ?case by (simp add: R_refl)
next
  case (Suc n)
  then obtain u where "R (2 * n) s u" "R 2 u t" by (auto intro: R_step)
  then have "R (2 * n + 2) s t" by (rule R_trans)
  then show ?case by simp
qed

end

end
