(* ===== verification/Arb_Restart.thy ===== *)
theory Arb_Restart
  imports Arb_Steps
begin

text \<open>
  What survives a crash: identity, network and a packet counter above every one used before.
  Obtained from the interface \<open>arb_steps\<close>, interpreted for three relations.
\<close>

section \<open>Identity and network\<close>

lemma next_ctr_core:
  "pk (snd (next_ctr s)) = pk s" "sk (snd (next_ctr s)) = sk s" "running (snd (next_ctr s)) = running s"
  "in_net (snd (next_ctr s)) = in_net s" "net_id (snd (next_ctr s)) = net_id s" "net_key (snd (next_ctr s)) = net_key s"
  "mac_key (snd (next_ctr s)) = mac_key s" "disk_ok (snd (next_ctr s)) = disk_ok s" "key_disk (snd (next_ctr s)) = key_disk s"
  by (simp_all add: next_ctr_def save_def Let_def)

interpretation same_identity: arb_steps C
  "\<lambda>n s t. pk t = pk s \<and> sk t = sk s \<and> running t = running s \<and> key_disk t = key_disk s \<and> disk_ok t = disk_ok s" for C
  by unfold_locales (auto simp: core_def next_ctr_core save_def adopt_def derive_def)

interpretation older_network: arb_steps C
  "\<lambda>n s t. in_net s \<longrightarrow> in_net t \<and> net_id t \<le> net_id s
      \<and> (net_id t = net_id s \<longrightarrow> net_key t = net_key s \<and> mac_key t = mac_key s)" for C
  by unfold_locales (auto simp: core_def next_ctr_core save_def adopt_def derive_def)

section \<open>What the state file holds\<close>

definition ctrs :: "line list \<Rightarrow> u64 list" where
  "ctrs ls = List.map_filter (\<lambda>l. case l of L_ctr v \<Rightarrow> Some v | _ \<Rightarrow> None) ls"

definition nets :: "line list \<Rightarrow> (u64 \<times> bytes) list" where
  "nets ls = List.map_filter (\<lambda>l. case l of L_net v k \<Rightarrow> Some (v, k) | _ \<Rightarrow> None) ls"

definition on_disk :: "arb \<Rightarrow> bool" where
  "on_disk s \<longleftrightarrow> (\<exists>ls. disk s = Some ls \<and> ctrs ls = [ctr_saved s] \<and> nets ls = (if in_net s then [(net_id s, net_key s)] else []))"

definition reserved :: "arb \<Rightarrow> bool" where
  "reserved s \<longleftrightarrow> disk_ok s \<and> on_disk s \<and> ctr s < ctr_saved s \<and> unat (ctr_saved s) \<le> unat (ctr s) + 4096"

lemma map_filter_none: "(\<And>x. x \<in> set xs \<Longrightarrow> f x = None) \<Longrightarrow> List.map_filter f xs = []"
  by (induction xs) (auto simp: List.map_filter_simps)

lemma map_filter_append: "List.map_filter f (xs @ ys) = List.map_filter f xs @ List.map_filter f ys"
  by (simp add: List.map_filter_def)

lemma state_lines_ctrs: "ctrs (state_lines s) = [ctr_saved s]"
  by (auto simp: ctrs_def state_lines_def map_filter_append List.map_filter_simps intro!: map_filter_none)

lemma state_lines_nets: "nets (state_lines s) = (if in_net s then [(net_id s, net_key s)] else [])"
  by (auto simp: nets_def state_lines_def map_filter_append List.map_filter_simps intro!: map_filter_none)

lemma save_on_disk: "disk_ok s \<Longrightarrow> on_disk (save s)"
  by (simp add: on_disk_def save_def state_lines_ctrs state_lines_nets)

lemma next_ctr_reserved:
  assumes "reserved s" "unat (ctr s) + 4097 < 2 ^ 64"
  shows "reserved (snd (next_ctr s))" "unat (ctr (snd (next_ctr s))) = Suc (unat (ctr s))"
proof -
  have c: "unat (ctr s + 1) = Suc (unat (ctr s))" using assms(2) by (simp add: unat_word_ariths)
  then have d: "unat (ctr s + 1 + 4096) = unat (ctr s) + 4097" using assms(2) by (simp add: unat_word_ariths)
  have d': "unat (4097 + ctr s) = 4097 + unat (ctr s)" using assms(2) by (simp add: unat_word_ariths)
  show "unat (ctr (snd (next_ctr s))) = Suc (unat (ctr s))" using c by (simp add: next_ctr_def save_def Let_def)
  show "reserved (snd (next_ctr s))"
  proof (cases "ctr_saved s \<le> ctr s + 1")
    case True
    have "ctr s + 1 < ctr s + 1 + 4096" unfolding word_less_nat_alt c d by simp
    with True assms(1) show ?thesis
      using save_on_disk [of "s\<lparr>ctr := ctr s + 1, ctr_saved := ctr s + 1 + 4096\<rparr>"]
      by (simp add: reserved_def next_ctr_def Let_def) (simp add: save_def c d')
  next
    case False
    with assms(1) show ?thesis by (auto simp: reserved_def next_ctr_def Let_def on_disk_def not_le c)
  qed
qed

interpretation counter: arb_steps C
  "\<lambda>n s t. reserved s \<and> unat (ctr s) + n + 4097 \<le> 2 ^ 64 \<longrightarrow> reserved t \<and> ctr s \<le> ctr t \<and> unat (ctr t) \<le> unat (ctr s) + n" for C
proof
  fix s t u :: arb and m n :: nat
  assume a: "reserved s \<and> unat (ctr s) + m + 4097 \<le> 2 ^ 64 \<longrightarrow> reserved t \<and> ctr s \<le> ctr t \<and> unat (ctr t) \<le> unat (ctr s) + m"
    and b: "reserved t \<and> unat (ctr t) + n + 4097 \<le> 2 ^ 64 \<longrightarrow> reserved u \<and> ctr t \<le> ctr u \<and> unat (ctr u) \<le> unat (ctr t) + n"
  show "reserved s \<and> unat (ctr s) + (m + n) + 4097 \<le> 2 ^ 64 \<longrightarrow> reserved u \<and> ctr s \<le> ctr u \<and> unat (ctr u) \<le> unat (ctr s) + (m + n)"
  proof
    assume h: "reserved s \<and> unat (ctr s) + (m + n) + 4097 \<le> 2 ^ 64"
    then have t: "reserved t" "ctr s \<le> ctr t" "unat (ctr t) \<le> unat (ctr s) + m" using a by auto
    then have "reserved u" "ctr t \<le> ctr u" "unat (ctr u) \<le> unat (ctr t) + n" using b h by auto
    with t show "reserved u \<and> ctr s \<le> ctr u \<and> unat (ctr u) \<le> unat (ctr s) + (m + n)" by auto
  qed
next
  fix s t :: arb and n
  assume "core t = core s"
  then show "reserved s \<and> unat (ctr s) + n + 4097 \<le> 2 ^ 64 \<longrightarrow> reserved t \<and> ctr s \<le> ctr t \<and> unat (ctr t) \<le> unat (ctr s) + n"
    by (simp add: core_def reserved_def on_disk_def)
next
  fix s
  show "reserved s \<and> unat (ctr s) + Suc 0 + 4097 \<le> 2 ^ 64 \<longrightarrow>
      reserved (snd (next_ctr s)) \<and> ctr s \<le> ctr (snd (next_ctr s)) \<and> unat (ctr (snd (next_ctr s))) \<le> unat (ctr s) + Suc 0"
    using next_ctr_reserved [of s] by (auto simp: word_le_nat_alt)
next
  fix s
  show "reserved s \<and> unat (ctr s) + 0 + 4097 \<le> 2 ^ 64 \<longrightarrow> reserved (save s) \<and> ctr s \<le> ctr (save s) \<and> unat (ctr (save s)) \<le> unat (ctr s) + 0"
    using save_on_disk [of s] by (auto simp: reserved_def) (simp_all add: save_def)
next
  fix s :: arb and i k now
  show "reserved s \<and> unat (ctr s) + 0 + 4097 \<le> 2 ^ 64 \<longrightarrow>
      reserved (adopt C k i now s) \<and> ctr s \<le> ctr (adopt C k i now s) \<and> unat (ctr (adopt C k i now s)) \<le> unat (ctr s) + 0"
    by (auto simp: reserved_def adopt_def on_disk_def save_def derive_def state_lines_ctrs state_lines_nets)
qed

section \<open>Restart\<close>

text \<open>The parts of the state that the counter and network lines set.\<close>

lemma load_ctrs:
  "(ctr_saved (foldl (load_line C) s ls), ctr_known (foldl (load_line C) s ls))
     = foldl (\<lambda>p v. (v, True)) (ctr_saved s, ctr_known s) (ctrs ls)"
proof (induction ls arbitrary: s)
  case Nil
  then show ?case by (simp add: ctrs_def List.map_filter_simps)
next
  case (Cons l ls)
  have "ctrs (l # ls) = (case l of L_ctr v \<Rightarrow> [v] | _ \<Rightarrow> []) @ ctrs ls"
    by (cases l) (simp_all add: ctrs_def List.map_filter_simps)
  moreover have "(ctr_saved (load_line C s l), ctr_known (load_line C s l))
      = (case l of L_ctr v \<Rightarrow> (v, True) | _ \<Rightarrow> (ctr_saved s, ctr_known s))"
    by (cases l) (auto simp: derive_def put_delay_def Let_def split: prod.split)
  ultimately show ?case using Cons.IH [of "load_line C s l"] by (cases l) simp_all
qed

lemma load_nets:
  "(in_net (foldl (load_line C) s ls), net_id (foldl (load_line C) s ls), net_key (foldl (load_line C) s ls), mac_key (foldl (load_line C) s ls))
     = foldl (\<lambda>p (v, k). if v \<noteq> 0 \<and> length k = 32 then (True, v, k, blake2b_keyed C 32 k mac_label) else p)
         (in_net s, net_id s, net_key s, mac_key s) (nets ls)"
proof (induction ls arbitrary: s)
  case Nil
  then show ?case by (simp add: nets_def List.map_filter_simps)
next
  case (Cons l ls)
  have "nets (l # ls) = (case l of L_net v k \<Rightarrow> [(v, k)] | _ \<Rightarrow> []) @ nets ls"
    by (cases l) (simp_all add: nets_def List.map_filter_simps)
  moreover have "(in_net (load_line C s l), net_id (load_line C s l), net_key (load_line C s l), mac_key (load_line C s l))
      = (case l of L_net v k \<Rightarrow> if v \<noteq> 0 \<and> length k = 32 then (True, v, k, blake2b_keyed C 32 k mac_label)
                                else (in_net s, net_id s, net_key s, mac_key s)
         | _ \<Rightarrow> (in_net s, net_id s, net_key s, mac_key s))"
    by (cases l) (auto simp: derive_def put_delay_def Let_def split: prod.split)
  ultimately show ?case using Cons.IH [of "load_line C s l"] by (cases l) simp_all
qed

lemma load_disk: "key_disk (load C s) = key_disk s" "disk_ok (load C s) = disk_ok s"
proof -
  have *: "(key_disk (load_line C s l), disk_ok (load_line C s l)) = (key_disk s, disk_ok s)" for s l
    by (cases l) (auto simp: derive_def put_delay_def Let_def split: prod.split)
  have "(key_disk (foldl (load_line C) s ls), disk_ok (foldl (load_line C) s ls)) = (key_disk s, disk_ok s)" for ls
    using foldl_same [of "\<lambda>s. (key_disk s, disk_ok s)" "load_line C" s ls, OF *] .
  then show "key_disk (load C s) = key_disk s" "disk_ok (load C s) = disk_ok s"
    by (auto simp: load_def split: option.split)
qed

text \<open>The process dies at any moment; the next one starts from its disk.\<close>

definition restart :: "crypto \<Rightarrow> bytes \<Rightarrow> bytes \<Rightarrow> int \<Rightarrow> arb \<Rightarrow> bool \<times> arb" where
  "restart C nd r now t = arb_start C 1000 True nd r True now (arb0 (disk t) (key_disk t))"

text \<open>The key file holds the key in use.\<close>

definition keyed :: "crypto \<Rightarrow> arb \<Rightarrow> bool" where
  "keyed C s \<longleftrightarrow> key_disk s = Some (sk s) \<and> length (sk s) = 32 \<and> pk s = x25519_public_key C (sk s)"

lemma restart_state:
  assumes t: "reserved t" "keyed C t" and u: "restart C nd r now t = (ok, u)" and top: "unat (ctr t) + 8192 < 2 ^ 64"
  shows "ok" "pk u = pk t" "sk u = sk t" "keyed C u" "ctr t < ctr u" "reserved u"
    and "in_net t \<Longrightarrow> net_id t \<noteq> 0 \<Longrightarrow> length (net_key t) = 32 \<Longrightarrow>
         in_net u \<and> net_id u = net_id t \<and> net_key u = net_key t \<and> mac_key u = blake2b_keyed C 32 (net_key t) mac_label"
proof -
  define s0 where "s0 = (arb0 (disk t) (key_disk t))\<lparr>pace := 1000, rivals_on := True, beacon_gap := PACE 1000 20000, node := fit NLEN nd\<rparr>"
  define s1 where "s1 = load C s0"
  obtain ls where ls: "disk t = Some ls" "ctrs ls = [ctr_saved t]" "nets ls = (if in_net t then [(net_id t, net_key t)] else [])"
    using t(1) by (auto simp: reserved_def on_disk_def)
  have l: "s1 = foldl (load_line C) s0 ls" by (simp add: s1_def load_def s0_def arb0_def ls(1))
  have c: "ctr_saved s1 = ctr_saved t" "ctr_known s1"
    using load_ctrs [of C s0 ls] by (simp_all add: l ls(2))
  have k: "key_disk s1 = Some (sk t)" "disk_ok s1"
    using t(2) by (simp_all add: s1_def load_disk s0_def arb0_def keyed_def)
  define s2 where "s2 = s1\<lparr>sk := sk t, pk := x25519_public_key C (sk t)\<rparr>"
  have "identity C (\<not> ctr_known s1) r s1 = Some s2"
    using k c(2) t(2) by (simp add: identity_def s2_def keyed_def)
  then have ou: "ok" "u = (reserve (s2\<lparr>kid := concat (map hex2 (take 8 (pk s2))), self_tag := ascii ''hassmic_'' @ concat (map hex2 (pk s2))\<rparr>))
        \<lparr>started := now, hello_until := now + PACE 1000 40000, running := True\<rparr>"
    using u by (simp_all add: restart_def arb_start_def s0_def [symmetric] s1_def [symmetric] Let_def)
  show "ok" by (rule ou)
  show "pk u = pk t" "sk u = sk t" "keyed C u"
    using t(2) k by (simp_all add: ou(2) reserve_def save_def s2_def keyed_def)
  have cu: "ctr u = ctr_saved t" "ctr_saved u = ctr_saved t + 4096" "disk_ok u"
    using k(2) by (simp_all add: ou(2) reserve_def save_def s2_def c(1))
  have sv: "unat (ctr_saved t + 4096) = unat (ctr_saved t) + 4096"
    using top t(1) by (simp add: reserved_def unat_word_ariths)
  then have "ctr_saved t < ctr_saved t + 4096" by (simp add: word_less_nat_alt)
  moreover have "on_disk u"
    using k(2) by (simp add: ou(2) reserve_def save_def s2_def on_disk_def state_lines_ctrs state_lines_nets)
  ultimately show "reserved u" by (simp add: reserved_def cu sv)
  show "ctr t < ctr u" using t(1) by (simp add: cu reserved_def)
  have n: "in_net u = in_net s1" "net_id u = net_id s1" "net_key u = net_key s1" "mac_key u = mac_key s1"
    by (simp_all add: ou(2) reserve_def save_def s2_def)
  show "in_net u \<and> net_id u = net_id t \<and> net_key u = net_key t \<and> mac_key u = blake2b_keyed C 32 (net_key t) mac_label"
    if "in_net t" "net_id t \<noteq> 0" "length (net_key t) = 32"
    using load_nets [of C s0 ls] that by (simp add: n ls(3) l)
qed

section \<open>Properties\<close>

text \<open>
  A Monocypher that is no cipher but keeps its laws, for the concrete instances: keys combine by
  XOR, digests are prefixes, the box is open.
\<close>

definition xor_crypto :: crypto where
  "xor_crypto = \<lparr>
     blake2b = (\<lambda>n b. take n (b @ replicate n 0)),
     blake2b_keyed = (\<lambda>n k b. take n (k @ replicate n 0)),
     x25519 = (\<lambda>a b. map2 (XOR) a b),
     x25519_public_key = (\<lambda>a. a),
     aead_lock = (\<lambda>k n a p. (p, replicate 16 1)),
     aead_unlock = (\<lambda>k n a m c. if m = replicate 16 1 then Some c else None)\<rparr>"

definition demo :: "byte \<Rightarrow> arb" where
  "demo b = (arb0 (Some [L_ctr 4096, L_net 9 (replicate 32 5)]) (Some (replicate 32 b)))
     \<lparr>ctr := 10, ctr_saved := 4096, sk := replicate 32 b, pk := replicate 32 b, running := True,
       in_net := True, net_id := 9, net_key := replicate 32 5, mac_key := replicate 32 5\<rparr>"

lemma demo_reserved: "reserved (demo b)"
  by (simp add: reserved_def on_disk_def demo_def arb0_def ctrs_def nets_def List.map_filter_simps)

lemma demo_keyed: "keyed xor_crypto (demo b)"
  by (simp add: keyed_def demo_def arb0_def xor_crypto_def)





text \<open>
  A restart brings the member back into its network: with the state file the calls before it
  left, the new process has the network's id and key and the derived MAC key.
\<close>

theorem restart_rejoins:
  assumes "reserved s" "keyed C s" "(arb_step C ^^ n) s t" "unat (ctr s) + 2 * n + 8192 < 2 ^ 64"
    and "in_net t" "net_id t \<noteq> 0" "length (net_key t) = 32"
  shows "let u = snd (restart C nd r now t)
         in in_net u \<and> net_id u = net_id t \<and> net_key u = net_key t \<and> mac_key u = blake2b_keyed C 32 (net_key t) mac_label"
proof -
  obtain ok u where u: "restart C nd r now t = (ok, u)" by fastforce
  have "unat (ctr s) + 2 * n + 4097 \<le> 2 ^ 64" using assms(4) by simp
  then have c: "reserved t" "unat (ctr t) \<le> unat (ctr s) + 2 * n"
    using counter.R_steps [OF assms(3)] assms(1) by auto
  have "keyed C t" using same_identity.R_steps [OF assms(3)] assms(2) by (simp add: keyed_def)
  from restart_state(7) [OF c(1) this u _ assms(5-7)] c(2) assms(4) u show ?thesis by simp
qed

theorem restart_rejoins_witness:
  "net_id (snd (restart xor_crypto [] [] 1 (demo 1))) = 9"
  using restart_rejoins [of "demo 1" xor_crypto 0 "demo 1" "[]" "[]" 1, OF demo_reserved demo_keyed]
  by (simp add: demo_def Let_def)

end
