(* ===== verification/Arb_Answer.thy ===== *)
theory Arb_Answer
  imports Arb_Restart
begin

text \<open>
  The purpose of a round: of the Echos that heard a wake word exactly one answers, between Echos and
  in Kiosk Satellite mode; priority goes first; an "answers" silences whoever heard it late; copies
  and replays count once.
\<close>

lemma hears_pk: "pk (hears C ps s) = pk s"
proof (induction ps arbitrary: s)
  case (Cons x ps)
  obtain nonce p now ip where x: "x = (nonce, p, now, ip)" by (cases x)
  have "pk (on_packet C nonce p now ip s) = pk s" using same_identity.R_on_packet by blast
  with Cons.IH show ?case by (simp add: hears_def x)
qed (simp add: hears_def)


text \<open>Two Echos that know each other, each hearing the other's claim three seconds in.\<close>

definition duo_id :: "bool \<Rightarrow> byte" where
  "duo_id b = (if b then 1 else 2)"

definition duo :: "bool \<Rightarrow> arb" where
  "duo b = (demo (duo_id b))\<lparr>peers := peer0\<lparr>p_id := replicate 8 (duo_id (\<not> b)), p_ctr := 3, p_seen := 1000\<rparr> # replicate 15 peer0\<rparr>"

definition duo_round :: "bool \<Rightarrow> arb" where
  "duo_round b = snd (arb_claim xor_crypto 0 [] (if b then 500 else 700) 0 2000 (duo b))"

definition duo_late :: "bool \<Rightarrow> delivery list" where
  "duo_late b = replicate 3 ([], last (sent (duo_round (\<not> b))), 2100, 0)"

lemma duo_member: "takes_part 9 (replicate 32 5) 2000 (duo b)"
proof -
  have "uniq (\<lambda>p. p_seen p \<noteq> 0) p_id (peers (duo b))"
    by (auto simp: uniq_def duo_def peer0_def nth_Cons split: nat.splits)
  then show ?thesis
    by (auto simp: takes_part_def duo_def demo_def arb0_def peers_ok_def count_peers_def counted_def ago_def peer_ttl_def
        PACE_def peer0_def)
qed


section \<open>Copies and replays\<close>

definition claim_ok :: "bytes \<Rightarrow> bytes \<Rightarrow> int \<Rightarrow> int \<Rightarrow> bool" where
  "claim_ok i kw sc pr \<longleftrightarrow> length i = 8 \<and> length kw = 8 \<and> - (2 ^ 31) \<le> sc \<and> sc < 2 ^ 31 \<and> 0 \<le> pr \<and> pr < 256"

definition claim_msg :: "crypto \<Rightarrow> bytes \<Rightarrow> u64 \<Rightarrow> bytes \<Rightarrow> u64 \<Rightarrow> bytes \<Rightarrow> int \<Rightarrow> int \<Rightarrow> bool \<Rightarrow> bytes" where
  "claim_msg C mk net i c kw sc pr won = claim_body net i c kw sc pr won @ blake2b_keyed C 16 mk (claim_body net i c kw sc pr won)"

lemma take_claim_knows: "knows (take_claim k now s) = knows s"
  by (simp add: fun_eq_iff knows_def take_claim_terms)

lemma claim_heard:
  assumes "claim_ok i kw sc pr" "peers_ok (peers s)" "knows s i c0" "now \<noteq> 0" "in_net s" "i \<noteq> take 8 (pk s)"
    and mac: "\<And>b. length (blake2b_keyed C 16 (mac_key s) b) = 16"
    and s': "s' = on_packet C nonce (claim_msg C (mac_key s) (net_id s) i c kw sc pr won) now ip s"
  shows "peers_ok (peers s')" "\<exists>c1. knows s' i c1 \<and> c \<le> c1" "mac_key s' = mac_key s" "round_terms s' = round_terms s"
    "pk s' = pk s" "in_net s' = in_net s" "net_id s' = net_id s"
    and "c0 < c \<Longrightarrow> claims s' = (claims s)[unat (claim_next s) mod 16 :=
           \<lparr>c_id = i, c_kw = kw, c_score = sc, c_prio = pr, c_won = won, c_at = now\<rparr>]"
proof -
  let ?k = "\<lparr>c_id = i, c_kw = kw, c_score = sc, c_prio = pr, c_won = won, c_at = now\<rparr>"
  have e: "s' = (let (f, s1) = fresh i c now s in if f then take_claim ?k now s1 else s1)"
    unfolding s' by (rule claim_read) (use assms in \<open>simp_all add: claim_ok_def claim_msg_def\<close>)
  have all: "peers_ok (peers s') \<and> (\<exists>c1. knows s' i c1 \<and> c \<le> c1) \<and> mac_key s' = mac_key s \<and> round_terms s' = round_terms s
    \<and> pk s' = pk s \<and> in_net s' = in_net s \<and> net_id s' = net_id s
    \<and> (c0 < c \<longrightarrow> claims s' = (claims s)[unat (claim_next s) mod 16 := ?k])"
  proof (cases "c \<le> c0")
    case True
    with assms(2,3) show ?thesis by (auto simp: e fresh_known_old)
  next
    case False
    then have "c0 < c" by simp
    from fresh_known_new [OF assms(2,3) this assms(4)] obtain t where
      t: "fresh i c now s = (True, s\<lparr>peers := t\<rparr>)" "peers_ok t" "knows (s\<lparr>peers := t\<rparr>) i c" by metis
    then have e': "s' = take_claim ?k now (s\<lparr>peers := t\<rparr>)" by (simp add: e)
    have "\<exists>c1. knows s' i c1 \<and> c \<le> c1" unfolding e' take_claim_knows using t(3) by blast
    then show ?thesis using t(2) by (simp add: e' take_claim_terms) (simp add: round_terms_def)
  qed
  then show "peers_ok (peers s')" "\<exists>c1. knows s' i c1 \<and> c \<le> c1" "mac_key s' = mac_key s" "round_terms s' = round_terms s"
    "pk s' = pk s" "in_net s' = in_net s" "net_id s' = net_id s" by blast+
  from all show "c0 < c \<Longrightarrow> claims s' = (claims s)[unat (claim_next s) mod 16 := ?k]" by blast
qed

text \<open>
  Copies and replays count once: when a claim of a known member with counter \<open>c\<close> was heard, every
  later claim in that member's name with a counter not above \<open>c\<close> (a copy, a recording, one with
  other contents) leaves the state as it is.
\<close>

theorem copies_count_once:
  assumes "claim_ok i kw sc pr" "peers_ok (peers s)" "knows s i c0" "now \<noteq> 0" "in_net s" "i \<noteq> take 8 (pk s)"
    and "\<And>b. length (blake2b_keyed C 16 (mac_key s) b) = 16"
    and s': "s' = on_packet C nonce (claim_msg C (mac_key s) (net_id s) i c kw sc pr won) now ip s"
    and old: "c' \<le> c" "claim_ok i kw' sc' pr'" "length m = 16"
  shows "on_packet C nonce' (claim_body net' i c' kw' sc' pr' won' @ m) now' ip' s' = s'"
proof -
  note h = claim_heard [OF assms(1-8)]
  from h(2) obtain c1 where "knows s' i c1" "c \<le> c1" by blast
  then have "fresh i c' now' s' = (False, s')" using fresh_known_old [OF h(1)] old(1) by auto
  then show ?thesis
    using old(2,3) by (subst claim_parsed [OF _ _ _ _ _ _ _ refl]) (simp_all add: claim_ok_def)
qed

theorem copies_count_once_witness:
  "let p = claim_msg xor_crypto (replicate 32 5) 9 (replicate 8 2) 7 (replicate 8 0) 100 0 False;
       s' = on_packet xor_crypto [] p 2000 0 (duo True)
   in on_packet xor_crypto [] p 2030 0 s' = s'"
proof -
  have "knows (duo True) (replicate 8 2) 3" by (auto simp: knows_def duo_def demo_def duo_id_def peer0_def)
  moreover have "peers_ok (peers (duo True))" using duo_member [of True] by (simp add: takes_part_def)
  moreover have "mac_key (duo True) = replicate 32 5" "net_id (duo True) = 9" "in_net (duo True)" "replicate 8 2 \<noteq> take 8 (pk (duo True))"
    by (simp_all add: duo_def demo_def duo_id_def)
  ultimately show ?thesis
    using copies_count_once [of "replicate 8 2" "replicate 8 0" 100 0 "duo True" 3 2000 xor_crypto _ "[]" 7 False 0 7
        "replicate 8 0" 100 0 "replicate 16 5" "[]" 9 False 2030 0]
    by (simp add: Let_def claim_ok_def xor_crypto_def claim_msg_def)
qed

text \<open>
  An Echo that answers silences one that heard the wake word late: its "answers", heard by a
  member in a round for the same wake word, makes that member's decision "another Echo answers",
  whatever its own score and priority.
\<close>

theorem answers_silences:
  assumes a: "\<not> rd_kiosk (rnd a)" "fst (arb_decide C ta a)" "in_net a" "length (pk a) = 32" "rd_kw (rnd a) = kw"
      "claim_ok (take 8 (pk a)) kw (rd_score (rnd a)) (rd_prio (rnd a))" "mac_key a = mac_key b" "net_id a = net_id b"
    and b: "peers_ok (peers b)" "knows b (take 8 (pk a)) cl" "cl < ctr a + 1" "in_net b" "take 8 (pk b) \<noteq> take 8 (pk a)"
      "length (claims b) = 16" "\<not> rd_kiosk (rnd b)" "rd_kw (rnd b) = kw"
    and time: "now \<noteq> 0" "rd_at (rnd b) - LOOKBACK_MS \<le> now"
    and mac: "\<And>x. length (blake2b_keyed C 16 (mac_key b) x) = 16"
    and p: "p = last (sent (snd (arb_decide C ta a)))"
  shows "\<not> fst (arb_decide C u (on_packet C nonce p now ip b))"
proof -
  let ?i = "take 8 (pk a)" and ?sc = "rd_score (rnd a)" and ?pr = "rd_prio (rnd a)"
  let ?k = "\<lparr>c_id = ?i, c_kw = kw, c_score = ?sc, c_prio = ?pr, c_won = True, c_at = now\<rparr>"
  define a1 where "a1 = a\<lparr>rnd := (rnd a)\<lparr>rd_decided := True, rd_won := True\<rparr>\<rparr>"
  have "p = fst (claim_pkt C ?sc ?pr True a1)"
    using a(1,2,3) unfolding p by (simp add: arb_decide_def Let_def a1_def send_spread_frame split: prod.split)
  also have "\<dots> = claim_msg C (mac_key b) (net_id b) ?i (ctr a + 1) kw ?sc ?pr True"
    unfolding claim_msg_def
  proof (subst claim_pkt_bytes [where kw = kw and b = "claim_body (net_id b) ?i (ctr a + 1) kw ?sc ?pr True"])
    show "length kw = 8" "length (pk a1) = 32" "kw = rd_kw (rnd a1)" using a by (simp_all add: a1_def claim_ok_def)
    show "length (blake2b_keyed C 16 (mac_key a1) (claim_body (net_id b) ?i (ctr a + 1) kw ?sc ?pr True)) = 16"
      using mac a(7) by (simp add: a1_def)
    show "claim_body (net_id b) ?i (ctr a + 1) kw ?sc ?pr True = claim_body (net_id a1) (take 8 (pk a1)) (ctr a1 + 1) kw ?sc ?pr True"
      using a(8) by (simp add: a1_def)
  qed (use a(7) in \<open>simp add: a1_def\<close>)
  finally have p': "p = claim_msg C (mac_key b) (net_id b) ?i (ctr a + 1) kw ?sc ?pr True" .
  define s' where "s' = on_packet C nonce p now ip b"
  note h = claim_heard [OF a(6) b(1,2) time(1) b(4) b(5) [symmetric] mac s'_def [unfolded p']]
  have "?k \<in> set (claims s')" unfolding h(8) [OF b(3)] by (rule set_update_memI) (simp add: b(6))
  moreover have "in_round s' ?k" "\<not> rd_kiosk (rnd s')"
    using h(4) time b(7,8) by (simp_all add: in_round_def round_terms_def)
  ultimately show ?thesis unfolding s'_def [symmetric] by (auto simp: arb_decide_def beaten_def Let_def intro!: bexI [of _ ?k])
qed

definition duo_open :: "bool \<Rightarrow> arb" where
  "duo_open b = (duo b)\<lparr>rnd := round0\<lparr>rd_score := (if b then 500 else 700), rd_at := 2000, rd_open := True\<rparr>\<rparr>"

theorem answers_silences_witness:
  "\<not> fst (arb_decide xor_crypto 2300
       (on_packet xor_crypto [] (last (sent (snd (arb_decide xor_crypto 2100 (duo_open True))))) 2200 0 (duo_open False)))"
proof (rule answers_silences [where a = "duo_open True" and cl = 3 and kw = "replicate 8 0" and ta = 2100])
  show "fst (arb_decide xor_crypto 2100 (duo_open True))"
    by (simp add: arb_decide_def duo_open_def round0_def Let_def beaten_def in_round_def duo_def demo_def arb0_def claim0_def)
  show "knows (duo_open False) (take 8 (pk (duo_open True))) 3"
    by (simp add: knows_def duo_open_def duo_def demo_def duo_id_def peer0_def)
  show "peers_ok (peers (duo_open False))" using duo_member [of False] by (simp add: takes_part_def duo_open_def)
  show "length (blake2b_keyed xor_crypto 16 (mac_key (duo_open False)) x) = 16" for x
    by (simp add: duo_open_def duo_def demo_def xor_crypto_def)
qed (simp_all add: duo_open_def duo_def demo_def arb0_def round0_def claim_ok_def duo_id_def)

section \<open>Kiosk Satellite mode\<close>

text \<open>A device's claim in the round: the loudness it sent and its id.\<close>

definition kiosk_own :: "arb \<Rightarrow> int \<times> bytes" where
  "kiosk_own s = (kround_e s, kid s)"

definition kiosk_heard :: "arb \<Rightarrow> (int \<times> bytes) set" where
  "kiosk_heard s = (\<lambda>k. (kc_e k, kc_id k)) `
     set (filter (\<lambda>k. kc_at k \<noteq> 0 \<and> \<bar>kc_at k - rd_at (rnd s)\<bar> \<le> kwindow s \<and> kc_p k = kround_p s) (kclaims s))"

lemma kiosk_decide_heard: "kiosk_decide s \<longleftrightarrow> (\<forall>x\<in>kiosk_heard s. \<not> kiosk_beats x (kiosk_own s))"
  by (auto simp: kiosk_decide_def kiosk_heard_def kiosk_own_def)

text \<open>
  C34. Kiosk Satellite mode settles a round the same way without a key: when each device has heard
  the claims of all others within the window for its phrase, exactly one of them answers, the
  loudest, and of equally loud ones the one with the lowest id.
\<close>

theorem one_kiosk_answers:
  assumes "finite I" "I \<noteq> {}" "inj_on (\<lambda>i. kid (S i)) I" "\<And>i. i \<in> I \<Longrightarrow> rd_kiosk (rnd (S i))"
    and "\<And>i. i \<in> I \<Longrightarrow> kiosk_heard (S i) = kiosk_own ` S ` (I - {i})"
  shows "\<exists>!i. i \<in> I \<and> fst (arb_decide C u (S i))"
proof -
  let ?r = "\<lambda>i. kiosk_own (S i)"
  have dec: "fst (arb_decide C u (S i)) \<longleftrightarrow> (\<forall>x\<in>?r ` I. \<not> kiosk_beats x (?r i))" if "i \<in> I" for i
    using assms(4,5) [OF that] kiosk_order.beats_irrefl [of "?r i"] that
    by (auto simp: arb_decide_def kiosk_decide_heard)
  have inj: "inj_on ?r I" using assms(3) by (auto simp: inj_on_def kiosk_own_def)
  obtain x where x: "x \<in> ?r ` I" "\<forall>y\<in>?r ` I. \<not> kiosk_beats y x"
      "\<And>z. z \<in> ?r ` I \<Longrightarrow> \<forall>y\<in>?r ` I. \<not> kiosk_beats y z \<Longrightarrow> z = x"
    using kiosk_order.one_best [of "?r ` I"] assms(1,2) by blast
  then obtain i where i: "i \<in> I" "x = ?r i" by blast
  show ?thesis
  proof (rule ex1I [of _ i])
    show "i \<in> I \<and> fst (arb_decide C u (S i))" using dec i x(2) by blast
    fix j assume j: "j \<in> I \<and> fst (arb_decide C u (S j))"
    then have "?r j = x" using dec x(3) by blast
    with i j inj show "j = i" by (auto dest: inj_onD)
  qed
qed

definition kiosk_duo :: "bool \<Rightarrow> arb" where
  "kiosk_duo b = (duo b)\<lparr>kiosk_mode := True, kid := [duo_id b], kround_e := 120, kround_p := [0x61], rnd := round0\<lparr>rd_kiosk := True, rd_at := 2000\<rparr>,
     kclaims := \<lparr>kc_id = [duo_id (\<not> b)], kc_p = [0x61], kc_n = 4, kc_at = 1900, kc_e = 120\<rparr> # replicate 15 kclaim0\<rparr>"

theorem one_kiosk_answers_witness:
  "\<exists>!b. b \<in> UNIV \<and> fst (arb_decide xor_crypto 2400 (kiosk_duo b))"
proof (rule one_kiosk_answers)
  show "inj_on (\<lambda>i. kid (kiosk_duo i)) UNIV" by (auto simp: inj_on_def kiosk_duo_def duo_id_def)
  show "kiosk_heard (kiosk_duo i) = kiosk_own ` kiosk_duo ` (UNIV - {i})" for i
  proof -
    define k where "k = \<lparr>kc_id = [duo_id (\<not> i)], kc_p = [0x61], kc_n = 4, kc_at = 1900, kc_e = 120\<rparr>"
    have u: "UNIV - {i} = {\<not> i}" by auto
    have "kclaims (kiosk_duo i) = k # replicate 15 kclaim0" by (simp add: kiosk_duo_def k_def)
    moreover have "rd_at (rnd (kiosk_duo i)) = 2000" "kround_p (kiosk_duo i) = [0x61]" by (simp_all add: kiosk_duo_def)
    moreover have "kwindow (kiosk_duo i) = 400" by (simp add: kiosk_duo_def duo_def demo_def arb0_def)
    ultimately have "kiosk_heard (kiosk_duo i) = {(120, [duo_id (\<not> i)])}"
      by (simp add: kiosk_heard_def k_def kclaim0_def)
    then show ?thesis by (simp only: u image_insert image_empty) (simp add: kiosk_own_def kiosk_duo_def)
  qed
qed (simp_all add: kiosk_duo_def)

end
