(* ===== verification/Arb_Trust.thy ===== *)
theory Arb_Trust
  imports Arb_Answer
begin

text \<open>
  Who can do what to an Echo: what a stranger's datagram may change, whose key is taken, to whom the
  key is handed.
\<close>

section \<open>Strangers\<close>

text \<open>Everything the rounds and the other components rely on.\<close>

definition trusted where
  "trusted s = (peers s, (claims s, claim_next s), msgs s, (rnd s, delays s, ndelay s, rivals s), (in_net s, net_id s, net_key s, mac_key s))"

lemma trusted_upd [simp]:
  "trusted (s\<lparr>cands := a\<rparr>) = trusted s" "trusted (s\<lparr>sped := b\<rparr>) = trusted s" "trusted (s\<lparr>scans := c\<rparr>) = trusted s"
  "trusted (s\<lparr>answer_at := d\<rparr>) = trusted s" "trusted (s\<lparr>preqs := e\<rparr>) = trusted s" "trusted (s\<lparr>pushes := f\<rparr>) = trusted s"
  "trusted (send_pkt g s) = trusted s" "trusted (snd (next_ctr s)) = trusted s"
  by (simp_all add: trusted_def send_pkt_def next_ctr_def save_def Let_def)

lemma trusted_beacon: "trusted (beacon C answer now s) = trusted s"
proof -
  have "trusted t = trusted s" if "next_ctr s = (c, t)" for c t using that trusted_upd(8) [of s] by simp
  then show ?thesis by (auto simp: beacon_def Let_def split: prod.split)
qed

lemma trusted_push: "trusted (push C nonce j now s) = trusted s"
  by (auto simp: push_def Let_def split: option.split)

lemma trusted_outsider: "trusted (on_outsider C nonce pub net nd now ip s) = trusted s"
  by (simp add: on_outsider_def Let_def trusted_push trusted_beacon split: prod.split)



section \<open>Whose key is taken\<close>

definition network :: "arb \<Rightarrow> bool \<times> u64 \<times> bytes" where
  "network s = (in_net s, net_id s, net_key s)"

interpretation same_network: arb_quiet C "\<lambda>n s t. network t = network s" for C
  by unfold_locales (auto simp: network_def core_def next_ctr_core save_def)

lemma network_changed:
  assumes "network (on_packet C nonce p now ip s) \<noteq> network s"
  obtains r where "take_n 5 p = Some (HMA1 @ [T_GIVE], r)" "on_packet C nonce p now ip s = on_give C r now s"
proof (cases "take_n 5 p")
  case None
  with assms show ?thesis by (simp add: on_packet_def)
next
  case (Some x)
  obtain m r where x: "x = (m, r)" by (cases x)
  have m: "length m = 5" using Some x by (auto simp: take_n_def split: if_splits)
  have e: "m = take 4 m @ [m ! 4]" using take_Suc_conv_app_nth [of 4 m] m by simp
  have "take 4 m = HMA1 \<and> m ! 4 = T_GIVE \<and> on_packet C nonce p now ip s = on_give C r now s"
    using assms Some x same_network.R_on_beacon [of C nonce p r now ip s] same_network.R_on_pair [of r now s]
      same_network.R_on_msg [of C p r now ip s] same_network.R_on_claim [of C p r now s]
    by (auto simp: on_packet_def split: if_splits)
  with Some x e that show ?thesis by metis
qed

text \<open>
  C3. Outside the pairing window no datagram moves an Echo to another network unless an Echo whose
  tag Home Assistant confirmed handed that network over: the key was sealed by the holder of that
  Echo's key, its beacons named the same network, and the network is older than ours if we are in one.
\<close>

theorem key_only_from_confirmed:
  assumes "pair_until s = 0 \<or> pair_until s \<le> now" "network (on_packet C nonce p now ip s) \<noteq> network s"
  shows "\<exists>c\<in>set (cands s). \<exists>blob k. cd_attested c \<and> cd_seen c \<noteq> 0 \<and> cd_pub c = take 32 blob \<and> unseal C s (cd_net c) blob = Some k
           \<and> (in_net s \<longrightarrow> cd_net c < net_id s) \<and> network (on_packet C nonce p now ip s) = (True, cd_net c, k)"
proof -
  obtain r where r: "on_packet C nonce p now ip s = on_give C r now s" using network_changed [OF assms(2)] by metis
  have "network (on_give C r now s) \<noteq> network s" using assms(2) r by simp
  then obtain net blob c where g: "c \<in> set (cands s)" "giver s net blob c" "\<not> in_net s \<or> net < net_id s"
      "on_give C r now s = snd (take_key C net blob now s)"
    using assms(1) by (auto simp: on_give_def split: option.splits prod.splits if_splits)
  have "network (snd (take_key C net blob now s)) \<noteq> network s" using assms(2) r g(4) by simp
  then obtain k where k: "unseal C s net blob = Some k" "network (snd (take_key C net blob now s)) = (True, net, k)"
    by (auto simp: take_key_def Let_def network_def adopt_def save_def derive_def split: if_splits option.splits)
  have "cd_net c = net" "cd_attested c" "cd_seen c \<noteq> 0" "cd_pub c = take 32 blob" using g(2) by (simp_all add: giver_def)
  with k g(3) show ?thesis unfolding r g(4) by (intro bexI [OF _ g(1)] exI [of _ blob] exI [of _ k]) auto
qed

section \<open>The key on its way\<close>

text \<open>What the code relies on of Monocypher: X25519 agrees, and an authenticated box opens.\<close>

definition dh_law :: "crypto \<Rightarrow> bool" where
  "dh_law C \<longleftrightarrow> (\<forall>a b. x25519 C a (x25519_public_key C b) = x25519 C b (x25519_public_key C a))"

definition aead_law :: "crypto \<Rightarrow> bool" where
  "aead_law C \<longleftrightarrow> (\<forall>k n ad t. let (c, m) = aead_lock C k n ad t
     in length c = length t \<and> length m = 16 \<and> aead_unlock C k n ad m c = Some t)"

lemma unseal_seal:
  assumes "dh_law C" "aead_law C" "keyed C a" "keyed C b" "length (pk a) = 32" "length (pk b) = 32" "pk a \<noteq> pk b"
    "length (net_key a) = 32" "length nonce = 24" "seal C nonce a (pk b) = Some blob"
  shows "unseal C b (net_id a) blob = Some (net_key a)" "length blob = 104" "take 32 blob = pk a"
proof -
  from assms(10) obtain w where w: "wrap_key C a (pk b) (pk a) (pk b) (net_id a) = Some w"
    by (auto simp: seal_def split: option.splits prod.splits)
  obtain c m where cm: "aead_lock C w nonce (pk a) (net_key a) = (c, m)" by fastforce
  have blob: "blob = pk a @ nonce @ m @ c" using assms(10) w cm by (simp add: seal_def)
  have l: "length c = 32" "length m = 16" "aead_unlock C w nonce (pk a) m c = Some (net_key a)"
    using assms(2,8) cm unfolding aead_law_def by (metis (mono_tags, lifting) case_prod_conv)+
  have "x25519 C (sk b) (pk a) = x25519 C (sk a) (pk b)"
    using assms(1,3,4) by (simp add: dh_law_def keyed_def)
  then have "wrap_key C b (pk a) (pk a) (pk b) (net_id a) = Some w" using w by (simp add: wrap_key_def Let_def)
  with assms(5,7,9) l show "unseal C b (net_id a) blob = Some (net_key a)" by (simp add: unseal_def blob)
  show "length blob = 104" "take 32 blob = pk a" using assms(5,9) l by (simp_all add: blob)
qed

lemma give_read:
  assumes "length blob = 104" "length (pk b) = 32"
  shows "on_packet C nonce (give_pkt_of (pk b) net blob) now ip b =
     (if pair_until b \<noteq> 0 \<and> now < pair_until b
         \<or> (\<exists>c\<in>set (cands b). giver b net blob c) \<and> (\<not> in_net b \<or> net < net_id b)
      then snd (take_key C net blob now b) else b)"
proof -
  define q where "q = pk b @ le_enc 8 net @ blob"
  have p: "give_pkt_of (pk b) net blob = (HMA1 @ [T_GIVE]) @ q"
    using assms by (simp add: give_pkt_of_def head_pkt_eq put64_def put_def q_def)
  have "on_packet C nonce (give_pkt_of (pk b) net blob) now ip b = on_give C q now b"
    using take_n_append [of "HMA1 @ [T_GIVE]" 5 q] by (simp add: on_packet_def p nth_append)
  also have "do { (to, r1) \<leftarrow> take_n 32 q; (net, r2) \<leftarrow> get64 r1; (blob, r3) \<leftarrow> take_n BLOB r2; Some (to, net, blob, r3) }
      = Some (pk b, net, blob, [])"
    using assms take_n_append [of blob 104 "[]"] by (simp add: q_def wire)
  then have "on_give C q now b = (if pair_until b \<noteq> 0 \<and> now < pair_until b
         \<or> (\<exists>c\<in>set (cands b). giver b net blob c) \<and> (\<not> in_net b \<or> net < net_id b)
      then snd (take_key C net blob now b) else b)"
    unfolding on_give_def by simp
  finally show ?thesis .
qed

text \<open>
  C5. Handing the network over works: an Echo that pairs, or that saw the giver's tag confirmed, and that is in
  no network or a younger one, is after the giver's T_GIVE a member of the giver's network, with its
  key, and its pairing window is closed.  X25519 and the authenticated box are as documented.
\<close>

theorem handover_joins:
  assumes laws: "dh_law C" "aead_law C"
    and a: "keyed C a" "length (pk a) = 32" "length (net_key a) = 32" "length nonce = 24" "seal C nonce a (pk b) = Some blob"
    and b: "keyed C b" "length (pk b) = 32" "pk a \<noteq> pk b" "running b" "\<not> in_net b \<or> net_id a < net_id b"
      "pair_until b \<noteq> 0 \<and> now < pair_until b \<or> (\<exists>c\<in>set (cands b). giver b (net_id a) blob c)"
    and p: "p = give_pkt_of (pk b) (net_id a) blob"
  shows "network (on_packet C n p now ip b) = (True, net_id a, net_key a) \<and> pair_until (on_packet C n p now ip b) = 0"
proof -
  note u = unseal_seal [OF laws a(1) b(1) a(2) b(2,3) a(3-5)]
  have "on_packet C n p now ip b = snd (take_key C (net_id a) blob now b)"
    using b(5,6) by (auto simp: p give_read [OF u(2) b(2)])
  then show ?thesis
    using b(4,5) u(1) by (auto simp: take_key_def Let_def network_def adopt_def save_def derive_def)
qed

definition pairing :: "byte \<Rightarrow> arb" where
  "pairing b = (demo b)\<lparr>in_net := False, net_id := 0, pair_until := 5000\<rparr>"

lemma xor_laws: "dh_law xor_crypto" "aead_law xor_crypto"
proof -
  have "map2 (XOR) a b = map2 (XOR) b (a :: bytes)" for a b
    by (rule nth_equalityI) (auto simp: xor.commute)
  then show "dh_law xor_crypto" by (simp add: dh_law_def xor_crypto_def)
qed (simp add: aead_law_def xor_crypto_def)

theorem handover_joins_witness:
  "let p = give_pkt_of (pk (pairing 2)) 9 (the (seal xor_crypto (replicate 24 0) (demo 1) (pk (pairing 2))))
   in network (on_packet xor_crypto [] p 4000 0 (pairing 2)) = (True, 9, replicate 32 5)"
proof -
  have "\<exists>blob. seal xor_crypto (replicate 24 0) (demo 1) (pk (pairing 2)) = Some blob"
    by (simp add: seal_def wrap_key_def xor_crypto_def demo_def pairing_def Let_def)
  then obtain blob where b: "seal xor_crypto (replicate 24 0) (demo 1) (pk (pairing 2)) = Some blob" by blast
  have "network (on_packet xor_crypto [] (give_pkt_of (pk (pairing 2)) (net_id (demo 1)) blob) 4000 0 (pairing 2)) = (True, net_id (demo 1), net_key (demo 1))"
    using handover_joins [OF xor_laws demo_keyed _ _ _ b _ _ _ _ _ _ refl, of 4000 "[]" 0]
    by (simp add: pairing_def demo_def keyed_def xor_crypto_def arb0_def)
  with b show ?thesis by (simp add: demo_def)
qed

definition confirmed :: arb where
  "confirmed = (pairing 2)\<lparr>pair_until := 0,
     cands := cand0\<lparr>cd_pub := replicate 32 1, cd_attested := True, cd_net := 9, cd_seen := 1000\<rparr> # replicate 15 cand0\<rparr>"

theorem key_only_from_confirmed_witness:
  "\<exists>p. network (on_packet xor_crypto [] p 4000 0 confirmed) \<noteq> network confirmed
     \<and> (\<exists>c\<in>set (cands confirmed). cd_attested c \<and> network (on_packet xor_crypto [] p 4000 0 confirmed) = (True, cd_net c, replicate 32 5))"
proof -
  obtain blob where b: "seal xor_crypto (replicate 24 0) (demo 1) (pk confirmed) = Some blob"
    by (simp add: seal_def wrap_key_def xor_crypto_def demo_def pairing_def confirmed_def Let_def)
  let ?p = "give_pkt_of (pk confirmed) (net_id (demo 1)) blob"
  have t: "take 32 blob = replicate 32 1" using b by (auto simp: seal_def demo_def xor_crypto_def wrap_key_def Let_def split: if_splits)
  then have g: "\<exists>c\<in>set (cands confirmed). giver confirmed (net_id (demo 1)) blob c"
    by (simp add: confirmed_def giver_def demo_def)
  have n: "network (on_packet xor_crypto [] ?p 4000 0 confirmed) = (True, 9, replicate 32 5)"
    using handover_joins [OF xor_laws demo_keyed _ _ _ b _ _ _ _ _ disjI2 [OF g] refl, of "[]" 4000 0]
    by (simp add: confirmed_def pairing_def demo_def keyed_def xor_crypto_def arb0_def)
  have d: "network confirmed \<noteq> (True, 9, replicate 32 5)" by (simp add: network_def confirmed_def pairing_def)
  with key_only_from_confirmed [of confirmed 4000 xor_crypto "[]" ?p 0] n show ?thesis
    by (intro exI [of _ ?p]) (auto simp: confirmed_def)
qed

text \<open>
  Pairing hands the network to exactly one Echo: when a pass of the loop starts to hand out the
  key, we are a member, our own press was at least PAIR_SETTLE_MS ago, one and only one Echo outside
  our network asked since two minutes before it, none of an older network did, and what is sent is
  the key sealed to that one Echo.
\<close>

theorem pairing_hands_one:
  assumes "\<not> pair_gave s" "pair_gave (loop_pairing C x s)"
  shows "\<exists>q blob. takers s = [q] \<and> \<not> older_asked s \<and> in_net s \<and> PACE (pace s) 2000 \<le> li_now x - pair_at s
           \<and> pair_until s \<noteq> 0 \<and> li_now x < pair_until s
           \<and> seal C (li_nonce x NPEER) s (pq_pub q) = Some blob
           \<and> give_pkt_of (pq_pub q) (net_id s) blob \<in> set (sent (loop_pairing C x s))"
proof -
  define s1 where "s1 = loop_pair_ask (li_now x) (loop_pair_end (li_now x) s)"
  define s2 where "s2 = loop_pair_give C (li_nonce x NPEER) (li_now x) s1"
  have r: "loop_pairing C x s = loop_give (li_now x) s2"
    by (simp add: loop_pairing_def s2_def s1_def Let_def)
  have "pair_gave (loop_give now t) = pair_gave t" for now t by (simp add: loop_give_def send_pkt_def Let_def)
  then have g2: "pair_gave s2" using assms(2) r by simp
  have f0: "preqs s1 = preqs s" "in_net s1 = in_net s" "pace s1 = pace s" "pair_at s1 = pair_at s" "net_id s1 = net_id s"
      "pk s1 = pk s" "sk s1 = sk s" "net_key s1 = net_key s"
    by (simp_all add: s1_def loop_pair_ask_def loop_pair_end_def send_pkt_def)
  then have f: "takers s1 = takers s" "older_asked s1 = older_asked s" "seal C n s1 to = seal C n s to" for n to
    by (simp_all add: takers_def older_asked_def asked_def seal_def wrap_key_def cong: option.case_cong)
  have g1: "\<not> pair_gave s1" using assms(1) by (simp add: s1_def loop_pair_ask_def loop_pair_end_def send_pkt_def)
  have u: "pair_until s1 \<noteq> 0 \<Longrightarrow> pair_until s \<noteq> 0 \<and> li_now x < pair_until s"
    by (auto simp: s1_def loop_pair_ask_def loop_pair_end_def send_pkt_def split: if_splits)
  from g1 g2 obtain blob where b: "pair_until s1 \<noteq> 0" "in_net s" "PACE (pace s) 2000 \<le> li_now x - pair_at s" "\<not> older_asked s"
      "length (takers s) = 1" "seal C (li_nonce x NPEER) s (pq_pub (last (takers s))) = Some blob"
      "s2 = s1\<lparr>give_pkt := give_pkt_of (pq_pub (last (takers s))) (net_id s) blob, give_left := 3, give_at := 0, pair_gave := True\<rparr>"
    unfolding s2_def by (auto simp: loop_pair_give_def f f0 Let_def split: if_splits option.splits)
  then obtain q where q: "takers s = [q]" by (metis One_nat_def length_0_conv length_Suc_conv)
  have "give_pkt_of (pq_pub q) (net_id s) blob \<in> set (sent (loop_give (li_now x) s2))"
    using b(7) q by (simp add: loop_give_def ago_def send_pkt_def Let_def)
  with b q u show ?thesis unfolding r by auto
qed

definition pressed :: arb where
  "pressed = (demo 1)\<lparr>pair_at := 1000, pair_until := 121000, pair_sent := 3900,
     preqs := \<lparr>pq_pub = replicate 32 2, pq_node = [], pq_net = 0, pq_seen = 900\<rparr> # replicate 15 preq0\<rparr>"

definition quiet_pass :: "int \<Rightarrow> loop_in" where
  "quiet_pass now = \<lparr>li_sync = now, li_opens = False, li_pkt = None, li_kiosk = None, li_now = now, li_k = [], li_ids = [],
     li_nonce = (\<lambda>_. replicate 24 0), li_rand = 0, li_ha = (\<lambda>_. False)\<rparr>"

theorem pairing_hands_one_witness:
  "\<not> pair_gave pressed \<and> pair_gave (loop_pairing xor_crypto (quiet_pass 4000) pressed) \<and> length (takers pressed) = 1"
proof -
  have p: "pair_gave (loop_pairing xor_crypto (quiet_pass 4000) pressed)"
    by (simp add: loop_pairing_def loop_pair_end_def loop_pair_ask_def loop_pair_give_def loop_give_def quiet_pass_def
        pressed_def demo_def arb0_def ago_def takers_def asked_def older_asked_def PACE_def preq0_def seal_def wrap_key_def
        xor_crypto_def send_pkt_def Let_def)
  have "\<not> pair_gave pressed" by (simp add: pressed_def demo_def arb0_def)
  with pairing_hands_one [OF this p] p show ?thesis by auto
qed

text \<open>
  Home Assistant's word is needed for each Echo: an answer about a tag confirms only an Echo whose own tag it is,
  that we read before, and whose scan time has changed since; a tag never scanned ("unknown",
  "unavailable", empty) confirms none.
\<close>

theorem confirmed_only_by_new_scan:
  assumes "j < length (cands s)" "\<not> cd_attested (cands s ! j)" "cd_attested (cands (arb_ha_state entity st s) ! j)"
  shows "running s \<and> entity = tag_entity (cd_pub (cands s ! j)) \<and> cd_tag0 (cands s ! j) \<noteq> []
           \<and> take 47 st \<noteq> take 47 (cd_tag0 (cands s ! j))
           \<and> st \<notin> {[], ascii ''unknown'', ascii ''unavailable''}"
  using assms by (auto simp: arb_ha_state_def ha_confirms_def split: if_splits)

definition tagged :: arb where
  "tagged = (demo 1)\<lparr>cands := cand0\<lparr>cd_pub := replicate 32 2, cd_seen := 1000, cd_tag0 := [0x31]\<rparr> # replicate 15 cand0\<rparr>"

theorem confirmed_only_by_new_scan_witness:
  "cd_attested (cands (arb_ha_state (tag_entity (replicate 32 2)) [0x32] tagged) ! 0) \<and> cd_tag0 (cands tagged ! 0) \<noteq> []"
proof -
  have a: "cd_attested (cands (arb_ha_state (tag_entity (replicate 32 2)) [0x32] tagged) ! 0)"
    by (simp add: tagged_def arb_ha_state_def ha_confirms_def demo_def ascii_def cand0_def)
  have "\<not> cd_attested (cands tagged ! 0)" "0 < length (cands tagged)" by (simp_all add: tagged_def cand0_def)
  with confirmed_only_by_new_scan [of 0 tagged, OF _ _ a] a show ?thesis by simp
qed

section \<open>A network with id 0\<close>

text \<open>
  An id of 0 means "no network" on the wire and in the state file, but a T_GIVE that names it is
  taken while pairing: the Echo is then in a network whose beacons say it is in none, that no other
  network is older than, and that its next start does not load.
\<close>

theorem network_zero_taken_and_lost:
  assumes "disk_ok s" "running s" "\<not> in_net s \<or> net_id s \<noteq> 0" "pair_until s \<noteq> 0" "now < pair_until s" "length (pk s) = 32"
    "length blob = 104" "unseal C s 0 blob = Some k"
  shows "let t = on_packet C nonce (give_pkt_of (pk s) 0 blob) now ip s
         in network t = (True, 0, k) \<and> \<not> in_net (snd (restart C nd r later t))"
proof -
  define t where "t = snd (take_key C 0 blob now s)"
  have p: "on_packet C nonce (give_pkt_of (pk s) 0 blob) now ip s = t"
    using assms(4,5) by (simp add: give_read [OF assms(7,6)] t_def)
  have n: "network t = (True, 0, k)" and d: "\<exists>ls. disk t = Some ls \<and> nets ls = [(0, k)]"
    using assms(1-3,8) by (auto simp: t_def take_key_def Let_def network_def adopt_def save_def derive_def state_lines_nets)
  from d obtain ls where ls: "disk t = Some ls" "nets ls = [(0, k)]" by blast
  define s0 where "s0 = (arb0 (disk t) (key_disk t))\<lparr>pace := 1000, rivals_on := True, beacon_gap := PACE 1000 20000, node := fit NLEN nd\<rparr>"
  have "\<not> in_net (load C s0)"
    using load_nets [of C s0 ls] ls by (simp add: load_def s0_def arb0_def)
  then have "\<not> in_net (snd (restart C nd r later t))"
    by (auto simp: restart_def arb_start_def s0_def [symmetric] Let_def identity_def reserve_def save_def split: option.splits)
  with n p show ?thesis by (simp add: Let_def)
qed

theorem network_zero_taken_and_lost_witness:
  "network (on_packet xor_crypto [] (give_pkt_of (pk (pairing 2)) 0 (replicate 32 1 @ replicate 24 0 @ replicate 16 1 @ replicate 32 7)) 4000 0 (pairing 2))
     = (True, 0, replicate 32 7)"
  using network_zero_taken_and_lost [of "pairing 2" 4000 "replicate 32 1 @ replicate 24 0 @ replicate 16 1 @ replicate 32 7"
      xor_crypto "replicate 32 7" "[]" 0 "[]" "[]" 1]
  by (simp add: Let_def pairing_def demo_def arb0_def unseal_def wrap_key_def xor_crypto_def)

end
