(* ===== verification/Dropin.thy ===== *)
theory Dropin
  imports Arb_Loop
begin

text \<open>
  \<^verbatim>\<open>src/hassmic/dropin.c\<close>: calls between two Echos of one arbitration network: the messages over \<open>arb_tell\<close>, the
  call's key, its states, what the core is told, the audio packets and the jitter buffer.  The arbitration
  network's own state is part of it (\<open>net\<close>), so a message told is a packet of that model.  Arguments stand for the
  clock, random bytes, the core's answers, the Opus encoder's output and the addresses packets come from.  Left out:
  the echo suppressor and gate (floating point), the mixer and the log lines.
\<close>

section \<open>State\<close>

datatype dstate = DROPIN_IDLE | DROPIN_CALLING | DROPIN_RINGING | DROPIN_LIVE

datatype dresult = R_CONNECTED | R_RINGING | R_BUSY | R_DND | R_MUTED | R_OFF | R_DECLINED | R_NOT_ANSWERED
  | R_NO_ANSWER | R_NOT_FOUND | R_BUSY_HERE | R_MUTED_HERE | R_CANCELLED | R_FAILED

abbreviation (input) M_INVITE :: byte where "M_INVITE \<equiv> 1"
abbreviation (input) M_ACCEPT :: byte where "M_ACCEPT \<equiv> 2"
abbreviation (input) M_RINGING :: byte where "M_RINGING \<equiv> 3"
abbreviation (input) M_REFUSE :: byte where "M_REFUSE \<equiv> 4"
abbreviation (input) M_BYE :: byte where "M_BYE \<equiv> 5"

abbreviation (input) MAXPKT :: nat where "MAXPKT \<equiv> 400"
abbreviation (input) INVITE_MS :: int where "INVITE_MS \<equiv> 250"
abbreviation (input) RING_MS :: int where "RING_MS \<equiv> 30000"
abbreviation (input) CALLER_MS :: int where "CALLER_MS \<equiv> 5000"
abbreviation (input) JB :: nat where "JB \<equiv> 32"
abbreviation (input) PREBUF :: u32 where "PREBUF \<equiv> 4"
abbreviation (input) MAXBUF :: int where "MAXBUF \<equiv> 12"
abbreviation (input) PLC_FRAMES :: nat where "PLC_FRAMES \<equiv> 5"
abbreviation (input) EVQ :: nat where "EVQ \<equiv> 16"

text \<open>\<open>struct ev\<close>: what the core is told; a state or a result that is -1 is \<open>None\<close>.\<close>

record event =
  e_state :: "dstate option"
  e_node :: bytes
  e_out :: bool
  e_result :: "dresult option"
  e_here :: bool
  e_gen :: nat

record jslot =
  sl_seq :: u32
  sl_d :: bytes

record dropin =
  net :: arb
  dr_running :: bool
  enabled :: bool
  ask :: bool
  my_port :: "16 word"
  self_id :: bytes
  answer_ms :: int
  lost_ms :: int
  d_state :: dstate
  outgoing :: bool
  gen :: nat
  d_keyed :: bool
  rang :: bool
  invited :: bool
  call_id :: bytes
  d_peer :: bytes
  d_node :: bytes
  d_ip :: u32
  d_port :: "16 word"
  esk :: bytes
  epk :: bytes
  d_key :: bytes
  since :: int
  sig_at :: int
  rx_at :: int
  live_at :: int
  tx_seq :: u32
  rx :: nat
  d_lost :: nat
  late :: nat
  played :: nat
  gap_max :: int
  arr_at :: int
  play_next :: u32
  bye_left :: nat
  bye_at :: int
  bye_to :: bytes
  bye_p :: bytes
  ended :: "bytes list"
  ended_n :: u32
  jb :: "jslot list"
  jb_hi :: u32
  jb_lo :: u32
  jb_any :: bool
  evq :: "event list"
  last_result :: "dresult option"
  attempts :: nat
  d_notify :: bool
  log :: "event list"
  frames :: "(nat \<times> u32) list"

text \<open>\<open>evq\<close> is the ring of 16 as the events waiting in it; \<open>log\<close> and \<open>frames\<close> keep every event and every
  audio frame (its call and number) for the theorems.\<close>

definition jslot0 :: jslot where
  "jslot0 = \<lparr>sl_seq = 0, sl_d = []\<rparr>"

definition dropin0 :: "arb \<Rightarrow> dropin" where
  "dropin0 a = \<lparr>net = a, dr_running = False, enabled = True, ask = False, my_port = 0, self_id = replicate 8 0,
     answer_ms = 4000, lost_ms = 5000, d_state = DROPIN_IDLE, outgoing = False, gen = 0, d_keyed = False, rang = False,
     invited = False, call_id = replicate 8 0, d_peer = replicate 8 0, d_node = [], d_ip = 0, d_port = 0,
     esk = replicate 32 0, epk = replicate 32 0, d_key = replicate 32 0, since = 0, sig_at = 0, rx_at = 0, live_at = 0,
     tx_seq = 0, rx = 0, d_lost = 0, late = 0, played = 0, gap_max = 0, arr_at = 0, play_next = 0,
     bye_left = 0, bye_at = 0, bye_to = replicate 8 0, bye_p = [], ended = replicate 4 (replicate 8 0), ended_n = 0,
     jb = replicate JB jslot0, jb_hi = 0, jb_lo = 0, jb_any = False, evq = [], last_result = None, attempts = 0,
     d_notify = False, log = [], frames = []\<rparr>"

definition ev_push :: "dstate option \<Rightarrow> bytes \<Rightarrow> bool \<Rightarrow> dresult option \<Rightarrow> bool \<Rightarrow> dropin \<Rightarrow> dropin" where
  "ev_push st nd out res here s =
     (let e = \<lparr>e_state = st, e_node = fit 64 nd, e_out = out, e_result = res, e_here = here, e_gen = gen s\<rparr>
      in s\<lparr>evq := newest EVQ (evq s @ [e]), last_result := (if res \<noteq> None then res else last_result s), d_notify := True,
           log := log s @ [e]\<rparr>)"

definition refusal :: "bytes \<Rightarrow> dresult" where
  "refusal why =
     (if why = ascii ''busy in another Drop In'' then R_BUSY
      else if why = ascii ''do not disturb is on'' then R_DND
      else if why = ascii ''the microphones are off'' then R_MUTED
      else if why = ascii ''Drop In is off there'' then R_OFF
      else if why = ascii ''declined'' then R_DECLINED
      else if why = ascii ''not answered'' then R_NOT_ANSWERED else R_FAILED)"

section \<open>Messages\<close>

definition dmsg :: "byte \<Rightarrow> bytes \<Rightarrow> dropin \<Rightarrow> bytes" where
  "dmsg kind reason s =
     (let r = take 60 reason in [kind] @ call_id s @ le_enc 2 (my_port s) @ epk s @ [of_nat (length r)] @ r)"

definition send_msg :: "crypto \<Rightarrow> byte \<Rightarrow> bytes \<Rightarrow> dropin \<Rightarrow> dropin" where
  "send_msg C kind reason s = s\<lparr>net := snd (arb_tell C (d_peer s) (dmsg kind reason s) (net s))\<rparr>"

definition send_to :: "crypto \<Rightarrow> bytes \<Rightarrow> bytes \<Rightarrow> byte \<Rightarrow> bytes \<Rightarrow> dropin \<Rightarrow> dropin" where
  "send_to C to i kind reason s =
     s\<lparr>net := snd (arb_tell C to (dmsg kind reason (s\<lparr>call_id := i, epk := replicate 32 0\<rparr>)) (net s))\<rparr>"

definition derive_label :: bytes where
  "derive_label = ascii ''hassmic drop in 1''"

definition derive_call :: "crypto \<Rightarrow> bytes \<Rightarrow> dropin \<Rightarrow> dropin option" where
  "derive_call C peer_epk s =
     (case arb_derive C derive_label (net s) of
        None \<Rightarrow> None
      | Some kd \<Rightarrow>
          (let shared = x25519 C (esk s) peer_epk;
               m = shared @ call_id s @ (if outgoing s then self_id s else d_peer s) @ (if outgoing s then d_peer s else self_id s)
           in if shared = replicate 32 0 then None
              else Some (s\<lparr>d_key := blake2b_keyed C 32 kd m, d_keyed := True\<rparr>)))"

section \<open>A call's life\<close>

definition go_live :: "int \<Rightarrow> dropin \<Rightarrow> dropin" where
  "go_live now s =
     (ev_push (Some DROPIN_LIVE) (d_node s) (outgoing s) (if outgoing s then Some R_CONNECTED else None) False s)
       \<lparr>d_state := DROPIN_LIVE, live_at := now, rx_at := now, tx_seq := 0, rx := 0, d_lost := 0, late := 0, played := 0,
        gap_max := 0, arr_at := 0, play_next := 0, jb := replicate JB jslot0, jb_any := False\<rparr>"

definition say_bye :: "crypto \<Rightarrow> bytes \<Rightarrow> int \<Rightarrow> dropin \<Rightarrow> dropin" where
  "say_bye C why now s =
     (let p = dmsg M_BYE why s
      in s\<lparr>bye_p := p, bye_to := d_peer s, net := snd (arb_tell C (d_peer s) p (net s)), bye_left := 2, bye_at := now\<rparr>)"

definition end_call :: "crypto \<Rightarrow> bytes \<Rightarrow> bool \<Rightarrow> dresult option \<Rightarrow> int \<Rightarrow> dropin \<Rightarrow> dropin" where
  "end_call C why tell result now s =
     (if d_state s = DROPIN_IDLE then s
      else (let s1 = ev_push (Some DROPIN_IDLE) [] (outgoing s) (if d_state s = DROPIN_CALLING \<and> outgoing s then result else None) False s;
                s2 = (if tell then say_bye C why now s1 else s1)
            in s2\<lparr>ended := (ended s2)[unat (ended_n s2) mod 4 := call_id s2], ended_n := ended_n s2 + 1,
                  d_state := DROPIN_IDLE, gen := gen s2 + 1, d_keyed := False, rang := False,
                  esk := replicate 32 0, d_key := replicate 32 0\<rparr>))"

text \<open>\<open>r\<close>: the 32 random bytes of the ephemeral key.\<close>

definition fresh_call :: "crypto \<Rightarrow> bytes \<Rightarrow> bytes \<Rightarrow> bytes \<Rightarrow> u32 \<Rightarrow> bool \<Rightarrow> int \<Rightarrow> dropin \<Rightarrow> dropin" where
  "fresh_call C r pr nd ip out now s =
     s\<lparr>call_id := replicate 8 0, outgoing := out, gen := gen s + 1, d_keyed := False, rang := False, invited := False,
       d_peer := pr, d_node := fit 64 nd, d_ip := ip, d_port := 0, esk := r, epk := x25519_public_key C r,
       since := now, sig_at := now\<rparr>"

text \<open>What the core hears.\<close>

datatype told = Core_state dstate bytes bool | Core_result dresult bytes bool

definition tell_one :: "crypto \<Rightarrow> int \<Rightarrow> dropin \<Rightarrow> told list \<times> dropin" where
  "tell_one C now s =
     (case evq s of
        [] \<Rightarrow> ([], s)
      | e # es \<Rightarrow>
          (let s1 = s\<lparr>evq := es\<rparr>;
               out = (case e_state e of None \<Rightarrow> [] | Some st \<Rightarrow> [Core_state st (e_node e) (e_out e)])
                     @ (case e_result e of None \<Rightarrow> [] | Some r \<Rightarrow> [Core_result r (e_node e) (e_here e)])
           in (out,
               if e_state e = Some DROPIN_CALLING \<and> e_out e \<and> d_state s1 = DROPIN_CALLING \<and> outgoing s1
                  \<and> gen s1 = e_gen e \<and> \<not> invited s1
               then send_msg C M_INVITE [] (s1\<lparr>invited := True, since := now, sig_at := now\<rparr>) else s1)))"

lemma tell_one_evq: "evq (snd (tell_one C now s)) = tl (evq s)"
  by (cases "evq s") (simp_all add: tell_one_def send_msg_def Let_def)

function tell_core :: "crypto \<Rightarrow> int \<Rightarrow> dropin \<Rightarrow> told list \<times> dropin" where
  "tell_core C now s =
     (if evq s = [] then ([], s)
      else (let (a, s1) = tell_one C now s; (b, s2) = tell_core C now s1 in (a @ b, s2)))"
  by pat_completeness auto
termination
proof (relation "measure (\<lambda>(C, now, s). length (evq s))")
  fix C now s x a s1
  assume "evq s \<noteq> []" "x = tell_one C now s" "(a, s1) = x"
  then show "((C, now, s1), C, now, s) \<in> measure (\<lambda>(C, now, s). length (evq s))"
    using tell_one_evq [of C now s] by (metis (no_types, lifting) case_prod_conv diff_less in_measure length_greater_0_conv
      length_tl less_numeral_extra(1) snd_conv)
qed simp

declare tell_core.simps [simp del]

section \<open>The interface\<close>

definition dropin_enable :: "crypto \<Rightarrow> int \<Rightarrow> int \<Rightarrow> dropin \<Rightarrow> bool \<times> dropin" where
  "dropin_enable C st now s =
     (if 0 \<le> st \<and> st \<noteq> (if enabled s then 1 else 0) then
        (let s1 = s\<lparr>enabled := (st \<noteq> 0)\<rparr>;
             s2 = (if \<not> enabled s1 \<and> d_state s1 \<noteq> DROPIN_IDLE
                   then end_call C (ascii ''Drop In switched off'') True (Some R_CANCELLED) now s1 else s1)
         in (enabled s2, s2))
      else (enabled s, s))"

definition dropin_ask :: "int \<Rightarrow> dropin \<Rightarrow> bool \<times> dropin" where
  "dropin_ask st s = (let s1 = (if 0 \<le> st then s\<lparr>ask := (st \<noteq> 0)\<rparr> else s) in (ask s1, s1))"

definition dropin_status :: "dropin \<Rightarrow> dstate \<times> bytes" where
  "dropin_status s = (d_state s, if d_state s \<noteq> DROPIN_IDLE then d_node s else [])"

definition dropin_last :: "dropin \<Rightarrow> dresult option \<times> nat" where
  "dropin_last s = (last_result s, attempts s)"

text \<open>\<open>nd\<close>: the node \<open>core_node_of\<close> makes of the target; \<open>own\<close>: our node's name; \<open>no\<close>: what speaks against a call here.\<close>

definition call_refused :: "bytes \<Rightarrow> bytes \<Rightarrow> bytes option \<Rightarrow> int \<Rightarrow> dropin \<Rightarrow> dresult option" where
  "call_refused nd own no now s =
     (if nd = own then Some R_FAILED
      else if arb_member nd now (net s) = None then Some R_NOT_FOUND
      else if \<not> enabled s then Some R_FAILED
      else if no \<noteq> None then Some R_MUTED_HERE
      else if d_state s \<noteq> DROPIN_IDLE then Some R_BUSY_HERE else None)"

definition dropin_call :: "crypto \<Rightarrow> bytes \<Rightarrow> bytes \<Rightarrow> bytes \<Rightarrow> bytes \<Rightarrow> bytes option \<Rightarrow> int \<Rightarrow> dropin \<Rightarrow> bool \<times> dropin" where
  "dropin_call C r cid nd own no now s =
     (if \<not> dr_running s then (False, s)
      else (let s1 = s\<lparr>attempts := attempts s + 1\<rparr>
            in case call_refused nd own no now s1 of
                 Some res \<Rightarrow> (False, ev_push None nd True (Some res) True s1)
               | None \<Rightarrow>
                   (let (i, ip) = the (arb_member nd now (net s1));
                        s2 = (fresh_call C r i nd ip True now s1)\<lparr>call_id := cid, d_state := DROPIN_CALLING\<rparr>
                    in (True, ev_push (Some DROPIN_CALLING) nd True None False s2))))"

definition dropin_hangup :: "crypto \<Rightarrow> bytes \<Rightarrow> int \<Rightarrow> dropin \<Rightarrow> dropin" where
  "dropin_hangup C why now s =
     (if d_state s = DROPIN_RINGING then end_call C why False None now (send_msg C M_REFUSE (ascii ''declined'') s)
      else end_call C why (d_state s \<noteq> DROPIN_CALLING \<or> invited s) (Some R_CANCELLED) now s)"

definition answer :: "crypto \<Rightarrow> int \<Rightarrow> dropin \<Rightarrow> dropin" where
  "answer C now s = go_live now (send_msg C M_ACCEPT [] s)"

definition dropin_answer :: "crypto \<Rightarrow> int \<Rightarrow> dropin \<Rightarrow> bool \<times> dropin" where
  "dropin_answer C now s = (if d_state s = DROPIN_RINGING then (True, answer C now s) else (False, s))"

definition dropin_button :: "crypto \<Rightarrow> int \<Rightarrow> dropin \<Rightarrow> bool \<times> dropin" where
  "dropin_button C now s =
     (if d_state s = DROPIN_RINGING then (True, answer C now s)
      else if d_state s \<noteq> DROPIN_IDLE then (True, end_call C (ascii ''action button'') True (Some R_CANCELLED) now s)
      else (False, s))"

section \<open>A message heard\<close>

record dmessage =
  dm_kind :: byte
  dm_id :: bytes
  dm_port :: "16 word"
  dm_epk :: bytes
  dm_reason :: bytes

definition dmsg_read :: "bytes \<Rightarrow> dmessage option" where
  "dmsg_read p =
     (if length p < 44 \<or> length p < 44 + unat (p ! 43) then None
      else Some \<lparr>dm_kind = p ! 0, dm_id = take 8 (drop 1 p), dm_port = le_dec (take 2 (drop 9 p)), dm_epk = take 32 (drop 11 p),
                 dm_reason = map (\<lambda>x. if x < 0x20 then 0x20 else x) (fit 64 (cstr (take (unat (p ! 43)) (drop 44 p))))\<rparr>)"

definition same_call :: "bytes \<Rightarrow> dmessage \<Rightarrow> dropin \<Rightarrow> bool" where
  "same_call from m s \<longleftrightarrow> d_state s \<noteq> DROPIN_IDLE \<and> call_id s = dm_id m \<and> d_peer s = from"

definition on_invite :: "crypto \<Rightarrow> bytes \<Rightarrow> bytes option \<Rightarrow> bytes \<Rightarrow> bytes \<Rightarrow> u32 \<Rightarrow> dmessage \<Rightarrow> int \<Rightarrow> dropin \<Rightarrow> dropin" where
  "on_invite C r no from nd ip m now s =
     (if same_call from m s \<and> \<not> outgoing s then
        (let s1 = s\<lparr>sig_at := now\<rparr>
         in if d_state s1 = DROPIN_LIVE then send_msg C M_ACCEPT [] s1
            else if d_state s1 = DROPIN_RINGING then send_msg C M_RINGING [] s1 else s1)
      else if dm_id m \<in> set (ended s) then s
      else if \<not> enabled s \<or> no \<noteq> None \<or> d_state s \<noteq> DROPIN_IDLE \<or> dm_port m = 0 \<or> nd = [] then
        send_to C from (dm_id m) M_REFUSE
          (if \<not> enabled s then ascii ''Drop In is off there'' else case no of Some w \<Rightarrow> w
             | None \<Rightarrow> if d_state s \<noteq> DROPIN_IDLE then ascii ''busy in another Drop In'' else ascii ''no address'') s
      else
        (let s1 = (fresh_call C r from nd ip False now s)\<lparr>call_id := dm_id m, d_port := dm_port m\<rparr>
         in case derive_call C (dm_epk m) s1 of
              None \<Rightarrow> (send_to C from (dm_id m) M_REFUSE (ascii ''no key'') s1)\<lparr>d_state := DROPIN_IDLE\<rparr>
            | Some s2 \<Rightarrow>
                if ask s2 then send_msg C M_RINGING [] (ev_push (Some DROPIN_RINGING) (d_node s2) False None False (s2\<lparr>d_state := DROPIN_RINGING\<rparr>))
                else answer C now s2))"

definition on_ringing :: "bytes \<Rightarrow> dmessage \<Rightarrow> int \<Rightarrow> dropin \<Rightarrow> dropin" where
  "on_ringing from m now s =
     (if same_call from m s \<and> outgoing s \<and> d_state s = DROPIN_CALLING then
        (if \<not> rang s then ev_push None (d_node s) True (Some R_RINGING) False s else s)\<lparr>rang := True, sig_at := now, rx_at := now\<rparr>
      else s)"

definition on_accept :: "crypto \<Rightarrow> bytes \<Rightarrow> u32 \<Rightarrow> dmessage \<Rightarrow> int \<Rightarrow> dropin \<Rightarrow> dropin" where
  "on_accept C from ip m now s =
     (if \<not> same_call from m s \<or> \<not> outgoing s \<or> d_state s \<noteq> DROPIN_CALLING then s
      else (let s1 = s\<lparr>d_port := dm_port m, d_ip := ip\<rparr>
            in case (if dm_port m = 0 then None else derive_call C (dm_epk m) s1) of
                 None \<Rightarrow> end_call C (ascii ''no key'') True (Some R_FAILED) now s1
               | Some s2 \<Rightarrow> go_live now s2))"

definition dropin_message :: "crypto \<Rightarrow> bytes \<Rightarrow> bytes option \<Rightarrow> bytes \<Rightarrow> bytes \<Rightarrow> u32 \<Rightarrow> bytes \<Rightarrow> int \<Rightarrow> dropin \<Rightarrow> dropin" where
  "dropin_message C r no from nd ip p now s =
     (case dmsg_read p of
        None \<Rightarrow> s
      | Some m \<Rightarrow>
          if dm_kind m = M_INVITE then on_invite C r no from nd ip m now s
          else if dm_kind m = M_RINGING then on_ringing from m now s
          else if dm_kind m = M_ACCEPT then on_accept C from ip m now s
          else if dm_kind m = M_REFUSE then
            (if same_call from m s \<and> outgoing s \<and> d_state s = DROPIN_CALLING
             then end_call C (ascii ''refused'') False (Some (refusal (dm_reason m))) now s else s)
          else if dm_kind m = M_BYE then
            (if same_call from m s then end_call C (ascii ''hung up'') False (Some R_FAILED) now s else s)
          else s)"

section \<open>Audio\<close>

text \<open>\<open>enc\<close>: the frame as Opus encodes it.  The packet that goes to \<open>d_ip\<close> and \<open>d_port\<close>, if any.\<close>

definition audio_head :: "bool \<Rightarrow> u32 \<Rightarrow> bytes \<Rightarrow> bytes" where
  "audio_head dir seq i = ascii ''HMD1'' @ i @ [if dir then 1 else 0] @ le_enc 4 seq"

definition audio_nonce :: "bytes \<Rightarrow> bytes" where
  "audio_nonce p = take 13 (drop 4 p) @ replicate 11 0"

definition send_audio :: "crypto \<Rightarrow> bytes \<Rightarrow> dropin \<Rightarrow> bytes option \<times> dropin" where
  "send_audio C enc s =
     (if d_state s \<noteq> DROPIN_LIVE \<or> \<not> d_keyed s \<or> d_port s = 0 then (None, s)
      else (let s1 = s\<lparr>tx_seq := tx_seq s + 1, frames := frames s @ [(gen s, tx_seq s)]\<rparr>;
                h = audio_head (\<not> outgoing s) (tx_seq s) (call_id s)
            in if enc = [] then (None, s1)
               else (let (cipher, mac) = aead_lock C (d_key s) (audio_nonce h) h enc in (Some (h @ cipher @ mac), s1))))"

definition store_frame :: "u32 \<Rightarrow> bytes \<Rightarrow> int \<Rightarrow> dropin \<Rightarrow> dropin" where
  "store_frame seq d now s =
     s\<lparr>jb := (jb s)[unat seq mod JB := \<lparr>sl_seq = seq, sl_d = d\<rparr>],
       jb_hi := (if \<not> jb_any s \<or> 0 < sint (seq - jb_hi s) then seq else jb_hi s),
       jb_lo := (if \<not> jb_any s \<or> sint (seq - jb_lo s) < 0 then seq else jb_lo s),
       gap_max := (if arr_at s \<noteq> 0 \<and> gap_max s < now - arr_at s then now - arr_at s else gap_max s),
       late := (if jb_any s \<and> sint (seq - play_next s) < 0 then late s + 1 else late s),
       jb_any := True, rx := rx s + 1, rx_at := now, arr_at := now\<rparr>"

definition on_audio :: "crypto \<Rightarrow> bytes \<Rightarrow> u32 \<Rightarrow> 16 word \<Rightarrow> int \<Rightarrow> dropin \<Rightarrow> dropin" where
  "on_audio C p ip port now s =
     (let n = length p; seq = le_dec (take 4 (drop 13 p)) :: u32
      in if n < 17 + 1 + 16 \<or> 17 + MAXPKT + 16 < n \<or> take 4 p \<noteq> ascii ''HMD1'' then s
         else if d_state s \<noteq> DROPIN_LIVE \<or> \<not> d_keyed s \<or> take 8 (drop 4 p) \<noteq> call_id s
                 \<or> p ! 12 \<noteq> (if outgoing s then 1 else 0) then s
         else if jb_any s \<and> sint (seq - jb_hi s) < - int JB then s
         else (case aead_unlock C (d_key s) (audio_nonce p) (take 17 p) (drop (n - 16) p) (take (n - 33) (drop 17 p)) of
                 None \<Rightarrow> s
               | Some d \<Rightarrow> (store_frame seq d now s)\<lparr>d_ip := ip, d_port := port\<rparr>))"

text \<open>
  The playout thread's own state, and what it hands the decoder for the next 20 ms: a frame, the frame behind it for
  its error correction, or nothing.
\<close>

record playout =
  pl_gen :: nat
  pl_t0 :: int
  pl_started :: bool
  pl_next :: u32

datatype playing = Frame u32 bytes | Fec u32 bytes | Missing

definition playout_start :: "int \<Rightarrow> dropin \<Rightarrow> playout" where
  "playout_start now s = \<lparr>pl_gen = gen s, pl_t0 = now, pl_started = False, pl_next = 0\<rparr>"

definition playout_begin :: "int \<Rightarrow> playout \<Rightarrow> dropin \<Rightarrow> playout" where
  "playout_begin now p s =
     (let p1 = (if \<not> pl_started p \<and> jb_any s \<and> (PREBUF - 1 \<le> jb_hi s - jb_lo s \<or> 300 < now - pl_t0 p)
                then p\<lparr>pl_started := True, pl_next := jb_lo s\<rparr> else p)
      in if pl_started p1 \<and> MAXBUF < sint (jb_hi s - pl_next p1) then p1\<lparr>pl_next := jb_hi s - (PREBUF - 1)\<rparr> else p1)"

definition playout_pick :: "u32 \<Rightarrow> dropin \<Rightarrow> playing" where
  "playout_pick nx s =
     (let sl = jb s ! (unat nx mod JB); sl1 = jb s ! (unat (nx + 1) mod JB)
      in if sl_d sl \<noteq> [] \<and> sl_seq sl = nx then Frame nx (sl_d sl)
         else if sint (jb_hi s - nx) \<le> 0 then Missing
         else if sl_d sl1 \<noteq> [] \<and> sl_seq sl1 = nx + 1 then Fec nx (sl_d sl1) else Missing)"

definition playout_step :: "int \<Rightarrow> playout \<Rightarrow> dropin \<Rightarrow> (playing \<times> playout \<times> dropin) option" where
  "playout_step now p s =
     (if d_state s \<noteq> DROPIN_LIVE \<or> gen s \<noteq> pl_gen p then None
      else (let p1 = playout_begin now p s; nx = pl_next p1
            in if \<not> pl_started p1 then Some (Missing, p1, s)
               else (let x = playout_pick nx s
                     in if x \<noteq> Missing \<or> 0 < sint (jb_hi s - nx) then
                          Some (x, p1\<lparr>pl_next := nx + 1\<rparr>,
                                s\<lparr>d_lost := (case x of Frame q d \<Rightarrow> d_lost s | _ \<Rightarrow> d_lost s + 1),
                                  jb := (jb s)[unat nx mod JB := (jb s ! (unat nx mod JB))\<lparr>sl_d := []\<rparr>],
                                  played := played s + 1, play_next := nx + 1\<rparr>)
                        else Some (x, p1, s))))"

section \<open>The loop\<close>

definition dec_int :: "int \<Rightarrow> bytes" where
  "dec_int n = (if n < 0 then [0x2d] else []) @ dec_digits (nat \<bar>n\<bar>)"

definition lost_text :: "int \<Rightarrow> bytes" where
  "lost_text ms = fit 40 (ascii ''lost: no audio for '' @ dec_int (if 0 \<le> ms then ms div 1000 else - (- ms div 1000)) @ ascii '' s'')"

definition tick_call :: "crypto \<Rightarrow> int \<Rightarrow> dropin \<Rightarrow> dropin" where
  "tick_call C now s =
     (case d_state s of
        DROPIN_CALLING \<Rightarrow>
          (if \<not> invited s then s
           else if \<not> rang s \<and> answer_ms s < now - since s then end_call C (ascii ''no answer'') True (Some R_NO_ANSWER) now s
           else if rang s \<and> RING_MS + answer_ms s < now - since s then end_call C (ascii ''not answered'') True (Some R_NOT_ANSWERED) now s
           else if (if rang s then 1000 else INVITE_MS) \<le> now - sig_at s then send_msg C M_INVITE [] (s\<lparr>sig_at := now\<rparr>)
           else s)
      | DROPIN_RINGING \<Rightarrow>
          (if RING_MS < now - since s then end_call C (ascii ''not answered'') False None now (send_msg C M_REFUSE (ascii ''not answered'') s)
           else if CALLER_MS < now - sig_at s then end_call C (ascii ''the caller gave up'') False None now s else s)
      | DROPIN_LIVE \<Rightarrow> (if lost_ms s < now - rx_at s then end_call C (lost_text (lost_ms s)) True None now s else s)
      | DROPIN_IDLE \<Rightarrow> s)"

definition tick_bye :: "crypto \<Rightarrow> int \<Rightarrow> dropin \<Rightarrow> dropin" where
  "tick_bye C now s =
     (if bye_left s \<noteq> 0 \<and> 100 \<le> now - bye_at s
      then s\<lparr>net := snd (arb_tell C (bye_to s) (bye_p s) (net s)), bye_at := now, bye_left := bye_left s - 1\<rparr> else s)"

definition tick :: "crypto \<Rightarrow> int \<Rightarrow> dropin \<Rightarrow> dropin" where
  "tick C now s = tick_bye C now (tick_call C now s)"

definition dropin_loop :: "crypto \<Rightarrow> (bytes \<times> u32 \<times> 16 word) option \<Rightarrow> int \<Rightarrow> dropin \<Rightarrow> told list \<times> dropin" where
  "dropin_loop C got now s =
     (let s1 = (case got of None \<Rightarrow> s | Some (p, ip, port) \<Rightarrow> on_audio C p ip port now s);
          (out, s2) = (if d_notify s1 then tell_core C now (s1\<lparr>d_notify := False\<rparr>) else ([], s1))
      in (out, tick C now s2))"

text \<open>\<open>limits\<close>: the tests' own times; \<open>opened\<close>, \<open>threaded\<close>: whether the socket and the loop's thread could be made.\<close>

definition dropin_start :: "16 word \<Rightarrow> (int \<times> int) option \<Rightarrow> bool \<Rightarrow> bool \<Rightarrow> dropin \<Rightarrow> int \<times> dropin" where
  "dropin_start port limits opened threaded s =
     (if \<not> running (net s) then (-1, s)
      else (let s1 = (case limits of None \<Rightarrow> s | Some (a, l) \<Rightarrow> s\<lparr>answer_ms := a, lost_ms := l\<rparr>);
                s2 = s1\<lparr>self_id := arb_self (net s1)\<rparr>
            in if \<not> opened then (-1, s2)
               else if \<not> threaded then (-1, s2\<lparr>my_port := port\<rparr>) else (0, s2\<lparr>my_port := port, dr_running := True\<rparr>)))"

end
