(* ===== verification/Dropin_Calls.thy ===== *)
theory Dropin_Calls
  imports Dropin Arb_Trust
begin

text \<open>
  What Drop In promises: the core hears a story that fits a call's life, an audio nonce is used once, nobody but the
  other Echo of a call touches it, and a call taken gives both ends one key.
\<close>

section \<open>Any order of operations\<close>

inductive drop_step :: "crypto \<Rightarrow> dropin \<Rightarrow> dropin \<Rightarrow> bool" for C where
  start: "drop_step C s (snd (dropin_start port limits opened threaded s))"
| enable: "drop_step C s (snd (dropin_enable C st now s))"
| asks: "drop_step C s (snd (dropin_ask st s))"
| calls: "drop_step C s (snd (dropin_call C r cid nd own no now s))"
| hangup: "drop_step C s (dropin_hangup C why now s)"
| answers: "drop_step C s (snd (dropin_answer C now s))"
| button: "drop_step C s (snd (dropin_button C now s))"
| hears: "drop_step C s (dropin_message C r no from nd ip p now s)"
| speaks: "drop_step C s (snd (send_audio C enc s))"
| plays: "playout_step now pl s = Some (x, pl', s') \<Longrightarrow> drop_step C s s'"
| turns: "drop_step C s (snd (dropin_loop C got now s))"
| network: "drop_step C s (s\<lparr>net := a\<rparr>)"

inductive_cases drop_stepE: "drop_step C s s'"

section \<open>A call's life, as the core may hear it\<close>

definition final :: "dresult \<Rightarrow> bool" where
  "final r \<longleftrightarrow> r \<notin> {R_CONNECTED, R_RINGING, R_NOT_FOUND, R_BUSY_HERE, R_MUTED_HERE}"

definition follows :: "dstate \<Rightarrow> event \<Rightarrow> dstate option" where
  "follows st e =
     (case e_state e of
        None \<Rightarrow> if e_here e \<or> st = DROPIN_CALLING \<and> e_result e = Some R_RINGING then Some st else None
      | Some DROPIN_CALLING \<Rightarrow> if st = DROPIN_IDLE \<and> e_out e \<and> e_result e = None then Some DROPIN_CALLING else None
      | Some DROPIN_RINGING \<Rightarrow> if st = DROPIN_IDLE \<and> \<not> e_out e \<and> e_result e = None then Some DROPIN_RINGING else None
      | Some DROPIN_LIVE \<Rightarrow>
          if st = DROPIN_CALLING \<and> e_out e \<and> e_result e = Some R_CONNECTED
             \<or> st \<in> {DROPIN_IDLE, DROPIN_RINGING} \<and> \<not> e_out e \<and> e_result e = None then Some DROPIN_LIVE else None
      | Some DROPIN_IDLE \<Rightarrow>
          if st = DROPIN_CALLING \<and> e_out e \<and> (\<exists>r. e_result e = Some r \<and> final r)
             \<or> st \<in> {DROPIN_RINGING, DROPIN_LIVE} \<and> e_result e = None then Some DROPIN_IDLE else None)"

fun replay :: "dstate \<Rightarrow> event list \<Rightarrow> dstate option" where
  "replay st [] = Some st"
| "replay st (e # es) = (case follows st e of None \<Rightarrow> None | Some st' \<Rightarrow> replay st' es)"

lemma replay_append: "replay st (es @ [e]) = (case replay st es of None \<Rightarrow> None | Some st' \<Rightarrow> follows st' e)"
  by (induction es arbitrary: st) (auto split: option.splits)

text \<open>The frames sent in call \<open>g\<close>.\<close>

definition sent_in :: "nat \<Rightarrow> (nat \<times> u32) list \<Rightarrow> (nat \<times> u32) list" where
  "sent_in g fs = filter (\<lambda>f. fst f = g) fs"

definition drop_ok :: "dropin \<Rightarrow> bool" where
  "drop_ok s \<longleftrightarrow>
     replay DROPIN_IDLE (log s) = Some (d_state s)
     \<and> (d_state s = DROPIN_CALLING \<longrightarrow> outgoing s) \<and> (d_state s = DROPIN_RINGING \<longrightarrow> \<not> outgoing s)
     \<and> (\<forall>f\<in>set (frames s). fst f \<le> gen s)
     \<and> (\<forall>g. sent_in g (frames s) = map (\<lambda>i. (g, of_nat i)) [0..<length (sent_in g (frames s))])
     \<and> (if d_state s = DROPIN_LIVE then tx_seq s = of_nat (length (sent_in (gen s) (frames s))) else sent_in (gen s) (frames s) = [])"

lemma no_frames_later: "\<forall>f\<in>set fs. fst f \<le> g \<Longrightarrow> g < g' \<Longrightarrow> sent_in g' fs = []"
  by (auto simp: sent_in_def filter_empty_conv)

lemma drop_ok_frame:
  assumes "drop_ok s" "d_state s' = d_state s" "outgoing s' = outgoing s" "gen s' = gen s" "tx_seq s' = tx_seq s"
    "frames s' = frames s" "log s' = log s"
  shows "drop_ok s'"
  using assms by (simp add: drop_ok_def)

text \<open>A change of state with its event: to a state of this call that has not sent, or of a later one.\<close>

lemma drop_ok_event:
  assumes "drop_ok s" "follows (d_state s) e = Some (d_state s')" "log s' = log s @ [e]" "frames s' = frames s"
    "gen s < gen s' \<or> gen s = gen s' \<and> d_state s \<noteq> DROPIN_LIVE" "d_state s' = DROPIN_LIVE \<longrightarrow> tx_seq s' = 0"
    "d_state s' = DROPIN_CALLING \<longrightarrow> outgoing s'" "d_state s' = DROPIN_RINGING \<longrightarrow> \<not> outgoing s'"
  shows "drop_ok s'"
proof -
  have "sent_in (gen s') (frames s) = []"
    using assms(1,5) no_frames_later [of "frames s" "gen s" "gen s'"] by (auto simp: drop_ok_def split: if_splits)
  moreover have "\<forall>f\<in>set (frames s). fst f \<le> gen s'" using assms(1,5) by (fastforce simp: drop_ok_def)
  ultimately show ?thesis using assms by (auto simp: drop_ok_def replay_append)
qed

lemma drop_ok_news:
  assumes "drop_ok s" "follows (d_state s) e = Some (d_state s)" "log s' = log s @ [e]" "d_state s' = d_state s"
    "outgoing s' = outgoing s" "gen s' = gen s" "tx_seq s' = tx_seq s" "frames s' = frames s"
  shows "drop_ok s'"
  using assms by (simp add: drop_ok_def replay_append)

lemma drop_ok_idle:
  assumes "drop_ok s" "d_state s = DROPIN_IDLE" "d_state s' = DROPIN_IDLE" "log s' = log s" "frames s' = frames s" "gen s \<le> gen s'"
  shows "drop_ok s'"
proof -
  have "sent_in (gen s') (frames s) = []"
    using assms(1,2,6) no_frames_later [of "frames s" "gen s" "gen s'"] by (cases "gen s = gen s'") (auto simp: drop_ok_def)
  moreover have "\<forall>f\<in>set (frames s). fst f \<le> gen s'" using assms(1,6) by (fastforce simp: drop_ok_def)
  ultimately show ?thesis using assms by (simp add: drop_ok_def)
qed

lemma send_msg_fields [simp]:
  "d_state (send_msg C k r s) = d_state s" "outgoing (send_msg C k r s) = outgoing s" "gen (send_msg C k r s) = gen s"
  "tx_seq (send_msg C k r s) = tx_seq s" "frames (send_msg C k r s) = frames s" "log (send_msg C k r s) = log s"
  "d_node (send_msg C k r s) = d_node s" "ask (send_msg C k r s) = ask s"
  by (simp_all add: send_msg_def)

lemma send_to_fields [simp]:
  "d_state (send_to C t i k r s) = d_state s" "outgoing (send_to C t i k r s) = outgoing s" "gen (send_to C t i k r s) = gen s"
  "tx_seq (send_to C t i k r s) = tx_seq s" "frames (send_to C t i k r s) = frames s" "log (send_to C t i k r s) = log s"
  by (simp_all add: send_to_def)

lemma derive_fields:
  "derive_call C k s = Some s' \<Longrightarrow> d_state s' = d_state s \<and> outgoing s' = outgoing s \<and> gen s' = gen s \<and> tx_seq s' = tx_seq s
     \<and> frames s' = frames s \<and> log s' = log s \<and> ask s' = ask s \<and> d_node s' = d_node s"
  by (auto simp: derive_call_def Let_def split: option.splits if_splits)

lemma end_call_ok:
  assumes "drop_ok s" "d_state s = DROPIN_CALLING \<longrightarrow> (\<exists>r. res = Some r \<and> final r)"
  shows "drop_ok (end_call C why tell res now s)"
proof (cases "d_state s = DROPIN_IDLE")
  case False
  let ?e = "\<lparr>e_state = Some DROPIN_IDLE, e_node = fit 64 [], e_out = outgoing s,
    e_result = (if d_state s = DROPIN_CALLING \<and> outgoing s then res else None), e_here = False, e_gen = gen s\<rparr>"
  have o: "d_state s = DROPIN_CALLING \<longrightarrow> outgoing s" using assms(1) by (simp add: drop_ok_def)
  show ?thesis
    by (rule drop_ok_event [OF assms(1), of ?e])
       (use False o assms(2) in \<open>cases "d_state s", simp_all add: follows_def end_call_def ev_push_def say_bye_def Let_def\<close>)
qed (use assms in \<open>simp add: end_call_def\<close>)

lemma go_live_ok:
  assumes "drop_ok s" "d_state s = (if outgoing s then DROPIN_CALLING else DROPIN_RINGING) \<or> d_state s = DROPIN_IDLE \<and> \<not> outgoing s"
  shows "drop_ok (go_live now s)"
proof -
  let ?e = "\<lparr>e_state = Some DROPIN_LIVE, e_node = fit 64 (d_node s), e_out = outgoing s,
    e_result = (if outgoing s then Some R_CONNECTED else None), e_here = False, e_gen = gen s\<rparr>"
  show ?thesis
    by (rule drop_ok_event [OF assms(1), of ?e]) (use assms(2) in \<open>auto simp: follows_def go_live_def ev_push_def Let_def split: if_splits\<close>)
qed

lemma fresh_call_fields [simp]:
  "d_state (fresh_call C r p nd ip out now s) = d_state s" "outgoing (fresh_call C r p nd ip out now s) = out"
  "gen (fresh_call C r p nd ip out now s) = gen s + 1" "tx_seq (fresh_call C r p nd ip out now s) = tx_seq s"
  "frames (fresh_call C r p nd ip out now s) = frames s" "log (fresh_call C r p nd ip out now s) = log s"
  by (simp_all add: fresh_call_def)

lemma ev_push_fields [simp]:
  "d_state (ev_push st nd out res here s) = d_state s" "outgoing (ev_push st nd out res here s) = outgoing s"
  "gen (ev_push st nd out res here s) = gen s" "tx_seq (ev_push st nd out res here s) = tx_seq s"
  "frames (ev_push st nd out res here s) = frames s"
  "log (ev_push st nd out res here s) = log s @
     [\<lparr>e_state = st, e_node = fit 64 nd, e_out = out, e_result = res, e_here = here, e_gen = gen s\<rparr>]"
  by (simp_all add: ev_push_def Let_def)

lemma dropin_call_ok:
  assumes "drop_ok s"
  shows "drop_ok (snd (dropin_call C r cid nd own no now s))"
proof -
  consider (off) "\<not> dr_running s"
    | (refused) res where "dr_running s" "call_refused nd own no now (s\<lparr>attempts := attempts s + 1\<rparr>) = Some res"
    | (calls) "dr_running s" "call_refused nd own no now (s\<lparr>attempts := attempts s + 1\<rparr>) = None"
    by (cases "dr_running s"; cases "call_refused nd own no now (s\<lparr>attempts := attempts s + 1\<rparr>)") auto
  then show ?thesis
  proof cases
    case off
    with assms show ?thesis by (simp add: dropin_call_def)
  next
    case (refused res)
    let ?e = "\<lparr>e_state = None, e_node = fit 64 nd, e_out = True, e_result = Some res, e_here = True, e_gen = gen s\<rparr>"
    show ?thesis
      by (rule drop_ok_news [OF assms, of ?e]) (use refused in \<open>simp_all add: dropin_call_def follows_def Let_def\<close>)
  next
    case calls
    let ?e = "\<lparr>e_state = Some DROPIN_CALLING, e_node = fit 64 nd, e_out = True, e_result = None, e_here = False, e_gen = gen s + 1\<rparr>"
    from calls(2) have "d_state s = DROPIN_IDLE" by (simp add: call_refused_def split: if_splits)
    then show ?thesis
      by (intro drop_ok_event [OF assms, of ?e])
         (use calls in \<open>simp_all add: dropin_call_def follows_def Let_def split: prod.splits\<close>)
  qed
qed

lemma on_invite_ok:
  assumes "drop_ok s"
  shows "drop_ok (on_invite C r no from nd ip m now s)"
proof -
  consider (again) "same_call from m s" "\<not> outgoing s" | (old) "\<not> (same_call from m s \<and> \<not> outgoing s)" "dm_id m \<in> set (ended s)"
    | (refused) "\<not> (same_call from m s \<and> \<not> outgoing s)" "dm_id m \<notin> set (ended s)"
        "\<not> enabled s \<or> no \<noteq> None \<or> d_state s \<noteq> DROPIN_IDLE \<or> dm_port m = 0 \<or> nd = []"
    | (taken) "\<not> (same_call from m s \<and> \<not> outgoing s)" "dm_id m \<notin> set (ended s)"
        "\<not> (\<not> enabled s \<or> no \<noteq> None \<or> d_state s \<noteq> DROPIN_IDLE \<or> dm_port m = 0 \<or> nd = [])"
    by blast
  then show ?thesis
  proof cases
    case again
    then show ?thesis by (intro drop_ok_frame [OF assms]) (simp_all add: on_invite_def Let_def)
  next
    case refused
    show ?thesis
      unfolding on_invite_def if_not_P [OF refused(1)] if_not_P [OF refused(2)] if_P [OF refused(3)]
      by (rule drop_ok_frame [OF assms]) simp_all
  next
    case old
    with assms show ?thesis unfolding on_invite_def if_not_P [OF old(1)] by simp
  next
    case taken
    let ?s = "(fresh_call C r from nd ip False now s)\<lparr>call_id := dm_id m, d_port := dm_port m\<rparr>"
    from taken have idle: "d_state s = DROPIN_IDLE" by simp
    note inv = on_invite_def if_not_P [OF taken(1)] if_not_P [OF taken(2)] if_not_P [OF taken(3)] Let_def
    show ?thesis
    proof (cases "derive_call C (dm_epk m) ?s")
      case None
      then show ?thesis using idle unfolding inv by (intro drop_ok_idle [OF assms]) simp_all
    next
      case (Some s2)
      from derive_fields [OF Some] have d: "d_state s2 = DROPIN_IDLE" "\<not> outgoing s2" "gen s2 = gen s + 1" "frames s2 = frames s"
        "log s2 = log s" by (simp_all add: idle)
      have ok: "drop_ok s2" by (rule drop_ok_idle [OF assms idle]) (simp_all add: d)
      show ?thesis
      proof (cases "ask s2")
        case True
        let ?e = "\<lparr>e_state = Some DROPIN_RINGING, e_node = fit 64 (d_node s2), e_out = False, e_result = None, e_here = False, e_gen = gen s2\<rparr>"
        show ?thesis unfolding inv
          by (rule drop_ok_event [OF ok, of ?e]) (simp_all add: Some True d follows_def)
      next
        case False
        have "drop_ok (answer C now s2)" unfolding answer_def
          by (rule go_live_ok, rule drop_ok_frame [OF ok]) (simp_all add: d)
        with Some False show ?thesis unfolding inv by simp
      qed
    qed
  qed
qed

lemma on_ringing_ok:
  assumes "drop_ok s"
  shows "drop_ok (on_ringing from m now s)"
proof (cases "same_call from m s \<and> outgoing s \<and> d_state s = DROPIN_CALLING \<and> \<not> rang s")
  case True
  let ?e = "\<lparr>e_state = None, e_node = fit 64 (d_node s), e_out = True, e_result = Some R_RINGING, e_here = False, e_gen = gen s\<rparr>"
  show ?thesis by (rule drop_ok_news [OF assms, of ?e]) (use True in \<open>simp_all add: on_ringing_def follows_def\<close>)
next
  case False
  then show ?thesis by (intro drop_ok_frame [OF assms]) (auto simp: on_ringing_def)
qed

lemma on_accept_ok:
  assumes "drop_ok s"
  shows "drop_ok (on_accept C from ip m now s)"
proof (cases "\<not> same_call from m s \<or> \<not> outgoing s \<or> d_state s \<noteq> DROPIN_CALLING")
  case False
  let ?s = "s\<lparr>d_port := dm_port m, d_ip := ip\<rparr>"
  have ok: "drop_ok ?s" by (rule drop_ok_frame [OF assms]) simp_all
  show ?thesis
  proof (cases "if dm_port m = 0 then None else derive_call C (dm_epk m) ?s")
    case None
    have "drop_ok (end_call C (ascii ''no key'') True (Some R_FAILED) now ?s)" by (rule end_call_ok [OF ok]) (simp add: final_def)
    with None False show ?thesis by (simp add: on_accept_def Let_def)
  next
    case (Some s2)
    then have "derive_call C (dm_epk m) ?s = Some s2" by (simp split: if_splits)
    from derive_fields [OF this] False have "drop_ok (go_live now s2)"
      by (intro go_live_ok drop_ok_frame [OF ok]) simp_all
    with Some False show ?thesis by (simp add: on_accept_def Let_def)
  qed
qed (use assms in \<open>auto simp: on_accept_def\<close>)

lemma refusal_final: "final (refusal why)"
  by (simp add: refusal_def final_def)

lemma dropin_message_ok: "drop_ok s \<Longrightarrow> drop_ok (dropin_message C r no from nd ip p now s)"
  unfolding dropin_message_def
  by (auto split: option.split intro!: on_invite_ok on_ringing_ok on_accept_ok end_call_ok simp: refusal_final) (simp_all add: final_def)

lemma answer_ok:
  assumes "drop_ok s" "d_state s = DROPIN_RINGING"
  shows "drop_ok (answer C now s)"
proof -
  have "\<not> outgoing s" using assms by (simp add: drop_ok_def)
  with assms show ?thesis unfolding answer_def
    by (intro go_live_ok drop_ok_frame [OF assms(1)]) simp_all
qed

lemma tick_ok:
  assumes "drop_ok s"
  shows "drop_ok (tick C now s)"
proof -
  have "drop_ok (tick_call C now s)"
  proof (cases "d_state s")
    case DROPIN_CALLING
    have "drop_ok (send_msg C M_INVITE [] (s\<lparr>sig_at := now\<rparr>))" by (rule drop_ok_frame [OF assms]) simp_all
    with DROPIN_CALLING assms show ?thesis by (auto simp: tick_call_def final_def intro!: end_call_ok)
  next
    case DROPIN_RINGING
    have "drop_ok (send_msg C M_REFUSE (ascii ''not answered'') s)" by (rule drop_ok_frame [OF assms]) simp_all
    with DROPIN_RINGING assms show ?thesis by (auto simp: tick_call_def intro!: end_call_ok)
  qed (use assms in \<open>auto simp: tick_call_def intro!: end_call_ok\<close>)
  then show ?thesis unfolding tick_def by (rule drop_ok_frame) (simp_all add: tick_bye_def)
qed

lemma tell_one_ok: "drop_ok s \<Longrightarrow> drop_ok (snd (tell_one C now s))"
  by (erule drop_ok_frame) (simp_all add: tell_one_def Let_def split: list.split)

lemma tell_core_ok: "drop_ok s \<Longrightarrow> drop_ok (snd (tell_core C now s))"
proof (induction C now s rule: tell_core.induct)
  case (1 C now s)
  obtain a s1 where t: "tell_one C now s = (a, s1)" by fastforce
  show ?case
  proof (cases "evq s = []")
    case False
    from tell_one_ok [OF 1(2), of C now] t have "drop_ok s1" by simp
    with 1(1) [OF False t [symmetric] refl] have "drop_ok (snd (tell_core C now s1))" by simp
    then show ?thesis using False t by (simp add: tell_core.simps [of C now s] case_prod_beta)
  qed (use 1(2) in \<open>simp add: tell_core.simps\<close>)
qed

lemma on_audio_ok: "drop_ok s \<Longrightarrow> drop_ok (on_audio C p ip port now s)"
  by (erule drop_ok_frame) (simp_all add: on_audio_def store_frame_def Let_def split: option.split)

lemma dropin_loop_ok:
  assumes "drop_ok s"
  shows "drop_ok (snd (dropin_loop C got now s))"
proof -
  define s1 where "s1 = (case got of None \<Rightarrow> s | Some (p, ip, port) \<Rightarrow> on_audio C p ip port now s)"
  define r where "r = (if d_notify s1 then tell_core C now (s1\<lparr>d_notify := False\<rparr>) else ([], s1))"
  have "drop_ok s1" using assms by (auto simp: s1_def on_audio_ok split: option.split)
  moreover from this have "drop_ok (s1\<lparr>d_notify := False\<rparr>)" by (rule drop_ok_frame) simp_all
  ultimately have "drop_ok (snd r)" by (simp add: r_def tell_core_ok)
  then show ?thesis by (simp add: dropin_loop_def s1_def [symmetric] r_def [symmetric] tick_ok case_prod_beta)
qed

lemma sent_in_append: "sent_in g (fs @ gs) = sent_in g fs @ sent_in g gs"
  by (simp add: sent_in_def)

lemma send_audio_ok:
  assumes "drop_ok s"
  shows "drop_ok (snd (send_audio C enc s))"
proof (cases "d_state s \<noteq> DROPIN_LIVE \<or> \<not> d_keyed s \<or> d_port s = 0")
  case False
  define s1 where "s1 = s\<lparr>tx_seq := tx_seq s + 1, frames := frames s @ [(gen s, tx_seq s)]\<rparr>"
  have "snd (send_audio C enc s) = s1"
    using False by (simp add: send_audio_def s1_def Let_def split: prod.splits)
  moreover have "drop_ok s1"
    using assms False by (auto simp: drop_ok_def s1_def sent_in_append) (simp_all add: sent_in_def)
  ultimately show ?thesis by simp
qed (use assms in \<open>auto simp: send_audio_def\<close>)

lemma playout_step_ok: "drop_ok s \<Longrightarrow> playout_step now pl s = Some (x, pl', s') \<Longrightarrow> drop_ok s'"
  by (erule drop_ok_frame) (auto simp: playout_step_def Let_def split: if_splits)

lemma drop_step_ok:
  assumes "drop_step C s s'" "drop_ok s"
  shows "drop_ok s'"
  using assms
proof (cases rule: drop_step.cases)
  case (start port limits opened threaded)
  then show ?thesis
    by (intro drop_ok_frame [OF assms(2)]) (auto simp: dropin_start_def Let_def split: option.split)
next
  case (enable st now)
  let ?s = "s\<lparr>enabled := (st \<noteq> 0)\<rparr>"
  have "drop_ok ?s" by (rule drop_ok_frame [OF assms(2)]) simp_all
  with enable assms(2) show ?thesis by (auto simp: dropin_enable_def Let_def final_def intro!: end_call_ok)
next
  case (hangup why now)
  have "drop_ok (send_msg C M_REFUSE (ascii ''declined'') s)" by (rule drop_ok_frame [OF assms(2)]) simp_all
  with hangup assms(2) show ?thesis by (auto simp: dropin_hangup_def final_def intro!: end_call_ok)
next
  case (button now)
  with assms(2) show ?thesis by (auto simp: dropin_button_def final_def intro!: end_call_ok answer_ok)
next
  case (asks st)
  then show ?thesis by (intro drop_ok_frame [OF assms(2)]) (simp_all add: dropin_ask_def Let_def)
next
  case (network a)
  then show ?thesis by (intro drop_ok_frame [OF assms(2)]) simp_all
qed (use assms(2) in \<open>auto simp: dropin_answer_def intro: dropin_call_ok answer_ok dropin_message_ok send_audio_ok playout_step_ok dropin_loop_ok\<close>)

lemma dropin0_ok: "drop_ok (dropin0 a)"
  by (simp add: drop_ok_def dropin0_def sent_in_def)

lemma drop_steps_ok: "(drop_step C)\<^sup>*\<^sup>* s s' \<Longrightarrow> drop_ok s \<Longrightarrow> drop_ok s'"
  by (induction rule: rtranclp_induct) (auto intro: drop_step_ok)

section \<open>Messages arrive as sent\<close>

lemma dmsg_read_dmsg [wire]:
  assumes "length (call_id s) = 8" "length (epk s) = 32"
  shows "dmsg_read (dmsg k [] s) = Some \<lparr>dm_kind = k, dm_id = call_id s, dm_port = my_port s, dm_epk = epk s, dm_reason = []\<rparr>"
proof -
  let ?p = "dmsg k [] s"
  have p: "?p = [k] @ call_id s @ le_enc 2 (my_port s) @ epk s @ [0]" by (simp add: dmsg_def)
  have l: "length ?p = 44" using assms by (simp add: p)
  have "?p ! 43 = 0" using assms by (simp add: p nth_append)
  moreover have "take 8 (drop 1 ?p) = call_id s" "take 2 (drop 9 ?p) = le_enc 2 (my_port s)" "take 32 (drop 11 ?p) = epk s"
    using assms by (simp_all add: p)
  moreover have "le_dec (le_enc 2 (my_port s)) = my_port s" by (simp add: wire)
  moreover have "?p ! 0 = k" by (simp add: p)
  ultimately show ?thesis using l by (simp add: dmsg_read_def cstr_def fit_def)
qed

lemma invite_taken:
  assumes "d_state b = DROPIN_IDLE" "enabled b" "\<not> ask b" "dm_id m \<notin> set (ended b)" "running (net b)" "in_net (net b)" "nd \<noteq> []"
    "dm_port m \<noteq> 0" "x25519 C r (dm_epk m) \<noteq> replicate 32 0"
    "key = blake2b_keyed C 32 (blake2b_keyed C 32 (net_key (net b)) derive_label) (x25519 C r (dm_epk m) @ dm_id m @ from @ self_id b)"
  shows "on_invite C r None from nd ip m now b
    = answer C now ((fresh_call C r from nd ip False now b)\<lparr>call_id := dm_id m, d_port := dm_port m, d_key := key, d_keyed := True\<rparr>)"
proof -
  let ?s = "(fresh_call C r from nd ip False now b)\<lparr>call_id := dm_id m, d_port := dm_port m\<rparr>"
  have "derive_call C (dm_epk m) ?s = Some (?s\<lparr>d_key := key, d_keyed := True\<rparr>)"
    using assms by (simp add: derive_call_def arb_derive_def fresh_call_def Let_def)
  with assms show ?thesis by (simp add: on_invite_def same_call_def Let_def fresh_call_def)
qed

section \<open>Properties\<close>

text \<open>
  The core hears a call's whole life: after any operations in any order the events pushed, replayed from idle, fit a
  call's life (a call made here is announced, may ring, and ends its calling in exactly one result: connected, or one
  final result with the return to idle; a call taken here rings or connects; every end follows a call) and lead to the
  state the call is in.
\<close>

theorem core_hears_every_call:
  assumes "(drop_step C)\<^sup>*\<^sup>* (dropin0 a) s"
  shows "replay DROPIN_IDLE (log s) = Some (d_state s)"
  using drop_steps_ok [OF assms dropin0_ok] by (simp add: drop_ok_def)

theorem core_hears_every_call_witness:
  "let s = snd (dropin_call xor_crypto [] [] [1] [1] None 5 (snd (dropin_start 9 None True True (dropin0 (demo 7)))))
   in replay DROPIN_IDLE (log s) = Some DROPIN_IDLE \<and> length (log s) = 1"
proof -
  let ?s1 = "snd (dropin_start 9 None True True (dropin0 (demo 7)))"
  let ?s = "snd (dropin_call xor_crypto [] [] [1] [1] None 5 ?s1)"
  have "(drop_step xor_crypto)\<^sup>*\<^sup>* (dropin0 (demo 7)) ?s"
    by (rule rtranclp.rtrancl_into_rtrancl [OF r_into_rtranclp]) (rule drop_step.start, rule drop_step.calls)
  from core_hears_every_call [OF this] show ?thesis
    by (simp add: dropin_call_def dropin_start_def dropin0_def demo_def call_refused_def Let_def)
qed

lemma audio_nonce_inj:
  assumes "length i = 8" "audio_nonce (audio_head d q i) = audio_nonce (audio_head d' q' i)"
  shows "d = d' \<and> q = q'"
proof -
  have n: "audio_nonce (audio_head d q i) = i @ [if d then 1 else 0] @ le_enc 4 q @ replicate 11 0" for d q
    using assms(1) by (simp add: audio_nonce_def audio_head_def ascii_def)
  from assms(2) have "(if d then 1 else 0 :: byte) = (if d' then 1 else 0)" "le_enc 4 q = le_enc 4 q'"
    unfolding n by (simp_all split: if_splits)
  moreover from this(2) have "le_dec (le_enc 4 q) = (le_dec (le_enc 4 q') :: u32)" by (rule arg_cong)
  then have "q = q'" by (simp add: le_dec_le_enc)
  ultimately show ?thesis by (cases d; cases d') simp_all
qed

lemma distinct_by_group:
  assumes "\<And>g. distinct (filter (\<lambda>f. fst f = g) fs)"
  shows "distinct fs"
  using assms
proof (induction fs)
  case (Cons f fs)
  have "distinct (filter (\<lambda>x. fst x = g) fs)" for g
    using Cons.prems [of g] by (cases "fst f = g") simp_all
  moreover have "f \<notin> set fs" using Cons.prems [of "fst f"] by auto
  ultimately show ?case using Cons.IH by simp
qed simp


definition demo_call :: dropin where
  "demo_call = (dropin0 (demo 7))\<lparr>dr_running := True, my_port := 4000, self_id := replicate 8 7, d_state := DROPIN_CALLING, outgoing := True,
     gen := 1, invited := True, call_id := replicate 8 3, d_peer := replicate 8 9, d_node := [97], esk := replicate 32 1, epk := replicate 32 1\<rparr>"

definition demo_taken :: dropin where
  "demo_taken = dropin_message xor_crypto (replicate 32 2) None (replicate 8 7) [97] 1 (dmsg M_INVITE [] demo_call) 10
     (snd (dropin_start 4001 None True True (dropin0 (demo 9))))"

lemma demo_invite: "dmsg_read (dmsg M_INVITE [] demo_call) =
    Some \<lparr>dm_kind = M_INVITE, dm_id = replicate 8 3, dm_port = 4000, dm_epk = replicate 32 1, dm_reason = []\<rparr>"
  using dmsg_read_dmsg [of demo_call M_INVITE] by (simp add: demo_call_def)

lemma xor_secret: "x25519 xor_crypto (replicate 32 2) (replicate 32 1) \<noteq> replicate 32 0"
  by (simp add: xor_crypto_def zip_replicate)

lemma demo_taken_live: "d_state demo_taken = DROPIN_LIVE" "d_keyed demo_taken" "d_port demo_taken = 4000" "gen demo_taken = 1"
  "frames demo_taken = []" "tx_seq demo_taken = 0"
proof -
  let ?b = "snd (dropin_start 4001 None True True (dropin0 (demo 9)))"
  have b: "d_state ?b = DROPIN_IDLE" "enabled ?b" "\<not> ask ?b" "replicate 8 3 \<notin> set (ended ?b)" "running (net ?b)" "in_net (net ?b)"
    "gen ?b = 0" "frames ?b = []"
    by (simp_all add: dropin_start_def dropin0_def demo_def Let_def)
  note t = invite_taken [of ?b "\<lparr>dm_kind = M_INVITE, dm_id = replicate 8 3, dm_port = 4000, dm_epk = replicate 32 1, dm_reason = []\<rparr>"
      "[97]" xor_crypto "replicate 32 2" _ "replicate 8 7" 1 10, simplified, OF b(1-6) _ refl]
  show "d_state demo_taken = DROPIN_LIVE" "d_keyed demo_taken" "d_port demo_taken = 4000" "gen demo_taken = 1"
    "frames demo_taken = []" "tx_seq demo_taken = 0"
    using xor_secret b
    by (simp_all add: demo_taken_def dropin_message_def demo_invite t fresh_call_def answer_def go_live_def send_msg_def ev_push_def Let_def)
qed


text \<open>
  A third Echo cannot touch a call: while one runs, whatever a member that is not its other end says, or says about
  another call, changes nothing of Drop In's state; at most the network sends a refusal.
\<close>

theorem call_is_between_two:
  assumes "d_state s \<noteq> DROPIN_IDLE" "dmsg_read p = Some m" "from \<noteq> d_peer s \<or> dm_id m \<noteq> call_id s"
  shows "\<exists>a. dropin_message C r no from nd ip p now s = s\<lparr>net := a\<rparr>"
proof -
  have n: "\<not> same_call from m s" using assms(3) by (auto simp: same_call_def)
  have id: "\<exists>a. s = s\<lparr>net := a\<rparr>" by (rule exI [of _ "net s"]) simp
  have "\<exists>a. on_invite C r no from nd ip m now s = s\<lparr>net := a\<rparr>"
    using n assms(1) id by (simp add: on_invite_def send_to_def) blast
  with n id show ?thesis by (simp add: dropin_message_def assms(2) on_ringing_def on_accept_def)
qed

theorem call_is_between_two_witness:
  "\<exists>a. dropin_message xor_crypto [] None (replicate 8 4) [98] 1 (dmsg M_BYE [] demo_call) 10 demo_call = demo_call\<lparr>net := a\<rparr>"
proof -
  have "dmsg_read (dmsg M_BYE [] demo_call) = Some \<lparr>dm_kind = M_BYE, dm_id = call_id demo_call, dm_port = my_port demo_call,
      dm_epk = epk demo_call, dm_reason = []\<rparr>"
    by (rule dmsg_read_dmsg) (simp_all add: demo_call_def)
  from call_is_between_two [OF _ this, of demo_call "replicate 8 4"] show ?thesis by (simp add: demo_call_def)
qed



section \<open>A frame heard again\<close>

text \<open>
  Nothing keeps a frame from being taken twice: the same packet, sent again from another address, is accepted and moves
  the call's audio there.
\<close>

lemma replayed_frame_redirects:
  assumes "s1 = on_audio C p ip port now s" "rx s1 = rx s + 1"
  shows "d_ip (on_audio C p ip' port' now' s1) = ip' \<and> d_port (on_audio C p ip' port' now' s1) = port' \<and> rx (on_audio C p ip' port' now' s1) = rx s + 2"
proof -
  define seq :: u32 where "seq = le_dec (take 4 (drop 13 p))"
  let ?u = "aead_unlock C (d_key s) (audio_nonce p) (take 17 p) (drop (length p - 16) p) (take (length p - 33) (drop 17 p))"
  have c: "\<not> (length p < 17 + 1 + 16 \<or> 17 + MAXPKT + 16 < length p \<or> take 4 p \<noteq> ascii ''HMD1'')"
    "\<not> (d_state s \<noteq> DROPIN_LIVE \<or> \<not> d_keyed s \<or> take 8 (drop 4 p) \<noteq> call_id s \<or> p ! 12 \<noteq> (if outgoing s then 1 else 0))"
    "\<not> (jb_any s \<and> sint (seq - jb_hi s) < - int JB)"
    using assms unfolding on_audio_def Let_def seq_def [symmetric] by (auto split: if_splits)
  from assms c obtain d where d: "?u = Some d"
    unfolding on_audio_def Let_def seq_def [symmetric] by (cases ?u) auto
  have s1: "s1 = (store_frame seq d now s)\<lparr>d_ip := ip, d_port := port\<rparr>"
    using c d unfolding assms(1) on_audio_def Let_def seq_def [symmetric] by (simp only: if_False if_not_P option.case)
  have hi: "\<not> sint (seq - jb_hi s1) < - int JB" using c(3) by (auto simp: s1 store_frame_def)
  have f: "d_state s1 = d_state s" "d_keyed s1 = d_keyed s" "call_id s1 = call_id s" "outgoing s1 = outgoing s" "d_key s1 = d_key s"
    by (simp_all add: s1 store_frame_def)
  show ?thesis
    using c(1,2) hi d assms(2) unfolding on_audio_def [of C p ip' port' now' s1] Let_def seq_def [symmetric] f
    by (simp add: store_frame_def)
qed

end
