(* ===== verification/Protobuf.thy ===== *)
theory Protobuf
  imports Prelude
begin

text \<open>
  \<^verbatim>\<open>src/hassmic/proto_esphome.c\<close>, part 1: the protobuf writer and reader that every message of the
  ESPHome API goes through (\<open>pb_raw\<close> ... \<open>pb_float\<close>, \<open>pb_next\<close>, \<open>pbf_str\<close>), and \<open>state_text\<close>, which cuts
  a text to what Home Assistant takes as a state.  A buffer is the bytes written so far and its
  capacity; \<open>pb_raw\<close> drops what does not fit, as the source does.  The reader's position is the list
  of bytes left.  A float is its 32 bits.
\<close>

section \<open>Writing\<close>

record pb =
  pb_p :: bytes
  pb_cap :: nat

definition PB :: "nat \<Rightarrow> pb" where
  "PB n = \<lparr>pb_p = [], pb_cap = n\<rparr>"

definition pb_raw :: "bytes \<Rightarrow> pb \<Rightarrow> pb" where
  "pb_raw d b = (if length (pb_p b) + length d \<le> pb_cap b then b\<lparr>pb_p := pb_p b @ d\<rparr> else b)"

lemma drop7_less:
  fixes v :: u64
  assumes "drop_bit 7 v \<noteq> 0"
  shows "unat (drop_bit 7 v) < unat v"
proof -
  have "0 < unat v" using assms by (metis drop_bit_of_0 gr0I unat_eq_zero)
  then show ?thesis by (simp add: unat_drop_bit_eq drop_bit_nat_def)
qed

function pb_varint :: "u64 \<Rightarrow> pb \<Rightarrow> pb" where
  "pb_varint v b = (let c = ucast (v AND 0x7f); v' = drop_bit 7 v in
     if v' \<noteq> 0 then pb_varint v' (pb_raw [c OR 0x80] b) else pb_raw [c] b)"
  by auto
termination by (relation "measure (\<lambda>(v, b). unat v)") (auto simp: drop7_less)

definition pb_uint :: "u64 \<Rightarrow> u64 \<Rightarrow> pb \<Rightarrow> pb" where
  "pb_uint f v b = (if v \<noteq> 0 then pb_varint v (pb_varint (push_bit 3 f) b) else b)"

definition pb_bytes :: "u64 \<Rightarrow> bytes \<Rightarrow> pb \<Rightarrow> pb" where
  "pb_bytes f d b = (if d \<noteq> [] then pb_raw d (pb_varint (of_nat (length d)) (pb_varint (push_bit 3 f OR 2) b)) else b)"

definition pb_str :: "u64 \<Rightarrow> bytes \<Rightarrow> pb \<Rightarrow> pb" where
  "pb_str f s b = pb_bytes f (cstr s) b"

text \<open>Zigzag: \<open>v >> 31\<close> of an \<open>int32_t\<close> is all ones below zero.\<close>

definition pb_sint :: "u64 \<Rightarrow> u32 \<Rightarrow> pb \<Rightarrow> pb" where
  "pb_sint f v b = pb_uint f (ucast (push_bit 1 v XOR signed_drop_bit 31 v)) b"

definition pb_fixed32 :: "u64 \<Rightarrow> u32 \<Rightarrow> pb \<Rightarrow> pb" where
  "pb_fixed32 f v b = pb_raw (le_enc 4 v) (pb_varint (push_bit 3 f OR 5) b)"

definition pb_float :: "u64 \<Rightarrow> u32 \<Rightarrow> pb \<Rightarrow> pb" where
  "pb_float f v b = pb_fixed32 f v b"

section \<open>Reading\<close>

record pbf =
  pf_field :: u32
  pf_wire :: u64
  pf_v :: u64
  pf_data :: "bytes option"

text \<open>
  The loop that reads a varint: it ends with the byte without the top bit, or with the message.
  From the eleventh byte on the source shifts by 70 and more, which C leaves undefined; here such bits
  are gone.
\<close>

fun varint_loop :: "nat \<Rightarrow> u64 \<Rightarrow> bytes \<Rightarrow> u64 \<times> bytes" where
  "varint_loop sh v [] = (v, [])"
| "varint_loop sh v (c # p) = (let v' = v OR push_bit sh (ucast (c AND 0x7f)) in
     if c AND 0x80 = 0 then (v', p) else varint_loop (sh + 7) v' p)"

definition pb_next :: "bytes \<Rightarrow> (pbf \<times> bytes) option" where
  "pb_next p = (if p = [] then None else
     let (k, p) = varint_loop 0 0 p;
         f = \<lparr>pf_field = ucast (drop_bit 3 k), pf_wire = k AND 7, pf_v = 0, pf_data = None\<rparr>
     in if pf_wire f = 0 then (let (v, p) = varint_loop 0 0 p in Some (f\<lparr>pf_v := v\<rparr>, p))
        else if pf_wire f = 1 then (if length p < 8 then None else Some (f, drop 8 p))
        else if pf_wire f = 2 then
          (let (v, p) = varint_loop 0 0 p in
           if length p < unat v then None
           else Some (f\<lparr>pf_data := Some (take (unat v) p)\<rparr>, drop (unat v) p))
        else if pf_wire f = 5 then
          (if length p < 4 then None else Some (f\<lparr>pf_v := ucast (le_dec (take 4 p) :: u32)\<rparr>, drop 4 p))
        else None)"

text \<open>\<open>pbf_str\<close>: the data cut to \<open>outsz - 1\<close> bytes, read as the C string it becomes.\<close>

definition pbf_str :: "pbf \<Rightarrow> nat \<Rightarrow> bytes" where
  "pbf_str f outsz = (case pf_data f of None \<Rightarrow> [] | Some d \<Rightarrow> cstr (fit outsz d))"

lemma varint_loop_shorter: "length (snd (varint_loop sh v p)) \<le> length p"
  by (induction sh v p rule: varint_loop.induct) (auto simp: Let_def)

lemma varint_loop_less: "p \<noteq> [] \<Longrightarrow> length (snd (varint_loop sh v p)) < length p"
  using varint_loop_shorter by (cases p) (auto simp: Let_def le_imp_less_Suc)

lemma pb_next_less:
  assumes "pb_next p = Some (f, q)"
  shows "length q < length p"
proof -
  obtain k p1 where k: "varint_loop 0 0 p = (k, p1)" by fastforce
  obtain v p2 where v: "varint_loop 0 0 p1 = (v, p2)" by fastforce
  have "p \<noteq> []" using assms by (auto simp: pb_next_def)
  with k v have "length p1 < length p" "length p2 \<le> length p1"
    using varint_loop_less [of p 0 0] varint_loop_shorter [of 0 0 p1] by simp_all
  with assms k v \<open>p \<noteq> []\<close> show ?thesis by (auto simp: pb_next_def Let_def split: if_splits)
qed

text \<open>\<open>while (pb_next(&p, end, &f))\<close>: the fields such a loop sees, in order.\<close>

function pb_fields :: "bytes \<Rightarrow> pbf list" where
  "pb_fields p = (case pb_next p of None \<Rightarrow> [] | Some (f, q) \<Rightarrow> f # pb_fields q)"
  by auto
termination by (relation "measure length") (auto simp: pb_next_less)

declare pb_varint.simps [simp del] pb_fields.simps [simp del]

section \<open>A text as a state\<close>

definition STATE_CHARS :: nat where "STATE_CHARS = 255"

text \<open>How many bytes the character at the front has by its first byte, 0 for none.\<close>

definition utf8_lead :: "byte \<Rightarrow> nat" where
  "utf8_lead c = (if c < 0x80 then 1 else if 0xc2 \<le> c \<and> c < 0xe0 then 2
     else if 0xe0 \<le> c \<and> c < 0xf0 then 3 else if 0xf0 \<le> c \<and> c < 0xf5 then 4 else 0)"

text \<open>\<open>s\<close> is the C string without its NUL: a read past its end finds the NUL, which continues nothing.\<close>

definition utf8_len :: "bytes \<Rightarrow> nat" where
  "utf8_len s = (case s of [] \<Rightarrow> 0 | c # t \<Rightarrow>
     let n = utf8_lead c in
     if length (takeWhile (\<lambda>x. x AND 0xc0 = 0x80) (take (n - 1) t)) = n - 1 then n else 0)"

text \<open>The loop: \<open>i\<close> bytes taken, \<open>cutp\<close>, \<open>chars\<close>.  It ends, as each turn takes a byte.\<close>

function state_text_loop :: "bytes \<Rightarrow> nat \<Rightarrow> nat \<Rightarrow> nat \<Rightarrow> nat \<times> nat" where
  "state_text_loop s i cutp chars =
     (if length s \<le> i then (i, chars)
      else let n = utf8_len (drop i s) in
        if n = 0 then (i, chars)
        else let chars = chars + 1; cutp = (if chars = STATE_CHARS then i else cutp) in
          if STATE_CHARS < chars then (cutp, chars) else state_text_loop s (i + n) cutp chars)"
  by auto
termination by (relation "measure (\<lambda>(s, i, _, _). length s - i)") auto

declare state_text_loop.simps [simp del]

definition state_text :: "nat \<Rightarrow> bytes \<Rightarrow> bytes" where
  "state_text cap s = (case state_text_loop s 0 0 0 of (i, chars) \<Rightarrow>
     let i = length (rev (dropWhile (\<lambda>c. c = 0x20) (rev (take i s))));
         i = (if cap - 4 < i then 0 else i)
     in take i s @ (if STATE_CHARS < chars then [0xe2, 0x80, 0xa6] else []))"

section \<open>Reading what was written\<close>

text \<open>The bytes of a varint, at most \<open>n + 1\<close> of them.\<close>

fun varint_enc :: "nat \<Rightarrow> u64 \<Rightarrow> bytes" where
  "varint_enc 0 v = [ucast (v AND 0x7f)]"
| "varint_enc (Suc n) v = (if drop_bit 7 v \<noteq> 0 then (ucast (v AND 0x7f) OR 0x80) # varint_enc n (drop_bit 7 v)
     else [ucast (v AND 0x7f)])"

lemma drop7_zero: "unat (v :: u64) < 128 \<Longrightarrow> drop_bit 7 v = 0"
  by (simp add: unat_eq_zero [symmetric] unat_drop_bit_eq drop_bit_nat_def)

lemma varint_enc_len: "0 < length (varint_enc n v) \<and> length (varint_enc n v) \<le> Suc n"
  by (induction n arbitrary: v) auto

lemma pb_varint_room:
  assumes "length (pb_p b) + length (varint_enc n v) \<le> pb_cap b" "unat v < 128 ^ Suc n"
  shows "pb_varint v b = b\<lparr>pb_p := pb_p b @ varint_enc n v\<rparr>"
  using assms
proof (induction n arbitrary: v b)
  case 0
  then have "drop_bit 7 v = 0" by (simp add: drop7_zero)
  with 0 show ?case by (subst pb_varint.simps) (simp add: Let_def pb_raw_def)
next
  case (Suc n)
  show ?case
  proof (cases "drop_bit 7 v = 0")
    case True
    with Suc.prems show ?thesis by (subst pb_varint.simps) (simp add: Let_def pb_raw_def)
  next
    case False
    let ?b = "pb_raw [ucast (v AND 0x7f) OR 0x80] b"
    have b: "?b = b\<lparr>pb_p := pb_p b @ [ucast (v AND 0x7f) OR 0x80]\<rparr>"
      using Suc.prems False by (simp add: pb_raw_def)
    have "unat (drop_bit 7 v) < 128 ^ Suc n"
      using Suc.prems by (simp add: unat_drop_bit_eq drop_bit_nat_def less_mult_imp_div_less mult.commute)
    then have "pb_varint (drop_bit 7 v) ?b = ?b\<lparr>pb_p := pb_p ?b @ varint_enc n (drop_bit 7 v)\<rparr>"
      using Suc.prems False by (intro Suc.IH) (simp_all add: b)
    with False show ?thesis by (subst pb_varint.simps) (simp add: Let_def b)
  qed
qed

lemma seven_bits:
  "(ucast ((ucast (v AND 0x7f) :: byte) AND 0x7f) :: u64) = take_bit 7 v"
  "(ucast ((ucast (v AND 0x7f) OR 0x80 :: byte) AND 0x7f) :: u64) = take_bit 7 v"
proof -
  have m: "(0x7f :: u64) = mask 7" "(0x7f :: byte) = mask 7" by (simp_all add: mask_eq_exp_minus_1)
  have "bit ((ucast ((ucast (v AND 0x7f) :: byte) AND 0x7f) :: u64)) n = bit (take_bit 7 v) n" for n
    unfolding m by (auto simp: bit_simps bit_mask_iff)
  then show low: "(ucast ((ucast (v AND 0x7f) :: byte) AND 0x7f) :: u64) = take_bit 7 v"
    by (simp add: bit_eq_iff)
  have "(x OR 0x80) AND 0x7f = x AND (0x7f :: byte)" for x by (simp add: bit.conj_disj_distrib2)
  with low show "(ucast ((ucast (v AND 0x7f) OR 0x80 :: byte) AND 0x7f) :: u64) = take_bit 7 v" by simp
qed

lemma varint_join:
  fixes v :: u64
  shows "push_bit sh (take_bit 7 v) OR push_bit (sh + 7) (drop_bit 7 v) = push_bit sh v"
proof (rule bit_word_eqI)
  fix n
  have "7 + (n - (sh + 7)) = n - sh" if "\<not> n - sh < 7" using that by simp
  then show "bit (push_bit sh (take_bit 7 v) OR push_bit (sh + 7) (drop_bit 7 v)) n = bit (push_bit sh v) n"
    by (cases "n - sh < 7") (auto simp: bit_simps)
qed

lemma top_bit:
  "(ucast (v AND (0x7f :: u64)) :: byte) AND 0x80 = 0" "((x :: byte) OR 0x80) AND 0x80 \<noteq> 0"
proof -
  have m: "(0x7f :: u64) = mask 7" "(0x80 :: byte) = 2 ^ 7" by (simp_all add: mask_eq_exp_minus_1)
  show "(ucast (v AND (0x7f :: u64)) :: byte) AND 0x80 = 0"
    unfolding m and_exp_eq_0_iff_not_bit by (simp add: bit_simps bit_mask_iff)
  have "(x OR 0x80) AND 0x80 = (0x80 :: byte)" by (simp add: bit.conj_disj_distrib2)
  then show "((x :: byte) OR 0x80) AND 0x80 \<noteq> 0" by simp
qed

lemma varint_loop_enc:
  assumes "unat v < 128 ^ Suc n"
  shows "varint_loop sh a (varint_enc n v @ q) = (a OR push_bit sh v, q)"
  using assms
proof (induction n arbitrary: v sh a)
  case 0
  then have "take_bit 7 v = v" using varint_join [of 0 v] drop7_zero [of v] by simp
  with 0 show ?case by (simp add: top_bit seven_bits)
next
  case (Suc n)
  show ?case
  proof (cases "drop_bit 7 v = 0")
    case True
    then have "take_bit 7 v = v" using varint_join [of 0 v] by simp
    with True show ?thesis by (simp add: top_bit seven_bits)
  next
    case False
    have "unat (drop_bit 7 v) < 128 ^ Suc n"
      using Suc.prems by (simp add: unat_drop_bit_eq drop_bit_nat_def less_mult_imp_div_less mult.commute)
    from Suc.IH [OF this] False show ?thesis
      by (simp add: top_bit seven_bits Let_def or.assoc varint_join)
  qed
qed

lemma varint_end: "unat (v :: u64) < 128 ^ Suc 9"
  using unsigned_less [of v] by (rule order_less_le_trans) simp

text \<open>
  A message as its fields: what the writer puts in (zeros and empty texts leave no trace), how many
  bytes it takes, and what the reader should see of it.
\<close>

datatype pb_item = Uint u64 u64 | Bytes u64 bytes | Fixed32 u64 u32

fun pb_put :: "pb_item \<Rightarrow> pb \<Rightarrow> pb" where
  "pb_put (Uint f v) b = pb_uint f v b"
| "pb_put (Bytes f d) b = pb_bytes f d b"
| "pb_put (Fixed32 f v) b = pb_fixed32 f v b"

fun item_bytes :: "pb_item \<Rightarrow> bytes" where
  "item_bytes (Uint f v) = (if v = 0 then [] else varint_enc 9 (push_bit 3 f) @ varint_enc 9 v)"
| "item_bytes (Bytes f d) = (if d = [] then []
     else varint_enc 9 (push_bit 3 f OR 2) @ varint_enc 9 (of_nat (length d)) @ d)"
| "item_bytes (Fixed32 f v) = varint_enc 9 (push_bit 3 f OR 5) @ le_enc 4 v"

fun item_ok :: "pb_item \<Rightarrow> bool" where
  "item_ok (Uint f v) = (f < 2 ^ 29)"
| "item_ok (Bytes f d) = (f < 2 ^ 29 \<and> length d < 2 ^ 64)"
| "item_ok (Fixed32 f v) = (f < 2 ^ 29)"

fun item_seen :: "pb_item \<Rightarrow> pbf list" where
  "item_seen (Uint f v) = (if v = 0 then []
     else [\<lparr>pf_field = ucast f, pf_wire = 0, pf_v = v, pf_data = None\<rparr>])"
| "item_seen (Bytes f d) = (if d = [] then []
     else [\<lparr>pf_field = ucast f, pf_wire = 2, pf_v = 0, pf_data = Some d\<rparr>])"
| "item_seen (Fixed32 f v) = [\<lparr>pf_field = ucast f, pf_wire = 5, pf_v = ucast v, pf_data = None\<rparr>]"

lemma pb_varint_put:
  "length (pb_p b) + length (varint_enc 9 v) \<le> pb_cap b \<Longrightarrow> pb_varint v b = b\<lparr>pb_p := pb_p b @ varint_enc 9 v\<rparr>"
  by (rule pb_varint_room [OF _ varint_end])

lemma pb_put_room:
  assumes "length (pb_p b) + length (item_bytes x) \<le> pb_cap b"
  shows "pb_put x b = b\<lparr>pb_p := pb_p b @ item_bytes x\<rparr>"
  using assms
  by (cases x) (auto simp: pb_uint_def pb_bytes_def pb_fixed32_def pb_varint_put pb_raw_def)

lemma pb_puts_room:
  assumes "length (pb_p b) + length (concat (map item_bytes xs)) \<le> pb_cap b"
  shows "fold pb_put xs b = b\<lparr>pb_p := pb_p b @ concat (map item_bytes xs)\<rparr>"
  using assms by (induction xs arbitrary: b) (simp_all add: pb_put_room)

lemma tag_split:
  fixes f :: u64
  assumes "f < 2 ^ 29" "w < 8"
  shows "drop_bit 3 (push_bit 3 f OR w) = f" "(push_bit 3 f OR w) AND 7 = w"
proof -
  have "f AND mask 29 = f" "w AND mask 3 = w"
    using assms by (auto intro!: less_mask_eq)
  then have f: "bit f n \<Longrightarrow> n < 29" and w: "bit w n \<Longrightarrow> n < 3" for n by (metis bit_and_iff bit_mask_iff)+
  have m: "(7 :: u64) = mask 3" by (simp add: mask_eq_exp_minus_1)
  show "drop_bit 3 (push_bit 3 f OR w) = f"
    by (rule bit_word_eqI) (use f w in \<open>fastforce simp: bit_simps\<close>)
  show "(push_bit 3 f OR w) AND 7 = w"
    unfolding m by (rule bit_word_eqI) (use w in \<open>auto simp: bit_simps bit_mask_iff\<close>)
qed

lemma varint_read: "varint_loop 0 0 (varint_enc 9 v @ q) = (v, q)"
  using varint_loop_enc [OF varint_end, of 0 0] by simp

lemma varint_enc_not_Nil: "varint_enc n v \<noteq> []"
  using varint_enc_len [of n v] by auto

lemma pb_next_item:
  assumes "item_ok x"
  shows "pb_fields (item_bytes x @ q) = item_seen x @ pb_fields q"
proof (cases "item_bytes x = []")
  case True
  then show ?thesis by (cases x) (auto simp: varint_enc_not_Nil split: if_splits)
next
  case sized: False
  show ?thesis
  proof (cases x)
  case (Uint f v)
  with sized have "v \<noteq> 0" by auto
  with Uint assms tag_split [of f 0] show ?thesis
    by (subst pb_fields.simps) (simp add: pb_next_def varint_read varint_enc_not_Nil)
next
  case (Bytes f d)
  with sized have "d \<noteq> []" by auto
  with Bytes assms tag_split [of f 2] show ?thesis
    by (subst pb_fields.simps) (simp add: pb_next_def varint_read varint_enc_not_Nil unat_of_nat)
next
  case (Fixed32 f v)
  have "le_dec (le_enc 4 v) = v" by (rule le_dec_le_enc) simp
  with Fixed32 assms tag_split [of f 5] show ?thesis
    by (subst pb_fields.simps) (simp add: pb_next_def varint_read varint_enc_not_Nil)
  qed
qed

text \<open>
  C22. A message's fields come back as they were written: after any sequence of unsigned, byte and
  fixed-width fields that fits its buffer, the reader's loop sees exactly the fields that are not
  zero or empty, in order, with their numbers and contents.
\<close>

theorem pb_roundtrip:
  assumes "length (concat (map item_bytes xs)) \<le> n" "list_all item_ok xs"
  shows "pb_fields (pb_p (fold pb_put xs (PB n))) = concat (map item_seen xs)"
proof -
  have "pb_p (fold pb_put xs (PB n)) = concat (map item_bytes xs)"
    using assms(1) by (subst pb_puts_room) (simp_all add: PB_def)
  moreover have "pb_fields (concat (map item_bytes xs) @ []) = concat (map item_seen xs) @ pb_fields []"
    using assms(2) by (induction xs) (simp_all add: pb_next_item)
  moreover have "pb_fields [] = []" by (subst pb_fields.simps) (simp add: pb_next_def)
  ultimately show ?thesis by simp
qed

theorem pb_roundtrip_witness:
  "pb_fields (pb_p (fold pb_put [Fixed32 1 7, Bytes 2 [72, 105], Uint 3 0, Uint 4 300] (PB 64))) =
    [\<lparr>pf_field = 1, pf_wire = 5, pf_v = 7, pf_data = None\<rparr>,
     \<lparr>pf_field = 2, pf_wire = 2, pf_v = 0, pf_data = Some [72, 105]\<rparr>,
     \<lparr>pf_field = 4, pf_wire = 0, pf_v = 300, pf_data = None\<rparr>]"
proof -
  let ?xs = "[Fixed32 1 7, Bytes 2 [72, 105], Uint 3 0, Uint 4 300]"
  have b: "length (varint_enc 9 v) \<le> 10" for v using varint_enc_len [of 9 v] by simp
  have "length (concat (map item_bytes ?xs)) \<le> 10 + 4 + (10 + 10 + 2) + (10 + 10)"
    using b [of "push_bit 3 1 OR 5"] b [of "push_bit 3 2 OR 2"] b [of 2] b [of "push_bit 3 4"] b [of 300] by simp
  then show ?thesis using pb_roundtrip [of ?xs 64] by simp
qed

section \<open>A state is whole characters\<close>

definition utf8_char :: "bytes \<Rightarrow> bool" where
  "utf8_char c \<longleftrightarrow> c \<noteq> [] \<and> utf8_len c = length c"

lemma utf8_len_front:
  assumes "utf8_len s \<noteq> 0"
  shows "utf8_char (take (utf8_len s) s)" "utf8_len s \<le> length s"
proof -
  from assms obtain c t where s: "s = c # t" by (cases s) (auto simp: utf8_len_def)
  let ?n = "utf8_lead c" and ?P = "\<lambda>x :: byte. x AND 0xc0 = 0x80"
  have n: "utf8_len s = ?n" and tw: "length (takeWhile ?P (take (?n - 1) t)) = ?n - 1"
    using assms by (auto simp: s utf8_len_def Let_def split: if_splits)
  have "?n - 1 \<le> length t" using tw length_takeWhile_le [of ?P "take (?n - 1) t"] by simp
  with assms n show "utf8_len s \<le> length s" by (simp add: s)
  have "take ?n s = c # take (?n - 1) t" using assms n by (cases ?n) (simp_all add: s)
  with tw n \<open>?n - 1 \<le> length t\<close> assms show "utf8_char (take (utf8_len s) s)"
    by (simp add: utf8_char_def utf8_len_def Let_def)
qed

lemma state_text_loop_chars:
  assumes "state_text_loop s i cutp n = (j, m)" "i \<le> length s" "take i s = concat cs" "list_all utf8_char cs"
    "length cs = n" "n \<le> STATE_CHARS" "n = STATE_CHARS \<Longrightarrow> cutp \<le> i \<and> take cutp s = concat (butlast cs)"
  shows "\<exists>ds. take j s = concat ds \<and> list_all utf8_char ds \<and> length ds + (if STATE_CHARS < m then 1 else 0) \<le> STATE_CHARS"
  using assms
proof (induction s i cutp n arbitrary: cs rule: state_text_loop.induct)
  case (1 s i cutp n)
  let ?k = "utf8_len (drop i s)" and ?cut = "if n + 1 = STATE_CHARS then i else cutp"
  let ?ds = "cs @ [take ?k (drop i s)]"
  show ?case
  proof (cases "length s \<le> i \<or> ?k = 0")
    case True
    then have "(j, m) = (i, n)" using "1.prems"(1) by (subst (asm) state_text_loop.simps) (auto split: if_splits)
    with "1.prems"(3-6) show ?thesis by auto
  next
    case False
    note k = utf8_len_front [of "drop i s"]
    show ?thesis
    proof (cases "STATE_CHARS < n + 1")
      case True
      with False "1.prems"(1,6) have "j = cutp" "m = n + 1" "n = STATE_CHARS"
        by (subst (asm) state_text_loop.simps, simp add: Let_def)+
      with "1.prems"(4,5,7) True show ?thesis
        by (intro exI [of _ "butlast cs"]) (auto simp: list_all_iff STATE_CHARS_def dest: in_set_butlastD)
    next
      case more: False
      have "state_text_loop s (i + ?k) ?cut (n + 1) = (j, m)"
        using "1.prems"(1) False more by (subst (asm) state_text_loop.simps) (simp add: Let_def)
      moreover have "i + ?k \<le> length s" using False k(2) by auto
      moreover have "take (i + ?k) s = concat ?ds" using "1.prems"(3) by (simp add: take_add)
      moreover have "list_all utf8_char ?ds" using "1.prems"(4) False k(1) by simp
      ultimately show ?thesis
        using "1.IH" [OF _ refl _ refl refl, of ?ds] False more "1.prems"(3,5) by (auto simp: butlast_append)
    qed
  qed
qed

lemma takeWhile_full: "length (takeWhile P xs) = length xs \<Longrightarrow> list_all P xs"
  by (induction xs) (auto split: if_splits)

lemma space_char:
  assumes "utf8_char c" "last c = 0x20"
  shows "c = [0x20]"
proof -
  from assms obtain b t where c: "c = b # t" by (cases c) (auto simp: utf8_char_def)
  have "utf8_lead b = Suc (length t)" "length (takeWhile (\<lambda>x. x AND 0xc0 = 0x80) t) = length t"
    using assms(1) by (auto simp: c utf8_char_def utf8_len_def Let_def split: if_splits)
  then have "\<forall>x\<in>set t. x AND 0xc0 = 0x80"
    by (simp add: takeWhile_full list_all_iff [symmetric])
  then have "t = []" using assms(2) by (cases t rule: rev_cases) (auto simp: c)
  with assms(2) show ?thesis by (simp add: c)
qed

lemma trim_chars:
  "list_all utf8_char ds \<Longrightarrow> \<exists>es. rev (dropWhile (\<lambda>c. c = 0x20) (rev (concat ds))) = concat es \<and>
     list_all utf8_char es \<and> length es \<le> length ds"
proof (induction ds rule: rev_induct)
  case (snoc c ds)
  then have c: "utf8_char c" "c \<noteq> []" by (auto simp: utf8_char_def)
  show ?case
  proof (cases "last c = 0x20")
    case True
    with c(1) have "c = [0x20]" by (rule space_char)
    moreover from snoc obtain es where "rev (dropWhile (\<lambda>c. c = 0x20) (rev (concat ds))) = concat es"
      "list_all utf8_char es" "length es \<le> length ds" by auto
    ultimately show ?thesis by (intro exI [of _ es]) simp
  next
    case False
    with c(2) have "rev (dropWhile (\<lambda>c. c = 0x20) (rev (concat (ds @ [c])))) = concat (ds @ [c])"
      by (cases c rule: rev_cases) auto
    with snoc.prems show ?thesis by blast
  qed
qed simp

lemma trim_take: "take (length (rev (dropWhile P (rev xs)))) xs = rev (dropWhile P (rev xs))"
proof -
  have "rev xs = takeWhile P (rev xs) @ dropWhile P (rev xs)" by simp
  then have "xs = rev (dropWhile P (rev xs)) @ rev (takeWhile P (rev xs))" by (metis rev_append rev_rev_ident)
  then show ?thesis by (metis append_eq_conv_conj)
qed

lemma ellipsis_char: "utf8_char [0xe2, 0x80, 0xa6]"
  by (simp add: utf8_char_def utf8_len_def utf8_lead_def)


end
