(* ===== verification/Noise.thy ===== *)
theory Noise
  imports Arb_State
begin

text \<open>
  \<^verbatim>\<open>src/hassmic/noise.c\<close>: the responder's side of \<open>Noise_KKpsk2\<close> (Sendspin) and \<open>Noise_NNpsk0\<close> (the
  ESPHome API), and the transport's cipher states.  The initiator, which is another program, is a
  reference definition written from the Noise specification's message patterns; the handshake
  theorems put the two together.  Monocypher's ChaCha20-Poly1305 with a 12 byte nonce is a field
  more of the record \<open>crypto\<close>; random bytes are arguments.  Wiping a secret is overwriting it with
  zeros.
\<close>

section \<open>State\<close>

record noise_crypto = crypto +
  aead_write :: "bytes \<Rightarrow> bytes \<Rightarrow> bytes \<Rightarrow> bytes \<Rightarrow> bytes \<times> bytes"
  aead_read :: "bytes \<Rightarrow> bytes \<Rightarrow> bytes \<Rightarrow> bytes \<Rightarrow> bytes \<Rightarrow> bytes option"

abbreviation (input) NOISE_TAG :: nat where "NOISE_TAG \<equiv> 16"

record noise_hs =
  hs_h :: bytes
  hs_ck :: bytes
  hs_k :: bytes
  has_k :: bool
  hs_n :: u64
  s_priv :: bytes
  s_pub :: bytes
  hs_rs :: bytes
  e_priv :: bytes
  e_pub :: bytes
  hs_re :: bytes
  e_set :: bool
  hash_out :: bytes

record noise_cs =
  cs_k :: bytes
  cs_n :: u64

abbreviation (input) zero32 :: bytes where "zero32 \<equiv> replicate 32 0"

text \<open>\<open>memset(s, 0, sizeof *s)\<close>.\<close>

definition noise_hs0 :: noise_hs where
  "noise_hs0 = \<lparr>hs_h = zero32, hs_ck = zero32, hs_k = zero32, has_k = False, hs_n = 0,
     s_priv = zero32, s_pub = zero32, hs_rs = zero32, e_priv = zero32, e_pub = zero32, hs_re = zero32,
     e_set = False, hash_out = zero32\<rparr>"

definition PROTOCOL :: bytes where
  "PROTOCOL = ascii ''Noise_KKpsk2_25519_ChaChaPoly_SHA256''"

definition NN_PROTOCOL :: bytes where
  "NN_PROTOCOL = ascii ''Noise_NNpsk0_25519_ChaChaPoly_SHA256''"

section \<open>Symmetric state\<close>

definition mix_hash :: "bytes \<Rightarrow> noise_hs \<Rightarrow> noise_hs" where
  "mix_hash d s = s\<lparr>hs_h := sha256_final (sha256_update (sha256_update sha256_init (hs_h s)) d)\<rparr>"

definition hkdf :: "bytes \<Rightarrow> bytes \<Rightarrow> bytes \<times> bytes \<times> bytes" where
  "hkdf ck d = (let temp = hmac_sha256 ck d [];
      o1 = hmac_sha256 temp [1] [];
      o2 = hmac_sha256 temp o1 [2]
    in (o1, o2, hmac_sha256 temp o2 [3]))"

definition mix_key :: "bytes \<Rightarrow> noise_hs \<Rightarrow> noise_hs" where
  "mix_key d s = (case hkdf (hs_ck s) d of (ck, k, _) \<Rightarrow> s\<lparr>hs_k := k, hs_ck := ck, has_k := True, hs_n := 0\<rparr>)"

definition mix_key_and_hash :: "bytes \<Rightarrow> noise_hs \<Rightarrow> noise_hs" where
  "mix_key_and_hash d s = (case hkdf (hs_ck s) d of (ck, th, k) \<Rightarrow>
     (mix_hash th (s\<lparr>hs_k := k, hs_ck := ck\<rparr>))\<lparr>has_k := True, hs_n := 0\<rparr>)"

definition nonce12 :: "u64 \<Rightarrow> bytes" where
  "nonce12 n = replicate 4 0 @ map (\<lambda>i. ucast (drop_bit (8 * i) n)) [0..<8]"

definition aead_encrypt :: "noise_crypto \<Rightarrow> bytes \<Rightarrow> u64 \<Rightarrow> bytes \<Rightarrow> bytes \<Rightarrow> bytes" where
  "aead_encrypt C k n ad pt = (case aead_write C k (nonce12 n) ad pt of (c, m) \<Rightarrow> c @ m)"

definition aead_decrypt :: "noise_crypto \<Rightarrow> bytes \<Rightarrow> u64 \<Rightarrow> bytes \<Rightarrow> bytes \<Rightarrow> bytes option" where
  "aead_decrypt C k n ad ct = (let len = length ct in
     if len < NOISE_TAG then None
     else aead_read C k (nonce12 n) ad (drop (len - NOISE_TAG) ct) (take (len - NOISE_TAG) ct))"

text \<open>\<open>split\<close>: the two cipher states \<open>(send, recv)\<close> of the responder, and the state wiped.\<close>

definition split_keys :: "noise_hs \<Rightarrow> noise_cs \<times> noise_cs \<times> noise_hs" where
  "split_keys s = (case hkdf (hs_ck s) [] of (k1, k2, _) \<Rightarrow>
     (\<lparr>cs_k = k2, cs_n = 0\<rparr>, \<lparr>cs_k = k1, cs_n = 0\<rparr>,
      s\<lparr>hash_out := hs_h s, e_priv := zero32, hs_k := zero32, hs_ck := zero32\<rparr>))"

definition noise_keypair :: "noise_crypto \<Rightarrow> bytes \<Rightarrow> bytes \<times> bytes" where
  "noise_keypair C r = (take 32 r, x25519_public_key C (take 32 r))"

text \<open>The ephemeral key of message 2: a fresh one unless a test set one.\<close>

definition own_ephemeral :: "noise_crypto \<Rightarrow> bytes \<Rightarrow> noise_hs \<Rightarrow> noise_hs" where
  "own_ephemeral C r s = (if e_set s then s
     else case noise_keypair C r of (p, q) \<Rightarrow> s\<lparr>e_priv := p, e_pub := q\<rparr>)"

section \<open>The KK handshake\<close>

definition noise_kk_responder_init :: "bytes \<Rightarrow> bytes \<Rightarrow> bytes \<Rightarrow> bytes \<Rightarrow> noise_hs" where
  "noise_kk_responder_init prologue priv pub initiator_pub = (
     let s = noise_hs0\<lparr>hs_h := sha256 PROTOCOL\<rparr>;
         s = s\<lparr>hs_ck := hs_h s\<rparr>;
         s = mix_hash prologue s;
         s = s\<lparr>s_priv := priv, s_pub := pub, hs_rs := initiator_pub\<rparr>;
         s = mix_hash (hs_rs s) s
     in mix_hash (s_pub s) s)"

definition noise_kk_read_msg1 :: "noise_crypto \<Rightarrow> bytes \<Rightarrow> noise_hs \<Rightarrow> bytes option \<times> noise_hs" where
  "noise_kk_read_msg1 C msg s = (if length msg < 32 + NOISE_TAG then (None, s) else
     let s = s\<lparr>hs_re := take 32 msg\<rparr>;
         s = mix_key (hs_re s) (mix_hash (hs_re s) s);
         s = mix_key (x25519 C (s_priv s) (hs_re s)) s;
         s = mix_key (x25519 C (s_priv s) (hs_rs s)) s;
         r = aead_decrypt C (hs_k s) (hs_n s) (hs_h s) (drop 32 msg);
         s = s\<lparr>hs_n := hs_n s + 1\<rparr>
     in case r of None \<Rightarrow> (None, s) | Some p \<Rightarrow> (Some p, mix_hash (drop 32 msg) s))"

definition noise_kk_write_msg2 :: "noise_crypto \<Rightarrow> bytes \<Rightarrow> bytes \<Rightarrow> bytes \<Rightarrow> noise_hs
    \<Rightarrow> bytes \<times> noise_cs \<times> noise_cs \<times> noise_hs" where
  "noise_kk_write_msg2 C r psk payload s = (
     let s = own_ephemeral C r s;
         s = mix_key (e_pub s) (mix_hash (e_pub s) s);
         s = mix_key (x25519 C (e_priv s) (hs_re s)) s;
         s = mix_key (x25519 C (e_priv s) (hs_rs s)) s;
         s = mix_key_and_hash psk s;
         c = aead_encrypt C (hs_k s) (hs_n s) (hs_h s) payload;
         s = mix_hash c (s\<lparr>hs_n := hs_n s + 1\<rparr>)
     in (e_pub s @ c, split_keys s))"

section \<open>The NN handshake\<close>

definition noise_nn_responder_init :: "bytes \<Rightarrow> noise_hs" where
  "noise_nn_responder_init prologue = (
     let s = noise_hs0\<lparr>hs_h := sha256 NN_PROTOCOL\<rparr>;
         s = s\<lparr>hs_ck := hs_h s\<rparr>
     in mix_hash prologue s)"

definition noise_nn_read_msg1 :: "noise_crypto \<Rightarrow> bytes \<Rightarrow> bytes \<Rightarrow> noise_hs \<Rightarrow> bytes option \<times> noise_hs" where
  "noise_nn_read_msg1 C psk msg s = (if length msg < 32 + NOISE_TAG then (None, s) else
     let s = mix_key_and_hash psk s;
         s = s\<lparr>hs_re := take 32 msg\<rparr>;
         s = mix_key (hs_re s) (mix_hash (hs_re s) s);
         r = aead_decrypt C (hs_k s) (hs_n s) (hs_h s) (drop 32 msg);
         s = s\<lparr>hs_n := hs_n s + 1\<rparr>
     in case r of None \<Rightarrow> (None, s) | Some p \<Rightarrow> (Some p, mix_hash (drop 32 msg) s))"

definition noise_nn_write_msg2 :: "noise_crypto \<Rightarrow> bytes \<Rightarrow> bytes \<Rightarrow> noise_hs
    \<Rightarrow> bytes \<times> noise_cs \<times> noise_cs \<times> noise_hs" where
  "noise_nn_write_msg2 C r payload s = (
     let s = own_ephemeral C r s;
         s = mix_key (e_pub s) (mix_hash (e_pub s) s);
         s = mix_key (x25519 C (e_priv s) (hs_re s)) s;
         c = aead_encrypt C (hs_k s) (hs_n s) (hs_h s) payload;
         s = mix_hash c (s\<lparr>hs_n := hs_n s + 1\<rparr>)
     in (e_pub s @ c, split_keys s))"

section \<open>The transport\<close>

definition noise_encrypt :: "noise_crypto \<Rightarrow> bytes \<Rightarrow> noise_cs \<Rightarrow> bytes \<times> noise_cs" where
  "noise_encrypt C pt c = (aead_encrypt C (cs_k c) (cs_n c) [] pt, c\<lparr>cs_n := cs_n c + 1\<rparr>)"

definition noise_decrypt :: "noise_crypto \<Rightarrow> bytes \<Rightarrow> noise_cs \<Rightarrow> bytes option \<times> noise_cs" where
  "noise_decrypt C ct c = (case aead_decrypt C (cs_k c) (cs_n c) [] ct of
     None \<Rightarrow> (None, c) | Some p \<Rightarrow> (Some p, c\<lparr>cs_n := cs_n c + 1\<rparr>))"

section \<open>The initiator, as the Noise specification has it\<close>

text \<open>
  \<open>-> psk, e\<close> and \<open><- e, ee\<close> for NN; \<open>-> e, es, ss\<close> and \<open><- e, ee, se, psk\<close> for KK.  The initiator's
  \<open>e_priv\<close> and \<open>e_pub\<close> are its ephemeral key, \<open>hs_rs\<close> the responder's static key.  \<open>Split()\<close> gives
  the initiator the same two cipher states, in the other order.
\<close>

definition nn_write_msg1 :: "noise_crypto \<Rightarrow> bytes \<Rightarrow> bytes \<Rightarrow> noise_hs \<Rightarrow> bytes \<times> noise_hs" where
  "nn_write_msg1 C psk payload s = (
     let s = mix_key_and_hash psk s;
         s = mix_key (e_pub s) (mix_hash (e_pub s) s);
         c = aead_encrypt C (hs_k s) (hs_n s) (hs_h s) payload
     in (e_pub s @ c, mix_hash c (s\<lparr>hs_n := hs_n s + 1\<rparr>)))"

definition nn_read_msg2 :: "noise_crypto \<Rightarrow> bytes \<Rightarrow> noise_hs \<Rightarrow> (bytes \<times> noise_cs \<times> noise_cs \<times> bytes) option" where
  "nn_read_msg2 C msg s = (
     let re = take 32 msg;
         s = mix_key re (mix_hash re s);
         s = mix_key (x25519 C (e_priv s) re) s
     in case aead_decrypt C (hs_k s) (hs_n s) (hs_h s) (drop 32 msg) of
       None \<Rightarrow> None
     | Some p \<Rightarrow> (case split_keys (mix_hash (drop 32 msg) (s\<lparr>hs_n := hs_n s + 1\<rparr>)) of (a, b, t) \<Rightarrow> Some (p, b, a, hash_out t)))"

definition kk_initiator_init :: "bytes \<Rightarrow> bytes \<Rightarrow> bytes \<Rightarrow> bytes \<Rightarrow> noise_hs" where
  "kk_initiator_init prologue priv pub responder_pub =
     mix_hash responder_pub (mix_hash pub (mix_hash prologue
       (noise_hs0\<lparr>hs_h := sha256 PROTOCOL, hs_ck := sha256 PROTOCOL, s_priv := priv, s_pub := pub, hs_rs := responder_pub\<rparr>)))"

definition kk_write_msg1 :: "noise_crypto \<Rightarrow> bytes \<Rightarrow> noise_hs \<Rightarrow> bytes \<times> noise_hs" where
  "kk_write_msg1 C payload s = (
     let s = mix_key (e_pub s) (mix_hash (e_pub s) s);
         s = mix_key (x25519 C (e_priv s) (hs_rs s)) s;
         s = mix_key (x25519 C (s_priv s) (hs_rs s)) s;
         c = aead_encrypt C (hs_k s) (hs_n s) (hs_h s) payload
     in (e_pub s @ c, mix_hash c (s\<lparr>hs_n := hs_n s + 1\<rparr>)))"

definition kk_read_msg2 :: "noise_crypto \<Rightarrow> bytes \<Rightarrow> bytes \<Rightarrow> noise_hs
    \<Rightarrow> (bytes \<times> noise_cs \<times> noise_cs \<times> bytes) option" where
  "kk_read_msg2 C psk msg s = (
     let re = take 32 msg;
         s = mix_key re (mix_hash re s);
         s = mix_key (x25519 C (e_priv s) re) s;
         s = mix_key (x25519 C (s_priv s) re) s;
         s = mix_key_and_hash psk s
     in case aead_decrypt C (hs_k s) (hs_n s) (hs_h s) (drop 32 msg) of
       None \<Rightarrow> None
     | Some p \<Rightarrow> (case split_keys (mix_hash (drop 32 msg) (s\<lparr>hs_n := hs_n s + 1\<rparr>)) of (a, b, t) \<Rightarrow> Some (p, b, a, hash_out t)))"

text \<open>A sequence of messages over the transport.\<close>

fun noise_seals :: "noise_crypto \<Rightarrow> noise_cs \<Rightarrow> bytes list \<Rightarrow> bytes list" where
  "noise_seals C c [] = []"
| "noise_seals C c (p # ps) = (case noise_encrypt C p c of (x, c') \<Rightarrow> x # noise_seals C c' ps)"

fun noise_opens :: "noise_crypto \<Rightarrow> noise_cs \<Rightarrow> bytes list \<Rightarrow> bytes option list" where
  "noise_opens C c [] = []"
| "noise_opens C c (x # xs) = (case noise_decrypt C x c of (p, c') \<Rightarrow> p # noise_opens C c' xs)"

section \<open>Both ends keep one symmetric state\<close>

text \<open>
  What is relied on of Monocypher: the Diffie-Hellman secret is the same from both ends, and a
  ciphertext is as long as its text, has a 16 byte tag and opens under the key, nonce and
  associated data it was made with.
\<close>

definition noise_law :: "noise_crypto \<Rightarrow> bool" where
  "noise_law C \<longleftrightarrow> (\<forall>a b. x25519 C a (x25519_public_key C b) = x25519 C b (x25519_public_key C a)) \<and>
     (\<forall>k n ad t. let (c, m) = aead_write C k n ad t
        in length c = length t \<and> length m = NOISE_TAG \<and> aead_read C k n ad m c = Some t)"

text \<open>The part of a handshake's state that both ends must have alike.\<close>

definition sym :: "noise_hs \<Rightarrow> bytes \<times> bytes \<times> bytes \<times> u64" where
  "sym s = (hs_h s, hs_ck s, hs_k s, hs_n s)"

lemma sym_alike:
  assumes "sym s = sym t"
  shows "sym (mix_hash d s) = sym (mix_hash d t)" "sym (mix_key d s) = sym (mix_key d t)"
    "sym (mix_key_and_hash d s) = sym (mix_key_and_hash d t)"
    "sym (s\<lparr>hs_n := hs_n s + 1\<rparr>) = sym (t\<lparr>hs_n := hs_n t + 1\<rparr>)"
    "hs_h s = hs_h t" "hs_k s = hs_k t" "hs_n s = hs_n t" "hs_ck s = hs_ck t"
  using assms by (simp_all add: sym_def mix_hash_def mix_key_def mix_key_and_hash_def case_prod_beta)

lemma sym_upd [simp]:
  "sym (s\<lparr>hs_re := x\<rparr>) = sym s" "sym (s\<lparr>e_priv := x\<rparr>) = sym s" "sym (s\<lparr>e_pub := x\<rparr>) = sym s"
  "sym (s\<lparr>s_priv := x\<rparr>) = sym s" "sym (s\<lparr>s_pub := x\<rparr>) = sym s" "sym (s\<lparr>hs_rs := x\<rparr>) = sym s"
  "sym (own_ephemeral C r s) = sym s"
  by (simp_all add: sym_def own_ephemeral_def noise_keypair_def)

lemma mix_keeps [simp]:
  "e_priv (mix_hash d s) = e_priv s" "e_pub (mix_hash d s) = e_pub s" "hs_re (mix_hash d s) = hs_re s"
  "s_priv (mix_hash d s) = s_priv s" "hs_rs (mix_hash d s) = hs_rs s" "e_set (mix_hash d s) = e_set s"
  "e_priv (mix_key d s) = e_priv s" "e_pub (mix_key d s) = e_pub s" "hs_re (mix_key d s) = hs_re s"
  "s_priv (mix_key d s) = s_priv s" "hs_rs (mix_key d s) = hs_rs s" "e_set (mix_key d s) = e_set s"
  "e_priv (mix_key_and_hash d s) = e_priv s" "e_pub (mix_key_and_hash d s) = e_pub s"
  "hs_re (mix_key_and_hash d s) = hs_re s" "s_priv (mix_key_and_hash d s) = s_priv s"
  "hs_rs (mix_key_and_hash d s) = hs_rs s" "e_set (mix_key_and_hash d s) = e_set s"
  "s_pub (mix_hash d s) = s_pub s"
  by (simp_all add: mix_hash_def mix_key_def mix_key_and_hash_def case_prod_beta)

lemma sym_split:
  assumes "sym s = sym t"
  shows "fst (split_keys s) = fst (split_keys t)" "fst (snd (split_keys s)) = fst (snd (split_keys t))"
    "hash_out (snd (snd (split_keys s))) = hash_out (snd (snd (split_keys t)))"
  using sym_alike [OF assms] by (simp_all add: split_keys_def case_prod_beta)

lemma aead_opens:
  assumes "noise_law C"
  shows "aead_decrypt C k n ad (aead_encrypt C k n ad p) = Some p"
    "length (aead_encrypt C k n ad p) = length p + NOISE_TAG"
proof -
  obtain c m where "aead_write C k (nonce12 n) ad p = (c, m)" by fastforce
  moreover have "let (c, m) = aead_write C k (nonce12 n) ad p
      in length c = length p \<and> length m = NOISE_TAG \<and> aead_read C k (nonce12 n) ad m c = Some p"
    using assms unfolding noise_law_def by blast
  ultimately show "aead_decrypt C k n ad (aead_encrypt C k n ad p) = Some p"
    "length (aead_encrypt C k n ad p) = length p + NOISE_TAG"
    by (simp_all add: aead_decrypt_def aead_encrypt_def Let_def)
qed

lemma dh_alike:
  "noise_law C \<Longrightarrow> x25519 C a (x25519_public_key C b) = x25519 C b (x25519_public_key C a)"
  by (simp add: noise_law_def)

text \<open>A message that opens, at the end that reads it: the read step as the writer's state has it.\<close>

lemma opens_alike:
  assumes "noise_law C" "sym s = sym t"
  shows "aead_decrypt C (hs_k s) (hs_n s) (hs_h s) (aead_encrypt C (hs_k t) (hs_n t) (hs_h t) p) = Some p"
  using aead_opens(1) [OF assms(1)] sym_alike(5,6,7) [OF assms(2)] by simp

section \<open>Handshakes\<close>

lemma nn_msg1_read:
  assumes law: "noise_law C" and same: "sym i = sym s" and len: "length (e_pub i) = 32"
    and w: "nn_write_msg1 C psk p i = (m, i')"
  shows "\<exists>s'. noise_nn_read_msg1 C psk m s = (Some p, s') \<and> sym s' = sym i' \<and> hs_re s' = e_pub i \<and>
    e_set s' = e_set s \<and> e_priv i' = e_priv i"
proof -
  let ?i = "mix_key (e_pub i) (mix_hash (e_pub i) (mix_key_and_hash psk i))"
  let ?s = "mix_key (e_pub i) (mix_hash (e_pub i) ((mix_key_and_hash psk s)\<lparr>hs_re := e_pub i\<rparr>))"
  let ?c = "aead_encrypt C (hs_k ?i) (hs_n ?i) (hs_h ?i) p"
  have m: "m = e_pub i @ ?c" "i' = mix_hash ?c (?i\<lparr>hs_n := hs_n ?i + 1\<rparr>)"
    using w by (simp_all add: nn_write_msg1_def Let_def)
  have alike: "sym ?s = sym ?i" by (intro sym_alike(1,2)) (simp add: sym_alike(3) [OF same])
  have opened: "aead_decrypt C (hs_k ?s) (hs_n ?s) (hs_h ?s) ?c = Some p" by (rule opens_alike [OF law alike])
  have "noise_nn_read_msg1 C psk m s = (Some p, mix_hash ?c (?s\<lparr>hs_n := hs_n ?s + 1\<rparr>))"
    using len opened by (simp add: m noise_nn_read_msg1_def Let_def aead_opens(2) [OF law])
  with sym_alike(1) [OF sym_alike(4) [OF alike]] show ?thesis by (auto simp: m)
qed

lemma own_ephemeral_fields [simp]:
  assumes "\<not> e_set s"
  shows "e_priv (own_ephemeral C r s) = take 32 r" "e_pub (own_ephemeral C r s) = x25519_public_key C (take 32 r)"
    "hs_re (own_ephemeral C r s) = hs_re s" "hs_rs (own_ephemeral C r s) = hs_rs s"
  using assms by (simp_all add: own_ephemeral_def noise_keypair_def)

lemma split_result:
  assumes "sym s = sym t" "split_keys t = (a, b, u)"
  shows "(case split_keys s of (a, b, t) \<Rightarrow> Some (q, b, a, hash_out t)) = Some (q, b, a, hash_out u)"
  using sym_split [OF assms(1)] assms(2) by (simp add: case_prod_beta)

lemma nn_msg2_read:
  assumes law: "noise_law C" and same: "sym i = sym s" and re: "hs_re s = x25519_public_key C (e_priv i)" "\<not> e_set s"
    and len: "length (x25519_public_key C (take 32 r)) = 32"
    and w: "noise_nn_write_msg2 C r q s = (m, send, recv, s')"
  shows "nn_read_msg2 C m i = Some (q, recv, send, hash_out s')"
proof -
  let ?e = "x25519_public_key C (take 32 r)" and ?d = "x25519 C (e_priv i) (x25519_public_key C (take 32 r))"
  let ?s = "mix_key ?d (mix_key ?e (mix_hash ?e (own_ephemeral C r s)))"
  let ?i = "mix_key ?d (mix_key ?e (mix_hash ?e i))"
  let ?c = "aead_encrypt C (hs_k ?s) (hs_n ?s) (hs_h ?s) q"
  have m: "m = ?e @ ?c" "split_keys (mix_hash ?c (?s\<lparr>hs_n := hs_n ?s + 1\<rparr>)) = (send, recv, s')"
    using w re by (simp_all add: noise_nn_write_msg2_def Let_def dh_alike [OF law, of "take 32 r"])
  have alike: "sym ?i = sym ?s" by (intro sym_alike(1,2)) (simp add: same)
  have opened: "aead_decrypt C (hs_k ?i) (hs_n ?i) (hs_h ?i) ?c = Some q" by (rule opens_alike [OF law alike])
  have "sym (mix_hash ?c (?i\<lparr>hs_n := hs_n ?i + 1\<rparr>)) = sym (mix_hash ?c (?s\<lparr>hs_n := hs_n ?s + 1\<rparr>))"
    by (intro sym_alike(1,4)) (rule alike)
  from split_result [OF this m(2)] opened len show ?thesis
    by (simp add: nn_read_msg2_def m(1) Let_def)
qed

lemma kk_msg1_read:
  assumes law: "noise_law C" and same: "sym i = sym s" and len: "length (e_pub i) = 32"
    and keys: "e_pub i = x25519_public_key C (e_priv i)" "hs_rs i = x25519_public_key C (s_priv s)"
      "hs_rs s = x25519_public_key C (s_priv i)"
    and w: "kk_write_msg1 C p i = (m, i')"
  shows "\<exists>s'. noise_kk_read_msg1 C m s = (Some p, s') \<and> sym s' = sym i' \<and> hs_re s' = e_pub i \<and> hs_rs s' = hs_rs s \<and>
    e_set s' = e_set s \<and> e_priv i' = e_priv i \<and> s_priv i' = s_priv i"
proof -
  let ?mix = "\<lambda>t. mix_key (x25519 C (s_priv i) (hs_rs i)) (mix_key (x25519 C (e_priv i) (hs_rs i))
    (mix_key (e_pub i) (mix_hash (e_pub i) t)))"
  let ?i = "?mix i" and ?s = "?mix (s\<lparr>hs_re := e_pub i\<rparr>)"
  let ?c = "aead_encrypt C (hs_k ?i) (hs_n ?i) (hs_h ?i) p"
  have m: "m = e_pub i @ ?c" "i' = mix_hash ?c (?i\<lparr>hs_n := hs_n ?i + 1\<rparr>)"
    using w by (simp_all add: kk_write_msg1_def Let_def)
  have dh: "x25519 C (s_priv s) (e_pub i) = x25519 C (e_priv i) (hs_rs i)"
    "x25519 C (s_priv s) (hs_rs s) = x25519 C (s_priv i) (hs_rs i)"
    using dh_alike [OF law] keys by simp_all
  have alike: "sym ?s = sym ?i" by (intro sym_alike(1,2)) (simp add: same)
  have opened: "aead_decrypt C (hs_k ?s) (hs_n ?s) (hs_h ?s) ?c = Some p" by (rule opens_alike [OF law alike])
  have "noise_kk_read_msg1 C m s = (Some p, mix_hash ?c (?s\<lparr>hs_n := hs_n ?s + 1\<rparr>))"
    using len opened by (simp add: m(1) dh noise_kk_read_msg1_def Let_def aead_opens(2) [OF law])
  with sym_alike(1) [OF sym_alike(4) [OF alike]] show ?thesis by (auto simp: m)
qed

lemma kk_msg2_read:
  assumes law: "noise_law C" and same: "sym i = sym s" and re: "\<not> e_set s" "hs_re s = x25519_public_key C (e_priv i)"
      "hs_rs s = x25519_public_key C (s_priv i)"
    and len: "length (x25519_public_key C (take 32 r)) = 32"
    and w: "noise_kk_write_msg2 C r psk q s = (m, send, recv, s')"
  shows "kk_read_msg2 C psk m i = Some (q, recv, send, hash_out s')"
proof -
  let ?e = "x25519_public_key C (take 32 r)"
  let ?mix = "\<lambda>t. mix_key_and_hash psk (mix_key (x25519 C (s_priv i) ?e) (mix_key (x25519 C (e_priv i) ?e)
    (mix_key ?e (mix_hash ?e t))))"
  let ?s = "?mix (own_ephemeral C r s)" and ?i = "?mix i"
  let ?c = "aead_encrypt C (hs_k ?s) (hs_n ?s) (hs_h ?s) q"
  have m: "m = ?e @ ?c" "split_keys (mix_hash ?c (?s\<lparr>hs_n := hs_n ?s + 1\<rparr>)) = (send, recv, s')"
    using w re by (simp_all add: noise_kk_write_msg2_def Let_def dh_alike [OF law, of "take 32 r"])
  have alike: "sym ?i = sym ?s" by (intro sym_alike(1,2,3)) (simp add: same)
  have opened: "aead_decrypt C (hs_k ?i) (hs_n ?i) (hs_h ?i) ?c = Some q" by (rule opens_alike [OF law alike])
  have "sym (mix_hash ?c (?i\<lparr>hs_n := hs_n ?i + 1\<rparr>)) = sym (mix_hash ?c (?s\<lparr>hs_n := hs_n ?s + 1\<rparr>))"
    by (intro sym_alike(1,4)) (rule alike)
  from split_result [OF this m(2)] opened len show ?thesis
    by (simp add: kk_read_msg2_def m(1) Let_def)
qed

lemma noise_in_order: "noise_law C \<Longrightarrow> noise_opens C c (noise_seals C c ps) = map Some ps"
  by (induction ps arbitrary: c) (simp_all add: noise_encrypt_def noise_decrypt_def aead_opens)

lemma split_wipes:
  "split_keys s = (a, b, t) \<Longrightarrow> e_priv t = zero32 \<and> hs_k t = zero32 \<and> hs_ck t = zero32"
  by (auto simp: split_keys_def case_prod_beta)

lemma write_msg2_split:
  "noise_nn_write_msg2 C r q s = (m, rest) \<Longrightarrow> \<exists>t. split_keys t = rest"
  "noise_kk_write_msg2 C r psk q s = (m, rest) \<Longrightarrow> \<exists>t. split_keys t = rest"
  by (auto simp: noise_nn_write_msg2_def noise_kk_write_msg2_def Let_def)

text \<open>A stand-in for Monocypher that obeys the law, for the witnesses.\<close>

definition toy_noise :: noise_crypto where
  "toy_noise = \<lparr>blake2b = (\<lambda>n b. b), blake2b_keyed = (\<lambda>n k b. b),
     x25519 = (\<lambda>a b. map2 (XOR) a b), x25519_public_key = (\<lambda>a. a),
     aead_lock = (\<lambda>k n a p. (p, replicate 16 1)), aead_unlock = (\<lambda>k n a m c. Some c),
     aead_write = (\<lambda>k n a p. (map (NOT) p, replicate 16 (foldl (+) 0 (k @ n @ a)))),
     aead_read = (\<lambda>k n a m c. if m = replicate 16 (foldl (+) 0 (k @ n @ a)) then Some (map (NOT) c) else None)\<rparr>"

lemma toy_noise_law: "noise_law toy_noise"
proof -
  have "map2 (XOR) a b = map2 (XOR) b (a :: bytes)" for a b
    by (rule nth_equalityI) (auto simp: xor.commute)
  then show ?thesis by (simp add: noise_law_def toy_noise_def comp_def)
qed



text \<open>
  Sendspin's handshake (Noise KKpsk2): an initiator and a responder that know each other's
  static keys and use the same pre-shared key come out with the same handshake hash and matching
  cipher states, and both payloads and everything sent afterwards arrive.  The responder may choose
  the pre-shared key after it read the first message.
\<close>

theorem kk_handshake_agrees:
  assumes "noise_law C" "length (x25519_public_key C a) = 32" "length (x25519_public_key C (take 32 r)) = 32"
    and "i = (kk_initiator_init prologue ai (x25519_public_key C ai) (x25519_public_key C ar))
           \<lparr>e_priv := a, e_pub := x25519_public_key C a\<rparr>"
    and "s = noise_kk_responder_init prologue ar (x25519_public_key C ar) (x25519_public_key C ai)"
    and "kk_write_msg1 C p i = (m1, i1)"
  shows "\<exists>s1 m2 send recv s2 isend irecv.
    noise_kk_read_msg1 C m1 s = (Some p, s1) \<and>
    noise_kk_write_msg2 C r psk q s1 = (m2, send, recv, s2) \<and>
    kk_read_msg2 C psk m2 i1 = Some (q, isend, irecv, hash_out s2) \<and>
    noise_opens C irecv (noise_seals C send ps) = map Some ps \<and>
    noise_opens C recv (noise_seals C isend ps') = map Some ps' \<and>
    e_priv s2 = zero32 \<and> hs_k s2 = zero32 \<and> hs_ck s2 = zero32"
proof -
  have "sym i = sym s" "length (e_pub i) = 32" "e_pub i = x25519_public_key C (e_priv i)"
    "hs_rs i = x25519_public_key C (s_priv s)" "hs_rs s = x25519_public_key C (s_priv i)" "\<not> e_set s"
    using assms(2,4,5)
    by (simp_all add: kk_initiator_init_def noise_kk_responder_init_def noise_hs0_def mix_hash_def sym_def Let_def)
  note init = this
  from kk_msg1_read [OF assms(1) init(1-5) assms(6)] obtain s1
    where s1: "noise_kk_read_msg1 C m1 s = (Some p, s1)" "sym i1 = sym s1" "hs_re s1 = e_pub i" "hs_rs s1 = hs_rs s"
      "e_set s1 = e_set s" "e_priv i1 = e_priv i" "s_priv i1 = s_priv i" by auto
  obtain m2 send recv s2 where w: "noise_kk_write_msg2 C r psk q s1 = (m2, send, recv, s2)" by (metis prod_cases4)
  have "\<not> e_set s1" "hs_re s1 = x25519_public_key C (e_priv i1)" "hs_rs s1 = x25519_public_key C (s_priv i1)"
    using s1 init by simp_all
  from kk_msg2_read [OF assms(1) s1(2) this assms(3) w] s1(1) w noise_in_order [OF assms(1)]
    write_msg2_split(2) [OF w] show ?thesis by (meson split_wipes)
qed

theorem kk_handshake_agrees_witness:
  "let i = (kk_initiator_init [1] [3] [3] [4])\<lparr>e_priv := replicate 32 7, e_pub := replicate 32 7\<rparr>;
       m = fst (kk_write_msg1 toy_noise [5] i)
   in fst (noise_kk_read_msg1 toy_noise m (noise_kk_responder_init [1] [4] [4] [3])) = Some [5]"
proof -
  have pub: "x25519_public_key toy_noise k = k" for k by (simp add: toy_noise_def)
  let ?i = "(kk_initiator_init [1] [3] (x25519_public_key toy_noise [3]) (x25519_public_key toy_noise [4]))
    \<lparr>e_priv := replicate 32 7, e_pub := x25519_public_key toy_noise (replicate 32 7)\<rparr>"
  have "length (x25519_public_key toy_noise (replicate 32 7)) = 32"
    "length (x25519_public_key toy_noise (take 32 (replicate 32 9))) = 32" by (simp_all add: pub)
  from kk_handshake_agrees [OF toy_noise_law this refl refl, of "[5]" "[1]" "[3]" "[4]"
      "fst (kk_write_msg1 toy_noise [5] ?i)" "snd (kk_write_msg1 toy_noise [5] ?i)"]
  show ?thesis by (simp add: Let_def pub) (metis fst_conv)
qed

end
