(* ===== verification/Esphome.thy ===== *)
theory Esphome
  imports Protobuf Noise
begin

text \<open>
  \<^verbatim>\<open>src/hassmic/proto_esphome.c\<close>, part 2: the API server's state, its frames, the encryption key, what
  the rest of the program asks of it (a voice run, the microphone's audio, a reply played, Bluetooth
  results) and how each kind of request is carried out.  The record \<open>esp\<close> holds the static variables; \<open>wrote\<close>
  collects what was written to the clients' sockets, \<open>calls\<close> what was asked of the other parts of the
  program, both oldest first: a call is the C function's name with its arguments.  What those parts
  say at the moment is the record \<open>world\<close>, an argument.

  A socket in \<open>down\<close> takes no more bytes.  A message's state of one setting (\<open>send_setting\<close>), the list of
  the settings' entities and the states sent at subscription are calls too: their contents are not
  modelled.  \<open>lroundf\<close> of a float's bits is \<open>w_lroundf\<close>.
\<close>

section \<open>Message numbers, entity keys, events\<close>

abbreviation (input) HELLO_REQ :: u32 where "HELLO_REQ \<equiv> 1"
abbreviation (input) HELLO_RESP :: u32 where "HELLO_RESP \<equiv> 2"
abbreviation (input) CONNECT_REQ :: u32 where "CONNECT_REQ \<equiv> 3"
abbreviation (input) CONNECT_RESP :: u32 where "CONNECT_RESP \<equiv> 4"
abbreviation (input) DISCONNECT_REQ :: u32 where "DISCONNECT_REQ \<equiv> 5"
abbreviation (input) DISCONNECT_RESP :: u32 where "DISCONNECT_RESP \<equiv> 6"
abbreviation (input) PING_REQ :: u32 where "PING_REQ \<equiv> 7"
abbreviation (input) PING_RESP :: u32 where "PING_RESP \<equiv> 8"
abbreviation (input) DEVICE_INFO_REQ :: u32 where "DEVICE_INFO_REQ \<equiv> 9"
abbreviation (input) DEVICE_INFO_RESP :: u32 where "DEVICE_INFO_RESP \<equiv> 10"
abbreviation (input) LIST_ENTITIES_REQ :: u32 where "LIST_ENTITIES_REQ \<equiv> 11"
abbreviation (input) LIST_ENTITIES_DONE :: u32 where "LIST_ENTITIES_DONE \<equiv> 19"
abbreviation (input) SUBSCRIBE_STATES :: u32 where "SUBSCRIBE_STATES \<equiv> 20"
abbreviation (input) LIGHT_COMMAND :: u32 where "LIGHT_COMMAND \<equiv> 32"
abbreviation (input) SWITCH_COMMAND :: u32 where "SWITCH_COMMAND \<equiv> 33"
abbreviation (input) SUBSCRIBE_HA_ACTIONS :: u32 where "SUBSCRIBE_HA_ACTIONS \<equiv> 34"
abbreviation (input) HA_ACTION :: u32 where "HA_ACTION \<equiv> 35"
abbreviation (input) GET_TIME_REQ :: u32 where "GET_TIME_REQ \<equiv> 36"
abbreviation (input) GET_TIME_RESP :: u32 where "GET_TIME_RESP \<equiv> 37"
abbreviation (input) SUBSCRIBE_HA_STATES :: u32 where "SUBSCRIBE_HA_STATES \<equiv> 38"
abbreviation (input) HA_STATE_SUB :: u32 where "HA_STATE_SUB \<equiv> 39"
abbreviation (input) HA_STATE :: u32 where "HA_STATE \<equiv> 40"
abbreviation (input) EXECUTE_SERVICE :: u32 where "EXECUTE_SERVICE \<equiv> 42"
abbreviation (input) NUMBER_COMMAND :: u32 where "NUMBER_COMMAND \<equiv> 51"
abbreviation (input) SELECT_COMMAND :: u32 where "SELECT_COMMAND \<equiv> 54"
abbreviation (input) BUTTON_COMMAND :: u32 where "BUTTON_COMMAND \<equiv> 62"
abbreviation (input) LIST_MEDIA_PLAYER :: u32 where "LIST_MEDIA_PLAYER \<equiv> 63"
abbreviation (input) MEDIA_PLAYER_STATE :: u32 where "MEDIA_PLAYER_STATE \<equiv> 64"
abbreviation (input) MEDIA_PLAYER_COMMAND :: u32 where "MEDIA_PLAYER_COMMAND \<equiv> 65"
abbreviation (input) BLE_SUBSCRIBE :: u32 where "BLE_SUBSCRIBE \<equiv> 66"
abbreviation (input) BLE_DEVICE_REQ :: u32 where "BLE_DEVICE_REQ \<equiv> 68"
abbreviation (input) BLE_CONNECTION :: u32 where "BLE_CONNECTION \<equiv> 69"
abbreviation (input) BLE_SERVICES_REQ :: u32 where "BLE_SERVICES_REQ \<equiv> 70"
abbreviation (input) BLE_SERVICES :: u32 where "BLE_SERVICES \<equiv> 71"
abbreviation (input) BLE_SERVICES_DONE :: u32 where "BLE_SERVICES_DONE \<equiv> 72"
abbreviation (input) BLE_READ_REQ :: u32 where "BLE_READ_REQ \<equiv> 73"
abbreviation (input) BLE_READ :: u32 where "BLE_READ \<equiv> 74"
abbreviation (input) BLE_WRITE_REQ :: u32 where "BLE_WRITE_REQ \<equiv> 75"
abbreviation (input) BLE_READ_DESC_REQ :: u32 where "BLE_READ_DESC_REQ \<equiv> 76"
abbreviation (input) BLE_WRITE_DESC_REQ :: u32 where "BLE_WRITE_DESC_REQ \<equiv> 77"
abbreviation (input) BLE_NOTIFY_REQ :: u32 where "BLE_NOTIFY_REQ \<equiv> 78"
abbreviation (input) BLE_NOTIFY_DATA :: u32 where "BLE_NOTIFY_DATA \<equiv> 79"
abbreviation (input) BLE_CONN_FREE_REQ :: u32 where "BLE_CONN_FREE_REQ \<equiv> 80"
abbreviation (input) BLE_CONN_FREE :: u32 where "BLE_CONN_FREE \<equiv> 81"
abbreviation (input) BLE_GATT_ERROR :: u32 where "BLE_GATT_ERROR \<equiv> 82"
abbreviation (input) BLE_WRITTEN :: u32 where "BLE_WRITTEN \<equiv> 83"
abbreviation (input) BLE_UNSUBSCRIBE :: u32 where "BLE_UNSUBSCRIBE \<equiv> 87"
abbreviation (input) SUBSCRIBE_VA :: u32 where "SUBSCRIBE_VA \<equiv> 89"
abbreviation (input) VA_REQUEST :: u32 where "VA_REQUEST \<equiv> 90"
abbreviation (input) VA_RESPONSE :: u32 where "VA_RESPONSE \<equiv> 91"
abbreviation (input) VA_EVENT :: u32 where "VA_EVENT \<equiv> 92"
abbreviation (input) VA_AUDIO :: u32 where "VA_AUDIO \<equiv> 106"
abbreviation (input) EVENT :: u32 where "EVENT \<equiv> 108"
abbreviation (input) VA_TIMER_EVENT :: u32 where "VA_TIMER_EVENT \<equiv> 115"
abbreviation (input) UPDATE_COMMAND :: u32 where "UPDATE_COMMAND \<equiv> 118"
abbreviation (input) VA_ANNOUNCE :: u32 where "VA_ANNOUNCE \<equiv> 119"
abbreviation (input) VA_ANNOUNCE_FINISHED :: u32 where "VA_ANNOUNCE_FINISHED \<equiv> 120"
abbreviation (input) VA_CONFIG_REQ :: u32 where "VA_CONFIG_REQ \<equiv> 121"
abbreviation (input) VA_CONFIG_RESP :: u32 where "VA_CONFIG_RESP \<equiv> 122"
abbreviation (input) VA_SET_CONFIG :: u32 where "VA_SET_CONFIG \<equiv> 123"
abbreviation (input) SET_KEY_REQ :: u32 where "SET_KEY_REQ \<equiv> 124"
abbreviation (input) SET_KEY_RESP :: u32 where "SET_KEY_RESP \<equiv> 125"
abbreviation (input) BLE_SCANNER_STATE :: u32 where "BLE_SCANNER_STATE \<equiv> 126"
abbreviation (input) BLE_SCANNER_SET_MODE :: u32 where "BLE_SCANNER_SET_MODE \<equiv> 127"
abbreviation (input) TEXT_SENSOR_STATE :: u32 where "TEXT_SENSOR_STATE \<equiv> 27"

abbreviation (input) KEY_MIC_LEVEL :: u32 where "KEY_MIC_LEVEL \<equiv> 3"
abbreviation (input) KEY_MUTE :: u32 where "KEY_MUTE \<equiv> 5"
abbreviation (input) KEY_WAKE_SOUND :: u32 where "KEY_WAKE_SOUND \<equiv> 6"
abbreviation (input) KEY_SENDSPIN_TOKEN :: u32 where "KEY_SENDSPIN_TOKEN \<equiv> 7"
abbreviation (input) KEY_SOC_TEMP :: u32 where "KEY_SOC_TEMP \<equiv> 8"
abbreviation (input) KEY_CPU_USAGE :: u32 where "KEY_CPU_USAGE \<equiv> 9"
abbreviation (input) KEY_BT_PAIRING :: u32 where "KEY_BT_PAIRING \<equiv> 10"
abbreviation (input) KEY_BT_ANNOUNCE :: u32 where "KEY_BT_ANNOUNCE \<equiv> 11"
abbreviation (input) KEY_DND :: u32 where "KEY_DND \<equiv> 12"
abbreviation (input) KEY_EQ_BASS :: u32 where "KEY_EQ_BASS \<equiv> 13"
abbreviation (input) KEY_EQ_TREBLE :: u32 where "KEY_EQ_TREBLE \<equiv> 15"
abbreviation (input) KEY_BT_LANG :: u32 where "KEY_BT_LANG \<equiv> 16"
abbreviation (input) KEY_ARB_JOIN :: u32 where "KEY_ARB_JOIN \<equiv> 17"
abbreviation (input) KEY_ARB_PEERS :: u32 where "KEY_ARB_PEERS \<equiv> 18"
abbreviation (input) KEY_ARB_SERVICE :: u32 where "KEY_ARB_SERVICE \<equiv> 19"
abbreviation (input) KEY_SS_UNPAIRED :: u32 where "KEY_SS_UNPAIRED \<equiv> 20"
abbreviation (input) KEY_DENOISE :: u32 where "KEY_DENOISE \<equiv> 21"
abbreviation (input) KEY_ADB_WIFI :: u32 where "KEY_ADB_WIFI \<equiv> 22"
abbreviation (input) KEY_LUX :: u32 where "KEY_LUX \<equiv> 23"
abbreviation (input) KEY_LED_AUTO :: u32 where "KEY_LED_AUTO \<equiv> 24"
abbreviation (input) KEY_LED_BRIGHTNESS :: u32 where "KEY_LED_BRIGHTNESS \<equiv> 25"
abbreviation (input) KEY_SOUND_DETECTION :: u32 where "KEY_SOUND_DETECTION \<equiv> 26"
abbreviation (input) KEY_SOUND :: u32 where "KEY_SOUND \<equiv> 27"
abbreviation (input) KEY_BT_OUT_SEARCH :: u32 where "KEY_BT_OUT_SEARCH \<equiv> 28"
abbreviation (input) KEY_BT_OUT :: u32 where "KEY_BT_OUT \<equiv> 29"
abbreviation (input) KEY_BT_OUT_STATUS :: u32 where "KEY_BT_OUT_STATUS \<equiv> 30"
abbreviation (input) KEY_BT_OUT_DELAY :: u32 where "KEY_BT_OUT_DELAY \<equiv> 31"
abbreviation (input) KEY_WIFI_MOTION_ON :: u32 where "KEY_WIFI_MOTION_ON \<equiv> 32"
abbreviation (input) KEY_WIFI_MOTION :: u32 where "KEY_WIFI_MOTION \<equiv> 33"
abbreviation (input) KEY_WIFI_MOTION_SENS :: u32 where "KEY_WIFI_MOTION_SENS \<equiv> 34"
abbreviation (input) KEY_UPDATE :: u32 where "KEY_UPDATE \<equiv> 36"
abbreviation (input) KEY_WHISPERED :: u32 where "KEY_WHISPERED \<equiv> 37"
abbreviation (input) KEY_IDENTIFY :: u32 where "KEY_IDENTIFY \<equiv> 40"
abbreviation (input) KEY_RESET :: u32 where "KEY_RESET \<equiv> 41"
abbreviation (input) KEY_DROPIN_SERVICE :: u32 where "KEY_DROPIN_SERVICE \<equiv> 44"
abbreviation (input) KEY_DROPIN_STATE :: u32 where "KEY_DROPIN_STATE \<equiv> 45"
abbreviation (input) KEY_DROPIN_PEER :: u32 where "KEY_DROPIN_PEER \<equiv> 46"
abbreviation (input) KEY_DROPIN_END :: u32 where "KEY_DROPIN_END \<equiv> 47"
abbreviation (input) KEY_RESTART :: u32 where "KEY_RESTART \<equiv> 48"
abbreviation (input) KEY_DROPIN_RESULT :: u32 where "KEY_DROPIN_RESULT \<equiv> 49"
abbreviation (input) KEY_TIMER_STOP :: u32 where "KEY_TIMER_STOP \<equiv> 50"
abbreviation (input) KEY_BUTTON :: u32 where "KEY_BUTTON \<equiv> 51"
abbreviation (input) KEY_LIGHT :: u32 where "KEY_LIGHT \<equiv> 52"
abbreviation (input) KEY_ASSIST_VOLUME :: u32 where "KEY_ASSIST_VOLUME \<equiv> 53"
abbreviation (input) KEY_SOUNDS_VOLUME :: u32 where "KEY_SOUNDS_VOLUME \<equiv> 54"
abbreviation (input) KEY_TIMER_VOLUME :: u32 where "KEY_TIMER_VOLUME \<equiv> 55"
abbreviation (input) KEY_CALL_VOLUME :: u32 where "KEY_CALL_VOLUME \<equiv> 56"
abbreviation (input) KEY_WAKE :: u32 where "KEY_WAKE \<equiv> 57"
abbreviation (input) KEY_RING_FILL :: u32 where "KEY_RING_FILL \<equiv> 58"
abbreviation (input) KEY_RING_ROTATION :: u32 where "KEY_RING_ROTATION \<equiv> 59"
abbreviation (input) KEY_RING_LEDS :: u32 where "KEY_RING_LEDS \<equiv> 60"
abbreviation (input) KEY_LAST_HEARD :: u32 where "KEY_LAST_HEARD \<equiv> 61"
abbreviation (input) KEY_LAST_REPLY :: u32 where "KEY_LAST_REPLY \<equiv> 62"
abbreviation (input) KEY_NEXT_TIMER :: u32 where "KEY_NEXT_TIMER \<equiv> 63"

abbreviation (input) EV_ERROR :: u32 where "EV_ERROR \<equiv> 0"
abbreviation (input) EV_RUN_START :: u32 where "EV_RUN_START \<equiv> 1"
abbreviation (input) EV_RUN_END :: u32 where "EV_RUN_END \<equiv> 2"
abbreviation (input) EV_STT_START :: u32 where "EV_STT_START \<equiv> 3"
abbreviation (input) EV_STT_END :: u32 where "EV_STT_END \<equiv> 4"
abbreviation (input) EV_INTENT_END :: u32 where "EV_INTENT_END \<equiv> 6"
abbreviation (input) EV_TTS_START :: u32 where "EV_TTS_START \<equiv> 7"
abbreviation (input) EV_TTS_END :: u32 where "EV_TTS_END \<equiv> 8"
abbreviation (input) EV_WAKE_END :: u32 where "EV_WAKE_END \<equiv> 10"
abbreviation (input) EV_VAD_END :: u32 where "EV_VAD_END \<equiv> 12"
abbreviation (input) EV_INTENT_PROGRESS :: u32 where "EV_INTENT_PROGRESS \<equiv> 100"

section \<open>State\<close>

datatype arg = Num int | Text bytes | Bits u32

datatype call = Call string "arg list"

datatype cstate = IDLE | LISTENING | THINKING | SPEAKING

record world =
  w_now :: int
  w_version :: bytes
  w_build :: bytes
  w_model :: bytes
  w_project :: bytes
  w_name :: bytes
  w_node :: bytes
  w_mac :: bytes
  w_web_port :: u64
  w_sendspin :: bool
  w_ble :: bool
  w_ble_mac :: bytes
  w_ble_scanning :: bool
  w_ble_conns :: "u64 list"
  w_arb :: bool
  w_dropin :: bool
  w_on :: "string \<Rightarrow> bool"
  w_whisper_model :: bool
  w_wifimotion :: bool
  w_have_light :: bool
  w_have_auto :: bool
  w_ring_custom :: bool
  w_ring_per_led :: bool
  w_linked :: "nat \<Rightarrow> bool"
  w_local_wake :: bool
  w_wake_phrase :: bytes
  w_wake_words :: "(bytes \<times> bytes \<times> bytes) list"
  w_wake_active :: "nat list"
  w_wake_max :: u64
  w_dnd :: bool
  w_state :: cstate
  w_transcript :: bool
  w_wake_run :: bool
  w_timer_on :: bool
  w_volume :: u32
  w_langs :: "bytes list"
  w_lroundf :: "u32 \<Rightarrow> int"

record client =
  cl_fd :: int
  cl_states :: bool
  cl_enc :: bool
  cl_keyed :: bool
  cl_ble :: bool
  cl_ble_free :: bool
  cl_ble_user :: bool
  cl_actions :: bool
  cl_ha_states :: bool
  cl_tx :: noise_cs
  cl_rx :: noise_cs

definition cs0 :: noise_cs where "cs0 = \<lparr>cs_k = zero32, cs_n = 0\<rparr>"

definition client0 :: client where
  "client0 = \<lparr>cl_fd = -1, cl_states = False, cl_enc = False, cl_keyed = False, cl_ble = False, cl_ble_free = False,
     cl_ble_user = False, cl_actions = False, cl_ha_states = False, cl_tx = cs0, cl_rx = cs0\<rparr>"

abbreviation (input) MAX_CLIENTS :: nat where "MAX_CLIENTS \<equiv> 4"

record media_job =
  mj_id :: nat
  mj_url0 :: bytes
  mj_url1 :: bytes
  mj_announce :: bool
  mj_conv :: bool
  mj_media :: bool
  mj_fd :: int

record esp =
  clients :: "client list"
  va_fd :: int
  cancelled :: nat
  tts_expected :: bool
  tts_url :: bytes
  announcing :: bool
  media_playing :: bool
  media_busy :: bool
  media_cur :: "media_job option"
  media_jobs :: nat
  aborted :: "nat list"
  api_key :: bytes
  have_key :: bool
  key_file :: "bytes option"
  key_disk_ok :: bool
  last_heard :: bytes
  last_reply :: bytes
  ha_wall_off :: int
  ha_wall_set :: bool
  time_asked :: int
  ble_mode :: u64
  bt_next :: bytes
  bt_next_ms :: int
  bt_asked_ms :: int
  bt_free_ms :: int
  wrote :: "(int \<times> bytes) list"
  down :: "int list"
  calls :: "call list"

definition esp0 :: "bytes option \<Rightarrow> esp" where
  "esp0 f = \<lparr>clients = replicate MAX_CLIENTS client0, va_fd = -1, cancelled = 0, tts_expected = False, tts_url = [],
     announcing = False, media_playing = False, media_busy = False, media_cur = None, media_jobs = 0, aborted = [],
     api_key = zero32, have_key = False, key_file = f, key_disk_ok = True, last_heard = [], last_reply = [],
     ha_wall_off = 0, ha_wall_set = False, time_asked = 0, ble_mode = 1, bt_next = [], bt_next_ms = 0,
     bt_asked_ms = 0, bt_free_ms = 0, wrote = [], down = [], calls = []\<rparr>"

definition ask :: "string \<Rightarrow> arg list \<Rightarrow> esp \<Rightarrow> esp" where
  "ask f xs s = s\<lparr>calls := calls s @ [Call f xs]\<rparr>"

definition flag :: "bool \<Rightarrow> arg" where "flag b = Num (if b then 1 else 0)"

definition upd_client :: "nat \<Rightarrow> (client \<Rightarrow> client) \<Rightarrow> esp \<Rightarrow> esp" where
  "upd_client i f s = s\<lparr>clients := (clients s)[i := f (clients s ! i)]\<rparr>"

section \<open>Frames\<close>

definition build :: "nat \<Rightarrow> (pb \<Rightarrow> pb) list \<Rightarrow> pb" where
  "build n fs = foldl (\<lambda>b f. f b) (PB n) fs"

definition client_of :: "int \<Rightarrow> esp \<Rightarrow> nat option" where
  "client_of fd s = find (\<lambda>i. 0 \<le> fd \<and> cl_fd (clients s ! i) = fd) [0..<MAX_CLIENTS]"

text \<open>\<open>write_all\<close> on a client's socket: \<open>False\<close> where it fails.\<close>

definition put_fd :: "int \<Rightarrow> bytes \<Rightarrow> esp \<Rightarrow> bool \<times> esp" where
  "put_fd fd d s = (if fd \<in> set (down s) then (False, s) else (True, s\<lparr>wrote := wrote s @ [(fd, d)]\<rparr>))"

definition write_frame :: "int \<Rightarrow> bytes \<Rightarrow> esp \<Rightarrow> bool \<times> esp" where
  "write_frame fd d s = (let len = length d in
     if 0xffff < len then (False, s) else put_fd fd ([1, of_nat (len div 256), of_nat len] @ d) s)"

definition send_to :: "noise_crypto \<Rightarrow> int \<Rightarrow> u32 \<Rightarrow> bytes \<Rightarrow> esp \<Rightarrow> esp" where
  "send_to C fd type b s = (if fd < 0 then s else
     let n = length b;
         (ok, s) = (case client_of fd s of
           Some c \<Rightarrow>
             if cl_enc (clients s ! c) then
               (if 4 + 8192 < 4 + n then (True, s) else
                let pt = [ucast (drop_bit 8 type), ucast type, of_nat (n div 256), of_nat n] @ b;
                    (ct, tx) = noise_encrypt C pt (cl_tx (clients s ! c))
                in write_frame fd ct (upd_client c (cl_tx_update (\<lambda>_. tx)) s))
             else put_fd fd (pb_p (build 12 [pb_raw [0], pb_varint (of_nat n), pb_varint (ucast type)]) @ b) s
         | None \<Rightarrow> put_fd fd (pb_p (build 12 [pb_raw [0], pb_varint (of_nat n), pb_varint (ucast type)]) @ b) s)
     in if ok then s else ask ''shutdown'' [Num fd] s)"

text \<open>\<open>for (i = 0; i < MAX_CLIENTS; i++) if (clients[i].fd >= 0 && ...) send_to(...)\<close>\<close>

definition send_each :: "noise_crypto \<Rightarrow> (client \<Rightarrow> bool) \<Rightarrow> u32 \<Rightarrow> bytes \<Rightarrow> esp \<Rightarrow> esp" where
  "send_each C P type b s = fold (\<lambda>i s. let c = clients s ! i in
     if 0 \<le> cl_fd c \<and> P c then send_to C (cl_fd c) type b s else s) [0..<MAX_CLIENTS] s"

definition send_va :: "noise_crypto \<Rightarrow> u32 \<Rightarrow> bytes \<Rightarrow> esp \<Rightarrow> esp" where
  "send_va C type b s = send_to C (va_fd s) type b s"

definition send_state :: "noise_crypto \<Rightarrow> u32 \<Rightarrow> bytes \<Rightarrow> esp \<Rightarrow> esp" where
  "send_state C type b s = send_each C cl_states type b s"

section \<open>The encryption key\<close>

text \<open>\<open>fgets\<close> of the key file's first line, up to its line end.\<close>

definition key_line :: "bytes \<Rightarrow> bytes" where
  "key_line t = takeWhile (\<lambda>c. c \<noteq> 13 \<and> c \<noteq> 10) (cstr (fit 128 t))"

definition key_load :: "esp \<Rightarrow> esp" where
  "key_load s = (case key_file s of None \<Rightarrow> s\<lparr>have_key := False\<rparr>
   | Some t \<Rightarrow> (case b64_decode (key_line t) 32 of
       Some raw \<Rightarrow> if length raw = 32 then s\<lparr>api_key := raw, have_key := True\<rparr> else s\<lparr>have_key := False\<rparr>
     | None \<Rightarrow> s\<lparr>have_key := False\<rparr>))"

text \<open>
  \<open>statefile_commit\<close> puts the text in place of the file or leaves it (\<open>key_disk_ok\<close>).
\<close>

definition key_set :: "bytes \<Rightarrow> esp \<Rightarrow> bool \<times> esp" where
  "key_set k s = (
     if k = [] then
       (if key_file s \<noteq> None \<and> \<not> key_disk_ok s then (False, s)
        else (True, ask ''mdns_refresh'' [] (s\<lparr>key_file := None, api_key := zero32, have_key := False\<rparr>)))
     else if 64 \<le> length k then (False, s)
     else case b64_decode k 32 of
       Some raw \<Rightarrow>
         if length raw \<noteq> 32 then (False, s)
         else if \<not> key_disk_ok s then (False, s)
         else (True, ask ''mdns_refresh'' [] (s\<lparr>key_file := Some (cstr k @ [10]), api_key := raw, have_key := True\<rparr>))
     | None \<Rightarrow> (False, s))"

section \<open>Home Assistant's time\<close>

definition ha_time :: "world \<Rightarrow> u32 \<Rightarrow> esp \<Rightarrow> bool \<times> esp" where
  "ha_time w epoch s = (let off = uint epoch * 1000 - w_now w in
     if ha_wall_set s \<and> \<bar>off - ha_wall_off s\<bar> < 2000 then (False, s)
     else (True, s\<lparr>ha_wall_off := off, ha_wall_set := True\<rparr>))"

definition TIME_ASK_MS :: int where "TIME_ASK_MS = 6 * 3600 * 1000"

definition ask_time :: "noise_crypto \<Rightarrow> world \<Rightarrow> int \<Rightarrow> nat option \<Rightarrow> bool \<Rightarrow> esp \<Rightarrow> esp" where
  "ask_time C w fd c force s = (
     if c = None \<or> \<not> force \<and> time_asked s \<noteq> 0 \<and> w_now w - time_asked s < TIME_ASK_MS then s
     else send_to C fd GET_TIME_REQ [] (s\<lparr>time_asked := w_now w\<rparr>))"

section \<open>What is listed, and settings\<close>

definition listed :: "world \<Rightarrow> u32 \<Rightarrow> bool" where
  "listed w k = (
     if k \<in> set [KEY_MIC_LEVEL, KEY_DENOISE, KEY_BT_ANNOUNCE, KEY_BT_LANG, KEY_ADB_WIFI, KEY_ARB_JOIN, KEY_SS_UNPAIRED,
          KEY_SOUND_DETECTION, KEY_WIFI_MOTION_ON, KEY_SOC_TEMP, KEY_CPU_USAGE] then False
     else if k = KEY_SENDSPIN_TOKEN then w_sendspin w
     else if k = KEY_SOUND then w_on w ''sound_detection''
     else if k = KEY_WAKE then w_on w ''wake_events''
     else if k = KEY_LAST_HEARD \<or> k = KEY_LAST_REPLY then w_on w ''request_text''
     else if k = KEY_BT_PAIRING then w_ble w \<and> w_on w ''bluetooth_audio''
     else if k \<in> set [KEY_BT_OUT_SEARCH, KEY_BT_OUT, KEY_BT_OUT_STATUS, KEY_BT_OUT_DELAY] then w_ble w \<and> w_on w ''bluetooth_speaker''
     else if k = KEY_ARB_PEERS then w_arb w \<and> w_on w ''arbitration''
     else if k = KEY_ARB_SERVICE then w_arb w
     else if k = KEY_WHISPERED then w_whisper_model w \<and> w_on w ''whisper_detection''
     else if k = KEY_WIFI_MOTION \<or> k = KEY_WIFI_MOTION_SENS then w_wifimotion w \<and> w_on w ''wifi_motion''
     else if k = KEY_LED_AUTO then w_have_auto w
     else if k = KEY_LUX then w_have_light w \<and> w_on w ''light_sensor''
     else if k = KEY_LIGHT then w_ring_custom w
     else if k \<in> set [KEY_RING_FILL, KEY_RING_ROTATION, KEY_RING_LEDS] then w_ring_per_led w
     else if k = KEY_CALL_VOLUME \<and> \<not> (w_dropin w \<and> w_on w ''drop_in'') then False
     else if k \<in> set [KEY_CALL_VOLUME, KEY_ASSIST_VOLUME, KEY_SOUNDS_VOLUME, KEY_TIMER_VOLUME] then
       w_on w ''separate_volumes'' \<and> \<not> w_linked w (unat (k - KEY_ASSIST_VOLUME))
     else if k \<in> set [KEY_DROPIN_SERVICE, KEY_DROPIN_STATE, KEY_DROPIN_PEER, KEY_DROPIN_END, KEY_DROPIN_RESULT] then
       w_dropin w \<and> w_on w ''drop_in''
     else True)"

definition send_setting :: "world \<Rightarrow> u32 \<Rightarrow> esp \<Rightarrow> esp" where
  "send_setting w k s = (if listed w k then ask ''send_setting'' [Num (uint k)] s else s)"

text \<open>\<open>num < lo ? lo : num > hi ? hi : (int)lroundf(num)\<close>: rounding and cutting off commute for whole bounds.\<close>

definition clamp :: "int \<Rightarrow> int \<Rightarrow> int \<Rightarrow> int" where
  "clamp lo hi v = max lo (min hi v)"

text \<open>What the loop over a setting's command gathers: key, number, switch, option.\<close>

definition setting_field :: "pbf \<Rightarrow> u32 \<times> u32 \<times> bool \<times> bytes \<Rightarrow> u32 \<times> u32 \<times> bool \<times> bytes" where
  "setting_field f = (\<lambda>(key, num, on, opt).
     if pf_field f = 1 then (ucast (pf_v f), num, on, opt)
     else if pf_field f = 2 \<and> pf_wire f = 5 then (key, ucast (pf_v f), on, opt)
     else if pf_field f = 2 \<and> pf_wire f = 0 then (key, num, pf_v f \<noteq> 0, opt)
     else if pf_field f = 2 \<and> pf_data f \<noteq> None then (key, num, on, pbf_str f 32)
     else (key, num, on, opt))"

definition denoise_names :: "bytes list" where
  "denoise_names = map ascii [''Off'', ''Low'', ''Medium'', ''High'']"

text \<open>\<open>for (i ...) if (!strcmp(opt, names[i])) f(i)\<close>\<close>

definition ask_named :: "string \<Rightarrow> bytes \<Rightarrow> bytes list \<Rightarrow> esp \<Rightarrow> esp" where
  "ask_named f opt names s = fold (\<lambda>i s. if opt = names ! i then ask f [Num (int i)] s else s) [0..<length names] s"

definition volume_names :: "bytes list" where
  "volume_names = map ascii [''assistant_volume'', ''sounds_volume'', ''timer_volume'', ''call_volume'']"

definition on_setting :: "world \<Rightarrow> int \<Rightarrow> u32 \<Rightarrow> bytes \<Rightarrow> esp \<Rightarrow> esp" where
  "on_setting w fd type p s = (case fold setting_field (pb_fields p) (0, 0, False, []) of (key, num, on, opt) \<Rightarrow>
     let sel = (type = SELECT_COMMAND); nr = (type = NUMBER_COMMAND); sw = (type = SWITCH_COMMAND);
         v = w_lroundf w num;
         saved = (\<lambda>s. send_setting w key (ask ''settings_save'' [] s)) in
     if sel \<and> key = KEY_DENOISE then saved (ask_named ''core_mic_denoise'' opt denoise_names s)
     else if sel \<and> key = KEY_BT_LANG then saved (ask_named ''settings_bt_lang_index'' opt (w_langs w) s)
     else if nr \<and> key = KEY_MIC_LEVEL then ask ''settings_set'' [Text (ascii ''mic_level''), Num (clamp (-35) (-15) v)] s
     else if sw \<and> key = KEY_MUTE then saved (ask ''core_soft_mute'' [flag on] s)
     else if sw \<and> key = KEY_WAKE_SOUND then saved (ask ''core_wake_sound'' [flag on] s)
     else if sw \<and> key = KEY_BT_ANNOUNCE then saved (ask ''core_bt_announce'' [flag on] s)
     else if sw \<and> key = KEY_DND then saved (ask ''core_dnd'' [flag on] s)
     else if sw \<and> key = KEY_BT_PAIRING then ask ''a2dp_pair'' [flag on] s
     else if sw \<and> key = KEY_BT_OUT_SEARCH \<and> w_ble w then ask ''a2dp_out_search'' [flag on] s
     else if sw \<and> key = KEY_BT_OUT \<and> w_ble w then send_setting w key (ask ''a2dp_out_enable'' [flag on] s)
     else if nr \<and> key = KEY_BT_OUT_DELAY \<and> w_ble w then send_setting w key (ask ''a2dp_out_delay'' [Num (max 0 v)] s)
     else if sw \<and> key = KEY_ARB_JOIN \<and> w_arb w then send_setting w key (ask ''arb_arbitrate'' [flag on] s)
     else if sw \<and> key = KEY_SS_UNPAIRED \<and> w_sendspin w then send_setting w key (ask ''sendspin_unpaired'' [flag on] s)
     else if sw \<and> key = KEY_ADB_WIFI then
       (let ok = (\<not> on \<or> (case client_of fd s of None \<Rightarrow> False | Some c \<Rightarrow> cl_keyed (clients s ! c)))
        in send_setting w key (if ok then ask ''adbwifi_ask'' [flag on] s else s))
     else if sw \<and> key = KEY_SOUND_DETECTION then saved (ask ''core_sound'' [flag on] s)
     else if sw \<and> key = KEY_WIFI_MOTION_ON \<and> w_wifimotion w then saved (ask ''wifimotion_enable'' [flag on] s)
     else if nr \<and> key = KEY_WIFI_MOTION_SENS \<and> w_wifimotion w then saved (ask ''wifimotion_sensitivity'' [Num v] s)
     else if sw \<and> key = KEY_LED_AUTO \<and> w_have_auto w then saved (ask ''core_led_auto'' [flag on] s)
     else if nr \<and> key = KEY_LED_BRIGHTNESS then
       send_setting w key (send_setting w KEY_LED_AUTO (ask ''settings_save'' [] (ask ''core_led_brightness'' [Num (max 0 v)] s)))
     else if nr \<and> KEY_ASSIST_VOLUME \<le> key \<and> key \<le> KEY_CALL_VOLUME \<and> listed w key then
       ask ''settings_set'' [Text (volume_names ! unat (key - KEY_ASSIST_VOLUME)), Num (clamp 0 100 v)] s
     else if nr \<and> key = KEY_RING_FILL \<and> listed w key then
       send_setting w key (ask ''ring_light_set.fill'' [Num (clamp 0 100 v)] s)
     else if nr \<and> key = KEY_RING_ROTATION \<and> listed w key then
       ask ''settings_set'' [Text (ascii ''ring_rotation''), Num (max 0 v)] s
     else if nr \<and> KEY_EQ_BASS \<le> key \<and> key \<le> KEY_EQ_TREBLE then
       send_setting w key (ask ''core_set_eq'' [Num (uint (key - KEY_EQ_BASS)), Num v] s)
     else s)"

section \<open>Media\<close>

definition send_mp_state :: "noise_crypto \<Rightarrow> world \<Rightarrow> esp \<Rightarrow> esp" where
  "send_mp_state C w s = send_state C MEDIA_PLAYER_STATE
     (pb_p (build 32 [pb_fixed32 1 1, pb_uint 2 (if media_playing s then 2 else 1), pb_float 3 (w_volume w)])) s"

definition announce_finished :: "noise_crypto \<Rightarrow> bool \<Rightarrow> esp \<Rightarrow> esp" where
  "announce_finished C ok s = send_va C VA_ANNOUNCE_FINISHED (pb_p (build 8 [pb_uint 1 (if ok then 1 else 0)])) s"

definition announce_done :: "world \<Rightarrow> esp \<Rightarrow> esp" where
  "announce_done w s = s\<lparr>bt_asked_ms := 0, bt_free_ms := w_now w + 1000\<rparr>"

definition media_start :: "noise_crypto \<Rightarrow> world \<Rightarrow> bytes \<Rightarrow> bytes \<Rightarrow> bool \<Rightarrow> bool \<Rightarrow> bool \<Rightarrow> bool \<Rightarrow> esp \<Rightarrow> esp" where
  "media_start C w url0 url1 announce conv is_reply media s = (
     if media_busy s then (if announce then announce_finished C False s else s)
     else
       let s = s\<lparr>media_busy := True\<rparr>;
           s = (if \<not> is_reply \<and> (w_state w = LISTENING \<or> w_state w = THINKING) then ask ''core_pipeline_finish'' [] s else s);
           job = \<lparr>mj_id = media_jobs s, mj_url0 = fit 1024 url0, mj_url1 = fit 1024 url1, mj_announce = announce,
                  mj_conv = conv, mj_media = media, mj_fd = -1\<rparr>;
           s = s\<lparr>media_cur := Some job, media_jobs := media_jobs s + 1, announcing := announce, media_playing := True\<rparr>;
           s = send_mp_state C w s
       in ask ''media_thread'' [Num (int (mj_id job))] s)"

text \<open>
  The end of \<open>media_thread\<close>: nothing of the job played (\<open>began\<close>), or it did and \<open>played\<close> follows; \<open>ok\<close>: the
  second URL was played.
\<close>

definition media_end :: "noise_crypto \<Rightarrow> world \<Rightarrow> media_job \<Rightarrow> bool \<Rightarrow> bool \<Rightarrow> esp \<Rightarrow> esp" where
  "media_end C w job began ok s = (
     if mj_id job \<in> set (aborted s) then (if began then ask ''core_tts_abandoned'' [] s else s)
     else
       let s = (if map_option mj_id (media_cur s) = Some (mj_id job) then s\<lparr>media_cur := None\<rparr> else s);
           s = (if mj_announce job \<and> mj_conv job \<and> ok then ask ''core_restart_after'' [] s else s);
           s = (if mj_announce job \<and> \<not> began
                then announce_done w ((announce_finished C False s)\<lparr>announcing := False\<rparr>) else s);
           s = (if \<not> began then (ask ''core_pipeline_finish'' [] (send_mp_state C w (s\<lparr>media_playing := False\<rparr>)))\<lparr>media_busy := False\<rparr>
                else s)
       in if began then ask ''core_tts_end'' [] s else s)"

definition played :: "noise_crypto \<Rightarrow> world \<Rightarrow> esp \<Rightarrow> esp" where
  "played C w s = (
     let s = (if announcing s then announce_done w ((announce_finished C True s)\<lparr>announcing := False\<rparr>) else s);
         s = (if media_playing s then send_mp_state C w (s\<lparr>media_playing := False\<rparr>) else s)
     in s\<lparr>media_busy := False, tts_expected := False\<rparr>)"

section \<open>Spoken Bluetooth messages\<close>

definition pb_map :: "u64 \<Rightarrow> bytes \<Rightarrow> bytes \<Rightarrow> pb \<Rightarrow> pb" where
  "pb_map f k v b = pb_bytes f (pb_p (build 400 [pb_str 1 k, pb_str 2 v])) b"

definition takes_actions :: "esp \<Rightarrow> bool" where
  "takes_actions s = list_ex (\<lambda>c. 0 \<le> cl_fd c \<and> cl_actions c) (clients s)"

definition bt_template :: "world \<Rightarrow> bytes" where
  "bt_template w = ascii ''{% for e in integration_entities('' @ [39] @ ascii ''esphome'' @ [39] @
     ascii '') if e.startswith('' @ [39] @ ascii ''assist_satellite.'' @ [39] @ ascii '') and ('' @ [39] @ ascii ''mac'' @ [39] @
     ascii '', '' @ [39] @ map (\<lambda>c. if 0x41 \<le> c \<and> c \<le> 0x5a then c + 32 else c) (w_mac w) @ [39] @
     ascii '') in (device_attr(e, '' @ [39] @ ascii ''connections'' @ [39] @ ascii '') or []) %}{{ e }}{% endfor %}''"

definition bt_ask :: "noise_crypto \<Rightarrow> world \<Rightarrow> bytes \<Rightarrow> esp \<Rightarrow> esp" where
  "bt_ask C w m s = (
     let b = build 1024 [pb_str 1 (ascii ''assist_satellite.announce''), pb_map 2 (ascii ''message'') m,
           pb_map 3 (ascii ''entity_id'') (bt_template w), pb_map 3 (ascii ''preannounce'') (ascii ''{{ false }}'')];
         n = takes_actions s;
         s = send_each C cl_actions HA_ACTION (pb_p b) s
     in if n then s\<lparr>bt_asked_ms := w_now w\<rparr> else s)"

definition bt_try :: "noise_crypto \<Rightarrow> world \<Rightarrow> esp \<Rightarrow> esp" where
  "bt_try C w s = (let now = w_now w in
     if bt_next s = [] \<or> announcing s \<or> now < bt_free_ms s \<or> bt_asked_ms s \<noteq> 0 \<and> now - bt_asked_ms s < 15000 then s
     else (if now - bt_next_ms s < 30000 then bt_ask C w (bt_next s) s else s)\<lparr>bt_next := []\<rparr>)"

text \<open>\<open>bt_device\<close>: the text is the language's with the device's name in it.\<close>

definition bt_device :: "noise_crypto \<Rightarrow> world \<Rightarrow> bytes \<Rightarrow> esp \<Rightarrow> esp" where
  "bt_device C w txt s = bt_try C w (s\<lparr>bt_next := fit 160 txt, bt_next_ms := w_now w\<rparr>)"

section \<open>A voice run, as the core asks for it\<close>

definition start :: "noise_crypto \<Rightarrow> world \<Rightarrow> esp \<Rightarrow> esp" where
  "start C w s = (
     let s = s\<lparr>tts_expected := False, tts_url := [], cancelled := (if cancelled s \<noteq> 0 then 2 else 0)\<rparr>;
         settings = pb_p (build 8 [pb_float 3 0x3f800000]);
         b = build 96 [pb_uint 1 1, pb_uint 3 (if w_local_wake w then 1 else 3),
           pb_varint (push_bit 3 4 OR 2), pb_varint (of_nat (length settings)), pb_raw settings,
           (if w_local_wake w \<and> w_wake_phrase w \<noteq> [] then pb_str 5 (w_wake_phrase w) else id)]
     in send_va C VA_REQUEST (pb_p b) s)"

text \<open>\<open>audio\<close>: the microphone's bytes in pieces of 4096.\<close>

function audio :: "noise_crypto \<Rightarrow> bytes \<Rightarrow> esp \<Rightarrow> esp" where
  "audio C pcm s = (if pcm = [] then s
     else audio C (drop 4096 pcm) (send_va C VA_AUDIO (pb_p (build (4096 + 16) [pb_bytes 1 (take 4096 pcm)])) s))"
  by auto
termination by (relation "measure (\<lambda>(C, pcm, s). length pcm)") auto

declare audio.simps [simp del]

definition end_audio :: "noise_crypto \<Rightarrow> esp \<Rightarrow> esp" where
  "end_audio C s = send_va C VA_AUDIO (pb_p (build 8 [pb_uint 2 1])) s"

definition stop :: "noise_crypto \<Rightarrow> esp \<Rightarrow> esp" where
  "stop C s = send_va C VA_REQUEST [] (send_va C VA_AUDIO (pb_p (build 8 [pb_uint 2 1])) s)"

definition cancel :: "noise_crypto \<Rightarrow> world \<Rightarrow> esp \<Rightarrow> esp" where
  "cancel C w s = (
     let s = (send_va C VA_REQUEST [] s)\<lparr>cancelled := 1\<rparr> in
     case media_cur s of None \<Rightarrow> s
     | Some job \<Rightarrow>
       if \<not> tts_expected s then s
       else
         let s = s\<lparr>aborted := mj_id job # aborted s\<rparr>;
             s = (if 0 \<le> mj_fd job then ask ''shutdown'' [Num (mj_fd job)] s else s);
             s = send_mp_state C w (s\<lparr>media_cur := None, media_playing := False\<rparr>)
         in s\<lparr>media_busy := False\<rparr>)"

definition reply_cut :: "esp \<Rightarrow> esp" where
  "reply_cut s = (case media_cur s of Some job \<Rightarrow> if 0 \<le> mj_fd job then ask ''shutdown'' [Num (mj_fd job)] s else s | None \<Rightarrow> s)"

section \<open>Events of a run\<close>

definition entity_event :: "noise_crypto \<Rightarrow> u32 \<Rightarrow> bytes \<Rightarrow> esp \<Rightarrow> esp" where
  "entity_event C k ev s = send_state C EVENT (pb_p (build 64 [pb_fixed32 1 k, pb_str 2 ev])) s"

definition wake_event :: "noise_crypto \<Rightarrow> world \<Rightarrow> bytes \<Rightarrow> esp \<Rightarrow> esp" where
  "wake_event C w ev s = (if listed w KEY_WAKE then entity_event C KEY_WAKE ev s else s)"

definition sound :: "noise_crypto \<Rightarrow> world \<Rightarrow> bytes \<Rightarrow> esp \<Rightarrow> esp" where
  "sound C w ev s = (if listed w KEY_SOUND then entity_event C KEY_SOUND ev s else s)"

definition button_event :: "noise_crypto \<Rightarrow> bytes \<Rightarrow> esp \<Rightarrow> esp" where
  "button_event C ev s = entity_event C KEY_BUTTON ev s"

definition dropin_result :: "noise_crypto \<Rightarrow> world \<Rightarrow> bytes \<Rightarrow> esp \<Rightarrow> esp" where
  "dropin_result C w r s = (if listed w KEY_DROPIN_RESULT then entity_event C KEY_DROPIN_RESULT r s else s)"

text \<open>
  What \<open>on_event\<close> gathers: the type, the texts for the log (\<open>text\<close>), what was said, the error's code, whether
  to go on listening, whether to stream, and the reply's URL where one came.
\<close>

record event_msg =
  em_type :: u32
  em_text :: bytes
  em_said :: bytes
  em_code :: bytes
  em_cont :: bool
  em_stream :: bool
  em_url :: "bytes option"

definition event_pair :: "bytes \<Rightarrow> bytes \<times> bytes" where
  "event_pair d = fold (\<lambda>g (k, v).
     if pf_field g = 1 \<and> pf_data g \<noteq> None then (pbf_str g 48, v)
     else if pf_field g = 2 \<and> pf_data g \<noteq> None then (k, pbf_str g 1024) else (k, v)) (pb_fields d) ([], [])"

definition event_field :: "pbf \<Rightarrow> event_msg \<Rightarrow> event_msg" where
  "event_field f m = (
     if pf_field f = 1 then m\<lparr>em_type := ucast (pf_v f)\<rparr>
     else if pf_field f = 2 \<and> pf_wire f = 2 then
       (case event_pair (the (pf_data f)) of (k, v) \<Rightarrow>
         let m = (if k \<in> set (map ascii [''text'', ''message'', ''code'']) then m\<lparr>em_text := fit 512 (em_text m @ v @ [32])\<rparr> else m);
             m = (if k = ascii ''code'' then m\<lparr>em_code := fit 48 v\<rparr> else m);
             m = (if k = ascii ''text'' then m\<lparr>em_said := v\<rparr> else m);
             m = (if k = ascii ''continue_conversation'' \<and> v = ascii ''1'' then m\<lparr>em_cont := True\<rparr> else m);
             m = (if k = ascii ''tts_start_streaming'' \<and> v = ascii ''1'' then m\<lparr>em_stream := True\<rparr> else m)
         in if k = ascii ''url'' then m\<lparr>em_url := Some v\<rparr> else m)
     else m)"

definition event_read :: "bytes \<Rightarrow> event_msg" where
  "event_read p = fold event_field (pb_fields p)
     \<lparr>em_type = 0, em_text = [], em_said = [], em_code = [], em_cont = False, em_stream = False, em_url = None\<rparr>"

definition thinking :: "world \<Rightarrow> esp \<Rightarrow> esp" where
  "thinking w s = (let s = ask ''core_mic_off'' [] s in
     if w_state w = LISTENING then ask ''core_set_state'' [Text (ascii ''THINKING'')] s else s)"

definition last_texts :: "world \<Rightarrow> event_msg \<Rightarrow> esp \<Rightarrow> esp" where
  "last_texts w m s = (
     let t = em_type m; fresh = (if w_local_wake w then t = EV_RUN_START else t = EV_WAKE_END) in
     if listed w KEY_LAST_HEARD \<and> (fresh \<or> t = EV_STT_END \<or> t = EV_TTS_START) then
       let s = (if t \<noteq> EV_TTS_START then send_setting w KEY_LAST_HEARD
                  (s\<lparr>last_heard := state_text 1024 (if t = EV_STT_END then em_said m else [])\<rparr>) else s)
       in if t \<noteq> EV_STT_END then send_setting w KEY_LAST_REPLY
            (s\<lparr>last_reply := state_text 1024 (if t = EV_TTS_START then em_said m else [])\<rparr>) else s
     else s)"

definition DUPLICATE :: bytes where "DUPLICATE = ascii ''duplicate_wake_up_detected''"

definition run_error :: "noise_crypto \<Rightarrow> world \<Rightarrow> bytes \<Rightarrow> esp \<Rightarrow> esp" where
  "run_error C w code s = (
     let s = ask ''core_wake_run_ended'' [flag (code \<noteq> DUPLICATE)] s in
     if w_wake_run w then
       (let s = (if code = DUPLICATE then wake_event C w (ascii ''answered_elsewhere'') s else s)
        in ask ''core_run_over'' [] (s\<lparr>cancelled := 1\<rparr>))
     else
       let s = s\<lparr>tts_expected := False\<rparr> in
       if code = DUPLICATE then ask ''core_pipeline_finish'' [] (wake_event C w (ascii ''answered_elsewhere'') s)
       else if code = ascii ''stt-no-text-recognized'' then ask ''core_no_speech'' [] s
       else ask ''core_error'' [] s)"

definition on_event :: "noise_crypto \<Rightarrow> world \<Rightarrow> bytes \<Rightarrow> esp \<Rightarrow> esp" where
  "on_event C w p s = (
     let m = event_read p; t = em_type m;
         s = (case em_url m of Some u \<Rightarrow> s\<lparr>tts_url := u\<rparr> | None \<Rightarrow> s) in
     if cancelled s = 1 \<or> cancelled s = 2 \<and> t \<noteq> EV_RUN_START \<and> t \<noteq> EV_ERROR then s
     else
       let s = (if t = EV_RUN_START \<or> t = EV_ERROR then s\<lparr>cancelled := 0\<rparr> else s);
           s = last_texts w m s in
       if t = EV_WAKE_END then ask ''core_remote_wake'' [] s
       else if t = EV_STT_START then ask ''core_set_state'' [Text (ascii ''LISTENING'')] s
       else if t = EV_VAD_END then thinking w s
       else if t = EV_STT_END then
         (let s = ask ''core_transcript'' [Text (em_text m)] s in if w_transcript w then s else thinking w s)
       else if t = EV_INTENT_END then (if em_cont m then ask ''core_restart_after'' [] s else s)
       else if t = EV_INTENT_PROGRESS \<and> em_stream m \<or> t = EV_TTS_END then
         (if \<not> tts_expected s \<and> tts_url s \<noteq> []
          then media_start C w [] (tts_url s) True False True False (ask ''core_mic_off'' [] (s\<lparr>tts_expected := True\<rparr>)) else s)
       else if t = EV_RUN_END then
         (if \<not> tts_expected s \<and> w_state w \<noteq> SPEAKING then ask ''core_pipeline_finish'' [] s
          else ask ''core_run_over'' [] (ask ''core_wake_run_ended'' [flag True] s))
       else if t = EV_ERROR then run_error C w (em_code m) s
       else s)"

section \<open>Timers, announcements, the media player\<close>

definition timer_field :: "pbf \<Rightarrow> u32 \<times> u32 \<times> u32 \<times> bool \<times> bytes \<times> bytes \<Rightarrow> u32 \<times> u32 \<times> u32 \<times> bool \<times> bytes \<times> bytes" where
  "timer_field f = (\<lambda>(type, secs, left, active, tname, tid).
     if pf_field f = 1 then (ucast (pf_v f), secs, left, active, tname, tid)
     else if pf_field f = 2 \<and> pf_data f \<noteq> None then (type, secs, left, active, tname, pbf_str f 40)
     else if pf_field f = 3 \<and> pf_data f \<noteq> None then (type, secs, left, active, pbf_str f 64, tid)
     else if pf_field f = 4 then (type, ucast (pf_v f), left, active, tname, tid)
     else if pf_field f = 5 then (type, secs, ucast (pf_v f), active, tname, tid)
     else if pf_field f = 6 then (type, secs, left, pf_v f \<noteq> 0, tname, tid)
     else (type, secs, left, active, tname, tid))"

definition on_timer :: "bytes \<Rightarrow> esp \<Rightarrow> esp" where
  "on_timer p s = (case fold timer_field (pb_fields p) (0, 0, 0, False, [], []) of (type, secs, left, active, tname, tid) \<Rightarrow>
     if type = 3 then ask ''core_timer_finished'' [Text tid, Text tname, Num (uint secs)] s
     else if type = 2 then ask ''core_timer_cancelled'' [Text tid] s
     else if type < 2 then ask ''core_timer_running'' [Text tid, Text tname, Num (uint secs), Num (uint left), flag active] s
     else s)"

definition announce_field :: "pbf \<Rightarrow> bytes \<times> bytes \<times> bool \<Rightarrow> bytes \<times> bytes \<times> bool" where
  "announce_field f = (\<lambda>(media, pre, conv).
     if pf_field f = 1 \<and> pf_data f \<noteq> None then (pbf_str f 1024, pre, conv)
     else if pf_field f = 3 \<and> pf_data f \<noteq> None then (media, pbf_str f 1024, conv)
     else if pf_field f = 4 then (media, pre, pf_v f \<noteq> 0)
     else (media, pre, conv))"

definition on_announce :: "noise_crypto \<Rightarrow> world \<Rightarrow> bytes \<Rightarrow> esp \<Rightarrow> esp" where
  "on_announce C w p s = (case fold announce_field (pb_fields p) ([], [], False) of (media, pre, conv) \<Rightarrow>
     if w_dnd w \<and> bt_asked_ms s = 0 then announce_finished C False s
     else media_start C w pre media True conv False False s)"

record mp_msg =
  mp_has_cmd :: bool
  mp_cmd :: u32
  mp_has_vol :: bool
  mp_vol :: u32
  mp_has_url :: bool
  mp_url :: bytes
  mp_announcement :: bool

definition mp_field :: "pbf \<Rightarrow> mp_msg \<Rightarrow> mp_msg" where
  "mp_field f m = (let k = pf_field f in
     if k = 2 then m\<lparr>mp_has_cmd := pf_v f \<noteq> 0\<rparr>
     else if k = 3 then m\<lparr>mp_cmd := ucast (pf_v f)\<rparr>
     else if k = 4 then m\<lparr>mp_has_vol := pf_v f \<noteq> 0\<rparr>
     else if k = 5 then m\<lparr>mp_vol := ucast (pf_v f)\<rparr>
     else if k = 6 then m\<lparr>mp_has_url := pf_v f \<noteq> 0\<rparr>
     else if k = 7 then (if pf_data f \<noteq> None then m\<lparr>mp_url := pbf_str f 1024\<rparr> else m)
     else if k = 9 then m\<lparr>mp_announcement := pf_v f \<noteq> 0\<rparr>
     else m)"

text \<open>The volume goes on as its float's bits: \<open>(int)(vol * 100 + 0.5f)\<close> is left to the receiver.\<close>

definition on_mp_command :: "noise_crypto \<Rightarrow> world \<Rightarrow> bytes \<Rightarrow> esp \<Rightarrow> esp" where
  "on_mp_command C w p s = (
     let m = fold mp_field (pb_fields p) \<lparr>mp_has_cmd = False, mp_cmd = 0, mp_has_vol = False, mp_vol = 0,
           mp_has_url = False, mp_url = [], mp_announcement = False\<rparr>;
         stop = (mp_has_cmd m \<and> mp_cmd m = 2);
         s = (if mp_has_vol m then ask ''core_set_volume'' [Bits (mp_vol m)] s else s);
         s = (if stop \<and> media_playing s then ask ''core_tts_flush'' [] s else s);
         s = (if stop then ask ''core_alarm_stop'' [Text (ascii ''media player stop'')] s else s);
         s = (if mp_has_url m \<and> mp_url m \<noteq> []
              then media_start C w [] (mp_url m) False False False (\<not> mp_announcement m) s else s)
     in if mp_has_cmd m \<and> \<not> mp_has_url m then send_mp_state C w s else s)"

section \<open>Bluetooth proxy\<close>

definition ble_subscribers :: "esp \<Rightarrow> nat" where
  "ble_subscribers s = length (filter (\<lambda>c. 0 \<le> cl_fd c \<and> cl_ble c) (clients s))"

definition ble_update :: "esp \<Rightarrow> esp" where
  "ble_update s = ask ''ble_scan'' [flag (0 < ble_subscribers s), flag (ble_mode s = 1)] s"

definition send_ble :: "noise_crypto \<Rightarrow> u32 \<Rightarrow> bytes \<Rightarrow> esp \<Rightarrow> esp" where
  "send_ble C type b s = send_each C cl_ble type b s"

definition send_scanner_state :: "noise_crypto \<Rightarrow> world \<Rightarrow> esp \<Rightarrow> esp" where
  "send_scanner_state C w s = send_ble C BLE_SCANNER_STATE
     (pb_p (build 16 [pb_uint 1 (if w_ble_scanning w then 2 else 0), pb_uint 2 (ble_mode s), pb_uint 3 (ble_mode s)])) s"

definition send_gatt :: "noise_crypto \<Rightarrow> u32 \<Rightarrow> bytes \<Rightarrow> esp \<Rightarrow> esp" where
  "send_gatt C type b s = send_each C (\<lambda>c. cl_ble c \<or> cl_ble_free c \<or> cl_ble_user c) type b s"

abbreviation (input) BLE_MAX_CONN :: nat where "BLE_MAX_CONN \<equiv> 3"

definition slots_msg :: "world \<Rightarrow> bytes" where
  "slots_msg w = (let n = length (w_ble_conns w) in
     pb_p (build 64 [pb_uint 1 (of_nat (BLE_MAX_CONN - n)), pb_uint 2 (of_nat BLE_MAX_CONN),
       (if n \<noteq> 0 then pb_bytes 3 (pb_p (build 40 (map pb_varint (w_ble_conns w)))) else id)]))"

definition send_slots :: "noise_crypto \<Rightarrow> world \<Rightarrow> int option \<Rightarrow> esp \<Rightarrow> esp" where
  "send_slots C w asker s = (case asker of
     Some fd \<Rightarrow> send_to C fd BLE_CONN_FREE (slots_msg w) s
   | None \<Rightarrow> send_each C cl_ble_free BLE_CONN_FREE (slots_msg w) s)"

definition ble_connection :: "noise_crypto \<Rightarrow> u64 \<Rightarrow> bool \<Rightarrow> u64 \<Rightarrow> u64 \<Rightarrow> esp \<Rightarrow> esp" where
  "ble_connection C addr connected mtu err s = send_gatt C BLE_CONNECTION
     (pb_p (build 32 [pb_uint 1 addr, pb_uint 2 (if connected then 1 else 0), pb_uint 3 mtu, pb_uint 4 err])) s"

definition ble_data :: "noise_crypto \<Rightarrow> u32 \<Rightarrow> u64 \<Rightarrow> u64 \<Rightarrow> bytes option \<Rightarrow> esp \<Rightarrow> esp" where
  "ble_data C type addr hdl d s = send_gatt C type
     (pb_p (build 600 [pb_uint 1 addr, pb_uint 2 hdl, (case d of Some x \<Rightarrow> pb_bytes 3 x | None \<Rightarrow> id)])) s"

definition ble_result :: "noise_crypto \<Rightarrow> u32 \<Rightarrow> u64 \<Rightarrow> u64 \<Rightarrow> u64 \<Rightarrow> esp \<Rightarrow> esp" where
  "ble_result C type addr a b s = send_gatt C type (pb_p (build 32 [pb_uint 1 addr, pb_uint 2 a, pb_uint 3 b])) s"

record ble_req =
  br_addr :: u64
  br_kind :: u32
  br_handle :: u32
  br_addr_type :: u32
  br_flag :: bool
  br_data :: "bytes option"

definition ble_field :: "u32 \<Rightarrow> pbf \<Rightarrow> ble_req \<Rightarrow> ble_req" where
  "ble_field type f r = (let k = pf_field f; v = pf_v f in
     if k = 1 then r\<lparr>br_addr := v\<rparr>
     else if k = 2 then (if type = BLE_DEVICE_REQ then r\<lparr>br_kind := ucast v\<rparr> else r\<lparr>br_handle := ucast v\<rparr>)
     else if k = 3 then (if type = BLE_WRITE_DESC_REQ \<and> pf_data f \<noteq> None then r\<lparr>br_data := pf_data f\<rparr> else r\<lparr>br_flag := v \<noteq> 0\<rparr>)
     else if k = 4 then (if type = BLE_DEVICE_REQ then r\<lparr>br_addr_type := ucast v\<rparr>
                         else if pf_data f \<noteq> None then r\<lparr>br_data := pf_data f\<rparr> else r)
     else r)"

definition on_ble_request :: "noise_crypto \<Rightarrow> int \<Rightarrow> u32 \<Rightarrow> bytes \<Rightarrow> esp \<Rightarrow> esp" where
  "on_ble_request C fd type p s = (
     let r = fold (ble_field type) (pb_fields p) \<lparr>br_addr = 0, br_kind = 0, br_handle = 0, br_addr_type = 0,
           br_flag = False, br_data = None\<rparr>;
         a = Num (uint (br_addr r)); h = Num (uint (br_handle r));
         d = Text (case br_data r of Some x \<Rightarrow> x | None \<Rightarrow> []) in
     if type = BLE_DEVICE_REQ then
       (if br_kind r = 1 then ask ''ble_disconnect'' [a] s
        else if br_kind r = 2 then ask ''ble_pair'' [a] s
        else if br_kind r = 3 then ask ''ble_unpair'' [a] s
        else if br_kind r = 6 then send_to C fd 88 (pb_p (build 24 [pb_uint 1 (br_addr r), pb_uint 2 1])) s
        else ask ''ble_connect'' [a, Num (uint (br_addr_type r))] s)
     else if type = BLE_SERVICES_REQ then ask ''ble_services'' [a] s
     else if type = BLE_READ_REQ \<or> type = BLE_READ_DESC_REQ then ask ''ble_read'' [a, h] s
     else if type = BLE_WRITE_REQ then ask ''ble_write'' [a, h, d, flag (br_flag r)] s
     else if type = BLE_WRITE_DESC_REQ then ask ''ble_write'' [a, h, d, flag True] s
     else if type = BLE_NOTIFY_REQ then
       send_to C fd 84 (pb_p (build 24 [pb_uint 1 (br_addr r), pb_uint 2 (ucast (br_handle r))])) s
     else s)"

section \<open>What the device says of itself\<close>

definition send_device_info :: "noise_crypto \<Rightarrow> world \<Rightarrow> int \<Rightarrow> esp \<Rightarrow> esp" where
  "send_device_info C w fd s = send_to C fd DEVICE_INFO_RESP (pb_p (build 512 [
     pb_str 2 (w_node w), pb_str 3 (w_mac w), pb_str 4 (ascii ''2025.5.0''), pb_str 5 (w_build w),
     pb_str 6 (w_model w), pb_str 8 (w_project w), pb_str 9 (w_version w),
     pb_str 12 (ascii ''Amazon''), pb_str 13 (w_name w), pb_uint 10 (w_web_port w),
     (if w_ble w then pb_str 18 (w_ble_mac w) \<circ> pb_uint 15 (1 OR 2 OR 4 OR 8 OR 32 OR 64) \<circ> pb_uint 11 5 else id),
     pb_uint 17 (1 OR 4 OR 8 OR 16 OR 32), pb_uint 19 1, pb_uint 26 (if have_key s then 0 else 1)])) s"

definition media_format :: "u64 \<Rightarrow> pb \<Rightarrow> pb" where
  "media_format purpose b = (
     let fmt = pb_p (build 48 [pb_str 1 (ascii ''wav''), pb_uint 2 48000, pb_uint 3 1, pb_uint 4 purpose, pb_uint 5 2])
     in pb_raw fmt (pb_varint (of_nat (length fmt)) (pb_varint (push_bit 3 9 OR 2) b)))"

definition send_entities :: "noise_crypto \<Rightarrow> int \<Rightarrow> esp \<Rightarrow> esp" where
  "send_entities C fd s = (
     let b = build 256 [pb_str 1 (ascii ''media_player''), pb_fixed32 2 1, pb_str 3 (ascii ''Media Player''),
           media_format 0, media_format 1]
     in send_to C fd LIST_ENTITIES_DONE [] (ask ''send_setting_entities'' [] (send_to C fd LIST_MEDIA_PLAYER (pb_p b) s)))"

definition send_va_config :: "noise_crypto \<Rightarrow> world \<Rightarrow> int \<Rightarrow> esp \<Rightarrow> esp" where
  "send_va_config C w fd s = (
     let word = (\<lambda>(i, n, l) b. let e = pb_p (build 192 [pb_str 1 i, pb_str 2 n, pb_str 3 l])
           in pb_raw e (pb_varint (of_nat (length e)) (pb_varint (push_bit 3 1 OR 2) b)));
         b = (if w_local_wake w then
                build 3072 (map word (w_wake_words w) @
                  map (\<lambda>i. pb_str 2 (fst (w_wake_words w ! i))) (if w_wake_words w = [] then [] else w_wake_active w) @
                  [pb_uint 3 (if 1 < w_wake_max w then w_wake_max w else 1)])
              else PB 3072)
     in send_to C fd VA_CONFIG_RESP (pb_p b) s)"

abbreviation (input) CORE_WAKE_ACTIVE_MAX :: nat where "CORE_WAKE_ACTIVE_MAX \<equiv> 2"

definition on_va_set_config :: "world \<Rightarrow> bytes \<Rightarrow> esp \<Rightarrow> esp" where
  "on_va_set_config w p s = (
     let ids = map (\<lambda>(i, _, _). i) (w_wake_words w);
         pick = fold (\<lambda>f pick.
           if pf_field f \<noteq> 1 \<or> pf_data f = None then pick
           else case find (\<lambda>i. ids ! i = pbf_str f 64) [0..<length ids] of
             None \<Rightarrow> pick
           | Some i \<Rightarrow> if length pick < CORE_WAKE_ACTIVE_MAX then pick @ [i] else pick) (pb_fields p) []
     in if pick \<noteq> [] then ask ''core_wake_set'' (map (\<lambda>i. Num (int i)) pick) s else s)"

section \<open>What arbitration and Drop In send through the API\<close>

text \<open>\<open>arb_send\<close>, \<open>arb_scan\<close>, \<open>arb_request\<close>: whether a client took it.\<close>

definition underscores :: "bytes \<Rightarrow> bytes" where
  "underscores b = map (\<lambda>c. if c = 0x2d then 0x5f else c) b"

definition arb_send :: "noise_crypto \<Rightarrow> bytes \<Rightarrow> bytes \<Rightarrow> bytes \<Rightarrow> esp \<Rightarrow> bool \<times> esp" where
  "arb_send C nd net k s = (takes_actions s, send_each C cl_actions HA_ACTION (pb_p (build 512 [
     pb_str 1 (underscores (fit 96 (ascii ''esphome.'' @ nd @ ascii ''_arbitration_key''))),
     pb_map 2 (ascii ''network'') net, pb_map 2 (ascii ''key'') k])) s)"

definition arb_scan :: "noise_crypto \<Rightarrow> bytes \<Rightarrow> esp \<Rightarrow> bool \<times> esp" where
  "arb_scan C tag s = (list_ex (\<lambda>c. 0 \<le> cl_fd c \<and> cl_actions c \<and> cl_keyed c) (clients s),
     send_each C (\<lambda>c. cl_actions c \<and> cl_keyed c) HA_ACTION (pb_p (build 160 [
       pb_str 1 (ascii ''esphome.tag_scanned''), pb_map 2 (ascii ''tag_id'') tag, pb_uint 5 1])) s)"

definition arb_request :: "noise_crypto \<Rightarrow> bytes \<Rightarrow> esp \<Rightarrow> bool \<times> esp" where
  "arb_request C entity s = (list_ex (\<lambda>c. 0 \<le> cl_fd c \<and> cl_ha_states c \<and> cl_keyed c) (clients s),
     send_each C (\<lambda>c. cl_ha_states c \<and> cl_keyed c) HA_STATE_SUB (pb_p (build 160 [pb_str 1 entity, pb_uint 3 1])) s)"

definition dropin_changed :: "noise_crypto \<Rightarrow> world \<Rightarrow> bytes \<Rightarrow> bytes \<Rightarrow> esp \<Rightarrow> esp" where
  "dropin_changed C w st peer s = (
     let s = (if listed w KEY_DROPIN_PEER
              then send_state C TEXT_SENSOR_STATE (pb_p (build 128 [pb_fixed32 1 KEY_DROPIN_PEER, pb_str 2 peer])) s else s)
     in if listed w KEY_DROPIN_STATE
        then send_state C TEXT_SENSOR_STATE (pb_p (build 128 [pb_fixed32 1 KEY_DROPIN_STATE, pb_str 2 st])) s else s)"

definition entities_changed :: "esp \<Rightarrow> esp" where
  "entities_changed s = (fold (\<lambda>c s. if 0 \<le> cl_fd c then ask ''shutdown'' [Num (cl_fd c)] s else s) (clients s) s)
     \<lparr>last_heard := [], last_reply := []\<rparr>"

end
