(* ===== verification/Esphome_Serve.thy ===== *)
theory Esphome_Serve
  imports Esphome
begin

text \<open>
  \<^verbatim>\<open>src/hassmic/proto_esphome.c\<close>, part 3: the dispatch of a request (\<open>handle\<close>), the frames read from a
  connection, the encrypted handshake and a connection's life (\<open>serve\<close>), and the theorems on who may
  do what.  A connection's input is the bytes it still has to send, after which it closes.  The steps of
  different connections interleave: \<open>api_step\<close> is one step of one of them, each step being what the
  source does under the lock.  The start of the other parts of the program at the first
  connection is left out.
\<close>

section \<open>Requests\<close>

definition is_keyed :: "int \<Rightarrow> esp \<Rightarrow> bool" where
  "is_keyed fd s = (case client_of fd s of None \<Rightarrow> False | Some c \<Rightarrow> cl_keyed (clients s ! c))"

definition subscribe_states :: "noise_crypto \<Rightarrow> world \<Rightarrow> int \<Rightarrow> esp \<Rightarrow> esp" where
  "subscribe_states C w fd s = (
     let c = client_of fd s;
         s = s\<lparr>clients := map (\<lambda>c. if cl_fd c = fd then c\<lparr>cl_states := True\<rparr> else c) (clients s)\<rparr>;
         s = ask ''send_all_settings'' [] (send_mp_state C w s);
         s = ask ''send_web_state'' [Num fd] (ask ''send_token_state'' [] s)
     in ask_time C w fd c True s)"

definition time_field :: "pbf \<Rightarrow> u32 \<times> bytes \<Rightarrow> u32 \<times> bytes" where
  "time_field f = (\<lambda>(epoch, tz).
     if pf_field f = 1 \<and> pf_wire f = 5 then (ucast (pf_v f), tz)
     else if pf_field f = 2 \<and> pf_wire f = 2 then (epoch, pbf_str f 128) else (epoch, tz))"

definition on_time :: "world \<Rightarrow> int \<Rightarrow> bytes \<Rightarrow> esp \<Rightarrow> esp" where
  "on_time w fd p s = (case fold time_field (pb_fields p) (0, []) of (epoch, tz) \<Rightarrow>
     let k = is_keyed fd s;
         s = (if k \<and> epoch \<noteq> 0 then ask ''clock_zone_from_ha'' [Text tz] (ask ''clock_from_ha'' [Num (uint epoch)] s) else s);
         s = (if client_of fd s \<noteq> None \<and> epoch \<noteq> 0 then
                (case ha_time w epoch s of (moved, s) \<Rightarrow> if moved \<and> w_timer_on w then send_setting w KEY_NEXT_TIMER s else s)
              else s)
     in if k \<and> tz \<noteq> [] then ask ''screen_tz'' [Text tz] s else s)"

definition on_button :: "world \<Rightarrow> bytes \<Rightarrow> esp \<Rightarrow> esp" where
  "on_button w p s = (let why = Text (ascii ''Home Assistant'' @ [39] @ ascii ''s button'') in
     fold (\<lambda>f s. if pf_field f \<noteq> 1 then s
       else if pf_v f = ucast KEY_IDENTIFY then ask ''core_identify'' [] s
       else if pf_v f = ucast KEY_RESET then ask ''core_reset'' [why] s
       else if pf_v f = ucast KEY_RESTART then ask ''core_reboot'' [why] s
       else if pf_v f = ucast KEY_TIMER_STOP then ask ''core_alarm_stop'' [why] s
       else if pf_v f = ucast KEY_DROPIN_END \<and> listed w KEY_DROPIN_END then ask ''dropin_hangup'' [why] s
       else s) (pb_fields p) s)"

definition on_update :: "int \<Rightarrow> bytes \<Rightarrow> esp \<Rightarrow> esp" where
  "on_update fd p s = (
     let (key, cmd) = fold (\<lambda>f (key, cmd). if pf_field f = 1 then (ucast (pf_v f), cmd)
           else if pf_field f = 2 then (key, ucast (pf_v f)) else (key, cmd)) (pb_fields p) (0 :: u32, 0 :: u32) in
     if key \<noteq> KEY_UPDATE then s
     else if cmd = 2 then ask ''update_check'' [] s
     else if cmd = 1 \<and> is_keyed fd s then ask ''update_install'' [] s
     else s)"

definition on_ha_state :: "world \<Rightarrow> int \<Rightarrow> bytes \<Rightarrow> esp \<Rightarrow> esp" where
  "on_ha_state w fd p s = (
     let (ent, st, attr) = fold (\<lambda>f (ent, st, attr). if pf_data f = None then (ent, st, attr)
           else if pf_field f = 1 then (pbf_str f 128, st, attr)
           else if pf_field f = 2 then (ent, pbf_str f 300, attr)
           else if pf_field f = 3 then (ent, st, pbf_str f 64) else (ent, st, attr)) (pb_fields p) ([], [], []) in
     if attr \<noteq> [] \<or> \<not> w_arb w \<or> \<not> is_keyed fd s then s else ask ''arb_ha_state'' [Text ent, Text st] s)"

abbreviation (input) RING_LEDS_MAX :: nat where "RING_LEDS_MAX \<equiv> 24"

definition service_arg :: "bytes \<Rightarrow> bytes list \<Rightarrow> bytes \<times> bytes list" where
  "service_arg d cols = fold (\<lambda>g (a, cols).
     if pf_field g = 4 \<and> pf_data g \<noteq> None then (pbf_str g 256, cols)
     else if pf_field g = 9 \<and> pf_data g \<noteq> None \<and> length cols < RING_LEDS_MAX then (a, cols @ [pbf_str g 16])
     else (a, cols)) (pb_fields d) ([], cols)"

definition service_field :: "pbf \<Rightarrow> u32 \<times> bytes list \<times> bytes list \<Rightarrow> u32 \<times> bytes list \<times> bytes list" where
  "service_field f = (\<lambda>(key, args, cols).
     if pf_field f = 1 then (ucast (pf_v f), args, cols)
     else if pf_field f = 2 \<and> length args < 2 then
       (case pf_data f of Some d \<Rightarrow> (case service_arg d cols of (a, cols) \<Rightarrow> (key, args @ [a], cols)) | None \<Rightarrow> (key, args, cols))
     else (key, args, cols))"

definition on_service :: "world \<Rightarrow> int \<Rightarrow> bytes \<Rightarrow> esp \<Rightarrow> esp" where
  "on_service w fd p s = (case fold service_field (pb_fields p) (0, [], []) of (key, args, cols) \<Rightarrow>
     let a = (args @ [[], []]) in
     if key = KEY_RING_LEDS \<and> listed w KEY_RING_LEDS then ask ''ring_leds_from'' (map Text cols) s
     else if key = KEY_DROPIN_SERVICE \<and> listed w KEY_DROPIN_SERVICE then
       (if is_keyed fd s then ask ''dropin_call'' [Text (a ! 0)] s else s)
     else if key \<noteq> KEY_ARB_SERVICE \<or> \<not> w_arb w \<or> \<not> is_keyed fd s then s
     else ask ''arb_key'' [Text (a ! 0), Text (a ! 1)] s)"

definition subscribe_va :: "int \<Rightarrow> bytes \<Rightarrow> esp \<Rightarrow> esp" where
  "subscribe_va fd p s = (let sub = fold (\<lambda>f sub. if pf_field f = 1 then pf_v f \<noteq> 0 else sub) (pb_fields p) False in
     if sub \<and> 0 \<le> va_fd s \<and> va_fd s \<noteq> fd then s
     else if \<not> sub \<and> va_fd s \<noteq> fd then s
     else ask ''core_link'' [Num 1, flag sub]
       (s\<lparr>va_fd := (if sub then fd else -1), tts_expected := (if sub then tts_expected s else False)\<rparr>))"

definition set_key_request :: "noise_crypto \<Rightarrow> int \<Rightarrow> bytes \<Rightarrow> esp \<Rightarrow> esp" where
  "set_key_request C fd p s = (
     let k = fold (\<lambda>f k. if pf_field f = 1 \<and> pf_data f \<noteq> None then the (pf_data f) else k) (pb_fields p) [];
         (ok, s) = (case client_of fd s of None \<Rightarrow> (False, s)
           | Some c \<Rightarrow>
             if (if have_key s then cl_keyed (clients s ! c) else cl_enc (clients s ! c)) then
               (case key_set k s of (ok, s) \<Rightarrow>
                 (ok, if ok \<and> have_key s then upd_client c (cl_keyed_update (\<lambda>_. True)) s else s))
             else (False, s))
     in send_to C fd SET_KEY_RESP (pb_p (build 8 [pb_uint 1 (if ok then 1 else 0)])) s)"

definition BLE_REQUESTS :: "u32 list" where
  "BLE_REQUESTS = [BLE_DEVICE_REQ, BLE_SERVICES_REQ, BLE_READ_REQ, BLE_READ_DESC_REQ, BLE_WRITE_REQ, BLE_WRITE_DESC_REQ, BLE_NOTIFY_REQ]"

text \<open>The Bluetooth proxy's requests in the dispatch; \<open>c\<close>: the client's slot.\<close>

definition handle_ble :: "noise_crypto \<Rightarrow> world \<Rightarrow> int \<Rightarrow> nat option \<Rightarrow> u32 \<Rightarrow> bytes \<Rightarrow> esp \<Rightarrow> esp" where
  "handle_ble C w fd c type p s = (case c of
     Some i \<Rightarrow>
       if type = BLE_SUBSCRIBE \<or> type = BLE_UNSUBSCRIBE then
         (if \<not> w_ble w then s
          else let s = ble_update (upd_client i (cl_ble_update (\<lambda>_. type = BLE_SUBSCRIBE)) s)
               in if type = BLE_SUBSCRIBE then send_scanner_state C w s else s)
       else if type = BLE_SCANNER_SET_MODE then
         send_scanner_state C w (ble_update (s\<lparr>ble_mode := (if list_ex (\<lambda>f. pf_field f = 1 \<and> pf_v f = 1) (pb_fields p) then 1 else 0)\<rparr>))
       else if type = BLE_CONN_FREE_REQ then
         (if w_ble w then send_slots C w (Some fd) (upd_client i (cl_ble_free_update (\<lambda>_. True)) s) else s)
       else if type \<in> set BLE_REQUESTS then
         (if w_ble w then on_ble_request C fd type p (upd_client i (cl_ble_user_update (\<lambda>_. True)) s) else s)
       else s
   | None \<Rightarrow>
       if type = BLE_SCANNER_SET_MODE then
         send_scanner_state C w (ble_update (s\<lparr>ble_mode := (if list_ex (\<lambda>f. pf_field f = 1 \<and> pf_v f = 1) (pb_fields p) then 1 else 0)\<rparr>))
       else s)"

definition hello :: "noise_crypto \<Rightarrow> world \<Rightarrow> int \<Rightarrow> esp \<Rightarrow> esp" where
  "hello C w fd s = send_to C fd HELLO_RESP (pb_p (build 128 [pb_uint 1 1, pb_uint 2 10,
     pb_str 3 (ascii ''hassmic '' @ w_version w), pb_str 4 (w_node w)])) s"

text \<open>The switch over the message's type.\<close>

definition handle_request :: "noise_crypto \<Rightarrow> world \<Rightarrow> int \<Rightarrow> u32 \<Rightarrow> bytes \<Rightarrow> esp \<Rightarrow> esp" where
  "handle_request C w fd type p s = (let c = client_of fd s in
     if type = HELLO_REQ then hello C w fd s
     else if type = CONNECT_REQ then send_to C fd CONNECT_RESP [] s
     else if type = DISCONNECT_REQ then send_to C fd DISCONNECT_RESP [] s
     else if type = PING_REQ then ask_time C w fd c False (send_to C fd PING_RESP [] s)
     else if type = DEVICE_INFO_REQ then send_device_info C w fd s
     else if type = LIST_ENTITIES_REQ then send_entities C fd s
     else if type = SUBSCRIBE_STATES then subscribe_states C w fd s
     else if type = GET_TIME_RESP then on_time w fd p s
     else if type = SELECT_COMMAND \<or> type = NUMBER_COMMAND \<or> type = SWITCH_COMMAND then on_setting w fd type p s
     else if type = LIGHT_COMMAND then ask ''on_light'' [Text p] s
     else if type = BUTTON_COMMAND then on_button w p s
     else if type = UPDATE_COMMAND then on_update fd p s
     else if type = SUBSCRIBE_HA_ACTIONS then (case c of Some i \<Rightarrow> upd_client i (cl_actions_update (\<lambda>_. True)) s | None \<Rightarrow> s)
     else if type = SUBSCRIBE_HA_STATES then (case c of Some i \<Rightarrow> upd_client i (cl_ha_states_update (\<lambda>_. True)) s | None \<Rightarrow> s)
     else if type = HA_STATE then on_ha_state w fd p s
     else if type = EXECUTE_SERVICE then on_service w fd p s
     else if type = SUBSCRIBE_VA then subscribe_va fd p s
     else if type = VA_RESPONSE then
       fold (\<lambda>f s. if pf_field f = 2 \<and> pf_v f \<noteq> 0 then ask ''core_error'' [] s else s) (pb_fields p) s
     else if type = VA_EVENT then on_event C w p s
     else if type = VA_TIMER_EVENT then on_timer p s
     else if type = VA_ANNOUNCE then on_announce C w p s
     else if type = VA_CONFIG_REQ then send_va_config C w fd s
     else if type = VA_SET_CONFIG then (if w_local_wake w then on_va_set_config w p s else s)
     else if type = MEDIA_PLAYER_COMMAND then on_mp_command C w p s
     else if type = SET_KEY_REQ then set_key_request C fd p s
     else handle_ble C w fd c type p s)"

text \<open>\<open>handle\<close>: \<open>False\<close> closes the connection.  The reply's audio is queued before anything is looked at.\<close>

definition handle :: "noise_crypto \<Rightarrow> world \<Rightarrow> int \<Rightarrow> u32 \<Rightarrow> bytes \<Rightarrow> esp \<Rightarrow> bool \<times> esp" where
  "handle C w fd type p s = (
     if type = VA_AUDIO then
       (True, fold (\<lambda>f s. if pf_field f = 1 \<and> pf_data f \<noteq> None then ask ''core_tts_data'' [Text (the (pf_data f))] s else s)
          (pb_fields p) s)
     else if have_key s \<and> client_of fd s \<noteq> None \<and> \<not> is_keyed fd s \<and> type \<noteq> DISCONNECT_REQ then (False, s)
     else (type \<noteq> DISCONNECT_REQ, handle_request C w fd type p s))"

section \<open>Frames read\<close>

definition take_bytes :: "nat \<Rightarrow> bytes \<Rightarrow> (bytes \<times> bytes) option" where
  "take_bytes n inp = (if n \<le> length inp then Some (take n inp, drop n inp) else None)"

fun read_varint :: "nat \<Rightarrow> u32 \<Rightarrow> bytes \<Rightarrow> (u32 \<times> bytes) option" where
  "read_varint sh v [] = None"
| "read_varint sh v (c # inp) = (if sh < 35 then
     (let v = v OR push_bit sh (ucast (c AND 0x7f)) in if c AND 0x80 = 0 then Some (v, inp) else read_varint (sh + 7) v inp)
     else None)"

definition read_frame :: "bytes \<Rightarrow> (bytes \<times> bytes) option" where
  "read_frame inp = do {
     (h, inp) \<leftarrow> take_bytes 2 inp;
     take_bytes (unat (h ! 0) * 256 + unat (h ! 1)) inp
   }"

text \<open>A message of an encrypted connection: \<open>(type, message, rest)\<close>, and the receiving state with it.\<close>

definition read_enc :: "noise_crypto \<Rightarrow> bytes \<Rightarrow> noise_cs \<Rightarrow> (u32 \<times> bytes \<times> bytes) option \<times> noise_cs" where
  "read_enc C inp rx = (case take_bytes 1 inp of
     None \<Rightarrow> (None, rx)
   | Some (pre, inp) \<Rightarrow>
     if pre \<noteq> [1] then (None, rx)
     else case read_frame inp of
       None \<Rightarrow> (None, rx)
     | Some (ct, inp) \<Rightarrow>
       (case noise_decrypt C ct rx of
          (None, rx) \<Rightarrow> (None, rx)
        | (Some pt, rx) \<Rightarrow>
          if length pt < 4 \<or> unat (pt ! 2) * 256 + unat (pt ! 3) \<noteq> length pt - 4 then (None, rx)
          else (Some (push_bit 8 (ucast (pt ! 0)) OR ucast (pt ! 1), drop 4 pt, inp), rx)))"

text \<open>A message of a plaintext connection; the first one's leading byte has been read already.\<close>

definition read_plain :: "byte option \<Rightarrow> bytes \<Rightarrow> (u32 \<times> bytes \<times> bytes) option" where
  "read_plain pre inp = do {
     (pre, inp) \<leftarrow> (case pre of Some c \<Rightarrow> Some ([c], inp) | None \<Rightarrow> take_bytes 1 inp);
     (len, inp) \<leftarrow> (if pre \<noteq> [0] then None else read_varint 0 0 inp);
     (type, inp) \<leftarrow> read_varint 0 0 inp;
     (m, inp) \<leftarrow> (if unat len > 1048576 then None else take_bytes (unat len) inp);
     Some (type, m, inp)
   }"

section \<open>The handshake\<close>

definition mac_plain :: "world \<Rightarrow> bytes" where
  "mac_plain w = map (\<lambda>c. if 0x41 \<le> c \<and> c \<le> 0x5a then c + 32 else c) (filter (\<lambda>c. c \<noteq> 0x3a) (w_mac w))"

definition server_hello :: "world \<Rightarrow> bytes" where
  "server_hello w = [1] @ w_node w @ [0] @ mac_plain w @ [0]"

definition PROLOGUE :: bytes where "PROLOGUE = ascii ''NoiseAPIInit'' @ [0, 0]"

definition device_psk :: "esp \<Rightarrow> bytes" where
  "device_psk s = (if have_key s then api_key s else zero32)"

text \<open>
  \<open>r\<close>: the random bytes of the ephemeral key.  Returns the input left where the connection is encrypted
  from here on.
\<close>

definition noise_handshake :: "noise_crypto \<Rightarrow> world \<Rightarrow> bytes \<Rightarrow> int \<Rightarrow> nat \<Rightarrow> bytes \<Rightarrow> esp \<Rightarrow> bytes option \<times> esp" where
  "noise_handshake C w r fd slot inp s = (
     case do {
       (_, inp) \<leftarrow> read_frame inp;
       (pre, inp) \<leftarrow> take_bytes 1 inp;
       (m, inp) \<leftarrow> (if pre \<noteq> [1] then None else read_frame inp);
       (if m = [] \<or> m ! 0 \<noteq> 0 then None else Some (drop 1 m, inp))
     } of
       None \<Rightarrow> (None, s)
     | Some (m, inp) \<Rightarrow>
       let keyed = have_key s; psk = device_psk s;
           (ok, s) = write_frame fd (server_hello w) s in
       if \<not> ok then (None, s)
       else case (if 32 + NOISE_TAG + 64 < length m then (None, noise_nn_responder_init PROLOGUE)
                  else noise_nn_read_msg1 C psk m (noise_nn_responder_init PROLOGUE)) of
         (None, _) \<Rightarrow> (None, snd (write_frame fd ([1] @ ascii ''Handshake MAC failure'') s))
       | (Some _, hs) \<Rightarrow>
         (case noise_nn_write_msg2 C r [] hs of (out, tx, rx, _) \<Rightarrow>
            let s = upd_client slot (\<lambda>c. c\<lparr>cl_tx := tx, cl_rx := rx, cl_enc := True, cl_keyed := keyed\<rparr>) s;
                (ok, s) = write_frame fd ([0] @ out) s
            in (if ok then Some inp else None, s)))"

section \<open>A connection's life\<close>

definition in_use :: "esp \<Rightarrow> nat" where
  "in_use s = length (filter (\<lambda>c. 0 \<le> cl_fd c) (clients s))"

definition reset_client :: "int \<Rightarrow> client \<Rightarrow> client" where
  "reset_client fd c = c\<lparr>cl_fd := fd, cl_states := False, cl_enc := False, cl_keyed := False, cl_ble := False,
     cl_ble_free := False, cl_ble_user := False, cl_actions := False, cl_ha_states := False\<rparr>"

text \<open>A slot for a new connection, and whether the device had a key then.\<close>

definition serve_open :: "int \<Rightarrow> esp \<Rightarrow> (nat \<times> bool) option \<times> esp" where
  "serve_open fd s = (case find (\<lambda>i. cl_fd (clients s ! i) < 0) [0..<MAX_CLIENTS] of
     None \<Rightarrow> (None, s)
   | Some slot \<Rightarrow>
     (Some (slot, have_key s),
      (let t = upd_client slot (reset_client fd) s in if in_use s = 0 then ask ''core_link'' [Num 1, Num 0] t else t)))"

text \<open>
  The first byte: the handshake, or plaintext where the device had no key.  The result is the input left, whether the
  connection is encrypted and the plaintext's first byte.
\<close>

definition serve_first :: "noise_crypto \<Rightarrow> world \<Rightarrow> bytes \<Rightarrow> int \<Rightarrow> nat \<Rightarrow> bool \<Rightarrow> bytes \<Rightarrow> esp
    \<Rightarrow> (bytes \<times> byte option) option \<times> esp" where
  "serve_first C w r fd slot keyed inp s = (case take_bytes 1 inp of
     None \<Rightarrow> (None, s)
   | Some (pre, inp) \<Rightarrow>
     if pre = [1] then (case noise_handshake C w r fd slot inp s of
         (None, s) \<Rightarrow> (None, s) | (Some inp, s) \<Rightarrow> (Some (inp, None), s))
     else if keyed then (None, snd (write_frame fd [] s))
     else (Some (inp, Some (pre ! 0)), s))"

text \<open>One turn of the loop: a message read and handled.\<close>

definition serve_next :: "noise_crypto \<Rightarrow> world \<Rightarrow> int \<Rightarrow> nat \<Rightarrow> bool \<Rightarrow> byte option \<Rightarrow> bytes \<Rightarrow> esp \<Rightarrow> bytes option \<times> esp" where
  "serve_next C w fd slot enc pre inp s = (
     let (r, s) = (if enc then (case read_enc C inp (cl_rx (clients s ! slot)) of
           (r, rx) \<Rightarrow> (r, upd_client slot (cl_rx_update (\<lambda>_. rx)) s)) else (read_plain pre inp, s)) in
     case r of None \<Rightarrow> (None, s)
     | Some (type, m, inp) \<Rightarrow>
       (case handle C w fd type m s of (keep, s) \<Rightarrow> (if keep then Some inp else None, s)))"

definition ble_users :: "esp \<Rightarrow> bool" where
  "ble_users s = list_ex (\<lambda>c. 0 \<le> cl_fd c \<and> (cl_ble_free c \<or> cl_ble_user c)) (clients s)"

definition serve_done :: "world \<Rightarrow> int \<Rightarrow> nat \<Rightarrow> esp \<Rightarrow> esp" where
  "serve_done w fd slot s = (
     let s = ble_update (upd_client slot (reset_client (-1)) s);
         s = (if ble_subscribers s = 0 \<and> \<not> ble_users s
              then fold (\<lambda>a s. ask ''ble_disconnect'' [Num (uint a)] s) (w_ble_conns w) s else s);
         s = upd_client slot (\<lambda>c. c\<lparr>cl_tx := cs0, cl_rx := cs0\<rparr>) s
     in if va_fd s = fd then ask ''core_link'' [flag (0 < in_use s), Num 0] (s\<lparr>va_fd := -1, tts_expected := False\<rparr>)
        else if in_use s = 0 then ask ''core_link'' [Num 0, Num 0] s else s)"

section \<open>What only the device key allows\<close>

text \<open>
  Calls that Home Assistant alone may cause: installing an update, opening adb, dropping in on another
  Echo, handing over a network key, answering for a tag, setting the clock.
\<close>

fun privileged :: "call \<Rightarrow> bool" where
  "privileged (Call f xs) \<longleftrightarrow> f \<in> set [''update_install'', ''dropin_call'', ''arb_key'', ''arb_ha_state'', ''clock_from_ha'',
     ''clock_zone_from_ha'', ''screen_tz''] \<or> f = ''adbwifi_ask'' \<and> xs = [Num 1]"

definition priv_of :: "esp \<Rightarrow> call list" where
  "priv_of s = filter privileged (calls s)"

definition sees :: "client \<Rightarrow> int \<times> bool \<times> bool" where
  "sees c = (cl_fd c, cl_enc c, cl_keyed c)"

definition guard :: "esp \<Rightarrow> call list \<times> bytes \<times> bool \<times> bytes option \<times> (int \<times> bool \<times> bool) list" where
  "guard s = (priv_of s, api_key s, have_key s, key_file s, map sees (clients s))"

lemma guard_upd [frame]:
  "guard (s\<lparr>va_fd := a\<rparr>) = guard s" "guard (s\<lparr>cancelled := n\<rparr>) = guard s" "guard (s\<lparr>tts_expected := b\<rparr>) = guard s"
  "guard (s\<lparr>tts_url := d\<rparr>) = guard s" "guard (s\<lparr>announcing := b\<rparr>) = guard s" "guard (s\<lparr>media_playing := b\<rparr>) = guard s"
  "guard (s\<lparr>media_busy := b\<rparr>) = guard s" "guard (s\<lparr>media_cur := j\<rparr>) = guard s" "guard (s\<lparr>media_jobs := n\<rparr>) = guard s"
  "guard (s\<lparr>aborted := ns\<rparr>) = guard s" "guard (s\<lparr>last_heard := d\<rparr>) = guard s" "guard (s\<lparr>last_reply := d\<rparr>) = guard s"
  "guard (s\<lparr>ha_wall_off := a\<rparr>) = guard s" "guard (s\<lparr>ha_wall_set := b\<rparr>) = guard s" "guard (s\<lparr>time_asked := a\<rparr>) = guard s"
  "guard (s\<lparr>ble_mode := v\<rparr>) = guard s" "guard (s\<lparr>bt_next := d\<rparr>) = guard s" "guard (s\<lparr>bt_next_ms := a\<rparr>) = guard s"
  "guard (s\<lparr>bt_asked_ms := a\<rparr>) = guard s" "guard (s\<lparr>bt_free_ms := a\<rparr>) = guard s" "guard (s\<lparr>wrote := x\<rparr>) = guard s"
  by (simp_all add: guard_def priv_of_def)

lemma guard_ask [frame]: "\<not> privileged (Call f xs) \<Longrightarrow> guard (ask f xs s) = guard s"
  by (simp add: guard_def priv_of_def ask_def del: privileged.simps)

lemma guard_upd_client:
  assumes "\<And>c. sees (f c) = sees c"
  shows "guard (upd_client i f s) = guard s"
proof -
  have "map sees ((clients s)[i := f (clients s ! i)]) = map sees (clients s)"
    by (cases "i < length (clients s)") (simp_all add: map_update assms list_update_same_conv list_update_beyond)
  then show ?thesis by (simp add: guard_def upd_client_def priv_of_def)
qed

lemma guard_client [frame]:
  "guard (upd_client i (cl_tx_update g) s) = guard s" "guard (upd_client i (cl_rx_update g) s) = guard s"
  "guard (upd_client i (cl_ble_update h) s) = guard s" "guard (upd_client i (cl_ble_free_update h) s) = guard s"
  "guard (upd_client i (cl_ble_user_update h) s) = guard s" "guard (upd_client i (cl_actions_update h) s) = guard s"
  "guard (upd_client i (cl_ha_states_update h) s) = guard s"
  by (rule guard_upd_client, simp add: sees_def)+

lemma guard_fold: "(\<And>x s. guard (f x s) = guard s) \<Longrightarrow> guard (fold f xs s) = guard s"
  by (induction xs arbitrary: s) simp_all

lemma guard_put [frame]:
  "guard (snd (put_fd fd d s)) = guard s" "guard (snd (write_frame fd d s)) = guard s"
  by (simp_all add: put_fd_def write_frame_def Let_def frame)

lemma guard_send_to [frame]: "guard (send_to C fd type b s) = guard s"
  by (simp add: send_to_def Let_def case_prod_beta frame split: option.split)

lemma guard_send [frame]:
  "guard (send_each C P type b s) = guard s" "guard (send_va C type b s) = guard s" "guard (send_state C type b s) = guard s"
  by (simp_all add: send_each_def send_va_def send_state_def Let_def guard_fold frame)

lemma guard_media [frame]:
  "guard (send_mp_state C w s) = guard s" "guard (announce_finished C b s) = guard s" "guard (announce_done w s) = guard s"
  "guard (media_start C w u v x y z q s) = guard s" "guard (played C w s) = guard s"
  by (simp_all add: send_mp_state_def announce_finished_def announce_done_def media_start_def played_def Let_def frame)

lemma guard_settings [frame]:
  "guard (send_setting w k s) = guard s" "guard (snd (ha_time w e s)) = guard s" "guard (ask_time C w fd c b s) = guard s"
  by (simp_all add: send_setting_def ha_time_def ask_time_def Let_def frame)

lemma guard_named: "(\<And>i. \<not> privileged (Call f [Num i])) \<Longrightarrow> guard (ask_named f opt names s) = guard s"
  by (simp add: ask_named_def guard_fold frame del: privileged.simps)

lemma guard_on_setting: "\<not> is_keyed fd s \<Longrightarrow> guard (on_setting w fd type p s) = guard s"
  unfolding on_setting_def case_prod_beta Let_def is_keyed_def
  by (simp add: frame guard_named flag_def split: option.split)

lemma guard_events [frame]:
  "guard (entity_event C k ev s) = guard s" "guard (wake_event C w ev s) = guard s"
  "guard (thinking w s) = guard s" "guard (last_texts w m s) = guard s" "guard (run_error C w code s) = guard s"
  by (simp_all add: entity_event_def wake_event_def thinking_def last_texts_def run_error_def Let_def frame)

lemma guard_on_event [frame]: "guard (on_event C w p s) = guard s"
  unfolding on_event_def Let_def by (simp add: frame split: option.split)

lemma guard_requests [frame]:
  "guard (on_timer p s) = guard s" "guard (on_announce C w p s) = guard s" "guard (on_mp_command C w p s) = guard s"
  "guard (on_va_set_config w p s) = guard s" "guard (send_va_config C w fd s) = guard s"
  "guard (send_entities C fd s) = guard s" "guard (send_device_info C w fd s) = guard s" "guard (hello C w fd s) = guard s"
  by (simp_all add: on_timer_def on_announce_def on_mp_command_def on_va_set_config_def send_va_config_def send_entities_def
      send_device_info_def hello_def Let_def case_prod_beta frame)

lemma guard_ble [frame]:
  "guard (ble_update s) = guard s" "guard (send_scanner_state C w s) = guard s" "guard (send_slots C w a s) = guard s"
  "guard (on_ble_request C fd type p s) = guard s" "guard (handle_ble C w fd c type p s) = guard s"
  by (simp_all add: ble_update_def send_scanner_state_def send_ble_def send_slots_def on_ble_request_def handle_ble_def Let_def
      frame split: option.split)

lemma guard_subscribe [frame]:
  "guard (subscribe_states C w fd s) = guard s" "guard (subscribe_va fd p s) = guard s" "guard (on_button w p s) = guard s"
proof -
  have "map sees (map (\<lambda>c. if cl_fd c = fd then c\<lparr>cl_states := True\<rparr> else c) cs) = map sees cs" for cs
    by (simp add: sees_def)
  then have "guard (s\<lparr>clients := map (\<lambda>c. if cl_fd c = fd then c\<lparr>cl_states := True\<rparr> else c) (clients s)\<rparr>) = guard s" for s
    by (simp add: guard_def priv_of_def)
  then show "guard (subscribe_states C w fd s) = guard s" by (simp add: subscribe_states_def Let_def frame)
  show "guard (subscribe_va fd p s) = guard s" "guard (on_button w p s) = guard s"
    by (simp_all add: subscribe_va_def on_button_def Let_def frame guard_fold)
qed

lemma guard_unkeyed:
  assumes "\<not> is_keyed fd s"
  shows "guard (on_time w fd p s) = guard s" "guard (on_update fd p s) = guard s" "guard (on_ha_state w fd p s) = guard s"
    "guard (on_service w fd p s) = guard s"
  using assms by (simp_all add: on_time_def on_update_def on_ha_state_def on_service_def Let_def case_prod_beta frame)

lemma guard_fields:
  "guard s = guard t \<Longrightarrow> priv_of s = priv_of t \<and> api_key s = api_key t \<and> have_key s = have_key t \<and> key_file s = key_file t \<and>
     map sees (clients s) = map sees (clients t)"
  by (simp add: guard_def)

lemma priv_frame:
  "priv_of (send_to C fd type b s) = priv_of s" "priv_of (upd_client i f s) = priv_of s" "priv_of (snd (key_set k s)) = priv_of s"
  using guard_fields [OF guard_send_to [of C fd type b s]]
  by (simp_all add: upd_client_def key_set_def ask_def priv_of_def split: option.split)

lemma set_key_unkeyed:
  assumes "\<not> is_keyed fd s"
  shows "guard (set_key_request C fd p s) = guard s \<or>
    \<not> have_key s \<and> (\<exists>c. client_of fd s = Some c \<and> cl_enc (clients s ! c)) \<and> priv_of (set_key_request C fd p s) = priv_of s"
proof (cases "client_of fd s")
  case None
  then show ?thesis by (simp add: set_key_request_def frame)
next
  case (Some c)
  with assms have "\<not> cl_keyed (clients s ! c)" by (simp add: is_keyed_def)
  with Some show ?thesis
    by (cases "have_key s \<or> \<not> cl_enc (clients s ! c)")
      (auto simp: set_key_request_def Let_def case_prod_beta frame priv_frame)
qed

lemma request_unkeyed:
  assumes "\<not> is_keyed fd s" "type \<noteq> SET_KEY_REQ"
  shows "guard (handle_request C w fd type p s) = guard s"
  using assms unfolding handle_request_def Let_def
  by (simp add: frame guard_fold guard_unkeyed guard_on_setting split: option.split)

text \<open>
  C7. What only Home Assistant may ask for needs the device key on the connection it comes over.  A
  request over a connection without it causes no privileged call and leaves the key and who has it
  as they were; the one exception is an encrypted connection to a device that has no key yet, which
  may set the key (and still causes no privileged call).  Once the device has a key, such a connection is closed without a
  look at the request.
\<close>

theorem privileges_need_key:
  assumes "\<not> is_keyed fd s" "handle C w fd type p s = (keep, t)"
  shows "priv_of t = priv_of s \<and>
    (api_key t = api_key s \<and> have_key t = have_key s \<and> key_file t = key_file s \<and> map sees (clients t) = map sees (clients s)
     \<or> type = SET_KEY_REQ \<and> \<not> have_key s \<and> (\<exists>c. client_of fd s = Some c \<and> cl_enc (clients s ! c))) \<and>
    (have_key s \<and> client_of fd s \<noteq> None \<and> type \<noteq> VA_AUDIO \<and> type \<noteq> DISCONNECT_REQ \<longrightarrow> \<not> keep \<and> t = s)"
proof -
  have t: "guard t = guard s \<or> type = SET_KEY_REQ \<and> \<not> have_key s \<and>
    (\<exists>c. client_of fd s = Some c \<and> cl_enc (clients s ! c)) \<and> priv_of t = priv_of s"
  proof (cases "type = VA_AUDIO \<or> have_key s \<and> client_of fd s \<noteq> None \<and> type \<noteq> DISCONNECT_REQ")
    case True
    with assms show ?thesis by (auto simp: handle_def frame intro!: disjI1 guard_fold split: if_splits)
  next
    case False
    then have "t = handle_request C w fd type p s" using assms by (auto simp: handle_def split: if_splits)
    with request_unkeyed [OF assms(1)] set_key_unkeyed [OF assms(1), of C p] show ?thesis
      by (cases "type = SET_KEY_REQ") (simp_all add: handle_request_def)
  qed
  have "have_key s \<and> client_of fd s \<noteq> None \<and> type \<noteq> VA_AUDIO \<and> type \<noteq> DISCONNECT_REQ \<longrightarrow> \<not> keep \<and> t = s"
    using assms by (auto simp: handle_def split: if_splits)
  with t guard_fields [of t s] show ?thesis by blast
qed

text \<open>A device, quiet all around, for the witnesses.\<close>

definition demo_world :: world where
  "demo_world = \<lparr>w_now = 1000, w_version = [49], w_build = [], w_model = [], w_project = [], w_name = [], w_node = ascii ''echo'',
     w_mac = ascii ''02:AB'', w_web_port = 0, w_sendspin = False, w_ble = False, w_ble_mac = [], w_ble_scanning = False,
     w_ble_conns = [], w_arb = True, w_dropin = True, w_on = (\<lambda>_. True), w_whisper_model = False, w_wifimotion = False,
     w_have_light = False, w_have_auto = False, w_ring_custom = False, w_ring_per_led = False, w_linked = (\<lambda>_. False),
     w_local_wake = True, w_wake_phrase = [], w_wake_words = [], w_wake_active = [], w_wake_max = 1, w_dnd = False,
     w_state = IDLE, w_transcript = False, w_wake_run = False, w_timer_on = False, w_volume = 0, w_langs = [],
     w_lroundf = sint\<rparr>"

definition demo_api :: esp where
  "demo_api = upd_client 0 (reset_client 7) ((esp0 None)\<lparr>have_key := True, api_key := replicate 32 9\<rparr>)"

lemma demo_api_client: "client_of 7 demo_api = Some 0" "\<not> is_keyed 7 demo_api" "have_key demo_api"
  by (simp_all add: is_keyed_def client_of_def demo_api_def upd_client_def reset_client_def esp0_def client0_def upt_rec
      numeral_eq_Suc)

theorem privileges_need_key_witness:
  "\<not> is_keyed 7 demo_api \<and> (let (keep, t) = handle toy_noise demo_world 7 UPDATE_COMMAND [8, 36, 16, 1] demo_api
     in priv_of t = priv_of demo_api \<and> \<not> keep)"
proof -
  obtain keep t where h: "handle toy_noise demo_world 7 UPDATE_COMMAND [8, 36, 16, 1] demo_api = (keep, t)" by fastforce
  from privileges_need_key [OF demo_api_client(2) h] demo_api_client h show ?thesis by simp
qed

section \<open>Connections, interleaved\<close>

text \<open>
  A connection whose first byte is awaited (its slot, and whether the device had a key when it came), or one
  past that: its slot, whether it is encrypted, and the plaintext byte read ahead.  \<open>A\<close> holds what peers may send first: a
  byte string for each connection's start.  Later bytes are any.
\<close>

datatype phase = Fresh nat bool | Running nat bool "byte option"

inductive api_step :: "noise_crypto \<Rightarrow> bytes set \<Rightarrow> esp \<times> (int \<Rightarrow> phase option) \<Rightarrow> esp \<times> (int \<Rightarrow> phase option) \<Rightarrow> bool"
  for C A where
  opened: "0 \<le> fd \<Longrightarrow> L fd = None \<Longrightarrow> serve_open fd s = (Some (slot, k), t) \<Longrightarrow> api_step C A (s, L) (t, L(fd \<mapsto> Fresh slot k))"
| refused: "serve_open fd s = (None, t) \<Longrightarrow> api_step C A (s, L) (t, L)"
| first: "L fd = Some (Fresh slot k) \<Longrightarrow> inp \<in> A \<Longrightarrow> serve_first C w r fd slot k inp s = (Some (rest, pre), t) \<Longrightarrow>
    api_step C A (s, L) (t, L(fd \<mapsto> Running slot (pre = None) pre))"
| first_ends: "L fd = Some (Fresh slot k) \<Longrightarrow> inp \<in> A \<Longrightarrow> serve_first C w r fd slot k inp s = (None, t) \<Longrightarrow>
    api_step C A (s, L) (serve_done w fd slot t, L(fd := None))"
| message: "L fd = Some (Running slot enc pre) \<Longrightarrow> serve_next C w fd slot enc pre inp s = (Some rest, t) \<Longrightarrow>
    api_step C A (s, L) (t, L(fd \<mapsto> Running slot enc None))"
| message_ends: "L fd = Some (Running slot enc pre) \<Longrightarrow> serve_next C w fd slot enc pre inp s = (None, t) \<Longrightarrow>
    api_step C A (s, L) (serve_done w fd slot t, L(fd := None))"
| core: "t \<in> {start C w s, audio C pcm s, stop C s, end_audio C s, cancel C w s, reply_cut s, played C w s, media_end C w j b ok s,
      bt_device C w txt s, bt_try C w s, entities_changed s, snd (arb_send C x y z s), snd (arb_scan C x s), snd (arb_request C x s)} \<Longrightarrow>
    api_step C A (s, L) (t, L)"

text \<open>The handshake message in a connection's first bytes opens under the key \<open>k\<close>.\<close>

definition first_message :: "bytes \<Rightarrow> bytes option" where
  "first_message inp = map_option fst (do {
     (_, inp) \<leftarrow> take_bytes 1 inp;
     (_, inp) \<leftarrow> read_frame inp;
     (_, inp) \<leftarrow> take_bytes 1 inp;
     (m, inp) \<leftarrow> read_frame inp;
     Some (drop 1 m, inp)
   })"

definition has_key :: "noise_crypto \<Rightarrow> bytes \<Rightarrow> bytes \<Rightarrow> bool" where
  "has_key C k inp = (case first_message inp of None \<Rightarrow> False
     | Some m \<Rightarrow> fst (noise_nn_read_msg1 C k m (noise_nn_responder_init PROLOGUE)) \<noteq> None)"

lemma handshake_refused:
  assumes "have_key s" "take_bytes 1 inp = Some (pre, inp')" "\<not> has_key C (api_key s) inp"
  shows "fst (noise_handshake C w r fd slot inp' s) = None \<and> guard (snd (noise_handshake C w r fd slot inp' s)) = guard s"
proof -
  let ?parse = "do {
       (_, inp) \<leftarrow> read_frame inp';
       (pre, inp) \<leftarrow> take_bytes 1 inp;
       (m, inp) \<leftarrow> (if pre \<noteq> [1] then None else read_frame inp);
       (if m = [] \<or> m ! 0 \<noteq> 0 then None else Some (drop 1 m, inp))
     }"
  show ?thesis
  proof (cases ?parse)
    case None
    then show ?thesis by (simp add: noise_handshake_def)
  next
    case (Some a)
    obtain m rest where a: "a = (m, rest)" by fastforce
    with Some assms(2) have "first_message inp = Some m"
      by (auto simp: first_message_def bind_eq_Some_conv split: if_splits)
    with assms(3) have m: "fst (noise_nn_read_msg1 C (api_key s) m (noise_nn_responder_init PROLOGUE)) = None"
      by (simp add: has_key_def)
    with Some a assms(1) show ?thesis
      by (simp add: noise_handshake_def device_psk_def Let_def case_prod_beta frame)
  qed
qed

lemma guard_audio [frame]: "guard (audio C pcm s) = guard s"
  by (induction C pcm s rule: audio.induct) (subst audio.simps, simp add: frame)

lemma guard_core [frame]:
  "guard (start C w s) = guard s" "guard (stop C s) = guard s" "guard (end_audio C s) = guard s" "guard (cancel C w s) = guard s"
  "guard (reply_cut s) = guard s" "guard (media_end C w j b ok s) = guard s" "guard (bt_ask C w txt s) = guard s"
  by (simp_all add: start_def stop_def end_audio_def cancel_def reply_cut_def media_end_def bt_ask_def Let_def frame
      split: option.split)

lemma guard_core' [frame]:
  "guard (bt_try C w s) = guard s" "guard (bt_device C w txt s) = guard s" "guard (entities_changed s) = guard s"
  "guard (snd (arb_send C x y z s)) = guard s" "guard (snd (arb_scan C x s)) = guard s" "guard (snd (arb_request C x s)) = guard s"
  by (simp_all add: bt_try_def bt_device_def entities_changed_def arb_send_def arb_scan_def arb_request_def Let_def frame guard_fold)

text \<open>Nobody has got in: no client is encrypted or has the key, and no connection is past its first bytes.\<close>

definition outsiders :: "esp \<Rightarrow> esp \<times> (int \<Rightarrow> phase option) \<Rightarrow> bool" where
  "outsiders s0 = (\<lambda>(s, L). priv_of s = priv_of s0 \<and> api_key s = api_key s0 \<and> have_key s \<and>
     list_all (\<lambda>(_, e, k). \<not> e \<and> \<not> k) (map sees (clients s)) \<and>
     (\<forall>fd. L fd = None \<or> (\<exists>slot. L fd = Some (Fresh slot True))))"

lemma outsiders_guard: "outsiders z (s, L) \<Longrightarrow> guard t = guard s \<Longrightarrow> outsiders z (t, L)"
  by (simp add: outsiders_def guard_def)

lemma outsiders_reset: "outsiders z (s, L) \<Longrightarrow> outsiders z (upd_client i (reset_client fd) s, L)"
  by (cases "i < length (clients s)")
    (auto simp: outsiders_def upd_client_def priv_of_def reset_client_def map_update sees_def list_update_beyond
      list_all_iff dest!: set_update_subset_insert [THEN subsetD])

lemma outsiders_close: "outsiders z (s, L) \<Longrightarrow> outsiders z (s, L(fd := None))"
  by (simp add: outsiders_def)

lemma outsiders_done:
  assumes "outsiders z (s, L)"
  shows "outsiders z (serve_done w fd slot s, L(fd := None))"
proof -
  have "guard (upd_client slot (\<lambda>c. c\<lparr>cl_tx := cs0, cl_rx := cs0\<rparr>) t) = guard t" for t
    by (rule guard_upd_client) (simp add: sees_def)
  then have "guard (serve_done w fd slot s) = guard (upd_client slot (reset_client (-1)) s)"
    by (simp add: serve_done_def Let_def frame guard_fold)
  with outsiders_close [OF outsiders_reset [OF assms]] show ?thesis by (rule outsiders_guard)
qed

lemma outsiders_fresh: "outsiders z (s, L) \<Longrightarrow> L fd \<noteq> Some (Running slot enc pre)"
  by (auto simp: outsiders_def) (metis option.distinct(1) option.inject phase.distinct(1))

lemma first_refused:
  assumes "outsiders z (s, L)" "L fd = Some (Fresh slot k)" "\<not> has_key C (api_key z) inp"
    and "serve_first C w r fd slot k inp s = (x, t)"
  shows "x = None \<and> guard t = guard s"
proof -
  have s: "have_key s" "api_key s = api_key z" "k"
    using assms(1,2) by (auto simp: outsiders_def) (metis option.distinct(1) option.inject phase.inject(1))
  show ?thesis
  proof (cases "take_bytes 1 inp")
    case (Some a)
    then obtain pre rest where a: "take_bytes 1 inp = Some (pre, rest)" by (cases a) auto
    from handshake_refused [OF s(1) this, of C w r fd slot] assms(3,4) s a show ?thesis
      by (auto simp: serve_first_def frame split: prod.splits option.splits if_splits)
  qed (use assms(4) in \<open>simp add: serve_first_def\<close>)
qed

lemma outsiders_step:
  assumes "api_step C A x y" "outsiders z x" "\<forall>inp\<in>A. \<not> has_key C (api_key z) inp"
  shows "outsiders z y"
  using assms
proof (induction rule: api_step.induct)
  case (opened fd L s slot k t)
  then have "k" and t: "guard t = guard (upd_client slot (reset_client fd) s)"
    by (auto simp: serve_open_def outsiders_def Let_def frame split: option.splits if_splits)
  from outsiders_guard [OF outsiders_reset [OF opened.prems(1)] t] \<open>k\<close> show ?case by (simp add: outsiders_def)
next
  case (refused fd s t L)
  then show ?case by (simp add: serve_open_def split: option.splits)
next
  case (first L fd slot k inp w r s rest pre t)
  then show ?case using first_refused by blast
next
  case (first_ends L fd slot k inp w r s t)
  with first_refused have "guard t = guard s" by blast
  with first_ends show ?case by (intro outsiders_done) (rule outsiders_guard)
next
  case (core t w s pcm j b ok m x y k L)
  then have "guard t = guard s" by (auto simp: frame)
  with core show ?case by (auto intro: outsiders_guard)
next
  case (message L fd slot enc pre w inp s rest t)
  then show ?case using outsiders_fresh by blast
next
  case (message_ends L fd slot enc pre w inp s t)
  then show ?case using outsiders_fresh by blast
qed



section \<open>The client with the key is heard\<close>

definition noise_frame :: "bytes \<Rightarrow> bytes" where
  "noise_frame d = [1, of_nat (length d div 256), of_nat (length d)] @ d"

lemma frame_length:
  assumes "n \<le> 0xffff"
  shows "unat (of_nat (n div 256) :: byte) * 256 + unat (of_nat n :: byte) = n"
  using assms by (simp add: unat_of_nat)

lemma frame_read:
  assumes "length d \<le> 0xffff"
  shows "take_bytes 1 (noise_frame d @ q) = Some ([1], drop 1 (noise_frame d) @ q)"
    "read_frame (drop 1 (noise_frame d) @ q) = Some (d, q)"
  using frame_length [OF assms] by (simp_all add: noise_frame_def take_bytes_def read_frame_def)

lemma write_frame_up:
  "length d \<le> 0xffff \<Longrightarrow> fd \<notin> set (down s) \<Longrightarrow> write_frame fd d s = (True, s\<lparr>wrote := wrote s @ [(fd, noise_frame d)]\<rparr>)"
  by (simp add: write_frame_def put_fd_def noise_frame_def Let_def)

lemma type_bytes:
  fixes type :: u32
  assumes "type < 65536"
  shows "push_bit 8 (ucast (ucast (drop_bit 8 type) :: byte)) OR ucast (ucast type :: byte) = type"
proof (rule bit_word_eqI)
  fix n assume "n < LENGTH(32)"
  have "type AND mask 16 = type" using assms by (intro less_mask_eq) simp
  then have "bit type n \<Longrightarrow> n < 16" by (metis bit_and_iff bit_mask_iff)
  then show "bit (push_bit 8 (ucast (ucast (drop_bit 8 type) :: byte)) OR ucast (ucast type :: byte) :: u32) n = bit type n"
    by (cases "n < 8") (auto simp: bit_simps)
qed

lemma handshake_works:
  assumes law: "noise_law C" and pub: "length (x25519_public_key C a) = 32" "length (x25519_public_key C (take 32 r)) = 32"
    and i: "i = (noise_nn_responder_init PROLOGUE)\<lparr>e_priv := a, e_pub := x25519_public_key C a\<rparr>"
    and m1: "nn_write_msg1 C (device_psk s) [] i = (m1, i1)"
    and fd: "fd \<notin> set (down s)" "slot < length (clients s)" "length (server_hello w) \<le> 0xffff" "length ch \<le> 0xffff"
  shows "\<exists>t m2 isend irecv h. noise_handshake C w r fd slot (drop 1 (noise_frame ch) @ noise_frame (0 # m1) @ q) s = (Some q, t) \<and>
     wrote t = wrote s @ [(fd, noise_frame (server_hello w)), (fd, noise_frame (0 # m2))] \<and>
     nn_read_msg2 C m2 i1 = Some ([], isend, irecv, h) \<and>
     t = upd_client slot (\<lambda>c. c\<lparr>cl_tx := irecv, cl_rx := isend, cl_enc := True, cl_keyed := have_key s\<rparr>) (s\<lparr>wrote := wrote t\<rparr>)"
proof -
  let ?hs = "noise_nn_responder_init PROLOGUE"
  have "sym i = sym ?hs" "length (e_pub i) = 32" using pub i by simp_all
  from nn_msg1_read [OF law this m1] obtain hs
    where hs: "noise_nn_read_msg1 C (device_psk s) m1 ?hs = (Some [], hs)" "sym i1 = sym hs" "hs_re hs = e_pub i"
      "e_set hs = e_set ?hs" "e_priv i1 = e_priv i" by auto
  have len1: "length m1 = 48" using m1 i pub(1) by (auto simp: nn_write_msg1_def Let_def aead_opens(2) [OF law])
  obtain m2 send recv hs2 where w2: "noise_nn_write_msg2 C r [] hs = (m2, send, recv, hs2)" by (metis prod_cases4)
  have "hs_re hs = x25519_public_key C (e_priv i1)" "\<not> e_set hs"
    using hs i by (simp_all add: noise_nn_responder_init_def noise_hs0_def mix_hash_def Let_def)
  note read2 = nn_msg2_read [OF law hs(2) this pub(2) w2]
  have len2: "length m2 = 48" using w2 pub(2) \<open>\<not> e_set hs\<close>
    by (auto simp: noise_nn_write_msg2_def Let_def aead_opens(2) [OF law])
  let ?s = "s\<lparr>wrote := wrote s @ [(fd, noise_frame (server_hello w))]\<rparr>"
  let ?u = "upd_client slot (\<lambda>c. c\<lparr>cl_tx := send, cl_rx := recv, cl_enc := True, cl_keyed := have_key s\<rparr>) ?s"
  have "write_frame fd (0 # m2) ?u = (True, ?u\<lparr>wrote := wrote ?u @ [(fd, noise_frame (0 # m2))]\<rparr>)"
    using fd(1) len2 by (intro write_frame_up) (simp_all add: upd_client_def)
  moreover have "noise_frame (0 # m1) @ q = [1] @ drop 1 (noise_frame (0 # m1)) @ q" by (simp add: noise_frame_def)
  ultimately have "noise_handshake C w r fd slot (drop 1 (noise_frame ch) @ noise_frame (0 # m1) @ q) s =
      (Some q, ?u\<lparr>wrote := wrote ?u @ [(fd, noise_frame (0 # m2))]\<rparr>)"
    using hs(1) len1 w2 fd(3) write_frame_up [OF fd(3,1)] frame_read [of "0 # m1" q] frame_read(2) [OF fd(4)]
    by (simp add: noise_handshake_def Let_def)
  with read2 show ?thesis by (intro exI conjI) (assumption | simp add: upd_client_def)+
qed

text \<open>A message as the other end seals it: type and length ahead of it, both big-endian.\<close>

definition api_message :: "u32 \<Rightarrow> bytes \<Rightarrow> bytes" where
  "api_message type m = [ucast (drop_bit 8 type), ucast type, of_nat (length m div 256), of_nat (length m)] @ m"

lemma message_heard:
  assumes law: "noise_law C" and "type < 65536" "length m \<le> 0xffff - 20" "cl_rx (clients t ! slot) = c"
  shows "serve_next C w fd slot True None (noise_frame (fst (noise_encrypt C (api_message type m) c)) @ q) t =
    (case handle C w fd type m (upd_client slot (cl_rx_update (\<lambda>_. snd (noise_encrypt C (api_message type m) c))) t) of
       (keep, u) \<Rightarrow> (if keep then Some q else None, u))"
proof -
  let ?pt = "api_message type m" and ?ct = "fst (noise_encrypt C (api_message type m) c)"
  have len: "length ?ct \<le> 0xffff"
    using assms(3) by (simp add: noise_encrypt_def aead_opens(2) [OF law] api_message_def)
  have opened: "noise_decrypt C ?ct c = (Some ?pt, snd (noise_encrypt C ?pt c))"
    by (simp add: noise_decrypt_def noise_encrypt_def aead_opens(1) [OF law])
  have "unat (?pt ! 2) * 256 + unat (?pt ! 3) = length ?pt - 4" "\<not> length ?pt < 4" "drop 4 ?pt = m"
    "push_bit 8 (ucast (?pt ! 0)) OR ucast (?pt ! 1) = type"
    using frame_length [of "length m"] assms(2,3) type_bytes by (simp_all add: api_message_def)
  then have "read_enc C (noise_frame ?ct @ q) c = (Some (type, m, q), snd (noise_encrypt C ?pt c))"
    using frame_read [OF len, of q] opened by (simp add: read_enc_def)
  with assms(4) show ?thesis by (simp add: serve_next_def Let_def case_prod_beta)
qed

text \<open>
  C8. Home Assistant with the device's key gets in and is heard.  Its hello and first message bring a
  new connection to the encrypted state; what the device answered is all it wrote, the client reads it and
  has the matching cipher states; the connection counts as keyed where the device had a key.  The first message it then sends
  is opened and handled as the request it is, and the connection goes on with the bytes after it.
\<close>

theorem keyed_client_heard:
  assumes "noise_law C" "length (x25519_public_key C a) = 32" "length (x25519_public_key C (take 32 r)) = 32"
    and "i = (noise_nn_responder_init PROLOGUE)\<lparr>e_priv := a, e_pub := x25519_public_key C a\<rparr>"
    and "nn_write_msg1 C (device_psk s) [] i = (m1, i1)"
    and "fd \<notin> set (down s)" "slot < length (clients s)" "length (server_hello w) \<le> 0xffff" "length ch \<le> 0xffff"
    and "type < 65536" "length m \<le> 0xffff - 20"
  shows "\<exists>t m2 isend irecv h.
     serve_first C w r fd slot k (noise_frame ch @ noise_frame (0 # m1) @ q) s = (Some (q, None), t) \<and>
     wrote t = wrote s @ [(fd, noise_frame (server_hello w)), (fd, noise_frame (0 # m2))] \<and>
     nn_read_msg2 C m2 i1 = Some ([], isend, irecv, h) \<and>
     cl_enc (clients t ! slot) \<and> cl_keyed (clients t ! slot) = have_key s \<and> cl_tx (clients t ! slot) = irecv \<and>
     serve_next C w fd slot True None (noise_frame (fst (noise_encrypt C (api_message type m) isend)) @ q') t =
       (case handle C w fd type m (upd_client slot (cl_rx_update (\<lambda>_. snd (noise_encrypt C (api_message type m) isend))) t) of
          (keep, u) \<Rightarrow> (if keep then Some q' else None, u))"
proof -
  from handshake_works [OF assms(1-9), of q] obtain t m2 isend irecv h where
    t: "noise_handshake C w r fd slot (drop 1 (noise_frame ch) @ noise_frame (0 # m1) @ q) s = (Some q, t)"
      "wrote t = wrote s @ [(fd, noise_frame (server_hello w)), (fd, noise_frame (0 # m2))]"
      "nn_read_msg2 C m2 i1 = Some ([], isend, irecv, h)"
      "t = upd_client slot (\<lambda>c. c\<lparr>cl_tx := irecv, cl_rx := isend, cl_enc := True, cl_keyed := have_key s\<rparr>) (s\<lparr>wrote := wrote t\<rparr>)"
    by blast
  have "clients t ! slot = (clients s ! slot)\<lparr>cl_tx := irecv, cl_rx := isend, cl_enc := True, cl_keyed := have_key s\<rparr>"
    using assms(7) by (subst t(4)) (simp add: upd_client_def)
  moreover have "serve_first C w r fd slot k (noise_frame ch @ noise_frame (0 # m1) @ q) s = (Some (q, None), t)"
    using frame_read(1) [OF assms(9), of "noise_frame (0 # m1) @ q"] t(1) by (simp add: serve_first_def)
  moreover note message_heard [OF assms(1,10,11), of t slot isend w fd q']
  ultimately show ?thesis using t(2,3) by (intro exI [of _ t] exI [of _ m2] exI [of _ isend] exI [of _ irecv] exI [of _ h]) simp
qed

theorem keyed_client_heard_witness:
  "let i = (noise_nn_responder_init PROLOGUE)\<lparr>e_priv := replicate 32 7, e_pub := replicate 32 7\<rparr>;
       m1 = fst (nn_write_msg1 toy_noise (replicate 32 9) [] i)
   in \<exists>t. serve_first toy_noise demo_world (replicate 32 5) 7 0 True (noise_frame [] @ noise_frame (0 # m1)) demo_api =
       (Some ([], None), t) \<and> cl_keyed (clients t ! 0)"
proof -
  have pub: "x25519_public_key toy_noise k = k" for k by (simp add: toy_noise_def)
  let ?i = "(noise_nn_responder_init PROLOGUE)\<lparr>e_priv := replicate 32 7, e_pub := x25519_public_key toy_noise (replicate 32 7)\<rparr>"
  have d: "device_psk demo_api = replicate 32 9" "down demo_api = []" "0 < length (clients demo_api)"
    by (simp_all add: device_psk_def demo_api_def upd_client_def esp0_def)
  have "length (x25519_public_key toy_noise (replicate 32 7)) = 32"
    "length (x25519_public_key toy_noise (take 32 (replicate 32 5))) = 32"
    "7 \<notin> set (down demo_api)" "length (server_hello demo_world) \<le> 0xffff" "length ([] :: bytes) \<le> 0xffff"
    "(7 :: u32) < 65536" "length ([] :: bytes) \<le> 0xffff - 20"
    using d by (simp_all add: pub server_hello_def demo_world_def mac_plain_def ascii_def)
  from keyed_client_heard [where ?m1.0 = "fst (nn_write_msg1 toy_noise (replicate 32 9) [] ?i)"
      and ?i1.0 = "snd (nn_write_msg1 toy_noise (replicate 32 9) [] ?i)" and k = True and q = "[]" and q' = "[]",
      OF toy_noise_law this(1,2) refl _ this(3) d(3) this(4-)] d(1)
  show ?thesis using demo_api_client(3) by (simp add: Let_def pub) blast
qed

section \<open>The key over a restart\<close>

lemma b64_loop_text:
  assumes "b64_loop n acc bits out k = Some d" "\<And>c. \<not> P c \<Longrightarrow> c \<noteq> 0x3d \<and> b64_value c = None"
  shows "b64_loop n acc bits out (takeWhile P k) = Some d"
  using assms(1)
proof (induction n acc bits out k rule: b64_loop.induct)
  case (2 n acc bits out c rest)
  show ?case
  proof (cases "P c")
    case False
    with assms(2) [of c] "2.prems" show ?thesis by simp
  next
    case True
    with 2 show ?thesis by (auto simp: Let_def split: option.splits if_splits)
  qed
qed simp

lemma takeWhile_twice: "takeWhile P (takeWhile Q xs) = takeWhile (\<lambda>x. P x \<and> Q x) xs"
  by (induction xs) auto

text \<open>
  The key Home Assistant set is the key after a restart: the file \<open>key_set\<close> wrote makes \<open>key_load\<close> find the same 32
  bytes, and after a key was cleared there is none.
\<close>

theorem key_survives_restart:
  assumes "key_set k s = (True, t)"
  shows "have_key (key_load (esp0 (key_file t))) = have_key t \<and>
    (have_key t \<longrightarrow> api_key (key_load (esp0 (key_file t))) = api_key t \<and> length (api_key t) = 32)"
proof (cases "k = []")
  case True
  with assms show ?thesis by (auto simp: key_set_def key_load_def esp0_def ask_def split: if_splits)
next
  case False
  with assms obtain raw where raw: "b64_decode k 32 = Some raw" "length raw = 32" "length k < 64"
    "have_key t" "api_key t = raw" "key_file t = Some (cstr k @ [10])"
    by (auto simp: key_set_def ask_def split: if_splits option.splits)
  have "fit 128 (cstr k @ [10]) = cstr k @ [10]" using raw(3) length_cstr [of k] by (intro fit_id) simp
  then have "key_line (cstr k @ [10]) = takeWhile (\<lambda>c. (c \<noteq> 13 \<and> c \<noteq> 10) \<and> c \<noteq> 0) k"
    using cstr_no_nul [of k] cstr_id [of "cstr k @ [10]"] by (simp add: key_line_def takeWhile_tail cstr_def [of k] takeWhile_twice)
  moreover have "b64_loop 32 0 0 [] (takeWhile (\<lambda>c. (c \<noteq> 13 \<and> c \<noteq> 10) \<and> c \<noteq> 0) k) = Some raw"
    by (rule b64_loop_text) (use raw(1) in \<open>auto simp: b64_decode_def b64_value_def\<close>)
  ultimately show ?thesis using raw by (simp add: key_load_def esp0_def b64_decode_def)
qed

theorem key_survives_restart_witness:
  "let (ok, t) = key_set (b64_encode False True (replicate 32 9)) (esp0 None)
   in ok \<and> have_key (key_load (esp0 (key_file t))) \<and> api_key (key_load (esp0 (key_file t))) = replicate 32 9"
proof -
  have r: "b64_decode (b64_encode False True (replicate 32 9)) 32 = Some (replicate 32 9)" by code_simp
  have l: "length (b64_encode False True (replicate 32 9)) < 64" "b64_encode False True (replicate 32 9) \<noteq> []" by code_simp+
  obtain ok t where t: "key_set (b64_encode False True (replicate 32 9)) (esp0 None) = (ok, t)" by fastforce
  with r l have "ok" "have_key t" "api_key t = replicate 32 9"
    by (auto simp: key_set_def esp0_def ask_def)
  with key_survives_restart [of "b64_encode False True (replicate 32 9)" "esp0 None" t] t show ?thesis by simp
qed

end
