(* ===== verification/Statefile.thy ===== *)
theory Statefile
  imports Prelude
begin

text \<open>
  State files (\<^verbatim>\<open>statefile.c\<close>): a file written under a temporary name, put on the flash, then renamed.
  The file system is what its manual pages promise and no more: names and data are on the flash only after
  \<open>fsync\<close>; until then a reset leaves a name as any of the files it has been since its folder was last put on the flash, each name
  for itself, and the data of a file that is not on the flash as anything at all.  Any number of threads write at
  once, one system call or atomic operation at a time, each of which may fail; the process may die and the power may go
  between any two of them.  Shown: a state file then holds what it held before or all of one write's data, the temporary
  numbers of the writes in flight differ, and a write that returned is on the flash.
\<close>

section \<open>The file system\<close>

record fs =
  names :: "bytes \<Rightarrow> nat option"
  kept :: "bytes \<Rightarrow> nat option list"
  fdata :: "nat \<Rightarrow> bytes"
  on_flash :: "nat \<Rightarrow> bool"
  fresh :: nat

definition set_name :: "bytes \<Rightarrow> nat option \<Rightarrow> fs \<Rightarrow> fs" where
  "set_name p v d = d\<lparr>names := (names d)(p := v), kept := (kept d)(p := kept d p @ [v])\<rparr>"

definition fs_unlink :: "bytes \<Rightarrow> fs \<Rightarrow> fs" where
  "fs_unlink p d = (if names d p = None then d else set_name p None d)"

text \<open>\<open>open(\<dots>, O_CREAT | O_EXCL | O_NOFOLLOW)\<close>: only a name that is not there.\<close>

definition fs_create :: "bytes \<Rightarrow> fs \<Rightarrow> (nat \<times> fs) option" where
  "fs_create p d = (if names d p \<noteq> None then None
     else let i = fresh d
          in Some (i, set_name p (Some i) (d\<lparr>fdata := (fdata d)(i := []), on_flash := (on_flash d)(i := False),
                                            fresh := Suc i\<rparr>)))"

definition fs_append :: "nat \<Rightarrow> bytes \<Rightarrow> fs \<Rightarrow> fs" where
  "fs_append i b d = (if b = [] then d
     else d\<lparr>fdata := (fdata d)(i := fdata d i @ b), on_flash := (on_flash d)(i := False)\<rparr>)"

definition fs_fsync :: "nat \<Rightarrow> fs \<Rightarrow> fs" where
  "fs_fsync i d = d\<lparr>on_flash := (on_flash d)(i := True)\<rparr>"

definition fs_rename :: "bytes \<Rightarrow> bytes \<Rightarrow> fs \<Rightarrow> fs option" where
  "fs_rename a b d = (case names d a of None \<Rightarrow> None
     | Some i \<Rightarrow> Some (set_name a None (set_name b (Some i) d)))"

text \<open>The folder a name is in, as \<open>sync_parent\<close> computes it.\<close>

definition parent :: "bytes \<Rightarrow> bytes" where
  "parent p = (if 0x2f \<notin> set p then ascii ''.''
     else let n = length p - 1 - length (takeWhile (\<lambda>c. c \<noteq> 0x2f) (rev p))
          in fit 320 (take (if n \<noteq> 0 then n else 1) p))"

definition fs_sync_folder :: "bytes \<Rightarrow> fs \<Rightarrow> fs" where
  "fs_sync_folder f d = d\<lparr>kept := (\<lambda>p. if parent p = f then [names d p] else kept d p)\<rparr>"

text \<open>A reset: \<open>ch\<close> says which of its files each name is left as, \<open>junk\<close> what unwritten data reads as.\<close>

definition fs_reset :: "(bytes \<Rightarrow> nat) \<Rightarrow> (nat \<Rightarrow> bytes) \<Rightarrow> fs \<Rightarrow> fs" where
  "fs_reset ch junk d =
     (let nm = (\<lambda>p. kept d p ! (ch p mod length (kept d p)))
      in d\<lparr>names := nm, kept := (\<lambda>p. [nm p]),
           fdata := (\<lambda>i. if on_flash d i then fdata d i else junk i), on_flash := (\<lambda>_. True)\<rparr>)"

definition content :: "fs \<Rightarrow> bytes \<Rightarrow> bytes option" where
  "content d p = map_option (fdata d) (names d p)"

definition settled :: "fs \<Rightarrow> bool" where
  "settled d \<longleftrightarrow> (\<forall>p. kept d p = [names d p]) \<and> (\<forall>i. on_flash d i) \<and> (\<forall>p i. names d p = Some i \<longrightarrow> i < fresh d)"

section \<open>Writers\<close>

text \<open>
  What a caller asks for: the path, what it writes piece by piece, and whether it gives up when a piece
  fails (\<open>statefile_write\<close> does; those that print lines leave it to \<open>ferror\<close> in \<open>statefile_commit\<close>).
\<close>

record job =
  j_path :: bytes
  j_chunks :: "bytes list"
  j_checked :: bool

text \<open>Where a writer is: the calls of \<open>statefile_open\<close>, \<open>fwrite\<close>, \<open>statefile_commit\<close> and \<open>statefile_abort\<close> in their order.\<close>

datatype pc = Begin | Pick nat | Take nat nat | Unlink | Create | Fdopen
  | Writing "bytes list" | Abort
  | Flush | Fsync | Fclose bool | Rename
  | Undo | Release bool | Folder | Done bool

text \<open>\<open>struct statefile\<close> (\<open>buf\<close>: what is still in \<open>f\<close>'s buffer, \<open>err\<close>: \<open>ferror(f)\<close>) and the writer's place.\<close>

record statefile =
  pc :: pc
  slot :: "nat option"
  ino :: nat
  buf :: bytes
  err :: bool

record shared =
  disk :: fs
  seq :: u32
  busy :: "bool list"

definition tmp_name :: "bytes \<Rightarrow> nat \<Rightarrow> bytes" where
  "tmp_name p n = p @ ascii ''.tmp'' @ dec_digits n"

definition s_tmp :: "job \<Rightarrow> statefile \<Rightarrow> bytes" where
  "s_tmp j s = fit 330 (tmp_name (j_path j) (case slot s of Some n \<Rightarrow> n | None \<Rightarrow> 0))"

definition release :: "statefile \<Rightarrow> shared \<Rightarrow> statefile \<times> shared" where
  "release s g = (case slot s of None \<Rightarrow> (s, g) | Some n \<Rightarrow> (s\<lparr>slot := None\<rparr>, g\<lparr>busy := (busy g)[n := False]\<rparr>))"

text \<open>\<open>ok\<close>: the system call works; \<open>k\<close>: how many bytes of the buffer the system has taken.\<close>

fun statefile_open :: "job \<Rightarrow> bool \<Rightarrow> pc \<Rightarrow> statefile \<Rightarrow> shared \<Rightarrow> statefile \<times> shared" where
  "statefile_open j ok Begin s g =
     (s\<lparr>slot := None, pc := (if 320 \<le> length (j_path j) then Done False else Pick 0)\<rparr>, g)"
| "statefile_open j ok (Pick i) s g =
     (if i < 100 then (s\<lparr>pc := Take i (unat (seq g) mod 100)\<rparr>, g\<lparr>seq := seq g + 1\<rparr>)
      else (s\<lparr>pc := Done False\<rparr>, g))"
| "statefile_open j ok (Take i n) s g =
     (if busy g ! n then (s\<lparr>pc := Pick (Suc i)\<rparr>, g)
      else (s\<lparr>slot := Some n, pc := Unlink\<rparr>, g\<lparr>busy := (busy g)[n := True]\<rparr>))"
| "statefile_open j ok Unlink s g =
     (s\<lparr>pc := Create\<rparr>, if ok then g\<lparr>disk := fs_unlink (s_tmp j s) (disk g)\<rparr> else g)"
| "statefile_open j ok Create s g =
     (if \<not> ok then (s\<lparr>pc := Release False\<rparr>, g)
      else case fs_create (s_tmp j s) (disk g) of
          None \<Rightarrow> (s\<lparr>pc := Release False\<rparr>, g)
        | Some (i, d) \<Rightarrow> (s\<lparr>ino := i, pc := Fdopen\<rparr>, g\<lparr>disk := d\<rparr>))"
| "statefile_open j ok _ s g =
     (if ok then (s\<lparr>buf := [], err := False, pc := Writing (j_chunks j)\<rparr>, g) else (s\<lparr>pc := Undo\<rparr>, g))"

text \<open>The system takes \<open>k\<close> bytes of the buffer; \<open>fclose\<close> offers it the rest.\<close>

definition drain :: "nat \<Rightarrow> statefile \<Rightarrow> shared \<Rightarrow> statefile \<times> shared" where
  "drain k s g = (s\<lparr>buf := drop k (buf s)\<rparr>, g\<lparr>disk := fs_append (ino s) (take k (buf s)) (disk g)\<rparr>)"

definition fwrite :: "job \<Rightarrow> bool \<Rightarrow> nat \<Rightarrow> bytes list \<Rightarrow> statefile \<Rightarrow> shared \<Rightarrow> statefile \<times> shared" where
  "fwrite j ok k cs s g = (case cs of [] \<Rightarrow> (s\<lparr>pc := Flush\<rparr>, g)
     | c # cs' \<Rightarrow> (let (s1, g1) = drain k (s\<lparr>buf := buf s @ c\<rparr>) g
                  in (if ok then s1\<lparr>pc := Writing cs'\<rparr>
                      else s1\<lparr>err := True, pc := (if j_checked j then Abort else Writing cs')\<rparr>, g1)))"

fun statefile_commit :: "job \<Rightarrow> bool \<Rightarrow> nat \<Rightarrow> pc \<Rightarrow> statefile \<Rightarrow> shared \<Rightarrow> statefile \<times> shared" where
  "statefile_commit j ok k Flush s g =
     (if err s then (s\<lparr>pc := Fclose True\<rparr>, g)
      else if ok then (let (s1, g1) = drain (length (buf s)) s g in (s1\<lparr>pc := Fsync\<rparr>, g1))
      else (let (s1, g1) = drain k s g in (s1\<lparr>pc := Fclose True\<rparr>, g1)))"
| "statefile_commit j ok k Fsync s g =
     (if ok then (s\<lparr>pc := Fclose False\<rparr>, g\<lparr>disk := fs_fsync (ino s) (disk g)\<rparr>) else (s\<lparr>pc := Fclose True\<rparr>, g))"
| "statefile_commit j ok k (Fclose bad) s g =
     (let (s1, g1) = drain k s g in (s1\<lparr>buf := [], pc := (if bad \<or> \<not> ok then Undo else Rename)\<rparr>, g1))"
| "statefile_commit j ok k Rename s g =
     (if \<not> ok then (s\<lparr>pc := Undo\<rparr>, g)
      else case fs_rename (s_tmp j s) (j_path j) (disk g) of
          None \<Rightarrow> (s\<lparr>pc := Undo\<rparr>, g)
        | Some d \<Rightarrow> (s\<lparr>pc := Release True\<rparr>, g\<lparr>disk := d\<rparr>))"
| "statefile_commit j ok k _ s g =
     (s\<lparr>pc := Done True\<rparr>, if ok then g\<lparr>disk := fs_sync_folder (parent (j_path j)) (disk g)\<rparr> else g)"

definition statefile_abort :: "bool \<Rightarrow> nat \<Rightarrow> statefile \<Rightarrow> shared \<Rightarrow> statefile \<times> shared" where
  "statefile_abort ok k s g = (let (s1, g1) = drain k s g in (s1\<lparr>buf := [], pc := Undo\<rparr>, g1))"

text \<open>A writer's next operation.  \<open>Undo\<close> and \<open>Release\<close> are the ends the three functions share: \<open>unlink(s->tmp)\<close>, then \<open>release\<close>.\<close>

definition statefile_step :: "job \<Rightarrow> bool \<Rightarrow> nat \<Rightarrow> statefile \<Rightarrow> shared \<Rightarrow> statefile \<times> shared" where
  "statefile_step j ok k s g = (case pc s of
       Writing cs \<Rightarrow> fwrite j ok k cs s g
     | Abort \<Rightarrow> statefile_abort ok k s g
     | Flush \<Rightarrow> statefile_commit j ok k Flush s g
     | Fsync \<Rightarrow> statefile_commit j ok k Fsync s g
     | Fclose bad \<Rightarrow> statefile_commit j ok k (Fclose bad) s g
     | Rename \<Rightarrow> statefile_commit j ok k Rename s g
     | Undo \<Rightarrow> (s\<lparr>pc := Release False\<rparr>, if ok then g\<lparr>disk := fs_unlink (s_tmp j s) (disk g)\<rparr> else g)
     | Release r \<Rightarrow> (let (s1, g1) = release s g in (s1\<lparr>pc := (if r then Folder else Done False)\<rparr>, g1))
     | Folder \<Rightarrow> statefile_commit j ok k Folder s g
     | Done r \<Rightarrow> (s, g)
     | p \<Rightarrow> statefile_open j ok p s g)"

section \<open>Interleaving, deaths and resets\<close>

type_synonym world = "(nat \<Rightarrow> statefile) \<times> shared"

definition idle :: statefile where
  "idle = \<lparr>pc = Begin, slot = None, ino = 0, buf = [], err = False\<rparr>"

definition boot :: "fs \<Rightarrow> world" where
  "boot d = (\<lambda>_. idle, \<lparr>disk = d, seq = 0, busy = replicate 100 False\<rparr>)"

definition turn :: "(nat \<Rightarrow> job) \<Rightarrow> nat \<Rightarrow> bool \<Rightarrow> nat \<Rightarrow> world \<Rightarrow> world" where
  "turn jobs t ok k w = (let (s, g) = statefile_step (jobs t) ok k (fst w t) (snd w) in ((fst w)(t := s), g))"

inductive runs :: "(nat \<Rightarrow> job) \<Rightarrow> fs \<Rightarrow> world \<Rightarrow> bool" for jobs d where
  start: "runs jobs d (boot d)"
| turn: "runs jobs d w \<Longrightarrow> runs jobs d (turn jobs t ok k w)"
| death: "runs jobs d w \<Longrightarrow> runs jobs d (boot (disk (snd w)))"
| reset: "runs jobs d w \<Longrightarrow> runs jobs d (boot (fs_reset ch junk (disk (snd w))))"

text \<open>No state file has the name of another's temporary one.\<close>

definition apart :: "(nat \<Rightarrow> job) \<Rightarrow> bool" where
  "apart jobs \<longleftrightarrow> (\<forall>t u n. j_path (jobs t) \<noteq> tmp_name (j_path (jobs u)) n)"

section \<open>Temporary names\<close>

lemma tmp_name_inj: "tmp_name p n = tmp_name q m \<Longrightarrow> p = q \<and> n = m"
proof -
  let ?dig = "\<lambda>c::byte. 48 \<le> unat c \<and> unat c \<le> 57"
  have tw: "takeWhile ?dig (rev (tmp_name p n)) = rev (dec_digits n)" for p n
    using takeWhile_append2 [of "rev (dec_digits n)" ?dig]
    by (simp add: tmp_name_def ascii_def dec_digits_set)
  assume eq: "tmp_name p n = tmp_name q m"
  then have "n = m" using tw [of p n] tw [of q m] by (auto dest: dec_digits_inj)
  with eq show ?thesis by (simp add: tmp_name_def)
qed

lemma s_tmp_slot: "slot s = Some n \<Longrightarrow> n < 100 \<Longrightarrow> length (j_path j) < 320 \<Longrightarrow> s_tmp j s = tmp_name (j_path j) n"
  using length_dec_digits_100 [of n] by (simp add: s_tmp_def fit_id tmp_name_def)

section \<open>The invariant\<close>

text \<open>Which number a writer holds, at each place.\<close>

definition place_ok :: "job \<Rightarrow> statefile \<Rightarrow> bool" where
  "place_ok j s = (case pc s of
       Begin \<Rightarrow> slot s = None
     | Pick i \<Rightarrow> slot s = None \<and> length (j_path j) < 320
     | Take i n \<Rightarrow> slot s = None \<and> n < 100 \<and> length (j_path j) < 320
     | Folder \<Rightarrow> slot s = None
     | Done r \<Rightarrow> slot s = None
     | _ \<Rightarrow> (\<exists>n<100. slot s = Some n) \<and> length (j_path j) < 320)"

definition slots_ok :: "(nat \<Rightarrow> job) \<Rightarrow> world \<Rightarrow> bool" where
  "slots_ok jobs w \<longleftrightarrow> length (busy (snd w)) = 100 \<and> (\<forall>t. place_ok (jobs t) (fst w t)) \<and>
     (\<forall>t n. slot (fst w t) = Some n \<longrightarrow> busy (snd w) ! n) \<and>
     (\<forall>t u n. slot (fst w t) = Some n \<and> slot (fst w u) = Some n \<longrightarrow> t = u)"

definition holds :: "statefile \<Rightarrow> bool" where
  "holds s = (case pc s of Fdopen \<Rightarrow> True | Writing _ \<Rightarrow> True | Abort \<Rightarrow> True | Flush \<Rightarrow> True | Fsync \<Rightarrow> True
     | Fclose _ \<Rightarrow> True | Rename \<Rightarrow> True | _ \<Rightarrow> False)"

definition disk_ok :: "fs \<Rightarrow> bool" where
  "disk_ok d \<longleftrightarrow> (\<forall>p. kept d p \<noteq> [] \<and> last (kept d p) = names d p \<and> (\<forall>i. Some i \<in> set (kept d p) \<longrightarrow> i < fresh d))"

definition mine :: "job \<Rightarrow> statefile \<Rightarrow> fs \<Rightarrow> bool" where
  "mine j s d \<longleftrightarrow> (holds s \<longrightarrow> names d (s_tmp j s) = Some (ino s) \<and>
                              (\<forall>p. Some (ino s) \<in> set (kept d p) \<longrightarrow> p = s_tmp j s))"

text \<open>How far the data has come, at each place.\<close>

definition text_ok :: "job \<Rightarrow> statefile \<Rightarrow> fs \<Rightarrow> bool" where
  "text_ok j s d = (case pc s of
       Fdopen \<Rightarrow> fdata d (ino s) = []
     | Writing cs \<Rightarrow> err s \<or> fdata d (ino s) @ buf s @ concat cs = concat (j_chunks j)
     | Flush \<Rightarrow> err s \<or> fdata d (ino s) @ buf s = concat (j_chunks j)
     | Fsync \<Rightarrow> buf s = [] \<and> fdata d (ino s) = concat (j_chunks j)
     | Fclose bad \<Rightarrow> bad \<or> buf s = [] \<and> on_flash d (ino s) \<and> fdata d (ino s) = concat (j_chunks j)
     | Rename \<Rightarrow> on_flash d (ino s) \<and> fdata d (ino s) = concat (j_chunks j)
     | _ \<Rightarrow> True)"

definition old_or_new :: "(nat \<Rightarrow> job) \<Rightarrow> fs \<Rightarrow> bytes \<Rightarrow> bytes option \<Rightarrow> bool" where
  "old_or_new jobs d0 p v \<longleftrightarrow> v = content d0 p \<or> (\<exists>t. j_path (jobs t) = p \<and> v = Some (concat (j_chunks (jobs t))))"

definition good :: "(nat \<Rightarrow> job) \<Rightarrow> fs \<Rightarrow> fs \<Rightarrow> bytes \<Rightarrow> nat option \<Rightarrow> bool" where
  "good jobs d0 d p v \<longleftrightarrow> old_or_new jobs d0 p (map_option (fdata d) v) \<and> (\<forall>i. v = Some i \<longrightarrow> on_flash d i)"

definition files_ok :: "(nat \<Rightarrow> job) \<Rightarrow> fs \<Rightarrow> fs \<Rightarrow> bool" where
  "files_ok jobs d0 d \<longleftrightarrow> disk_ok d \<and> (\<forall>t. \<forall>v\<in>set (kept d (j_path (jobs t))). good jobs d0 d (j_path (jobs t)) v)"

definition inv :: "(nat \<Rightarrow> job) \<Rightarrow> fs \<Rightarrow> world \<Rightarrow> bool" where
  "inv jobs d0 w \<longleftrightarrow> slots_ok jobs w \<and> files_ok jobs d0 (disk (snd w)) \<and>
     (\<forall>t. mine (jobs t) (fst w t) (disk (snd w)) \<and> text_ok (jobs t) (fst w t) (disk (snd w)))"

lemmas step_defs = statefile_step_def fwrite_def statefile_abort_def drain_def release_def
lemmas fs_defs = fs_unlink_def fs_create_def fs_append_def fs_fsync_def fs_rename_def fs_sync_folder_def set_name_def

section \<open>Numbers in flight\<close>

lemma place_step: "place_ok j s \<Longrightarrow> statefile_step j ok k s g = (s', g') \<Longrightarrow> place_ok j s'"
  by (cases "pc s")
     (auto simp: place_ok_def step_defs Let_def split: if_splits option.splits list.splits)

text \<open>Only \<open>Take\<close> and \<open>Release\<close> change who holds which number.\<close>

lemma slot_step:
  assumes "place_ok j s" "statefile_step j ok k s g = (s', g')"
  shows "slot s' = slot s \<and> busy g' = busy g
    \<or> (\<exists>n<100. slot s = None \<and> \<not> busy g ! n \<and> slot s' = Some n \<and> busy g' = (busy g)[n := True])
    \<or> (\<exists>n. slot s = Some n \<and> slot s' = None \<and> busy g' = (busy g)[n := False])"
  using assms
  by (cases "pc s")
     (auto simp: place_ok_def step_defs Let_def split: if_splits option.splits list.splits)

lemma place_slot: "place_ok j s \<Longrightarrow> slot s = Some n \<Longrightarrow> n < 100 \<and> length (j_path j) < 320"
  by (cases "pc s") (auto simp: place_ok_def)

lemma turn_parts: "turn jobs t ok k w = ((fst w)(t := fst (statefile_step (jobs t) ok k (fst w t) (snd w))),
    snd (statefile_step (jobs t) ok k (fst w t) (snd w)))"
  by (simp add: turn_def case_prod_beta)

lemma slots_turn:
  assumes ok: "slots_ok jobs w"
  shows "slots_ok jobs (turn jobs t b k w)"
proof -
  obtain s' g' where st: "statefile_step (jobs t) b k (fst w t) (snd w) = (s', g')" by fastforce
  from ok have place: "place_ok (jobs t) (fst w t)" and len: "length (busy (snd w)) = 100"
    and held: "\<And>u n. slot (fst w u) = Some n \<Longrightarrow> busy (snd w) ! n"
    and uniq: "\<And>u v n. slot (fst w u) = Some n \<Longrightarrow> slot (fst w v) = Some n \<Longrightarrow> u = v"
    by (auto simp: slots_ok_def)
  have lt: "\<And>u n. slot (fst w u) = Some n \<Longrightarrow> n < 100"
    using ok place_slot by (auto simp: slots_ok_def)
  have places: "\<forall>u. place_ok (jobs u) (((fst w)(t := s')) u)"
    using ok place_step [OF place st] by (simp add: slots_ok_def)
  from slot_step [OF place st]
  have "length (busy g') = 100 \<and> (\<forall>u n. slot (((fst w)(t := s')) u) = Some n \<longrightarrow> busy g' ! n) \<and>
     (\<forall>u v n. slot (((fst w)(t := s')) u) = Some n \<and> slot (((fst w)(t := s')) v) = Some n \<longrightarrow> u = v)"
  proof (elim disjE exE conjE)
    assume "slot s' = slot (fst w t)" "busy g' = busy (snd w)"
    then have same: "slot (((fst w)(t := s')) u) = slot (fst w u)" for u by simp
    show ?thesis unfolding same \<open>busy g' = busy (snd w)\<close> using len held uniq by blast
  next
    fix n assume n: "n < 100" "\<not> busy (snd w) ! n" "slot s' = Some n" "busy g' = (busy (snd w))[n := True]"
    then have other: "\<And>u. slot (fst w u) \<noteq> Some n" using held by blast
    have "busy g' ! m" if "slot (((fst w)(t := s')) u) = Some m" for u m
      using that n len held [of u m] by (cases "u = t"; cases "m = n") simp_all
    moreover have "u = v" if "slot (((fst w)(t := s')) u) = Some m" "slot (((fst w)(t := s')) v) = Some m" for u v m
      using that n other [of u] other [of v] uniq [of u m v] by (cases "u = t"; cases "v = t") simp_all
    moreover have "length (busy g') = 100" using n len by simp
    ultimately show ?thesis by blast
  next
    fix n assume n: "slot (fst w t) = Some n" "slot s' = None" "busy g' = (busy (snd w))[n := False]"
    have "busy g' ! m" if "slot (((fst w)(t := s')) u) = Some m" for u m
      using that n held [of u m] uniq [of u n t] by (cases "u = t"; cases "m = n") simp_all
    moreover have "u = v" if "slot (((fst w)(t := s')) u) = Some m" "slot (((fst w)(t := s')) v) = Some m" for u v m
      using that n uniq [of u m v] by (cases "u = t"; cases "v = t") simp_all
    moreover have "length (busy g') = 100" using n len by simp
    ultimately show ?thesis by blast
  qed
  with places show ?thesis unfolding slots_ok_def turn_parts st fst_conv snd_conv by blast
qed

lemma slots_boot: "slots_ok jobs (boot d)"
  by (simp add: slots_ok_def boot_def idle_def place_ok_def)

lemma slots_runs: "runs jobs d w \<Longrightarrow> slots_ok jobs w"
  by (induction rule: runs.induct) (auto intro: slots_turn slots_boot)

section \<open>What one operation does to the disk\<close>

inductive effect :: "job \<Rightarrow> statefile \<Rightarrow> fs \<Rightarrow> fs \<Rightarrow> bool" for j s d where
  none: "effect j s d d"
| unlink: "slot s = Some n \<Longrightarrow> effect j s d (fs_unlink (s_tmp j s) d)"
| create: "slot s = Some n \<Longrightarrow> fs_create (s_tmp j s) d = Some (i, d') \<Longrightarrow> effect j s d d'"
| append: "holds s \<Longrightarrow> effect j s d (fs_append (ino s) b d)"
| fsync: "holds s \<Longrightarrow> effect j s d (fs_fsync (ino s) d)"
| rename: "pc s = Rename \<Longrightarrow> fs_rename (s_tmp j s) (j_path j) d = Some d' \<Longrightarrow> effect j s d d'"
| folder: "effect j s d (fs_sync_folder f d)"

lemma step_effect:
  assumes "place_ok j s" "statefile_step j ok k s g = (s', g')"
  shows "effect j s (disk g) (disk g')"
  using assms holds_def [of s]
  by (cases "pc s")
     (auto simp: place_ok_def step_defs Let_def intro: effect.intros
           split: if_splits option.splits list.splits)

lemma holds_slot: "place_ok j s \<Longrightarrow> holds s \<Longrightarrow> slot s \<noteq> None"
  by (cases "pc s") (auto simp: place_ok_def holds_def)

lemma disk_okD: "disk_ok d \<Longrightarrow> kept d p \<noteq> [] \<and> names d p = last (kept d p)"
  by (simp add: disk_ok_def)

lemma names_kept: "disk_ok d \<Longrightarrow> names d p \<in> set (kept d p)"
  by (simp add: disk_okD)

lemma kept_fresh: "disk_ok d \<Longrightarrow> Some i \<in> set (kept d p) \<Longrightarrow> i < fresh d"
  by (auto simp: disk_ok_def)

lemma disk_ok_set_name: "disk_ok d \<Longrightarrow> (\<And>i. v = Some i \<Longrightarrow> i < fresh d) \<Longrightarrow> disk_ok (set_name p v d)"
  by (auto simp: disk_ok_def set_name_def)

lemma disk_ok_effect:
  assumes "effect j s d d'" "disk_ok d"
  shows "disk_ok d'"
  using assms
proof (induction rule: effect.induct)
  case (create n i d')
  then have "d' = set_name (s_tmp j s) (Some i) (d\<lparr>fdata := (fdata d)(i := []), on_flash := (on_flash d)(i := False), fresh := Suc i\<rparr>)"
    "i = fresh d" by (auto simp: fs_create_def Let_def split: if_splits)
  moreover have "disk_ok (d\<lparr>fdata := (fdata d)(i := []), on_flash := (on_flash d)(i := False), fresh := Suc i\<rparr>)"
    using create calculation(2) by (fastforce simp: disk_ok_def)
  ultimately show ?case by (auto intro!: disk_ok_set_name)
next
  case (rename d')
  then obtain i where "names d (s_tmp j s) = Some i" "d' = set_name (s_tmp j s) None (set_name (j_path j) (Some i) d)"
    by (auto simp: fs_rename_def split: option.splits)
  moreover from this have "i < fresh d" using names_kept [of d "s_tmp j s"] kept_fresh rename by metis
  ultimately show ?case using rename by (auto intro!: disk_ok_set_name)
next
  case (folder f)
  then show ?case using names_kept [of d] by (auto simp: disk_ok_def fs_sync_folder_def) (metis last_in_set)
qed (auto simp: disk_ok_def fs_append_def fs_fsync_def fs_unlink_def set_name_def)

text \<open>What the other writers hold stays theirs.\<close>

lemma effect_spares:
  assumes "effect j s d d'" "disk_ok d" "mine j s d" "slot s \<noteq> None \<longrightarrow> s_tmp j s \<noteq> q" "j_path j \<noteq> q"
    and "holds s \<longrightarrow> slot s \<noteq> None"
    and own: "names d q = Some i" "\<forall>p. Some i \<in> set (kept d p) \<longrightarrow> p = q"
  shows "names d' q = Some i \<and> (\<forall>p. Some i \<in> set (kept d' p) \<longrightarrow> p = q) \<and> fdata d' i = fdata d i \<and> on_flash d' i = on_flash d i"
proof -
  have lt: "i < fresh d" using own names_kept [of d q] kept_fresh assms(2) by metis
  have ne: "holds s \<Longrightarrow> i \<noteq> ino s"
    using assms(3-6) own names_kept [OF assms(2)] by (metis mine_def)
  from assms(1) show ?thesis
  proof cases
    case unlink
    then show ?thesis using assms by (auto simp: fs_unlink_def set_name_def)
  next
    case create
    then show ?thesis using assms lt by (auto simp: fs_create_def set_name_def Let_def split: if_splits)
  next
    case append
    then show ?thesis using ne own by (auto simp: fs_append_def)
  next
    case fsync
    then show ?thesis using ne own by (auto simp: fs_fsync_def)
  next
    case rename
    then have "holds s" by (simp add: holds_def)
    then show ?thesis using rename ne assms by (auto simp: fs_rename_def mine_def set_name_def split: option.splits if_splits)
  next
    case folder
    then show ?thesis using own names_kept [OF assms(2)] by (simp add: fs_sync_folder_def)
  qed (use own in simp)
qed

lemma good_cong:
  "good jobs d0 d p v \<Longrightarrow> (\<And>i. v = Some i \<Longrightarrow> fdata d' i = fdata d i \<and> (on_flash d i \<longrightarrow> on_flash d' i)) \<Longrightarrow> good jobs d0 d' p v"
  by (cases v) (simp_all add: good_def)

text \<open>Every file a state file's name may be left as is on the flash and is the old or a whole new one.\<close>

lemma good_effect:
  assumes "effect (jobs t) s d d'" "files_ok jobs d0 d" "mine (jobs t) s d" "text_ok (jobs t) s d"
    and tmp: "slot s \<noteq> None \<longrightarrow> (\<forall>u. j_path (jobs u) \<noteq> s_tmp (jobs t) s)" and hs: "holds s \<longrightarrow> slot s \<noteq> None"
  shows "files_ok jobs d0 d'"
proof -
  have ok: "disk_ok d" and good: "\<And>u v. v \<in> set (kept d (j_path (jobs u))) \<Longrightarrow> good jobs d0 d (j_path (jobs u)) v"
    using assms(2) by (auto simp: files_ok_def)
  have ne: "holds s \<Longrightarrow> Some (ino s) \<notin> set (kept d (j_path (jobs u)))" for u
    using assms(3) tmp hs by (metis mine_def)
  have "good jobs d0 d' (j_path (jobs u)) v" if v: "v \<in> set (kept d' (j_path (jobs u)))" for u v
    using assms(1)
  proof cases
    case unlink
    then have "v \<in> set (kept d (j_path (jobs u)))" "fdata d' = fdata d" "on_flash d' = on_flash d"
      using v tmp by (auto simp: fs_unlink_def set_name_def split: if_splits)
    then show ?thesis using good [of v u] by (simp add: good_def)
  next
    case (create n i)
    then have "v \<in> set (kept d (j_path (jobs u)))" "i = fresh d" "fdata d' = (fdata d)(i := [])"
      "on_flash d' = (on_flash d)(i := False)"
      using v tmp by (auto simp: fs_create_def set_name_def Let_def split: if_splits)
    moreover from this have "v \<noteq> Some i" using kept_fresh [OF ok] by fastforce
    ultimately show ?thesis by (intro good_cong [OF good]) auto
  next
    case (append b)
    then have "v \<in> set (kept d (j_path (jobs u)))" using v by (auto simp: fs_append_def split: if_splits)
    moreover from this have "v \<noteq> Some (ino s)" using ne append by fastforce
    ultimately show ?thesis using append by (intro good_cong [OF good]) (auto simp: fs_append_def)
  next
    case fsync
    then show ?thesis using v good [of v u] by (auto simp: good_def fs_fsync_def)
  next
    case rename
    then have nm: "names d (s_tmp (jobs t) s) = Some (ino s)" using assms(3) by (simp add: mine_def holds_def)
    have hold: "slot s \<noteq> None" using rename hs by (simp add: holds_def)
    have same: "fdata d' = fdata d" "on_flash d' = on_flash d"
      using rename nm by (auto simp: fs_rename_def set_name_def)
    have "v \<in> set (kept d (j_path (jobs u))) \<or> v = Some (ino s) \<and> j_path (jobs u) = j_path (jobs t)"
      using rename nm v tmp hold by (auto simp: fs_rename_def set_name_def split: if_splits)
    then show ?thesis
    proof
      assume "v = Some (ino s) \<and> j_path (jobs u) = j_path (jobs t)"
      then show ?thesis using assms(4) rename same by (auto simp: good_def old_or_new_def text_ok_def)
    qed (use good [of v u] same in \<open>simp add: good_def\<close>)
  next
    case folder
    then show ?thesis using v good [of v u] names_kept [OF ok] good [of "names d (j_path (jobs u))" u]
      by (auto simp: good_def fs_sync_folder_def split: if_splits)
  qed (use v good in simp)
  then show ?thesis using disk_ok_effect [OF assms(1) ok] by (simp add: files_ok_def)
qed

text \<open>A writer's own file after its operation.\<close>

lemma fs_append_simps [simp]:
  "names (fs_append i b d) = names d" "kept (fs_append i b d) = kept d"
  "fdata (fs_append i b d) = (fdata d)(i := fdata d i @ b)" "fs_append i [] d = d"
  by (auto simp: fs_append_def)

lemma fs_fsync_simps [simp]:
  "names (fs_fsync i d) = names d" "kept (fs_fsync i d) = kept d" "fdata (fs_fsync i d) = fdata d"
  "on_flash (fs_fsync i d) i"
  by (auto simp: fs_fsync_def)

text \<open>Only \<open>open\<close> gives a writer a file; till \<open>rename\<close> its operations leave every name alone.\<close>

lemma holds_step:
  assumes "statefile_step j ok k s g = (s', g')" "holds s'" "pc s \<noteq> Create"
  shows "holds s \<and> ino s' = ino s \<and> slot s' = slot s \<and> names (disk g') = names (disk g) \<and> kept (disk g') = kept (disk g)"
  using assms
  by (cases "pc s") (auto simp: holds_def step_defs Let_def split: if_splits option.splits list.splits)

lemma mine_step:
  assumes "statefile_step j ok k s g = (s', g')" "disk_ok (disk g)" "mine j s (disk g)"
  shows "mine j s' (disk g')"
proof (cases "pc s = Create")
  case True
  have "Some (fresh (disk g)) \<notin> set (kept (disk g) p)" for p
    using kept_fresh [OF assms(2)] by fastforce
  with True assms(1) show ?thesis
    by (auto simp: statefile_step_def mine_def holds_def fs_create_def set_name_def s_tmp_def Let_def split: if_splits)
next
  case False
  with assms holds_step [OF assms(1)] show ?thesis by (auto simp: mine_def s_tmp_def)
qed

lemma take_drop_app: "take k b @ drop k b @ r = b @ r"
  by (metis append_assoc append_take_drop_id)

lemma text_step:
  assumes "statefile_step j ok k s g = (s', g')" "text_ok j s (disk g)"
  shows "text_ok j s' (disk g')"
  using assms
  by (cases "pc s")
     (simp_all add: text_ok_def step_defs fs_create_def set_name_def Let_def take_drop_app
       del: take_append drop_append split: if_splits option.splits list.splits, auto simp: take_drop_app simp del: take_append drop_append)

section \<open>The old content or the new\<close>

lemma s_tmp_apart:
  assumes "slots_ok jobs w" "apart jobs" "slot (fst w t) \<noteq> None"
  shows "j_path (jobs u) \<noteq> s_tmp (jobs t) (fst w t)"
    and "slot (fst w u) \<noteq> None \<Longrightarrow> t \<noteq> u \<Longrightarrow> s_tmp (jobs t) (fst w t) \<noteq> s_tmp (jobs u) (fst w u)"
proof -
  have nm: "\<And>t n. slot (fst w t) = Some n \<Longrightarrow> s_tmp (jobs t) (fst w t) = tmp_name (j_path (jobs t)) n"
    using assms(1) place_slot s_tmp_slot by (metis slots_ok_def)
  show "j_path (jobs u) \<noteq> s_tmp (jobs t) (fst w t)"
    using assms(2,3) nm by (auto simp: apart_def)
  assume "slot (fst w u) \<noteq> None" "t \<noteq> u"
  then show "s_tmp (jobs t) (fst w t) \<noteq> s_tmp (jobs u) (fst w u)"
    using assms(1,3) nm tmp_name_inj by (fastforce simp: slots_ok_def)
qed

lemma inv_turn:
  assumes ap: "apart jobs" and inv: "inv jobs d0 w"
  shows "inv jobs d0 (turn jobs t ok k w)"
proof -
  obtain s' g' where st: "statefile_step (jobs t) ok k (fst w t) (snd w) = (s', g')" by fastforce
  let ?d = "disk (snd w)" let ?s = "fst w t"
  have sl: "slots_ok jobs w" and fl: "files_ok jobs d0 ?d" and dk: "disk_ok ?d"
    and mn: "\<And>u. mine (jobs u) (fst w u) ?d" and tx: "\<And>u. text_ok (jobs u) (fst w u) ?d"
    using inv by (auto simp: inv_def files_ok_def)
  have pl: "\<And>u. place_ok (jobs u) (fst w u)" using sl by (simp add: slots_ok_def)
  note ef = step_effect [OF pl st]
  have files: "files_ok jobs d0 (disk g')"
    using good_effect [OF ef fl mn tx] s_tmp_apart(1) [OF sl ap] holds_slot [OF pl] by blast
  have "mine (jobs u) (fst w u) (disk g') \<and> text_ok (jobs u) (fst w u) (disk g')" if u: "u \<noteq> t" for u
  proof (cases "holds (fst w u)")
    case True
    let ?q = "s_tmp (jobs u) (fst w u)"
    have su: "slot (fst w u) \<noteq> None" using True pl holds_slot by blast
    have "names (disk g') ?q = Some (ino (fst w u)) \<and> (\<forall>p. Some (ino (fst w u)) \<in> set (kept (disk g') p) \<longrightarrow> p = ?q) \<and>
        fdata (disk g') (ino (fst w u)) = fdata ?d (ino (fst w u)) \<and> on_flash (disk g') (ino (fst w u)) = on_flash ?d (ino (fst w u))"
      using s_tmp_apart [OF sl ap] su u holds_slot [OF pl [of t]] mn [of u] True
      by (intro effect_spares [OF ef dk mn]) (auto simp: mine_def)
    then show ?thesis using tx [of u] by (auto simp: mine_def text_ok_def split: pc.splits)
  qed (simp add: mine_def text_ok_def holds_def split: pc.splits)
  then show ?thesis
    using slots_turn [OF sl, of t ok k] files mine_step [OF st dk mn] text_step [OF st tx]
    by (simp add: inv_def turn_parts st)
qed

lemma files_reset: "files_ok jobs d0 d \<Longrightarrow> files_ok jobs d0 (fs_reset ch junk d)"
proof -
  assume ok: "files_ok jobs d0 d"
  then have kp: "kept d p ! (ch p mod length (kept d p)) \<in> set (kept d p)" for p
    by (simp add: files_ok_def disk_ok_def)
  have "disk_ok (fs_reset ch junk d)"
    using ok by (auto simp: files_ok_def disk_ok_def fs_reset_def Let_def) (metis kp)
  moreover have "good jobs d0 (fs_reset ch junk d) (j_path (jobs t)) v"
    if "v \<in> set (kept (fs_reset ch junk d) (j_path (jobs t)))" for t v
  proof -
    from that kp have "v \<in> set (kept d (j_path (jobs t)))" by (simp add: fs_reset_def Let_def)
    with ok have "good jobs d0 d (j_path (jobs t)) v" by (simp add: files_ok_def)
    then show ?thesis
      by (rule good_cong) (use \<open>good jobs d0 d _ v\<close> in \<open>auto simp: fs_reset_def Let_def good_def\<close>)
  qed
  ultimately show ?thesis by (simp add: files_ok_def)
qed

lemma inv_boot: "files_ok jobs d0 d \<Longrightarrow> inv jobs d0 (boot d)"
  using slots_boot [of jobs d] by (simp add: inv_def boot_def idle_def mine_def holds_def text_ok_def)

lemma files_settled: "settled d \<Longrightarrow> files_ok jobs d d"
  by (auto simp: settled_def files_ok_def disk_ok_def good_def old_or_new_def content_def)

lemma inv_files: "inv jobs d0 w \<Longrightarrow> files_ok jobs d0 (disk (snd w))"
  by (simp add: inv_def)

lemma inv_runs:
  assumes "runs jobs d w" "apart jobs" "settled d"
  shows "inv jobs d w"
  using assms
proof (induction rule: runs.induct)
  case start
  then show ?case by (intro inv_boot files_settled)
next
  case (turn w t ok k)
  then show ?case by (intro inv_turn)
next
  case (death w)
  then show ?case by (intro inv_boot inv_files)
next
  case (reset w ch junk)
  then show ?case by (intro inv_boot files_reset inv_files)
qed

lemma files_content: "files_ok jobs d0 d \<Longrightarrow> old_or_new jobs d0 (j_path (jobs t)) (content d (j_path (jobs t)))"
  using names_kept [of d] by (auto simp: files_ok_def good_def content_def)

section \<open>A write that is not disturbed\<close>

text \<open>\<open>statefile_write\<close> as a caller's wish: one piece, or none when there is no data, given up when it fails.\<close>

definition statefile_write :: "bytes \<Rightarrow> bytes \<Rightarrow> job" where
  "statefile_write p b = \<lparr>j_path = p, j_chunks = (if b = [] then [] else [b]), j_checked = True\<rparr>"

text \<open>One writer on its own, every call working.\<close>

definition alone :: "job \<Rightarrow> nat \<Rightarrow> statefile \<times> shared \<Rightarrow> statefile \<times> shared" where
  "alone j k x = statefile_step j True k (fst x) (snd x)"

inductive leads :: "job \<Rightarrow> nat \<Rightarrow> statefile \<times> shared \<Rightarrow> statefile \<times> shared \<Rightarrow> bool" for j k where
  here: "leads j k x x"
| more: "leads j k (alone j k x) y \<Longrightarrow> leads j k x y"

lemma leads_trans: "leads j k x y \<Longrightarrow> leads j k y z \<Longrightarrow> leads j k x z"
  by (induction rule: leads.induct) (auto intro: leads.more)

lemma leads_few:
  "alone j k (alone j k x) = y \<Longrightarrow> leads j k x y"
  "alone j k (alone j k (alone j k x)) = y \<Longrightarrow> leads j k x y"
  "alone j k (alone j k (alone j k (alone j k x))) = y \<Longrightarrow> leads j k x y"
  using leads.intros by metis+

lemma leads_pick:
  "pc s = Pick i \<Longrightarrow> i + n < 100 \<Longrightarrow>
   (\<And>m. m < n \<Longrightarrow> busy g ! (unat (seq g + of_nat m) mod 100)) \<Longrightarrow> \<not> busy g ! (unat (seq g + of_nat n) mod 100) \<Longrightarrow>
   \<exists>s' g' m. leads j k (s, g) (s', g') \<and> m < 100 \<and> pc s' = Unlink \<and> slot s' = Some m \<and> disk g' = disk g"
proof (induction n arbitrary: i s g)
  case 0
  let ?m = "unat (seq g) mod 100"
  let ?s = "s\<lparr>pc := Unlink, slot := Some ?m\<rparr>" and ?g = "g\<lparr>seq := seq g + 1, busy := (busy g)[?m := True]\<rparr>"
  have "alone j k (alone j k (s, g)) = (?s, ?g)" using 0 by (simp add: alone_def statefile_step_def)
  then have "leads j k (s, g) (?s, ?g)" by (intro leads_few)
  then show ?case by (intro exI [of _ ?s] exI [of _ ?g] exI [of _ ?m]) simp
next
  case (Suc n)
  let ?s = "s\<lparr>pc := Pick (Suc i)\<rparr>" and ?g = "g\<lparr>seq := seq g + 1\<rparr>"
  have "busy g ! (unat (seq g) mod 100)" using Suc.prems(3) [of 0] by simp
  then have step: "alone j k (alone j k (s, g)) = (?s, ?g)"
    using Suc.prems by (simp add: alone_def statefile_step_def)
  have sh: "seq g + 1 + of_nat m = seq g + of_nat (Suc m)" for m by simp
  have "\<exists>s' g' m. leads j k (?s, ?g) (s', g') \<and> m < 100 \<and> pc s' = Unlink \<and> slot s' = Some m \<and> disk g' = disk ?g"
    by (rule Suc.IH [of _ "Suc i"]) (use Suc.prems in \<open>simp_all add: sh del: of_nat_Suc\<close>)
  then obtain s' g' m where r: "leads j k (?s, ?g) (s', g')" "m < 100 \<and> pc s' = Unlink \<and> slot s' = Some m \<and> disk g' = disk g"
    by auto
  have "leads j k (s, g) (s', g')" using leads_trans [OF leads_few(1) [OF step]] r(1) by blast
  with r(2) show ?case by blast
qed

lemma leads_made:
  assumes "pc s = Unlink"
  shows "\<exists>s' g'. leads j k (s, g) (s', g') \<and> pc s' = Writing (j_chunks j) \<and> slot s' = slot s \<and> buf s' = [] \<and> \<not> err s' \<and>
      names (disk g') (s_tmp j s) = Some (ino s') \<and> fdata (disk g') (ino s') = []"
proof -
  let ?d = "fs_unlink (s_tmp j s) (disk g)"
  obtain i d where d: "fs_create (s_tmp j s) ?d = Some (i, d)" "names d (s_tmp j s) = Some i" "fdata d i = []"
    by (cases "names (disk g) (s_tmp j s)") (simp_all add: fs_create_def fs_unlink_def set_name_def Let_def)
  let ?s = "s\<lparr>ino := i, buf := [], err := False, pc := Writing (j_chunks j)\<rparr>"
  have "s_tmp j (s\<lparr>pc := Create\<rparr>) = s_tmp j s" by (simp add: s_tmp_def)
  then have "alone j k (alone j k (alone j k (s, g))) = (?s, g\<lparr>disk := d\<rparr>)"
    using assms d(1) by (simp add: alone_def statefile_step_def)
  then have "leads j k (s, g) (?s, g\<lparr>disk := d\<rparr>)" by (intro leads_few)
  then show ?thesis using d by (intro exI [of _ ?s] exI [of _ "g\<lparr>disk := d\<rparr>"]) simp
qed

lemma leads_written:
  "pc s = Writing cs \<Longrightarrow> \<not> err s \<Longrightarrow>
   \<exists>s' g'. leads j k (s, g) (s', g') \<and> pc s' = Rename \<and> slot s' = slot s \<and> ino s' = ino s \<and>
      names (disk g') = names (disk g) \<and> fdata (disk g') (ino s) = fdata (disk g) (ino s) @ buf s @ concat cs \<and> on_flash (disk g') (ino s)"
proof (induction cs arbitrary: s g)
  case Nil
  let ?s = "s\<lparr>pc := Rename, buf := []\<rparr>" and ?d = "fs_fsync (ino s) (fs_append (ino s) (buf s) (disk g))"
  have "alone j k (alone j k (alone j k (alone j k (s, g)))) = (?s, g\<lparr>disk := ?d\<rparr>)"
    using Nil by (simp add: alone_def step_defs)
  then have "leads j k (s, g) (?s, g\<lparr>disk := ?d\<rparr>)" by (intro leads_few)
  then show ?case by (intro exI [of _ ?s] exI [of _ "g\<lparr>disk := ?d\<rparr>"]) simp
next
  case (Cons c cs)
  let ?s = "s\<lparr>buf := drop k (buf s @ c), pc := Writing cs\<rparr>"
    and ?g = "g\<lparr>disk := fs_append (ino s) (take k (buf s @ c)) (disk g)\<rparr>"
  have step: "alone j k (s, g) = (?s, ?g)" using Cons.prems by (simp add: alone_def step_defs)
  obtain s' g' where r: "leads j k (?s, ?g) (s', g')" "pc s' = Rename" "slot s' = slot ?s" "ino s' = ino ?s"
    "names (disk g') = names (disk ?g)" "fdata (disk g') (ino ?s) = fdata (disk ?g) (ino ?s) @ buf ?s @ concat cs" "on_flash (disk g') (ino ?s)"
    using Cons.IH [of ?s ?g] Cons.prems by auto
  have "leads j k (s, g) (s', g')" using leads.more [of j k "(s, g)"] r(1) step by simp
  with r show ?case
    by (intro exI [of _ s'] exI [of _ g']) (simp add: take_drop_app del: take_append drop_append)
qed

lemma leads_named:
  assumes "pc s = Rename" "names (disk g) (s_tmp j s) = Some (ino s)" "on_flash (disk g) (ino s)" "j_path j \<noteq> s_tmp j s"
  shows "\<exists>s' g'. leads j k (s, g) (s', g') \<and> pc s' = Done True \<and>
      content (fs_reset ch junk (disk g')) (j_path j) = Some (fdata (disk g) (ino s))"
proof -
  let ?d = "set_name (s_tmp j s) None (set_name (j_path j) (Some (ino s)) (disk g))"
  let ?f = "fs_sync_folder (parent (j_path j)) ?d"
  obtain s' g' where r: "alone j k (alone j k (alone j k (s, g))) = (s', g')" "pc s' = Done True" "disk g' = ?f"
    using assms by (cases "slot s") (auto simp: alone_def step_defs fs_rename_def)
  have "leads j k (s, g) (s', g')" using r(1) by (intro leads_few)
  then show ?thesis
    using r(2,3) assms
    by (intro exI [of _ s'] exI [of _ g']) (simp add: content_def fs_reset_def fs_sync_folder_def set_name_def Let_def)
qed


section \<open>Theorems\<close>

text \<open>
  C9. Whatever state files any number of threads write, however their calls interleave and fail, whenever the process dies
  and whenever the power goes (as often as it likes): every state file always holds what it held at the start or
  all the data of one of the writes to it, both for those who read it now and after another reset at this moment.
\<close>

theorem statefile_old_or_new:
  assumes "runs jobs d w" "apart jobs" "settled d"
  shows "old_or_new jobs d (j_path (jobs t)) (content (disk (snd w)) (j_path (jobs t))) \<and>
     old_or_new jobs d (j_path (jobs t)) (content (fs_reset ch junk (disk (snd w))) (j_path (jobs t)))"
  using inv_files [OF inv_runs [OF assms]] by (auto intro: files_content files_reset)

definition example_disk :: fs where
  "example_disk = \<lparr>names = (\<lambda>p. if p = ascii ''a'' then Some 0 else None),
     kept = (\<lambda>p. [if p = ascii ''a'' then Some 0 else None]), fdata = (\<lambda>_. [1]), on_flash = (\<lambda>_. True), fresh = 1\<rparr>"

lemma apart_one: "apart (\<lambda>_. statefile_write p b)"
  by (simp add: apart_def statefile_write_def tmp_name_def ascii_def)

lemma settled_example: "settled example_disk"
  by (simp add: settled_def example_disk_def)

theorem statefile_old_or_new_witness:
  "apart (\<lambda>_. statefile_write (ascii ''a'') [2]) \<and> settled example_disk \<and>
   old_or_new (\<lambda>_. statefile_write (ascii ''a'') [2]) example_disk (ascii ''a'')
     (content (fs_reset (\<lambda>_. 3) (\<lambda>_. [7]) (disk (snd (turn (\<lambda>_. statefile_write (ascii ''a'') [2]) 0 True 0 (boot example_disk)))))
       (ascii ''a''))"
proof -
  let ?jobs = "\<lambda>_. statefile_write (ascii ''a'') [2]"
  have "runs ?jobs example_disk (turn ?jobs 0 True 0 (boot example_disk))" by (intro runs.intros)
  from statefile_old_or_new [OF this apart_one settled_example]
  show ?thesis using apart_one [of "ascii ''a''" "[2]"] settled_example by (simp add: statefile_write_def)
qed

text \<open>
  A write that nothing disturbs, started when one of the next hundred numbers is free, returns 0,
  and from then on no reset takes its data away.
\<close>

theorem statefile_write_lasts:
  assumes "\<exists>i<100. \<not> busy g ! (unat (seq g + of_nat i) mod 100)" "length p < 320"
  shows "\<exists>s' g'. leads (statefile_write p b) k (idle, g) (s', g') \<and> pc s' = Done True \<and>
      content (fs_reset ch junk (disk g')) p = Some b"
proof -
  let ?j = "statefile_write p b" and ?s = "idle\<lparr>slot := None, pc := Pick 0\<rparr>"
  have path: "j_path ?j = p" and data: "concat (j_chunks ?j) = b" by (simp_all add: statefile_write_def)
  let ?free = "\<lambda>i. i < 100 \<and> \<not> busy g ! (unat (seq g + of_nat i) mod 100)"
  obtain n where n: "?free n" and "\<forall>m<n. \<not> ?free m"
    using assms(1) exists_least_iff [of ?free] by blast
  then have least: "\<And>m. m < n \<Longrightarrow> busy g ! (unat (seq g + of_nat m) mod 100)"
    using order.strict_trans by blast
  have "alone ?j k (idle, g) = (?s, g)" using assms(2) path by (simp add: alone_def statefile_step_def idle_def)
  then have l0: "leads ?j k (idle, g) (?s, g)" by (metis leads.intros)
  obtain s1 g1 m where l1: "leads ?j k (?s, g) (s1, g1)" and m: "m < 100" "pc s1 = Unlink" "slot s1 = Some m"
    using leads_pick [of ?s 0 n g ?j k] n least by auto
  have tmp: "s_tmp ?j s1 = tmp_name p m" using s_tmp_slot [of s1 m ?j] m path assms(2) by simp
  obtain s2 g2 where l2: "leads ?j k (s1, g1) (s2, g2)" and s2: "pc s2 = Writing (j_chunks ?j)" "slot s2 = slot s1" "buf s2 = []" "\<not> err s2"
      "names (disk g2) (s_tmp ?j s1) = Some (ino s2)" "fdata (disk g2) (ino s2) = []"
    using leads_made [OF m(2), of ?j k g1] by blast
  obtain s3 g3 where l3: "leads ?j k (s2, g2) (s3, g3)" and s3: "pc s3 = Rename" "slot s3 = slot s2" "ino s3 = ino s2"
      "names (disk g3) = names (disk g2)" "fdata (disk g3) (ino s2) = fdata (disk g2) (ino s2) @ buf s2 @ concat (j_chunks ?j)" "on_flash (disk g3) (ino s2)"
    using leads_written [OF s2(1,4), of ?j k g2] by blast
  have "s_tmp ?j s3 = s_tmp ?j s1" using s2 s3 by (simp add: s_tmp_def)
  moreover have "p \<noteq> tmp_name p m" by (simp add: tmp_name_def ascii_def)
  ultimately obtain s4 g4 where l4: "leads ?j k (s3, g3) (s4, g4)" "pc s4 = Done True"
      "content (fs_reset ch junk (disk g4)) p = Some (fdata (disk g3) (ino s3))"
    using leads_named [OF s3(1), of g3 ?j k ch junk] s2 s3 tmp path by auto
  have "leads ?j k (idle, g) (s4, g4)" using l0 l1 l2 l3 l4(1) leads_trans by blast
  then show ?thesis using l4 s2 s3 data by auto
qed

theorem statefile_write_lasts_witness:
  "\<exists>s' g'. leads (statefile_write (ascii ''a'') [2]) 0 (idle, \<lparr>disk = example_disk, seq = 7, busy = replicate 100 False\<rparr>) (s', g') \<and>
     pc s' = Done True \<and> content (fs_reset (\<lambda>_. 5) (\<lambda>_. []) (disk g')) (ascii ''a'') = Some [2]"
proof -
  have "\<exists>i<100. \<not> busy \<lparr>disk = example_disk, seq = 7, busy = replicate 100 False\<rparr> !
      (unat (seq \<lparr>disk = example_disk, seq = 7, busy = replicate 100 False\<rparr> + of_nat i) mod 100)"
    by (intro exI [of _ 0]) simp
  from statefile_write_lasts [OF this] show ?thesis by simp
qed

text \<open>The temporary names of the writes in flight differ, so none takes away or renames another's file.\<close>

theorem temp_names_differ:
  assumes "runs jobs d w" "apart jobs" "t \<noteq> u" "slot (fst w t) \<noteq> None" "slot (fst w u) \<noteq> None"
  shows "s_tmp (jobs t) (fst w t) \<noteq> s_tmp (jobs u) (fst w u)"
  using s_tmp_apart(2) [OF slots_runs] assms by blast

end
