(* ===== verification/Netaddr.thy ===== *)
theory Netaddr
  imports Prelude "HOL-Library.Multiset"
begin

text \<open>
  The Echo's own address changing (\<^verbatim>\<open>netaddr.c\<close>): the table of accepted links, the addresses of the interfaces, and one
  poll of the watching thread, which shuts the links over addresses the Echo no longer has and has
  the mDNS records announced again while a peer that ought to be connected is not.
  Shown: a poll shuts exactly the open links whose address is gone, and as long as a peer is missing announcements
  keep coming, at most \<open>MAX_S\<close> seconds apart.
\<close>

section \<open>State\<close>

definition MAX_ADDRS :: nat where "MAX_ADDRS = 16"
definition MAX_LINKS :: nat where "MAX_LINKS = 16"
definition MAX_PEERS :: nat where "MAX_PEERS = 4"

text \<open>\<open>struct addrs\<close>: the own addresses, and the loopback's after them.\<close>

record addrs =
  own_a :: "u32 list"
  lo_a :: "u32 list"

text \<open>\<open>struct netaddr_peer\<close>, whose callbacks are inputs of a poll, and the two times the environment may set.\<close>

record netaddr_peer =
  what :: bytes
  first_s :: int

record conf =
  FIRST_S :: int
  MAX_S :: int
  peers :: "netaddr_peer list"

record sched =
  since :: int
  next_at :: int
  wait :: int

text \<open>\<open>shut\<close> and \<open>announced\<close>: the calls of \<open>shutdown\<close> and \<open>hooks->announce\<close> so far, oldest first.\<close>

record netaddr =
  links :: "nat list"
  last_addrs :: addrs
  sched :: "sched list"
  shut :: "nat list"
  announced :: "bytes list"

definition netaddr_link :: "nat \<Rightarrow> bool \<Rightarrow> netaddr \<Rightarrow> netaddr" where
  "netaddr_link fd on s =
     (if on then (if length (links s) < MAX_LINKS then s\<lparr>links := links s @ [fd]\<rparr> else s)
      else let i = length (takeWhile (\<lambda>l. l \<noteq> fd) (links s))
           in if i < length (links s) then s\<lparr>links := butlast ((links s)[i := last (links s)])\<rparr> else s)"

section \<open>The addresses\<close>

text \<open>One entry of \<open>getifaddrs\<close>: its IPv4 address, if it has one, and whether it is the loopback.\<close>

type_synonym iface = "u32 option \<times> bool"

fun addrs_loop :: "iface list \<Rightarrow> addrs \<Rightarrow> addrs" where
  "addrs_loop [] s = s"
| "addrs_loop ((None, lo) # ifs) s = addrs_loop ifs s"
| "addrs_loop ((Some a, True) # ifs) s =
     addrs_loop ifs (if length (lo_a s) < MAX_ADDRS then s\<lparr>lo_a := lo_a s @ [a]\<rparr> else s)"
| "addrs_loop ((Some a, False) # ifs) s =
     addrs_loop ifs (if length (own_a s) < MAX_ADDRS then s\<lparr>own_a := own_a s @ [a]\<rparr> else s)"

definition addrs_get :: "iface list \<Rightarrow> addrs" where
  "addrs_get ifs = (let s = addrs_loop ifs \<lparr>own_a = [], lo_a = []\<rparr>
     in \<lparr>own_a = sort (own_a s), lo_a = take (MAX_ADDRS - length (own_a s)) (lo_a s)\<rparr>)"

definition has :: "addrs \<Rightarrow> u32 \<Rightarrow> bool" where
  "has s a \<longleftrightarrow> a \<in> set (own_a s @ lo_a s)"

text \<open>\<open>getsockname\<close> of a link: its local IPv4 address, or none when it has none (any more).\<close>

definition drop_stale :: "(nat \<Rightarrow> u32 option) \<Rightarrow> addrs \<Rightarrow> netaddr \<Rightarrow> netaddr" where
  "drop_stale name a s =
     s\<lparr>shut := shut s @ filter (\<lambda>l. case name l of None \<Rightarrow> False | Some m \<Rightarrow> \<not> has a m) (links s)\<rparr>"

section \<open>A poll\<close>

definition first :: "conf \<Rightarrow> nat \<Rightarrow> int" where
  "first C i = (if FIRST_S C \<noteq> 0 then FIRST_S C else first_s (peers C ! i))"

definition restart :: "conf \<Rightarrow> int \<Rightarrow> nat \<Rightarrow> sched" where
  "restart C now i = \<lparr>since = now, next_at = now + first C i, wait = first C i\<rparr>"

definition why :: "conf \<Rightarrow> int \<Rightarrow> nat \<Rightarrow> sched \<Rightarrow> bytes" where
  "why C now i p = fit 64 (ascii ''no '' @ what (peers C ! i) @ ascii '' for ''
      @ (if now < since p then ascii ''-'' else []) @ dec_digits (nat \<bar>now - since p\<bar>) @ ascii '' s'')"

text \<open>What one poll sees: the time, the interfaces (or that they cannot be read), the links' addresses, and the peers' answers.\<close>

record poll =
  now :: int
  ifs :: "iface list option"
  name_of :: "nat \<Rightarrow> u32 option"
  expected :: "nat \<Rightarrow> bool"
  linked :: "nat \<Rightarrow> bool"

definition watch_peer :: "conf \<Rightarrow> poll \<Rightarrow> bool \<Rightarrow> nat \<Rightarrow> sched \<Rightarrow> sched \<times> bytes list" where
  "watch_peer C x addr i p =
     (if \<not> addr \<or> \<not> expected x i \<or> linked x i then (p\<lparr>since := 0\<rparr>, [])
      else let p1 = (if since p = 0 then restart C (now x) i else p)
           in if now x \<ge> next_at p1
              then (let w = (if wait p1 * 2 > MAX_S C then MAX_S C else wait p1 * 2)
                    in (p1\<lparr>wait := w, next_at := now x + w\<rparr>, [why C (now x) i p1]))
              else (p1, []))"

fun watch_peers :: "conf \<Rightarrow> poll \<Rightarrow> bool \<Rightarrow> nat \<Rightarrow> sched list \<Rightarrow> sched list \<times> bytes list" where
  "watch_peers C x addr i [] = ([], [])"
| "watch_peers C x addr i (p # ps) =
     (let (p', m) = watch_peer C x addr i p; (ps', ms) = watch_peers C x addr (Suc i) ps in (p' # ps', m @ ms))"

fun restarts :: "conf \<Rightarrow> int \<Rightarrow> nat \<Rightarrow> sched list \<Rightarrow> sched list" where
  "restarts C t i [] = []"
| "restarts C t i (p # ps) = (if since p \<noteq> 0 then restart C t i else p) # restarts C t (Suc i) ps"

definition watch :: "conf \<Rightarrow> poll \<Rightarrow> netaddr \<Rightarrow> netaddr" where
  "watch C x s = (case ifs x of None \<Rightarrow> s
     | Some l \<Rightarrow>
        (let cur = addrs_get l; addr = own_a cur \<noteq> [];
             s1 = (if \<not> addr then s
                   else (let s2 = (if own_a (last_addrs s) \<noteq> [] \<and> own_a cur \<noteq> own_a (last_addrs s)
                                   then (drop_stale (name_of x) cur s)\<lparr>announced := announced s @ [ascii ''new address''],
                                            sched := restarts C (now x) 0 (sched s)\<rparr>
                                   else drop_stale (name_of x) cur s)
                         in s2\<lparr>last_addrs := cur\<rparr>));
             (ps, ms) = watch_peers C x addr 0 (sched s1)
         in s1\<lparr>sched := ps, announced := announced s1 @ ms\<rparr>))"

definition netaddr_start :: "conf \<Rightarrow> netaddr" where
  "netaddr_start C = \<lparr>links = [], last_addrs = \<lparr>own_a = [], lo_a = []\<rparr>,
     sched = replicate (min (length (peers C)) MAX_PEERS) \<lparr>since = 0, next_at = 0, wait = 0\<rparr>, shut = [], announced = []\<rparr>"

section \<open>Links come and go between polls\<close>

datatype event = Accept nat | Close nat | Poll poll

fun happen :: "conf \<Rightarrow> event \<Rightarrow> netaddr \<Rightarrow> netaddr" where
  "happen C (Accept fd) s = netaddr_link fd True s"
| "happen C (Close fd) s = netaddr_link fd False s"
| "happen C (Poll x) s = watch C x s"

fun opened :: "event \<Rightarrow> nat list \<Rightarrow> nat list" where
  "opened (Accept fd) os = os @ [fd]"
| "opened (Close fd) os = remove1 fd os"
| "opened (Poll x) os = os"

text \<open>At no moment are there more links than the table takes.\<close>

fun few :: "event list \<Rightarrow> nat list \<Rightarrow> bool" where
  "few [] os \<longleftrightarrow> True"
| "few (e # es) os \<longleftrightarrow> length (opened e os) \<le> MAX_LINKS \<and> few es (opened e os)"

lemma links_watch [simp]: "links (watch C x s) = links s"
  by (simp add: watch_def drop_stale_def Let_def case_prod_beta split: option.split)

lemma mset_butlast_move:
  "i < length xs \<Longrightarrow> mset (butlast (xs[i := last xs])) = mset xs - {#xs ! i#}"
proof -
  assume i: "i < length xs"
  then obtain ys y where xs: "xs = ys @ [y]" by (metis append_butlast_last_id list.size(3) not_less_zero)
  show ?thesis
  proof (cases "i < length ys")
    case True
    then have "mset (ys[i := y]) = add_mset y (mset ys - {#ys ! i#})" by (simp add: mset_update)
    with True show ?thesis
      by (simp add: xs list_update_append1 nth_append)
  next
    case False
    with i have "i = length ys" by (simp add: xs)
    then show ?thesis by (simp add: xs)
  qed
qed

lemma links_unlink: "mset (links (netaddr_link fd False s)) = mset (remove1 fd (links s))"
proof (cases "fd \<in> set (links s)")
  case True
  let ?i = "length (takeWhile (\<lambda>l. l \<noteq> fd) (links s))"
  have i: "?i < length (links s)" using True length_takeWhile_le [of "\<lambda>l. l \<noteq> fd" "links s"]
    by (metis (mono_tags, lifting) le_neq_implies_less length_takeWhile_le nth_length_takeWhile set_takeWhileD takeWhile_eq_all_conv takeWhile_eq_take take_all_iff order_refl)
  then have "links s ! ?i = fd" using nth_length_takeWhile [OF i] by simp
  with i show ?thesis by (simp add: netaddr_link_def Let_def mset_butlast_move)
next
  case False
  then have "length (takeWhile (\<lambda>l. l \<noteq> fd) (links s)) = length (links s)"
    by (metis (mono_tags, lifting) takeWhile_eq_all_conv)
  with False show ?thesis by (simp add: netaddr_link_def remove1_idem)
qed

lemma links_opened:
  "few es os \<Longrightarrow> mset (links s) = mset os \<Longrightarrow> mset (links (fold (happen C) es s)) = mset (fold opened es os)"
proof (induction es arbitrary: os s)
  case (Cons e es)
  have "mset (links (happen C e s)) = mset (opened e os)"
  proof (cases e)
    case (Accept fd)
    have "length (links s) = length os" using Cons.prems(2) by (metis size_mset)
    then show ?thesis using Cons.prems Accept by (simp add: netaddr_link_def)
  next
    case (Close fd)
    then show ?thesis using Cons.prems(2) links_unlink [of fd s] by simp
  qed (use Cons.prems(2) in simp)
  with Cons show ?case by simp
qed simp

definition stale :: "iface list \<Rightarrow> (nat \<Rightarrow> u32 option) \<Rightarrow> nat \<Rightarrow> bool" where
  "stale l name fd \<longleftrightarrow> (case name fd of None \<Rightarrow> False | Some a \<Rightarrow> Some a \<notin> fst ` set l)"

lemma addrs_loop_all:
  "length (own_a s) + length (lo_a s) + length l \<le> MAX_ADDRS \<Longrightarrow>
   set (own_a (addrs_loop l s)) \<union> set (lo_a (addrs_loop l s)) = set (own_a s) \<union> set (lo_a s) \<union> {a. Some a \<in> fst ` set l} \<and>
   length (own_a (addrs_loop l s)) + length (lo_a (addrs_loop l s)) \<le> MAX_ADDRS"
  by (induction l s rule: addrs_loop.induct) (auto simp: image_iff)

lemma has_addrs: "length l \<le> MAX_ADDRS \<Longrightarrow> has (addrs_get l) a \<longleftrightarrow> Some a \<in> fst ` set l"
  using addrs_loop_all [of "\<lparr>own_a = [], lo_a = []\<rparr>" l]
  by (auto simp: has_def addrs_get_def Let_def)

lemma own_set_empty: "own_a (addrs_get l) \<noteq> [] \<Longrightarrow> l \<noteq> []"
  by (auto simp: addrs_get_def)

lemma shut_watch:
  "ifs x = Some l \<Longrightarrow> own_a (addrs_get l) \<noteq> [] \<Longrightarrow>
   shut (watch C x s) = shut s @ filter (\<lambda>fd. case name_of x fd of None \<Rightarrow> False | Some m \<Rightarrow> \<not> has (addrs_get l) m) (links s)"
  by (simp add: watch_def drop_stale_def Let_def case_prod_beta)

section \<open>Announcements keep coming\<close>

definition on_time :: "conf \<Rightarrow> int \<Rightarrow> nat \<Rightarrow> sched \<Rightarrow> bool" where
  "on_time C t i p \<longleftrightarrow> (since p \<noteq> 0 \<longrightarrow> next_at p \<le> t + MAX_S C \<and> wait p \<le> MAX_S C)"

definition all_on_time :: "conf \<Rightarrow> int \<Rightarrow> netaddr \<Rightarrow> bool" where
  "all_on_time C t s \<longleftrightarrow> (\<forall>i<length (sched s). on_time C t i (sched s ! i))"

lemma length_watch_peers [simp]: "length (fst (watch_peers C x addr i ps)) = length ps"
  by (induction ps arbitrary: i) (simp_all add: case_prod_beta)

lemma nth_watch_peers:
  "j < length ps \<Longrightarrow> fst (watch_peers C x addr i ps) ! j = fst (watch_peer C x addr (i + j) (ps ! j))"
proof (induction ps arbitrary: i j)
  case (Cons p ps)
  then show ?case by (cases j) (simp_all add: case_prod_beta)
qed simp

lemma msgs_watch_peers:
  "j < length ps \<Longrightarrow> length (snd (watch_peer C x addr (i + j) (ps ! j))) \<le> length (snd (watch_peers C x addr i ps))"
proof (induction ps arbitrary: i j)
  case (Cons p ps)
  then show ?case
  proof (cases j)
    case (Suc m)
    then show ?thesis using Cons.IH [of m "Suc i"] Cons.prems by (simp add: case_prod_beta)
  qed (simp add: case_prod_beta)
qed simp

lemma length_restarts [simp]: "length (restarts C t i ps) = length ps"
  by (induction ps arbitrary: i) simp_all

lemma nth_restarts: "j < length ps \<Longrightarrow> restarts C t i ps ! j = (if since (ps ! j) \<noteq> 0 then restart C t (i + j) else ps ! j)"
proof (induction ps arbitrary: i j)
  case (Cons p ps)
  then show ?case by (cases j) simp_all
qed simp

definition sane :: "conf \<Rightarrow> bool" where
  "sane C \<longleftrightarrow> (\<forall>i<length (peers C). 0 < first C i \<and> first C i \<le> MAX_S C)"

lemma sched_watch_length [simp]: "length (sched (watch C x s)) = length (sched s)"
  by (simp add: watch_def drop_stale_def Let_def case_prod_beta split: option.split)

text \<open>A poll in which peer \<open>i\<close> ought to be there and is not, on an Echo with an address.\<close>

definition missing :: "nat \<Rightarrow> poll \<Rightarrow> bool" where
  "missing i x \<longleftrightarrow> (case ifs x of None \<Rightarrow> False | Some l \<Rightarrow> own_a (addrs_get l) \<noteq> []) \<and> expected x i \<and> \<not> linked x i"

lemma watch_quiet:
  assumes "missing i x" "i < length (sched s)" "length (announced (watch C x s)) \<le> length (announced s)"
  shows "sched (watch C x s) ! i = (if since (sched s ! i) = 0 then restart C (now x) i else sched s ! i)"
    and "now x < next_at (sched (watch C x s) ! i)"
proof -
  obtain l where l: "ifs x = Some l" "own_a (addrs_get l) \<noteq> []" using assms(1) by (auto simp: missing_def split: option.splits)
  have same: "\<not> (own_a (last_addrs s) \<noteq> [] \<and> own_a (addrs_get l) \<noteq> own_a (last_addrs s))"
    using assms(3) l by (auto simp: watch_def Let_def case_prod_beta split: if_splits)
  have sch: "sched (watch C x s) = fst (watch_peers C x True 0 (sched s))"
    and ann: "announced (watch C x s) = announced s @ snd (watch_peers C x True 0 (sched s))"
    using same l by (auto simp: watch_def drop_stale_def Let_def case_prod_beta)
  have none: "snd (watch_peer C x True i (sched s ! i)) = []"
    using ann assms(3) msgs_watch_peers [OF assms(2), of C x True 0] by simp
  then have "fst (watch_peer C x True i (sched s ! i)) = (if since (sched s ! i) = 0 then restart C (now x) i else sched s ! i)
     \<and> now x < next_at (fst (watch_peer C x True i (sched s ! i)))"
    using assms(1) by (auto simp: watch_peer_def missing_def Let_def split: if_splits)
  then show "sched (watch C x s) ! i = (if since (sched s ! i) = 0 then restart C (now x) i else sched s ! i)"
    and "now x < next_at (sched (watch C x s) ! i)"
    using sch nth_watch_peers [OF assms(2), of C x True 0] by auto
qed

lemma announced_mono: "length (announced s) \<le> length (announced (watch C x s))"
  by (simp add: watch_def drop_stale_def Let_def case_prod_beta split: option.split)

lemma announced_mono_fold: "length (announced s) \<le> length (announced (fold (watch C) xs s))"
  by (induction xs arbitrary: s) (auto intro: order.trans announced_mono)

lemma quiet_run:
  "\<forall>z\<in>set zs. missing i z \<Longrightarrow> i < length (sched s) \<Longrightarrow> since (sched s ! i) \<noteq> 0 \<Longrightarrow>
   length (announced (fold (watch C) zs s)) \<le> length (announced s) \<Longrightarrow> z \<in> set zs \<Longrightarrow> now z < next_at (sched s ! i)"
proof (induction zs arbitrary: s)
  case (Cons y zs)
  have q: "length (announced (watch C y s)) \<le> length (announced s)"
    "length (announced (fold (watch C) zs (watch C y s))) \<le> length (announced (watch C y s))"
    using Cons.prems(4) announced_mono_fold [of "watch C y s" C zs] announced_mono [of s C y] by simp_all
  note w = watch_quiet [OF _ Cons.prems(2) q(1)]
  from Cons.prems q w Cons.IH [of "watch C y s"] show ?case by auto
qed simp

lemma on_time_watch:
  assumes "sane C" "all_on_time C t s" "t \<le> now x" "0 < now x" "length (sched s) \<le> length (peers C)"
  shows "all_on_time C (now x) (watch C x s)"
proof -
  have re: "on_time C (now x) i (restart C (now x) i)" if "i < length (sched s)" for i
    using assms(1,5) that by (simp add: sane_def on_time_def restart_def)
  have keep: "on_time C (now x) i p" if "on_time C t i p" for i p
    using that assms(3) by (auto simp: on_time_def)
  have one: "on_time C (now x) i (fst (watch_peer C x a i p))" if "on_time C (now x) i p" "i < length (sched s)" for i p a
    using that re [of i] by (auto simp: watch_peer_def on_time_def Let_def)
  have peers: "on_time C (now x) i (fst (watch_peers C x a 0 ps) ! i)"
    if "\<forall>i<length ps. on_time C (now x) i (ps ! i)" "i < length ps" "length ps = length (sched s)" for i a ps
    using one that by (simp add: nth_watch_peers)
  have now: "\<forall>i<length (sched s). on_time C (now x) i (sched s ! i)"
    using assms(2) keep by (simp add: all_on_time_def)
  moreover have "\<forall>i<length (sched s). on_time C (now x) i (restarts C (now x) 0 (sched s) ! i)"
    using now re by (simp add: nth_restarts)
  ultimately show ?thesis
    using peers by (auto simp: all_on_time_def watch_def drop_stale_def Let_def case_prod_beta split: option.split)
qed

lemma on_time_fold:
  "sane C \<Longrightarrow> all_on_time C t s \<Longrightarrow> sorted (t # map now xs) \<Longrightarrow> \<forall>x\<in>set xs. 0 < now x \<Longrightarrow> length (sched s) \<le> length (peers C) \<Longrightarrow>
   all_on_time C (last (t # map now xs)) (fold (watch C) xs s) \<and> length (sched (fold (watch C) xs s)) = length (sched s)"
proof (induction xs arbitrary: s t)
  case (Cons x xs)
  then show ?case using on_time_watch [of C t s x] Cons.IH [of "now x" "watch C x s"] by auto
qed simp

section \<open>Theorems\<close>

text \<open>
  However links were accepted and closed and polls went before, never more than sixteen at once: a poll of an
  Echo with an address shuts exactly the open links whose local address no interface has any more.
\<close>

theorem stale_links_shut:
  assumes "few es []" "ifs x = Some l" "length l \<le> MAX_ADDRS" "own_a (addrs_get l) \<noteq> []"
  shows "mset (shut (fold (happen C) (es @ [Poll x]) (netaddr_start C))) =
    mset (shut (fold (happen C) es (netaddr_start C))) + filter_mset (stale l (name_of x)) (mset (fold opened es []))"
proof -
  let ?s = "fold (happen C) es (netaddr_start C)"
  have "(\<lambda>fd. case name_of x fd of None \<Rightarrow> False | Some m \<Rightarrow> \<not> has (addrs_get l) m) = stale l (name_of x)"
    using has_addrs [OF assms(3)] by (auto simp: stale_def fun_eq_iff split: option.splits)
  then have "mset (shut (watch C x ?s)) = mset (shut ?s) + filter_mset (stale l (name_of x)) (mset (links ?s))"
    using shut_watch [OF assms(2,4), of C ?s] by simp
  also have "mset (links ?s) = mset (fold opened es [])"
    using links_opened [OF assms(1), of "netaddr_start C"] by (simp add: netaddr_start_def)
  finally show ?thesis by simp
qed

theorem stale_links_shut_witness:
  "mset (shut (fold (happen \<lparr>FIRST_S = 0, MAX_S = 1800, peers = []\<rparr>)
      ([Accept 5, Accept 6] @ [Poll \<lparr>now = 9, ifs = Some [(Some 2, False)], name_of = (\<lambda>f. Some (if f = 5 then 1 else 2)),
          expected = (\<lambda>_. True), linked = (\<lambda>_. False)\<rparr>]) (netaddr_start \<lparr>FIRST_S = 0, MAX_S = 1800, peers = []\<rparr>))) = {#5#}"
  by (subst stale_links_shut [where l = "[(Some 2, False)]"])
     (simp_all add: MAX_LINKS_def MAX_ADDRS_def addrs_get_def stale_def netaddr_link_def netaddr_start_def Let_def)

text \<open>
  C39. Announcements keep coming: whatever polls went before, when a peer that ought to be connected is missing in
  every poll over a time of \<open>MAX_S\<close>, the mDNS records are announced again in that time.
\<close>

theorem announcements_keep_coming:
  assumes "sane C" "sorted (map now (xs @ x # ys))" "\<forall>z\<in>set (xs @ x # ys). 0 < now z"
    and "i < length (peers C)" "i < MAX_PEERS" "\<forall>z\<in>set (x # ys). missing i z"
    and "z \<in> set ys" "now x + MAX_S C \<le> now z"
  shows "length (announced (fold (watch C) xs (netaddr_start C))) < length (announced (fold (watch C) (xs @ x # ys) (netaddr_start C)))"
proof (rule ccontr)
  let ?s = "fold (watch C) xs (netaddr_start C)" and ?t = "last (0 # map now xs)"
  have "all_on_time C 0 (netaddr_start C)" by (simp add: all_on_time_def on_time_def netaddr_start_def)
  moreover have "sorted (0 # map now xs)" using assms(2,3) by (fastforce simp: sorted_append intro: less_imp_le)
  moreover have "length (sched (netaddr_start C)) \<le> length (peers C)" by (simp add: netaddr_start_def)
  ultimately have inv: "all_on_time C ?t ?s" and len: "length (sched ?s) = length (sched (netaddr_start C))"
    using on_time_fold [of C 0 "netaddr_start C" xs] assms(1,3) by auto
  have i: "i < length (sched ?s)" using len assms(4,5) by (simp add: netaddr_start_def)
  have t: "?t \<le> now x" using assms(2,3) by (auto simp: sorted_append last_map)
  assume "\<not> ?thesis"
  then have q: "length (announced (watch C x ?s)) \<le> length (announced ?s)"
    "length (announced (fold (watch C) ys (watch C x ?s))) \<le> length (announced (watch C x ?s))"
    using announced_mono_fold [of "watch C x ?s" C ys] announced_mono [of ?s C x] by simp_all
  have m: "missing i x" using assms(6) by simp
  let ?p = "sched (watch C x ?s) ! i"
  have p: "?p = (if since (sched ?s ! i) = 0 then restart C (now x) i else sched ?s ! i)"
    by (rule watch_quiet [OF m i q(1)])
  then have "since ?p \<noteq> 0" using assms(3) by (simp add: restart_def)
  then have "now z < next_at ?p" using quiet_run [of ys i "watch C x ?s" C z] q(2) i assms(6,7) by simp
  moreover have "next_at ?p \<le> now x + MAX_S C"
    using p inv i t assms(1,4) by (auto simp: all_on_time_def on_time_def restart_def sane_def)
  ultimately show False using assms(8) by simp
qed

text \<open>An Echo whose Home Assistant stays away: 100 s after the first poll without it, then up to 1800 s later.\<close>

definition away :: "int \<Rightarrow> poll" where
  "away t = \<lparr>now = t, ifs = Some [(Some 2, False)], name_of = (\<lambda>_. None), expected = (\<lambda>_. True), linked = (\<lambda>_. False)\<rparr>"

definition ha_only :: conf where
  "ha_only = \<lparr>FIRST_S = 0, MAX_S = 1800, peers = [\<lparr>what = ascii ''Home Assistant'', first_s = 100\<rparr>]\<rparr>"

theorem announcements_keep_coming_witness:
  "length (announced (fold (watch ha_only) [away 5] (netaddr_start ha_only)))
   < length (announced (fold (watch ha_only) ([away 5] @ away 7 # [away 1900]) (netaddr_start ha_only)))"
  by (rule announcements_keep_coming [where i = 0 and z = "away 1900"])
     (simp_all add: sane_def ha_only_def first_def away_def missing_def addrs_get_def MAX_PEERS_def MAX_ADDRS_def)

end
