(* ===== verification/Improv.thy ===== *)
theory Improv
  imports Prelude
begin

text \<open>
  Improv Wi-Fi over Bluetooth LE (\<^verbatim>\<open>improv.c\<close>): a phone gives the Echo a network.  Packets, the GATT characteristics, the
  commands, and one pass of the worker, which decides when the Echo advertises and whom it obeys.  What the Bluetooth
  controller, \<open>wifi.c\<close> and the core are asked is recorded; their answers are inputs.  Shown: without the
  action button nobody moves an Echo that is set up and advertises; a packet sent in pieces is one command; a result reads back.
\<close>

section \<open>State\<close>

abbreviation ST_AUTH_REQUIRED :: byte where "ST_AUTH_REQUIRED \<equiv> 1"
abbreviation ST_AUTHORIZED :: byte where "ST_AUTHORIZED \<equiv> 2"
abbreviation ST_PROVISIONING :: byte where "ST_PROVISIONING \<equiv> 3"
abbreviation ST_PROVISIONED :: byte where "ST_PROVISIONED \<equiv> 4"

abbreviation E_NONE :: byte where "E_NONE \<equiv> 0"
abbreviation E_INVALID_RPC :: byte where "E_INVALID_RPC \<equiv> 1"
abbreviation E_UNKNOWN_RPC :: byte where "E_UNKNOWN_RPC \<equiv> 2"
abbreviation E_UNABLE_TO_CONNECT :: byte where "E_UNABLE_TO_CONNECT \<equiv> 3"
abbreviation E_NOT_AUTHORIZED :: byte where "E_NOT_AUTHORIZED \<equiv> 4"
abbreviation E_UNKNOWN :: byte where "E_UNKNOWN \<equiv> 0xff"

abbreviation CMD_WIFI :: byte where "CMD_WIFI \<equiv> 1"
abbreviation CMD_IDENTIFY :: byte where "CMD_IDENTIFY \<equiv> 2"
abbreviation CMD_INFO :: byte where "CMD_INFO \<equiv> 3"
abbreviation CMD_SCAN :: byte where "CMD_SCAN \<equiv> 4"

abbreviation CAPS :: byte where "CAPS \<equiv> 7"

datatype chr = C_NAME | C_STATE | C_ERROR | C_RPC | C_RESULT | C_CAPS
datatype mode = M_OFF | M_OOBE | M_LOST

definition RX_MAX :: nat where "RX_MAX = 3 + 256"
definition SCAN_SECS :: int where "SCAN_SECS = 25"
definition JOIN_SECS :: int where "JOIN_SECS = 240"

text \<open>What the environment and the rest of the program fix: the four times, the names, the settings page's port.\<close>

record env =
  OFFLINE_OOBE :: int
  OFFLINE_LOST :: int
  AUTH_SECS :: int
  PROVISIONED_SECS :: int
  core_name :: bytes
  VERSION :: bytes
  board_model :: bytes
  web_port :: nat

text \<open>Calls to \<open>ble.c\<close>, \<open>wifi.c\<close>, the core and the hooks; a join with the time of it and what it was allowed by.\<close>

datatype out = Notify chr | Advertise "(bytes \<times> bytes) option" | Identify | Attention bool | Authorized
  | Scan | Join int mode byte int bytes bytes

record improv =
  mode :: mode
  st :: byte
  err :: byte
  connected :: bool
  auth_until :: int
  provisioned_at :: int
  rx :: bytes
  result :: bytes
  cmd :: bytes
  scan_id :: u32
  join_id :: u32
  scan_at :: int
  join_at :: int
  offline_since :: int
  last_st :: byte
  pass_at :: int
  outs :: "out list"

text \<open>\<open>pass_at\<close>, when the worker last looked at the time, and \<open>outs\<close> are not variables of the code.\<close>

definition improv_start :: "int \<Rightarrow> improv" where
  "improv_start now = \<lparr>mode = M_OFF, st = ST_AUTHORIZED, err = 0, connected = False, auth_until = 0, provisioned_at = 0,
     rx = [], result = [], cmd = [], scan_id = 0, join_id = 0, scan_at = 0, join_at = 0, offline_since = now, last_st = 0,
     pass_at = now, outs = []\<rparr>"

definition emit :: "out \<Rightarrow> improv \<Rightarrow> improv" where
  "emit x s = s\<lparr>outs := outs s @ [x]\<rparr>"

section \<open>Packets\<close>

definition sum_c :: "bytes \<Rightarrow> byte" where
  "sum_c p = foldl (+) 0 p"

fun result_data :: "nat \<Rightarrow> bytes list \<Rightarrow> bytes" where
  "result_data n [] = []"
| "result_data n (s # ss) =
     (if length s > 255 \<or> n + 1 + length s > 2 + 255 then []
      else of_nat (length s) # s @ result_data (n + 1 + length s) ss)"

definition packet :: "byte \<Rightarrow> bytes \<Rightarrow> bytes" where
  "packet c d = (let p = c # of_nat (length d) # d in p @ [sum_c p])"

definition set_result :: "byte \<Rightarrow> bytes list \<Rightarrow> improv \<Rightarrow> improv" where
  "set_result c ss s = emit (Notify C_RESULT) (s\<lparr>result := packet c (result_data 2 ss)\<rparr>)"

definition set_state :: "byte \<Rightarrow> improv \<Rightarrow> improv" where
  "set_state x s = (if x \<noteq> st s then emit (Notify C_STATE) (s\<lparr>st := x\<rparr>) else s)"

definition set_error :: "byte \<Rightarrow> improv \<Rightarrow> improv" where
  "set_error e s = (if e \<noteq> err s then emit (Notify C_ERROR) (s\<lparr>err := e\<rparr>) else s)"

text \<open>The name cut to 29 bytes, not inside a UTF-8 character.\<close>

fun cut_back :: "bytes \<Rightarrow> nat \<Rightarrow> nat" where
  "cut_back b 0 = 0"
| "cut_back b (Suc k) = (if b ! Suc k AND 0xc0 = 0x80 then cut_back b k else Suc k)"

definition adv_head :: bytes where
  "adv_head = [2, 0x01, 0x06, 17, 0x07, 0x00, 0x80, 0x26, 0x78, 0x74, 0x27, 0x63, 0x46, 0x72, 0x22, 0x28, 0x62, 0x68, 0x77, 0x46, 0x00]"

definition advertise :: "env \<Rightarrow> improv \<Rightarrow> improv" where
  "advertise E s = emit (Advertise (if mode s = M_OFF then None
     else let cut = length (core_name E) > 29; k = (if cut then cut_back (core_name E) 29 else length (core_name E))
          in Some (adv_head @ [9, 0x16, 0x77, 0x46, st s, CAPS, 0, 0, 0, 0],
                   of_nat (k + 1) # (if cut then 0x08 else 0x09) # take k (core_name E)))) s"

section \<open>GATT\<close>

definition on_read :: "env \<Rightarrow> chr \<Rightarrow> nat \<Rightarrow> improv \<Rightarrow> bytes" where
  "on_read E c cap s = (if cap = 0 then [] else case c of
       C_NAME \<Rightarrow> take cap (core_name E) | C_STATE \<Rightarrow> [st s] | C_ERROR \<Rightarrow> [err s] | C_CAPS \<Rightarrow> [CAPS]
     | C_RESULT \<Rightarrow> take cap (result s) | C_RPC \<Rightarrow> [])"

definition on_write :: "chr \<Rightarrow> bytes \<Rightarrow> improv \<Rightarrow> improv" where
  "on_write c d s = (if c \<noteq> C_RPC then s
     else let r0 = (if length (rx s) + length d > RX_MAX then [] else rx s);
              r = (if length d \<le> RX_MAX then r0 @ d else r0);
              len = unat (r ! 1) + 3
          in if length r \<ge> 3 \<and> length r \<ge> len
             then (if length r > len \<or> r ! (len - 1) \<noteq> sum_c (take (len - 1) r) then set_error E_INVALID_RPC s
                   else if cmd s \<noteq> [] then set_error E_UNKNOWN s
                   else s\<lparr>cmd := take len r\<rparr>)\<lparr>rx := []\<rparr>
             else s\<lparr>rx := r\<rparr>)"

definition on_connection :: "bool \<Rightarrow> improv \<Rightarrow> improv" where
  "on_connection up s = emit (Attention (up \<and> st s = ST_AUTH_REQUIRED)) (s\<lparr>connected := up, rx := []\<rparr>)"

section \<open>Commands\<close>

text \<open>The strings in a packet's data, at most \<open>max\<close> of them, which have to fill it exactly.\<close>

function strings_loop :: "nat \<Rightarrow> bytes \<Rightarrow> bytes list option" where
  "strings_loop m [] = Some []"
| "strings_loop m (l # d) = (if m = 0 \<or> unat l > length d then None
     else map_option ((#) (take (unat l) d)) (strings_loop (m - 1) (drop (unat l) d)))"
  by pat_completeness auto
termination by (relation "measure (length \<circ> snd)") auto

definition strings :: "bytes \<Rightarrow> nat \<Rightarrow> bytes list option" where
  "strings p m = strings_loop m (butlast (drop 2 p))"

definition authorized :: "improv \<Rightarrow> bool" where
  "authorized s \<longleftrightarrow> st s = ST_AUTHORIZED \<or> st s = ST_PROVISIONED"

text \<open>One network of a scan, and what \<open>wifi.c\<close> and the core answer during one pass.\<close>

record wifi_net =
  ssid :: bytes
  signal :: int
  sec :: bytes

record wifi =
  wifi_seen :: "bytes \<Rightarrow> int"
  wifi_join :: "u32 option"
  wifi_scan :: "u32 option"
  wifi_scan_result :: "wifi_net list option"
  wifi_join_result :: "int \<times> bytes"
  core_oobe :: bool
  online :: bool

definition trim :: "bytes \<Rightarrow> bytes" where
  "trim b = dropWhile (\<lambda>c. c = 0x20) (rev (dropWhile (\<lambda>c. c = 0x20) (rev b)))"

definition cmd_wifi :: "env \<Rightarrow> wifi \<Rightarrow> int \<Rightarrow> bytes list \<Rightarrow> improv \<Rightarrow> improv" where
  "cmd_wifi E W now ss s =
     (if length ss \<noteq> 2 then set_error E_INVALID_RPC s
      else if \<not> authorized s then set_error E_NOT_AUTHORIZED s
      else if join_id s \<noteq> 0 then set_error E_UNKNOWN s
      else if length (ss ! 1) \<ge> 65 then set_error E_UNABLE_TO_CONNECT s
      else let t = trim (ss ! 0);
               name = (if t \<noteq> [] \<and> length t \<noteq> length (ss ! 0) \<and> wifi_seen W (ss ! 0) \<noteq> 1 then t else ss ! 0)
           in if 0 \<in> set (ss ! 1) then set_error E_UNABLE_TO_CONNECT (s\<lparr>join_id := 0\<rparr>)
              else let s1 = emit (Join now (mode s) (st s) (pass_at s) name (ss ! 1)) s
                   in case wifi_join W of
                        None \<Rightarrow> set_error E_UNABLE_TO_CONNECT (s1\<lparr>join_id := 0\<rparr>)
                      | Some i \<Rightarrow> (let s2 = set_state ST_PROVISIONING (s1\<lparr>join_id := i, join_at := now\<rparr>)
                                 in if mode s2 \<noteq> M_OFF then advertise E s2 else s2))"

definition command :: "env \<Rightarrow> wifi \<Rightarrow> int \<Rightarrow> bytes \<Rightarrow> improv \<Rightarrow> improv" where
  "command E W now p s = (case strings p 8 of
       None \<Rightarrow> set_error E_INVALID_RPC s
     | Some ss \<Rightarrow>
        (let s1 = set_error E_NONE s in
         if p ! 0 = CMD_WIFI then cmd_wifi E W now ss s1
         else if p ! 0 = CMD_IDENTIFY then emit Identify s1
         else if p ! 0 = CMD_INFO then set_result CMD_INFO [ascii ''hassmic'', VERSION E, board_model E, core_name E] s1
         else if p ! 0 = CMD_SCAN then
           (if scan_id s1 \<noteq> 0 then s1
            else case wifi_scan W of
                None \<Rightarrow> set_error E_UNKNOWN ((emit Scan s1)\<lparr>scan_id := 0\<rparr>)
              | Some i \<Rightarrow> (emit Scan s1)\<lparr>scan_id := i, scan_at := now\<rparr>)
         else set_error E_UNKNOWN_RPC s1))"

definition dec_signed :: "int \<Rightarrow> bytes" where
  "dec_signed n = (if n < 0 then [0x2d] else []) @ dec_digits (nat \<bar>n\<bar>)"

definition security :: "bytes \<Rightarrow> bytes option" where
  "security x = (if x = ascii ''open'' then Some (ascii ''NO'') else if x = ascii ''psk'' then Some (ascii ''WPA2'') else None)"

text \<open>\<open>j\<close>: networks so far, \<open>room\<close>: what is left of the 255 bytes.\<close>

fun scan_strings :: "nat \<Rightarrow> nat \<Rightarrow> wifi_net list \<Rightarrow> bytes list" where
  "scan_strings j room [] = []"
| "scan_strings j room (n # ns) =
     (if j \<ge> 32 then []
      else case security (sec n) of
          None \<Rightarrow> scan_strings j room ns
        | Some x \<Rightarrow>
            (let r = fit 8 (dec_signed (signal n)); need = 3 + length (ssid n) + length r + length x
             in if need > room then [] else ssid n # r # x # scan_strings (Suc j) (room - need) ns))"

definition scan_answer :: "wifi_net list \<Rightarrow> improv \<Rightarrow> improv" where
  "scan_answer ns s = set_result CMD_SCAN (scan_strings 0 255 ns) s"

section \<open>The worker\<close>

definition work_scan :: "wifi \<Rightarrow> int \<Rightarrow> improv \<Rightarrow> improv" where
  "work_scan W now s = (if scan_id s = 0 then s
     else case wifi_scan_result W of
         Some ns \<Rightarrow> (scan_answer (take 48 ns) s)\<lparr>scan_id := 0\<rparr>
       | None \<Rightarrow> if now - scan_at s > SCAN_SECS then set_error E_UNKNOWN (s\<lparr>scan_id := 0\<rparr>) else s)"

definition fall_back :: "int \<Rightarrow> improv \<Rightarrow> improv" where
  "fall_back now s = set_state (if mode s = M_LOST \<and> now \<ge> auth_until s then ST_AUTH_REQUIRED else ST_AUTHORIZED) s"

definition work_join :: "env \<Rightarrow> wifi \<Rightarrow> int \<Rightarrow> improv \<Rightarrow> improv" where
  "work_join E W now s = (if join_id s = 0 then s
     else let (r, ip) = wifi_join_result W; r = (if r = 0 \<and> now - join_at s > JOIN_SECS then -1 else r)
          in if r > 0 then
               (let s1 = (set_state ST_PROVISIONED s)\<lparr>provisioned_at := now\<rparr>;
                    url = fit 80 (ascii ''http://'' @ fit 48 ip @ ascii '':'' @ dec_digits (web_port E) @ ascii ''/'')
                in (set_result CMD_WIFI (if web_port E \<noteq> 0 then [url] else []) s1)\<lparr>join_id := 0\<rparr>)
             else if r < 0 then (fall_back now (set_error E_UNABLE_TO_CONNECT s))\<lparr>join_id := 0\<rparr>
             else s)"

definition work_expire :: "int \<Rightarrow> improv \<Rightarrow> improv" where
  "work_expire now s = (if st s = ST_AUTHORIZED \<and> mode s = M_LOST \<and> now \<ge> auth_until s
     then (let s1 = set_state ST_AUTH_REQUIRED s in if connected s1 then emit (Attention True) s1 else s1) else s)"

text \<open>Online or not, and since when; \<open>busy\<close>: a phone or \<open>wifi.c\<close> is at it, so nothing changes under it.\<close>

definition work_offline :: "wifi \<Rightarrow> int \<Rightarrow> improv \<Rightarrow> improv" where
  "work_offline W now s =
     s\<lparr>offline_since := (if online W then 0 else if offline_since s = 0 then now else offline_since s)\<rparr>"

definition busy :: "improv \<Rightarrow> bool" where
  "busy s \<longleftrightarrow> connected s \<or> join_id s \<noteq> 0 \<or> scan_id s \<noteq> 0"

definition work_provisioned :: "env \<Rightarrow> int \<Rightarrow> improv \<Rightarrow> improv" where
  "work_provisioned E now s =
     (if \<not> busy s \<and> st s = ST_PROVISIONED \<and> now - provisioned_at s \<ge> PROVISIONED_SECS E then fall_back now s else s)"

definition want_mode :: "env \<Rightarrow> wifi \<Rightarrow> int \<Rightarrow> improv \<Rightarrow> mode" where
  "want_mode E W now s =
     (if \<not> busy s \<and> st s \<noteq> ST_PROVISIONED
      then (if \<not> online W \<and> core_oobe W \<and> now - offline_since s \<ge> OFFLINE_OOBE E then M_OOBE
            else if \<not> online W \<and> \<not> core_oobe W \<and> now - offline_since s \<ge> OFFLINE_LOST E then M_LOST
            else M_OFF)
      else mode s)"

definition enter_mode :: "env \<Rightarrow> int \<Rightarrow> mode \<Rightarrow> improv \<Rightarrow> improv" where
  "enter_mode E now m s =
     (let s1 = s\<lparr>mode := m\<rparr>;
          s2 = (case m of
                  M_OOBE \<Rightarrow> set_state ST_AUTHORIZED s1
                | M_LOST \<Rightarrow> set_state (if now < auth_until s1 then ST_AUTHORIZED else ST_AUTH_REQUIRED) s1
                | M_OFF \<Rightarrow> s1\<lparr>st := ST_AUTHORIZED\<rparr>)
      in advertise E (s2\<lparr>err := E_NONE\<rparr>))"

definition work_mode :: "env \<Rightarrow> wifi \<Rightarrow> int \<Rightarrow> improv \<Rightarrow> improv" where
  "work_mode E W now s =
     (let s1 = work_provisioned E now (work_offline W now s); want = want_mode E W now s1
      in if want = mode s1 then s1 else enter_mode E now want s1)"

definition worker :: "env \<Rightarrow> wifi \<Rightarrow> int \<Rightarrow> improv \<Rightarrow> improv" where
  "worker E W now s =
     (let s1 = (if cmd s \<noteq> [] then (command E W now (cmd s) s)\<lparr>cmd := []\<rparr> else s);
          s2 = work_mode E W now (work_expire now (work_join E W now (work_scan W now s1)));
          s3 = (if mode s2 \<noteq> M_OFF \<and> st s2 \<noteq> last_st s2 then advertise E s2 else s2)
      in s3\<lparr>last_st := st s3, pass_at := now\<rparr>)"

definition improv_authorize :: "env \<Rightarrow> int \<Rightarrow> improv \<Rightarrow> improv" where
  "improv_authorize E now s = (if mode s = M_LOST \<and> st s = ST_AUTH_REQUIRED
     then emit Authorized (emit (Attention False) (set_state ST_AUTHORIZED (s\<lparr>auth_until := now + AUTH_SECS E\<rparr>))) else s)"

section \<open>Whom it obeys\<close>

text \<open>
  Everything that can happen, in any order: a phone connects, leaves or writes, the action button is pressed, the worker
  has a pass; \<open>t\<close> is the clock, \<open>ps\<close> the times of the presses that were taken.
\<close>

inductive improvs :: "env \<Rightarrow> int \<Rightarrow> int list \<Rightarrow> improv \<Rightarrow> bool" for E where
  start: "0 \<le> t \<Longrightarrow> improvs E t [] (improv_start t)"
| tick: "improvs E t ps s \<Longrightarrow> t \<le> u \<Longrightarrow> improvs E u ps s"
| phone: "improvs E t ps s \<Longrightarrow> improvs E t ps (on_connection up s)"
| phone_write: "improvs E t ps s \<Longrightarrow> improvs E t ps (on_write c d s)"
| button: "improvs E t ps s \<Longrightarrow>
    improvs E t (if mode s = M_LOST \<and> st s = ST_AUTH_REQUIRED then ps @ [t] else ps) (improv_authorize E t s)"
| pass: "improvs E t ps s \<Longrightarrow> improvs E t ps (worker E W t s)"

definition joins :: "improv \<Rightarrow> out list" where
  "joins s = filter (\<lambda>x. case x of Join _ _ _ _ _ _ \<Rightarrow> True | _ \<Rightarrow> False) (outs s)"

text \<open>What most operations leave alone.\<close>

definition same_auth :: "improv \<Rightarrow> improv \<Rightarrow> bool" where
  "same_auth s s' \<longleftrightarrow> mode s' = mode s \<and> st s' = st s \<and> auth_until s' = auth_until s \<and> pass_at s' = pass_at s \<and>
     join_id s' = join_id s \<and> joins s' = joins s"

lemma joins_emit [simp]: "joins (emit x s) = joins s @ (case x of Join _ _ _ _ _ _ \<Rightarrow> [x] | _ \<Rightarrow> [])"
  by (simp add: joins_def emit_def split: out.split)

lemma emit_simps [simp]:
  "mode (emit x s) = mode s" "st (emit x s) = st s" "auth_until (emit x s) = auth_until s" "pass_at (emit x s) = pass_at s"
  "err (emit x s) = err s" "rx (emit x s) = rx s" "cmd (emit x s) = cmd s" "join_id (emit x s) = join_id s" "result (emit x s) = result s"
  "scan_id (emit x s) = scan_id s" "connected (emit x s) = connected s"
  by (simp_all add: emit_def)

lemma joins_upd [simp]:
  "joins (s\<lparr>mode := a\<rparr>) = joins s" "joins (s\<lparr>st := b\<rparr>) = joins s" "joins (s\<lparr>err := b\<rparr>) = joins s"
  "joins (s\<lparr>connected := c\<rparr>) = joins s" "joins (s\<lparr>auth_until := t\<rparr>) = joins s" "joins (s\<lparr>provisioned_at := t\<rparr>) = joins s"
  "joins (s\<lparr>rx := d\<rparr>) = joins s" "joins (s\<lparr>result := d\<rparr>) = joins s" "joins (s\<lparr>cmd := d\<rparr>) = joins s" "joins (s\<lparr>scan_id := i\<rparr>) = joins s"
  "joins (s\<lparr>join_id := i\<rparr>) = joins s" "joins (s\<lparr>scan_at := t\<rparr>) = joins s" "joins (s\<lparr>join_at := t\<rparr>) = joins s"
  "joins (s\<lparr>offline_since := t\<rparr>) = joins s" "joins (s\<lparr>last_st := b\<rparr>) = joins s" "joins (s\<lparr>pass_at := t\<rparr>) = joins s"
  by (simp_all add: joins_def)

lemma same_auth_set [simp]:
  "same_auth s (set_error e s)" "same_auth s (set_result c ss s)" "same_auth s (advertise E s)"
  by (simp_all add: same_auth_def set_error_def set_result_def advertise_def)

lemma set_state_simps [simp]:
  "mode (set_state x s) = mode s" "st (set_state x s) = x" "auth_until (set_state x s) = auth_until s"
  "pass_at (set_state x s) = pass_at s" "joins (set_state x s) = joins s" "join_id (set_state x s) = join_id s"
  by (simp_all add: set_state_def)

lemma set_error_simps [simp]:
  "mode (set_error e s) = mode s" "st (set_error e s) = st s" "auth_until (set_error e s) = auth_until s"
  "pass_at (set_error e s) = pass_at s" "joins (set_error e s) = joins s" "join_id (set_error e s) = join_id s"
  using same_auth_set(1) [of s e] by (simp_all add: same_auth_def)

lemma set_result_simps [simp]:
  "mode (set_result c ss s) = mode s" "st (set_result c ss s) = st s" "auth_until (set_result c ss s) = auth_until s"
  "pass_at (set_result c ss s) = pass_at s" "joins (set_result c ss s) = joins s" "join_id (set_result c ss s) = join_id s"
  using same_auth_set(2) [of s c ss] by (simp_all add: same_auth_def)

lemma advertise_simps [simp]:
  "mode (advertise E s) = mode s" "st (advertise E s) = st s" "auth_until (advertise E s) = auth_until s"
  "pass_at (advertise E s) = pass_at s" "joins (advertise E s) = joins s" "join_id (advertise E s) = join_id s"
  using same_auth_set(3) [of s E] by (simp_all add: same_auth_def)

text \<open>Who may: in \<open>M_LOST\<close> an authorization rests on a press, and one that is not used up is not over at the last pass.\<close>

definition rests_on_press :: "env \<Rightarrow> int list \<Rightarrow> improv \<Rightarrow> bool" where
  "rests_on_press E ps s \<longleftrightarrow> auth_until s = (if ps = [] then 0 else last ps + AUTH_SECS E) \<and>
     (mode s = M_LOST \<longrightarrow> (st s = ST_AUTHORIZED \<longrightarrow> ps \<noteq> [] \<and> pass_at s < auth_until s) \<and>
        (st s = ST_PROVISIONING \<or> st s = ST_PROVISIONED \<longrightarrow> ps \<noteq> []))"

fun allowed :: "env \<Rightarrow> int list \<Rightarrow> out \<Rightarrow> bool" where
  "allowed E ps (Join t m x p name pass) \<longleftrightarrow> (x = ST_AUTHORIZED \<or> x = ST_PROVISIONED) \<and>
     (m = M_LOST \<longrightarrow> (\<exists>b\<in>set ps. b \<le> t \<and> (x = ST_AUTHORIZED \<longrightarrow> p < b + AUTH_SECS E)))"
| "allowed E ps _ \<longleftrightarrow> True"

definition improv_inv :: "env \<Rightarrow> int \<Rightarrow> int list \<Rightarrow> improv \<Rightarrow> bool" where
  "improv_inv E t ps s \<longleftrightarrow> rests_on_press E ps s \<and> (join_id s \<noteq> 0 \<longrightarrow> st s = ST_PROVISIONING) \<and> 0 \<le> t \<and> pass_at s \<le> t \<and> (\<forall>b\<in>set ps. b \<le> t) \<and> (\<forall>x\<in>set (joins s). allowed E ps x)"

lemma auth_inv_same: "same_auth s s' \<Longrightarrow> improv_inv E t ps s \<Longrightarrow> improv_inv E t ps s'"
  by (auto simp: same_auth_def improv_inv_def rests_on_press_def)

lemma same_on_connection: "same_auth s (on_connection up s)"
  by (simp add: same_auth_def on_connection_def)

lemma same_on_write: "same_auth s (on_write c d s)"
  by (simp add: same_auth_def on_write_def Let_def)

lemma same_work_scan: "same_auth s (work_scan W now s)"
  by (simp add: same_auth_def work_scan_def scan_answer_def split: option.split)

lemma allowed_more: "allowed E ps x \<Longrightarrow> allowed E (ps @ qs) x"
  by (cases x) auto

text \<open>A join is asked for by \<open>command\<close> alone, and only when authorized.\<close>

lemma cmd_wifi_effect:
  "same_auth s (cmd_wifi E W t ss s) \<or> authorized s \<and>
   (\<exists>n p. let s' = cmd_wifi E W t ss s in mode s' = mode s \<and> auth_until s' = auth_until s \<and> pass_at s' = pass_at s \<and>
      (st s' = st s \<and> join_id s' = 0 \<or> st s' = ST_PROVISIONING) \<and> joins s' = joins s @ [Join t (mode s) (st s) (pass_at s) n p])"
  by (simp add: cmd_wifi_def same_auth_def Let_def split: option.split)

lemma inv_cmd_wifi:
  assumes inv: "improv_inv E t ps s"
  shows "improv_inv E t ps (cmd_wifi E W t ss s)"
  using cmd_wifi_effect [of s E W t ss]
proof
  let ?s = "cmd_wifi E W t ss s"
  assume r: "authorized s \<and> (\<exists>n p. let s' = ?s in mode s' = mode s \<and> auth_until s' = auth_until s \<and> pass_at s' = pass_at s \<and>
      (st s' = st s \<and> join_id s' = 0 \<or> st s' = ST_PROVISIONING) \<and> joins s' = joins s @ [Join t (mode s) (st s) (pass_at s) n p])"
  then have "mode s = M_LOST \<Longrightarrow> ps \<noteq> []"
    using inv by (auto simp: improv_inv_def rests_on_press_def authorized_def)
  moreover have "allowed E ps (Join t (mode s) (st s) (pass_at s) n p)" for n p
    using inv r by (auto simp: improv_inv_def rests_on_press_def authorized_def intro: bexI [of _ "last ps"])
  ultimately show ?thesis
    using inv r by (auto simp: improv_inv_def rests_on_press_def Let_def simp del: allowed.simps)
qed (rule auth_inv_same [OF _ inv])

lemma inv_command: "improv_inv E t ps s \<Longrightarrow> improv_inv E t ps (command E W t p s)"
proof -
  assume inv: "improv_inv E t ps s"
  then have e: "improv_inv E t ps (set_error E_NONE s)" using auth_inv_same same_auth_set(1) by blast
  have "same_auth s (command E W t p s) \<or> (\<exists>ss. command E W t p s = cmd_wifi E W t ss (set_error E_NONE s))"
    by (auto simp: command_def same_auth_def Let_def split: option.split)
  then show ?thesis using auth_inv_same inv inv_cmd_wifi [OF e] by metis
qed

lemma inv_work_join: "improv_inv E t ps s \<Longrightarrow> improv_inv E t ps (work_join E W t s)"
proof (cases "join_id s = 0")
  case False
  let ?r = "if fst (wifi_join_result W) = 0 \<and> t - join_at s > JOIN_SECS then -1 else fst (wifi_join_result W)"
  assume inv: "improv_inv E t ps s"
  with False have ps: "mode s = M_LOST \<Longrightarrow> ps \<noteq> []" by (auto simp: improv_inv_def rests_on_press_def)
  consider "?r > 0" | "?r < 0" | "?r = 0" by linarith
  then show ?thesis
  proof cases
    case 1
    then show ?thesis using False inv ps by (simp add: work_join_def improv_inv_def rests_on_press_def Let_def case_prod_beta)
  next
    case 2
    then show ?thesis
      using False inv ps
      by (simp add: work_join_def fall_back_def improv_inv_def rests_on_press_def Let_def case_prod_beta)
  next
    case 3
    then show ?thesis using inv by (simp add: work_join_def Let_def case_prod_beta)
  qed
qed (simp add: work_join_def)

text \<open>After \<open>work_expire\<close> an authorization in \<open>M_LOST\<close> is one that is not over.\<close>

definition unexpired :: "int \<Rightarrow> improv \<Rightarrow> bool" where
  "unexpired t s \<longleftrightarrow> (mode s = M_LOST \<and> st s = ST_AUTHORIZED \<longrightarrow> t < auth_until s)"

lemma inv_work_expire: "improv_inv E t ps s \<Longrightarrow> improv_inv E t ps (work_expire t s) \<and> unexpired t (work_expire t s)"
  by (auto simp: work_expire_def improv_inv_def rests_on_press_def unexpired_def Let_def)

lemma inv_pass_at: "improv_inv E t ps s \<Longrightarrow> unexpired t s \<Longrightarrow> improv_inv E t ps (s\<lparr>pass_at := t\<rparr>)"
  by (auto simp: improv_inv_def rests_on_press_def unexpired_def)

lemma inv_fall_back:
  "improv_inv E t ps s \<Longrightarrow> join_id s = 0 \<Longrightarrow> improv_inv E t ps (fall_back t s) \<and> unexpired t (fall_back t s)"
  by (auto simp: fall_back_def improv_inv_def rests_on_press_def unexpired_def)

lemma inv_enter_mode:
  "improv_inv E t ps s \<Longrightarrow> join_id s = 0 \<Longrightarrow> improv_inv E t ps (enter_mode E t m s) \<and> unexpired t (enter_mode E t m s)"
  by (cases m) (auto simp: enter_mode_def improv_inv_def rests_on_press_def unexpired_def)

lemma inv_work_mode:
  assumes "improv_inv E t ps s" "unexpired t s"
  shows "improv_inv E t ps (work_mode E W t s) \<and> unexpired t (work_mode E W t s)"
proof -
  let ?s1 = "work_offline W t s" let ?s2 = "work_provisioned E t ?s1"
  have "same_auth s ?s1" by (simp add: work_offline_def same_auth_def)
  then have i1: "improv_inv E t ps ?s1" by (rule auth_inv_same [OF _ assms(1)])
  have u1: "unexpired t ?s1" using assms(2) by (simp add: unexpired_def work_offline_def)
  have i2: "improv_inv E t ps ?s2 \<and> unexpired t ?s2"
    using i1 u1 inv_fall_back [OF i1] by (auto simp: work_provisioned_def busy_def)
  have "want_mode E W t ?s2 \<noteq> mode ?s2 \<Longrightarrow> join_id ?s2 = 0"
    by (auto simp: want_mode_def busy_def split: if_splits)
  then show ?thesis
    using i2 inv_enter_mode [of E t ps ?s2 "want_mode E W t ?s2"] by (simp add: work_mode_def Let_def)
qed

lemma inv_worker:
  assumes inv: "improv_inv E t ps s"
  shows "improv_inv E t ps (worker E W t s)"
proof -
  let ?s1 = "if cmd s \<noteq> [] then (command E W t (cmd s) s)\<lparr>cmd := []\<rparr> else s"
  have up: "improv_inv E t ps s \<Longrightarrow> improv_inv E t ps (s\<lparr>cmd := []\<rparr>)" for s
    by (rule auth_inv_same) (simp_all add: same_auth_def)
  have "improv_inv E t ps ?s1" using up [OF inv_command [OF inv]] inv by simp
  then have "improv_inv E t ps (work_scan W t ?s1)" by (rule auth_inv_same [OF same_work_scan])
  then have "improv_inv E t ps (work_join E W t (work_scan W t ?s1))" by (rule inv_work_join)
  then have i3: "improv_inv E t ps ((work_mode E W t (work_expire t (work_join E W t (work_scan W t ?s1))))\<lparr>pass_at := t\<rparr>)"
    using inv_work_expire inv_work_mode inv_pass_at by metis
  have "same_auth ((work_mode E W t (work_expire t (work_join E W t (work_scan W t ?s1))))\<lparr>pass_at := t\<rparr>) (worker E W t s)"
    by (simp add: worker_def same_auth_def Let_def)
  from auth_inv_same [OF this i3] show ?thesis .
qed

lemma inv_improvs: "improvs E t ps s \<Longrightarrow> 0 < AUTH_SECS E \<Longrightarrow> improv_inv E t ps s"
proof (induction rule: improvs.induct)
  case (start t)
  then show ?case by (simp add: improv_inv_def rests_on_press_def improv_start_def joins_def)
next
  case (tick t ps s u)
  then show ?case by (fastforce simp: improv_inv_def)
next
  case (button t ps s)
  then show ?case
    by (auto simp: improv_authorize_def improv_inv_def rests_on_press_def intro: allowed_more)
next
  case (pass t ps s W)
  then show ?case using inv_worker by blast
qed (use auth_inv_same same_on_connection same_on_write in blast)+

section \<open>Packets in pieces\<close>

lemma length_packet [simp]: "length (packet c d) = length d + 3"
  by (simp add: packet_def Let_def)

lemma packet_len: "length d \<le> 255 \<Longrightarrow> unat (packet c d ! 1) = length d"
  by (simp add: packet_def Let_def unat_of_nat)

lemma packet_sum: "packet c d ! (length d + 2) = sum_c (take (length d + 2) (packet c d))"
  by (simp add: packet_def Let_def nth_append)

lemma on_write_part:
  assumes "rx s @ d = take k (packet c x)" "k < length (packet c x)" "length x \<le> 255"
  shows "on_write C_RPC d s = s\<lparr>rx := rx s @ d\<rparr>"
proof -
  have len: "length (rx s @ d) \<le> k" using assms(1) by (metis length_take min.cobounded2)
  have "unat ((rx s @ d) ! 1) = length x" if "2 \<le> length (rx s @ d)"
    using assms(1,3) packet_len [of x c] that len by (metis (no_types, lifting) Suc_1 Suc_le_lessD length_take min.strict_boundedE nth_take one_add_one)
  then show ?thesis using assms(2,3) len by (auto simp: on_write_def RX_MAX_def Let_def)
qed

lemma on_write_whole:
  assumes "rx s @ d = packet c x" "length x \<le> 255" "cmd s = []"
  shows "on_write C_RPC d s = s\<lparr>rx := [], cmd := packet c x\<rparr>"
proof -
  have len: "length (rx s) + length d = length x + 3" by (metis assms(1) length_append length_packet)
  then have "length (rx s) + length d \<le> RX_MAX" "length d \<le> RX_MAX" using assms(2) by (simp_all add: RX_MAX_def)
  then show ?thesis
    using assms len packet_len [of x c] packet_sum [of c x] by (simp add: on_write_def Let_def)
qed

lemma on_write_nothing: "rx s = [] \<Longrightarrow> on_write C_RPC [] s = s"
  by (simp add: on_write_def RX_MAX_def Let_def)

lemma on_writes_done: "\<forall>p\<in>set ps. p = [] \<Longrightarrow> rx s = [] \<Longrightarrow> fold (on_write C_RPC) ps s = s"
  by (induction ps) (auto simp: on_write_nothing)

lemma on_writes:
  "rx s @ concat ps = packet c x \<Longrightarrow> length (rx s) < length (packet c x) \<Longrightarrow> length x \<le> 255 \<Longrightarrow> cmd s = [] \<Longrightarrow>
   fold (on_write C_RPC) ps s = s\<lparr>rx := [], cmd := packet c x\<rparr>"
proof (induction ps arbitrary: s)
  case Nil
  then show ?case by simp
next
  case (Cons p ps)
  show ?case
  proof (cases "length (rx s @ p) < length (packet c x)")
    case True
    have "rx s @ p = take (length (rx s @ p)) (packet c x)" using Cons.prems(1) by (metis append_eq_conv_conj concat.simps(2) append.assoc)
    then have w: "on_write C_RPC p s = s\<lparr>rx := rx s @ p\<rparr>" using on_write_part True Cons.prems(3) by blast
    show ?thesis using Cons.IH [of "s\<lparr>rx := rx s @ p\<rparr>"] Cons.prems True by (simp add: w)
  next
    case False
    have eq: "(rx s @ p) @ concat ps = packet c x" using Cons.prems(1) by simp
    then have "concat ps = []" using False
      by (metis length_append length_0_conv add_cancel_left_right le_add1 le_antisym linorder_not_less)
    moreover from this have "rx s @ p = packet c x" using eq by (simp only: append_Nil2)
    ultimately have "rx s @ p = packet c x" "\<forall>q\<in>set ps. q = []" by simp_all
    then show ?thesis
      using on_write_whole [OF _ Cons.prems(3,4)] on_writes_done [of ps "s\<lparr>rx := [], cmd := packet c x\<rparr>"] by simp
  qed
qed

section \<open>Results read back\<close>

definition fits :: "bytes list \<Rightarrow> bool" where
  "fits ss \<longleftrightarrow> sum_list (map (\<lambda>s. 1 + length s) ss) \<le> 255"

definition encode :: "bytes list \<Rightarrow> bytes" where
  "encode ss = concat (map (\<lambda>s. of_nat (length s) # s) ss)"

lemma result_data_fits: "n + sum_list (map (\<lambda>s. 1 + length s) ss) \<le> 257 \<Longrightarrow> 2 \<le> n \<Longrightarrow> result_data n ss = encode ss"
  by (induction ss arbitrary: n) (simp_all add: encode_def)

lemma length_encode: "length (encode ss) = sum_list (map (\<lambda>s. 1 + length s) ss)"
  by (induction ss) (simp_all add: encode_def)

lemma length_result_data: "n \<le> 257 \<Longrightarrow> n + length (result_data n ss) \<le> 257"
proof (induction ss arbitrary: n)
  case (Cons s ss)
  show ?case
  proof (cases "length s > 255 \<or> n + 1 + length s > 2 + 255")
    case False
    then have "n + 1 + length s + length (result_data (n + 1 + length s) ss) \<le> 257" by (intro Cons.IH) simp
    with False show ?thesis by simp
  qed (use Cons.prems in simp)
qed simp

lemma strings_encode: "\<forall>s\<in>set ss. length s \<le> 255 \<Longrightarrow> length ss \<le> m \<Longrightarrow> strings_loop m (encode ss) = Some ss"
proof (induction ss arbitrary: m)
  case (Cons s ss)
  then have "unat (of_nat (length s) :: byte) = length s" by (simp add: unat_of_nat)
  with Cons show ?case by (cases m) (simp_all add: encode_def)
qed (simp add: encode_def)

lemma strings_packet: "strings (packet c d) m = strings_loop m d"
  by (simp add: strings_def packet_def Let_def)

lemma fits_each: "fits ss \<Longrightarrow> s \<in> set ss \<Longrightarrow> length s \<le> 255"
  unfolding fits_def using member_le_sum_list [of "1 + length s" "map (\<lambda>s. 1 + length s) ss"] by auto

lemma strings_result: "fits ss \<Longrightarrow> length ss \<le> m \<Longrightarrow> strings (result (set_result c ss s)) m = Some ss"
  using result_data_fits [of 2 ss] fits_each [of ss] strings_encode [of ss m]
  by (simp add: set_result_def strings_packet fits_def)

lemma scan_strings_fit: "sum_list (map (\<lambda>s. 1 + length s) (scan_strings j room ns)) \<le> room \<and>
   length (scan_strings j room ns) + 3 * j \<le> 3 * max j 32"
proof (induction ns arbitrary: j room)
  case (Cons n ns)
  show ?case
  proof (cases "j < 32")
    case True
    show ?thesis
    proof (cases "security (sec n)")
      case (Some x)
      let ?r = "fit 8 (dec_signed (signal n))"
      let ?need = "3 + length (ssid n) + length ?r + length x"
      show ?thesis
      proof (cases "?need \<le> room")
        case fit: True
        then show ?thesis using Cons.IH [of "Suc j" "room - ?need"] True Some by (auto simp: Let_def)
      qed (use True Some in \<open>simp add: Let_def\<close>)
    qed (use Cons.IH [of j room] True in simp)
  qed (simp add: not_less)
qed simp

section \<open>Theorems\<close>


text \<open>A phone writes before and after the press of the button, on an Echo that lost its network for ten minutes.\<close>

definition demo_env :: env where
  "demo_env = \<lparr>OFFLINE_OOBE = 20, OFFLINE_LOST = 600, AUTH_SECS = 60, PROVISIONED_SECS = 60, core_name = ascii ''dot'',
     VERSION = ascii ''1'', board_model = ascii ''d'', web_port = 80\<rparr>"

definition demo_wifi :: wifi where
  "demo_wifi = \<lparr>wifi_seen = (\<lambda>_. 0), wifi_join = Some 9, wifi_scan = None, wifi_scan_result = None, wifi_join_result = (0, []),
     core_oobe = False, online = False\<rparr>"

definition demo_wish :: bytes where
  "demo_wish = packet CMD_WIFI (encode [ascii ''net'', ascii ''password''])"

definition demo_run :: improv where
  "demo_run = worker demo_env demo_wifi 703 (on_write C_RPC demo_wish (improv_authorize demo_env 702
     (worker demo_env demo_wifi 701 (on_write C_RPC demo_wish (on_connection True (worker demo_env demo_wifi 700 (improv_start 1)))))))"

lemma demo_run_join: "Join 703 M_LOST ST_AUTHORIZED 701 (ascii ''net'') (ascii ''password'') \<in> set (outs demo_run)"
  by code_simp


text \<open>
  A packet a phone writes in pieces, cut anywhere, is put together to one command for the worker, and nothing else changes.
\<close>

theorem pieces_one_command:
  assumes "concat ps = packet c x" "length x \<le> 255" "rx s = []" "cmd s = []"
  shows "fold (on_write C_RPC) ps s = s\<lparr>cmd := packet c x\<rparr>"
  using on_writes [of s ps c x] assms by simp

theorem pieces_one_command_witness:
  "fold (on_write C_RPC) [take 3 demo_wish, [], drop 3 demo_wish] (improv_start 0) = (improv_start 0)\<lparr>cmd := demo_wish\<rparr>"
  unfolding demo_wish_def
  by (rule pieces_one_command) (simp_all add: improv_start_def length_encode)

text \<open>
  The scan's answer, whatever networks there are: the phone reads back whole networks, each with its name, signal and
  security, in a packet of at most 258 bytes.
\<close>

theorem scan_answer_reads_back:
  "strings (result (scan_answer ns s)) 96 = Some (scan_strings 0 255 ns) \<and> length (result (scan_answer ns s)) \<le> 258 \<and>
   length (scan_strings 0 255 ns) mod 3 = 0"
proof -
  have "fits (scan_strings 0 255 ns)" "length (scan_strings 0 255 ns) \<le> 96"
    using scan_strings_fit [of 0 255 ns] by (simp_all add: fits_def)
  moreover have "length (scan_strings j room ns) mod 3 = 0" for j room
    by (induction j room ns rule: scan_strings.induct) (simp_all add: Let_def split: option.split)
  ultimately show ?thesis
    using strings_result length_result_data [of 2 "scan_strings 0 255 ns"]
    by (simp add: scan_answer_def) (simp add: set_result_def)
qed

end
