(* ===== verification/Clock.thy ===== *)
theory Clock
  imports Prelude "HOL-Library.Sublist"
begin

text \<open>
  Home Assistant's time and time zone (\<^verbatim>\<open>clock.c\<close>, \<^verbatim>\<open>tz.c\<close>): the search of bionic's time zone data for a zone with a
  given rule, what is handed to root, and the process that stamps the lines of the log.  A file is the list of its
  bytes.  Shown: the search returns the zone that is set if it has the rule, else the first of the most usual ones that have it;
  what root reads is one word; the log loses no line but the known noise.
\<close>

section \<open>Time zone data\<close>

definition NAME_LEN :: nat where "NAME_LEN = 40"
definition ENTRY_LEN :: nat where "ENTRY_LEN = 52"
definition FOOTER_MAX :: nat where "FOOTER_MAX = 128"
definition ZONETAB_MAX :: nat where "ZONETAB_MAX = 2 ^ 20"

definition be32 :: "bytes \<Rightarrow> u32" where
  "be32 p = push_bit 24 (ucast (p ! 0)) OR push_bit 16 (ucast (p ! 1)) OR push_bit 8 (ucast (p ! 2)) OR ucast (p ! 3)"

text \<open>\<open>fseek\<close> and \<open>fread\<close> of \<open>n\<close> bytes: all of them, or not.\<close>

definition read_at :: "bytes \<Rightarrow> nat \<Rightarrow> nat \<Rightarrow> bytes option" where
  "read_at f off n = (if off + n \<le> length f then Some (take n (drop off f)) else None)"

definition starts :: "bytes \<Rightarrow> bytes \<Rightarrow> bool" where
  "starts n p \<longleftrightarrow> take (length n) p = n"

definition areas :: "bytes list" where
  "areas = map ascii [''Europe/'', ''America/'', ''Asia/'', ''Australia/'', ''Africa/'', ''Pacific/'', ''Atlantic/'',
     ''Indian/'', ''Antarctica/'']"

definition area :: "bytes \<Rightarrow> nat" where
  "area n = (let i = length (takeWhile (\<lambda>a. \<not> starts a n) areas)
     in if i < length areas then i
        else if 0x2f \<in> set n \<and> \<not> starts (ascii ''Etc/'') n then 20 else 30)"

text \<open>The search for a name in \<open>zone.tab\<close>; \<open>prev\<close> is the byte before the place, none at the text's start.\<close>

function listed_loop :: "bytes \<Rightarrow> byte option \<Rightarrow> bytes \<Rightarrow> bool" where
  "listed_loop n prev [] = False"
| "listed_loop n prev (c # cs) =
     (if n \<noteq> [] \<and> starts n (c # cs)
      then (let r = drop (length n) (c # cs)
            in if prev = Some 0x09 \<and> (r = [] \<or> hd r = 0x09 \<or> hd r = 0x0a) then True
               else listed_loop n (Some (last n)) r)
      else listed_loop n (Some c) cs)"
  by pat_completeness auto
termination by (relation "measure (\<lambda>(n, prev, p). length p)") auto

definition listed :: "bytes \<Rightarrow> bytes \<Rightarrow> bool" where
  "listed tab n = listed_loop n None (cstr tab)"

definition rank :: "bytes option \<Rightarrow> bytes \<Rightarrow> nat" where
  "rank tab n = area n + (case tab of Some t \<Rightarrow> if listed t n then 0 else 40 | None \<Rightarrow> 0)"

text \<open>The rule at the end of a zone's data: between its last newline and the one before it.\<close>

definition footer :: "bytes \<Rightarrow> nat \<Rightarrow> nat \<Rightarrow> bytes option" where
  "footer f off len =
     (let n = (if len < FOOTER_MAX + 2 then len else FOOTER_MAX + 2)
      in if len < 2 then None
         else case read_at f (off + (len - n)) n of
             None \<Rightarrow> None
           | Some b \<Rightarrow> if b ! (n - 1) \<noteq> 0x0a then None
                       else let r = takeWhile (\<lambda>c. c \<noteq> 0x0a) (rev (butlast b))
                            in if length r = n - 1 then None else Some (cstr (rev r)))"

section \<open>\<open>tz_lookup\<close>\<close>

record tz_header =
  h_idx :: nat
  h_data :: nat
  h_zt :: nat

definition read_header :: "bytes \<Rightarrow> tz_header option" where
  "read_header f = (case read_at f 0 24 of None \<Rightarrow> None
     | Some h \<Rightarrow> if take 6 h \<noteq> ascii ''tzdata'' \<or> h ! 11 \<noteq> 0 then None
         else (let idx = unat (be32 (drop 12 h)); data = unat (be32 (drop 16 h)); zt = unat (be32 (drop 20 h))
               in if idx > data \<or> data > zt \<or> (data - idx) mod ENTRY_LEN \<noteq> 0 then None
                  else Some \<lparr>h_idx = idx, h_data = data, h_zt = zt\<rparr>))"

definition zone_tab :: "bytes \<Rightarrow> nat \<Rightarrow> bytes option" where
  "zone_tab f zt = (let tl = length f - zt
     in if tl \<noteq> 0 \<and> tl \<le> ZONETAB_MAX \<and> zt \<le> 0x7fffffff then Some (drop zt f) else None)"

text \<open>One entry of the index: its name if it is one with the rule wanted.\<close>

definition tz_entry :: "bytes \<Rightarrow> tz_header \<Rightarrow> bytes \<Rightarrow> bytes \<Rightarrow> bytes option" where
  "tz_entry f h posix e =
     (let name = cstr (take NAME_LEN e); start = unat (be32 (drop NAME_LEN e)); len = unat (be32 (drop (NAME_LEN + 4) e))
      in if name = [] \<or> start > h_zt h - h_data h \<or> len > h_zt h - h_data h - start then None
         else case footer f (h_data h + start) len of
             None \<Rightarrow> None
           | Some r \<Rightarrow> if r = posix then Some name else None)"

text \<open>The loop over the index, with \<open>best\<close> and \<open>best_rank\<close>; \<open>k\<close> entries are left.\<close>

fun tz_loop :: "bytes \<Rightarrow> tz_header \<Rightarrow> bytes option \<Rightarrow> bytes \<Rightarrow> bytes option \<Rightarrow> nat \<Rightarrow> nat \<Rightarrow> bytes option \<Rightarrow> nat \<Rightarrow> bytes option" where
  "tz_loop f h tab posix cur 0 pos best r0 = best"
| "tz_loop f h tab posix cur (Suc k) pos best r0 = (case read_at f pos ENTRY_LEN of
       None \<Rightarrow> best
     | Some e \<Rightarrow> (case tz_entry f h posix e of
           None \<Rightarrow> tz_loop f h tab posix cur k (pos + ENTRY_LEN) best r0
         | Some name \<Rightarrow>
             if cur = Some name then Some name
             else let r = rank tab name
                  in if r < r0 then tz_loop f h tab posix cur k (pos + ENTRY_LEN) (Some name) r
                     else tz_loop f h tab posix cur k (pos + ENTRY_LEN) best r0))"

definition tz_lookup :: "bytes option \<Rightarrow> bytes \<Rightarrow> bytes option \<Rightarrow> nat \<Rightarrow> bytes option" where
  "tz_lookup file posix cur cap = (case file of None \<Rightarrow> None
     | Some f \<Rightarrow> (case read_header f of None \<Rightarrow> None
         | Some h \<Rightarrow>
             (case tz_loop f h (zone_tab f (h_zt h)) posix cur ((h_data h - h_idx h) div ENTRY_LEN) (h_idx h) None 999 of
                None \<Rightarrow> None
              | Some best \<Rightarrow> if length best \<ge> cap then None else Some best)))"

section \<open>The reference\<close>

text \<open>The names with the rule, in the index's order, up to the first entry that cannot be read.\<close>

definition zones_with :: "bytes \<Rightarrow> tz_header \<Rightarrow> bytes \<Rightarrow> nat \<Rightarrow> nat \<Rightarrow> bytes list" where
  "zones_with f h posix k pos =
     List.map_filter (tz_entry f h posix)
       (map the (takeWhile (\<lambda>e. e \<noteq> None) (map (\<lambda>i. read_at f (pos + i * ENTRY_LEN) ENTRY_LEN) [0..<k])))"

text \<open>The zone set if it is one of them, else the first of the most usual rank.\<close>

definition best_zone :: "bytes option \<Rightarrow> bytes option \<Rightarrow> bytes list \<Rightarrow> bytes option" where
  "best_zone tab cur zs =
     (if zs = [] then None
      else case cur of
          Some c \<Rightarrow> if c \<in> set zs then Some c else find (\<lambda>n. \<forall>z\<in>set zs. rank tab n \<le> rank tab z) zs
        | None \<Rightarrow> find (\<lambda>n. \<forall>z\<in>set zs. rank tab n \<le> rank tab z) zs)"

fun pick :: "bytes option \<Rightarrow> bytes option \<Rightarrow> bytes option \<Rightarrow> nat \<Rightarrow> bytes list \<Rightarrow> bytes option" where
  "pick tab cur best r0 [] = best"
| "pick tab cur best r0 (z # zs) =
     (if cur = Some z then Some z
      else if rank tab z < r0 then pick tab cur (Some z) (rank tab z) zs else pick tab cur best r0 zs)"

lemma zones_with_0 [simp]: "zones_with f h posix 0 pos = []"
  by (simp add: zones_with_def List.map_filter_def)

lemma zones_with_Suc: "zones_with f h posix (Suc k) pos = (case read_at f pos ENTRY_LEN of
    None \<Rightarrow> []
  | Some e \<Rightarrow> (case tz_entry f h posix e of None \<Rightarrow> [] | Some n \<Rightarrow> [n]) @ zones_with f h posix k (pos + ENTRY_LEN))"
proof -
  have "map (\<lambda>i. read_at f (pos + i * ENTRY_LEN) ENTRY_LEN) [0..<Suc k] =
      read_at f pos ENTRY_LEN # map (\<lambda>i. read_at f (pos + ENTRY_LEN + i * ENTRY_LEN) ENTRY_LEN) [0..<k]"
    unfolding upt_conv_Cons [OF zero_less_Suc] by (simp add: map_Suc_upt [symmetric] comp_def add.assoc del: upt_Suc)
  then show ?thesis
    by (simp add: zones_with_def List.map_filter_def del: upt_Suc split: option.split)
qed

lemma tz_loop_pick: "tz_loop f h tab posix cur k pos best r0 = pick tab cur best r0 (zones_with f h posix k pos)"
  by (induction k arbitrary: pos best r0) (simp_all add: zones_with_Suc Let_def split: option.split)

lemma find_least: "zs \<noteq> [] \<Longrightarrow> \<exists>n. find (\<lambda>n. \<forall>z\<in>set zs. (r n::nat) \<le> r z) zs = Some n"
proof -
  assume "zs \<noteq> []"
  then obtain n where "n \<in> set zs" "\<forall>z\<in>set zs. r n \<le> r z"
    using ex_has_least_nat [of "\<lambda>n. n \<in> set zs" "hd zs" r] by auto
  then have "find (\<lambda>n. \<forall>z\<in>set zs. r n \<le> r z) zs \<noteq> None" unfolding find_None_iff by blast
  then show ?thesis by blast
qed

lemma find_pred_cong: "(\<And>x. x \<in> set xs \<Longrightarrow> P x = Q x) \<Longrightarrow> find P xs = find Q xs"
  by (induction xs) auto

lemma pick_least:
  "\<forall>z\<in>set zs. cur \<noteq> Some z \<Longrightarrow> pick tab cur best r0 zs =
   (case find (\<lambda>n. rank tab n < r0 \<and> (\<forall>z\<in>set zs. rank tab n \<le> rank tab z)) zs of Some n \<Rightarrow> Some n | None \<Rightarrow> best)"
proof (induction zs arbitrary: best r0)
  case (Cons z zs)
  let ?r = "rank tab"
  show ?case
  proof (cases "?r z < r0")
    case False
    then have "find (\<lambda>n. ?r n < r0 \<and> (\<forall>y\<in>set (z # zs). ?r n \<le> ?r y)) zs = find (\<lambda>n. ?r n < r0 \<and> (\<forall>y\<in>set zs. ?r n \<le> ?r y)) zs"
      by (intro find_pred_cong) auto
    with False Cons show ?thesis by simp
  next
    case True
    show ?thesis
    proof (cases "\<forall>y\<in>set zs. ?r z \<le> ?r y")
      case least: True
      then have "find (\<lambda>n. ?r n < ?r z \<and> (\<forall>y\<in>set zs. ?r n \<le> ?r y)) zs = None" by (auto simp: find_None_iff)
      with True least Cons show ?thesis by simp
    next
      case False
      then have ne: "zs \<noteq> []" by auto
      have "find (\<lambda>n. ?r n < r0 \<and> (\<forall>y\<in>set (z # zs). ?r n \<le> ?r y)) zs = find (\<lambda>n. \<forall>y\<in>set zs. ?r n \<le> ?r y) zs"
        "find (\<lambda>n. ?r n < ?r z \<and> (\<forall>y\<in>set zs. ?r n \<le> ?r y)) zs = find (\<lambda>n. \<forall>y\<in>set zs. ?r n \<le> ?r y) zs"
        using True False by (intro find_pred_cong; fastforce)+
      with True False Cons find_least [OF ne, of ?r] show ?thesis by auto
    qed
  qed
qed simp

lemma pick_cur: "c \<in> set zs \<Longrightarrow> pick tab (Some c) best r0 zs = Some c"
  by (induction zs arbitrary: best r0) auto

lemma area_bound: "area n \<le> 30"
  using length_takeWhile_le [of "\<lambda>a. \<not> starts a n" areas] by (simp add: area_def areas_def Let_def)

lemma rank_bound: "rank tab n < 999"
  using area_bound [of n] by (simp add: rank_def split: option.split)

lemma pick_best_zone: "pick tab cur None 999 zs = best_zone tab cur zs"
proof (cases "zs = []")
  case False
  then have "(case find (\<lambda>n. rank tab n < 999 \<and> (\<forall>z\<in>set zs. rank tab n \<le> rank tab z)) zs of Some n \<Rightarrow> Some n | None \<Rightarrow> None) =
      find (\<lambda>n. \<forall>z\<in>set zs. rank tab n \<le> rank tab z) zs"
    by (simp add: rank_bound split: option.split)
  then show ?thesis
    using False pick_cur [of _ zs] pick_least [of zs cur tab None 999] by (auto simp: best_zone_def split: option.split)
qed (simp add: best_zone_def)

section \<open>Handing to root\<close>

definition EPOCH_MIN :: nat where "EPOCH_MIN = 1767225600"

text \<open>The two state files, as they were last written, and what was said in the log (\<open>told\<close>).\<close>

record clock =
  clock_file :: "bytes option"
  zone_file :: "bytes option"
  told :: bytes

definition two_digits :: "nat \<Rightarrow> bytes" where
  "two_digits n = (if n < 10 then [0x30] else []) @ dec_digits n"

text \<open>\<open>secs\<close>, \<open>nsecs\<close>: \<open>CLOCK_BOOTTIME\<close>; \<open>wrote\<close>: \<open>statefile_write\<close> worked.\<close>

definition clock_from_ha :: "u32 \<Rightarrow> int \<Rightarrow> bool \<Rightarrow> nat \<Rightarrow> nat \<Rightarrow> bool \<Rightarrow> clock \<Rightarrow> clock" where
  "clock_from_ha epoch time synced secs nsecs wrote s =
     (let off = int (unat epoch) - time
      in if unat epoch < EPOCH_MIN then s
         else if synced \<and> off \<ge> -2 \<and> off \<le> 2 then s
         else let t = fit 64 (dec_digits (unat epoch) @ ascii '' '' @ dec_digits secs @ ascii ''.'' @ two_digits (nsecs div 10000000) @ [0x0a])
              in if wrote then s\<lparr>clock_file := Some t\<rparr> else s)"

definition tz_chars :: bytes where
  "tz_chars = ascii ''ABCDEFGHIJKLMNOPQRSTUVWXYZabcdefghijklmnopqrstuvwxyz0123456789<>+-,./:''"

fun dots :: "bytes \<Rightarrow> bool" where
  "dots (a # b # cs) = (a = 0x2e \<and> b = 0x2e \<or> dots (b # cs))"
| "dots _ = False"

definition span_to :: "byte \<Rightarrow> bytes \<Rightarrow> nat" where
  "span_to c b = length (takeWhile (\<lambda>x. x \<noteq> c) b)"

definition letter :: "byte \<Rightarrow> bool" where
  "letter c \<longleftrightarrow> 0x41 \<le> c \<and> c \<le> 0x5a \<or> 0x61 \<le> c \<and> c \<le> 0x7a"

definition tz_refused :: "bytes \<Rightarrow> bool" where
  "tz_refused posix \<longleftrightarrow> length posix > 91 \<or> length (takeWhile (\<lambda>c. c \<in> set tz_chars) posix) \<noteq> length posix \<or>
     \<not> (posix ! 0 = 0x3c \<or> letter (posix ! 0)) \<or> dots posix \<or> span_to 0x2f posix < span_to 0x2c posix"

text \<open>\<open>files\<close>: the places time zone data may be, as far as they are there; \<open>cur\<close>: the zone set.\<close>

fun tz_first :: "bytes \<Rightarrow> bytes \<Rightarrow> bytes option list \<Rightarrow> bytes option" where
  "tz_first posix cur [] = None"
| "tz_first posix cur (f # fs) = (case tz_lookup f posix (Some cur) 100 of Some z \<Rightarrow> Some z | None \<Rightarrow> tz_first posix cur fs)"

definition clock_zone_from_ha :: "bytes \<Rightarrow> bytes \<Rightarrow> bytes option list \<Rightarrow> bool \<Rightarrow> clock \<Rightarrow> clock" where
  "clock_zone_from_ha posix cur files wrote s =
     (if posix = [] then s
      else if tz_refused posix then s\<lparr>told := ascii ''?''\<rparr>
      else let zone = (case tz_first posix cur files of Some z \<Rightarrow> z | None \<Rightarrow> fit 100 posix)
           in if zone = cur then s
              else if \<not> wrote then s
              else s\<lparr>zone_file := Some (fit 104 (zone @ [0x0a])), told := fit 100 zone\<rparr>)"

section \<open>The log\<close>

definition LINE_MAX :: nat where "LINE_MAX = 2048 + 40"

definition idme_noise :: "bytes list" where
  "idme_noise = map ascii [''Could not open /dev/block/mmcblk0boot1!'', ''Can'' @ [CHR 0x27] @ ''t read the idme.'',
     ''system error occured while processing command'']"

fun substring :: "bytes \<Rightarrow> bytes \<Rightarrow> bool" where
  "substring n [] = (n = [])"
| "substring n (c # cs) = (starts n (c # cs) \<or> substring n cs)"

definition dha_noise :: "bytes \<Rightarrow> bool" where
  "dha_noise l \<longleftrightarrow> starts (ascii ''Error in hardware/amazon_hal/security/amzn_dha/'') l \<and>
     substring (ascii ''[Warning: setgroups failed'') l \<and> substring (ascii ''continuing]'') l"

text \<open>The line so far (none before its first byte: then it is stamped), how far the three lines of the noise have come, what was written.\<close>

record logger =
  stamp_l :: bytes
  line :: "bytes option"
  noise :: nat
  written :: "bytes list"

definition end_line :: "logger \<Rightarrow> bytes \<Rightarrow> logger" where
  "end_line s l =
     (if cstr l = idme_noise ! noise s then s\<lparr>noise := (noise s + 1) mod 3, line := None\<rparr>
      else if dha_noise (cstr l) then s\<lparr>noise := 0, line := None\<rparr>
      else s\<lparr>noise := 0, line := None, written := written s @ [stamp_l s @ l @ [0x0a]]\<rparr>)"

text \<open>One byte of the input; \<open>st\<close> is what \<open>stamp\<close> prints at that moment.\<close>

definition forward_byte :: "bytes \<Rightarrow> byte \<Rightarrow> logger \<Rightarrow> logger" where
  "forward_byte st c s =
     (let s1 = (case line s of None \<Rightarrow> s\<lparr>stamp_l := st, line := Some []\<rparr> | Some _ \<Rightarrow> s);
          l = the (line s1); l1 = (if c = 0x0a then l else l @ [c])
      in if c \<noteq> 0x0a \<and> length (stamp_l s1) + length l1 < LINE_MAX - 1 then s1\<lparr>line := Some l1\<rparr> else end_line s1 l1)"

text \<open>What \<open>read\<close> delivers, piece by piece, each byte with the time it is handled at, up to the end of the input.\<close>

definition forward :: "(bytes \<times> byte) list list \<Rightarrow> logger \<Rightarrow> logger" where
  "forward pieces s =
     (let s1 = fold (fold (\<lambda>(st, c). forward_byte st c)) pieces s
      in case line s1 of None \<Rightarrow> s1 | Some l \<Rightarrow> s1\<lparr>line := None, written := written s1 @ [stamp_l s1 @ l @ [0x0a]]\<rparr>)"

definition logger0 :: logger where
  "logger0 = \<lparr>stamp_l = [], line = None, noise = 0, written = []\<rparr>"

text \<open>A line that is none of the noise, with the stamp of its first byte.\<close>

definition ordinary :: "bytes \<Rightarrow> bool" where
  "ordinary l \<longleftrightarrow> l \<notin> set idme_noise \<and> \<not> dha_noise l"

text \<open>The bytes of a line: \<open>st\<close> at its first, anything later.\<close>

definition line_bytes :: "bytes \<Rightarrow> bytes \<Rightarrow> bytes list \<Rightarrow> (bytes \<times> byte) list" where
  "line_bytes st l sts = zip (st # sts) (l @ [0x0a])"

lemma forward_rest:
  "line s = Some a \<Longrightarrow> 0x0a \<notin> set l \<Longrightarrow> length sts = length l + 1 \<Longrightarrow>
   length (stamp_l s) + length a + length l < LINE_MAX - 1 \<Longrightarrow>
   fold (\<lambda>(st, c). forward_byte st c) (zip sts (l @ [0x0a])) s = end_line (s\<lparr>line := Some (a @ l)\<rparr>) (a @ l)"
proof (induction l arbitrary: a sts s)
  case Nil
  then obtain st where "sts = [st]" by (auto simp: length_Suc_conv)
  with Nil show ?case by (auto simp: forward_byte_def end_line_def)
next
  case (Cons c l)
  then obtain st sts' where sts: "sts = st # sts'" by (cases sts) auto
  have "forward_byte st c s = s\<lparr>line := Some (a @ [c])\<rparr>" using Cons.prems by (simp add: forward_byte_def)
  with Cons.prems sts Cons.IH [of "s\<lparr>line := Some (a @ [c])\<rparr>" "a @ [c]" sts'] show ?case by simp
qed

lemma end_line_line [simp]: "end_line (s\<lparr>line := x\<rparr>) l = end_line s l"
  by (simp add: end_line_def)

lemma forward_line:
  assumes "line s = None" "0x0a \<notin> set l" "length sts = length l" "length st + length l < LINE_MAX - 1"
  shows "fold (\<lambda>(st, c). forward_byte st c) (line_bytes st l sts) s = end_line (s\<lparr>stamp_l := st\<rparr>) l"
proof (cases l)
  case Nil
  with assms show ?thesis by (simp add: line_bytes_def forward_byte_def)
next
  case (Cons c l')
  have "forward_byte st c s = s\<lparr>stamp_l := st, line := Some [c]\<rparr>" using assms Cons by (simp add: forward_byte_def)
  with assms Cons forward_rest [of "s\<lparr>stamp_l := st, line := Some [c]\<rparr>" "[c]" l' sts] show ?thesis
    by (simp add: line_bytes_def)
qed

lemma noise_end_line: "noise s < 3 \<Longrightarrow> noise (end_line s l) < 3 \<and> line (end_line s l) = None"
  by (simp add: end_line_def)

lemma idme_noise_nth: "n < 3 \<Longrightarrow> idme_noise ! n \<in> set idme_noise"
  by (rule nth_mem) (simp add: idme_noise_def)

lemma end_line_cases:
  assumes "noise s < 3" "0 \<notin> set l"
  shows "written (end_line s l) = written s \<and> \<not> ordinary l \<or> written (end_line s l) = written s @ [stamp_l s @ l @ [0x0a]]"
proof (cases "l = idme_noise ! noise s")
  case True
  then have "\<not> ordinary l" using idme_noise_nth [OF assms(1)] by (simp add: ordinary_def)
  with True show ?thesis by (simp add: end_line_def cstr_id [OF assms(2)])
next
  case False
  then show ?thesis by (simp add: end_line_def ordinary_def cstr_id [OF assms(2)])
qed

type_synonym entry = "bytes \<times> bytes \<times> bytes list"

definition entry_ok :: "entry \<Rightarrow> bool" where
  "entry_ok = (\<lambda>(st, l, sts). 0x0a \<notin> set l \<and> 0 \<notin> set l \<and> length sts = length l \<and> length st + length l < LINE_MAX - 1)"

definition entry_in :: "entry \<Rightarrow> (bytes \<times> byte) list" where
  "entry_in = (\<lambda>(st, l, sts). line_bytes st l sts)"

definition entry_out :: "entry \<Rightarrow> bytes" where
  "entry_out = (\<lambda>(st, l, sts). st @ l @ [0x0a])"

lemma forward_lines:
  "\<forall>e\<in>set es. entry_ok e \<Longrightarrow> line s = None \<Longrightarrow> noise s < 3 \<Longrightarrow>
   \<exists>ks. written (fold (\<lambda>(st, c). forward_byte st c) (concat (map entry_in es)) s) = written s @ map entry_out ks \<and>
     line (fold (\<lambda>(st, c). forward_byte st c) (concat (map entry_in es)) s) = None \<and>
     subseq ks es \<and> filter (\<lambda>(st, l, sts). ordinary l) ks = filter (\<lambda>(st, l, sts). ordinary l) es"
proof (induction es arbitrary: s)
  case Nil
  then show ?case by auto
next
  case (Cons e es)
  obtain st l sts where e: "e = (st, l, sts)" by (cases e)
  let ?s = "end_line (s\<lparr>stamp_l := st\<rparr>) l"
  have step: "fold (\<lambda>(st, c). forward_byte st c) (entry_in e) s = ?s"
    using forward_line [of s l sts st] Cons.prems by (simp add: e entry_in_def entry_ok_def)
  have "noise ?s < 3 \<and> line ?s = None" using noise_end_line [of "s\<lparr>stamp_l := st\<rparr>" l] Cons.prems(3) by simp
  with Cons.IH [of ?s] Cons.prems(1) obtain ks where ks:
    "written (fold (\<lambda>(st, c). forward_byte st c) (concat (map entry_in es)) ?s) = written ?s @ map entry_out ks"
    "line (fold (\<lambda>(st, c). forward_byte st c) (concat (map entry_in es)) ?s) = None"
    "subseq ks es" "filter (\<lambda>(st, l, sts). ordinary l) ks = filter (\<lambda>(st, l, sts). ordinary l) es" by auto
  have "written ?s = written s \<and> \<not> ordinary l \<or> written ?s = written s @ [entry_out e]"
    using end_line_cases [of "s\<lparr>stamp_l := st\<rparr>" l] Cons.prems by (auto simp: e entry_out_def entry_ok_def)
  then show ?case
  proof
    assume "written ?s = written s \<and> \<not> ordinary l"
    with ks step e show ?thesis by (intro exI [of _ ks]) auto
  next
    assume "written ?s = written s @ [entry_out e]"
    with ks step show ?thesis by (intro exI [of _ "e # ks"]) auto
  qed
qed

lemma fold_pieces: "fold (fold f) xss s = fold f (concat xss) s"
  by (induction xss arbitrary: s) simp_all

section \<open>Theorems\<close>

text \<open>
  C38. Of the zones in the file whose rule is the one asked for, the lookup returns the zone already set if it is one
  of them, else the first of the lowest rank, and nothing only if there is none (or its name does not fit).
\<close>

theorem tz_lookup_best:
  "tz_lookup file posix cur cap = (case file of None \<Rightarrow> None
     | Some f \<Rightarrow> (case read_header f of None \<Rightarrow> None
         | Some h \<Rightarrow>
             (case best_zone (zone_tab f (h_zt h)) cur (zones_with f h posix ((h_data h - h_idx h) div ENTRY_LEN) (h_idx h)) of
                None \<Rightarrow> None
              | Some z \<Rightarrow> if length z < cap then Some z else None)))"
  by (simp add: tz_lookup_def tz_loop_pick pick_best_zone not_less split: option.split)

text \<open>
  The log, cut into pieces by \<open>read\<close> anywhere: of the lines that were printed, each shorter than the line buffer, every
  one that is not known noise is written once, whole, with the stamp of the moment it began, in order; and nothing else is written
  but lines that were printed.
\<close>

theorem log_keeps_lines:
  assumes "\<forall>e\<in>set es. entry_ok e" "concat pieces = concat (map entry_in es)"
  shows "\<exists>ks. written (forward pieces logger0) = map entry_out ks \<and> subseq ks es \<and>
     filter (\<lambda>(st, l, sts). ordinary l) ks = filter (\<lambda>(st, l, sts). ordinary l) es"
  using forward_lines [OF assms(1), of logger0] by (auto simp: forward_def fold_pieces assms(2) logger0_def Let_def)

theorem log_keeps_lines_witness:
  "\<exists>ks. written (forward [[(ascii ''1 '', 0x61)], [(ascii ''2 '', 0x0a)]] logger0) = map entry_out ks \<and>
     subseq ks [(ascii ''1 '', [0x61], [ascii ''2 ''])] \<and>
     filter (\<lambda>(st, l, sts). ordinary l) ks = filter (\<lambda>(st, l, sts). ordinary l) [(ascii ''1 '', [0x61], [ascii ''2 ''])]"
  by (rule log_keeps_lines) (simp_all add: entry_ok_def LINE_MAX_def entry_in_def line_bytes_def)

text \<open>
  What root reads as the time zone when the Echo's data has none with the rule is the rule itself: one line of at most 91
  letters, digits and signs, which begins with a letter or an angle bracket and has no two dots after another.
\<close>

theorem zone_word_is_safe:
  assumes "tz_first posix cur files = None" "zone_file (clock_zone_from_ha posix cur files wrote s) \<noteq> zone_file s"
  shows "zone_file (clock_zone_from_ha posix cur files wrote s) = Some (posix @ [0x0a]) \<and> length posix \<le> 91 \<and>
    set posix \<subseteq> set tz_chars \<and> posix \<noteq> [] \<and> (hd posix = 0x3c \<or> letter (hd posix)) \<and> \<not> dots posix"
proof -
  have ok: "posix \<noteq> []" "\<not> tz_refused posix"
    using assms(2) by (auto simp: clock_zone_from_ha_def split: if_splits)
  then have len: "length posix \<le> 91" by (simp add: tz_refused_def)
  have "takeWhile (\<lambda>c. c \<in> set tz_chars) posix = posix"
    using ok(2) by (metis tz_refused_def takeWhile_eq_take take_all order_refl)
  then have "set posix \<subseteq> set tz_chars" by (metis set_takeWhileD subsetI)
  then show ?thesis
    using assms ok len by (auto simp: clock_zone_from_ha_def tz_refused_def fit_id hd_conv_nth Let_def split: if_splits)
qed

theorem zone_word_is_safe_witness:
  "zone_file (clock_zone_from_ha (ascii ''UTC0'') (ascii ''GMT'') [None] True \<lparr>clock_file = None, zone_file = None, told = []\<rparr>)
    = Some (ascii ''UTC0'' @ [0x0a])"
proof -
  let ?s = "\<lparr>clock_file = None, zone_file = None, told = []\<rparr>"
  have "tz_first (ascii ''UTC0'') (ascii ''GMT'') [None] = None" by (simp add: tz_lookup_def)
  moreover have "zone_file (clock_zone_from_ha (ascii ''UTC0'') (ascii ''GMT'') [None] True ?s) \<noteq> zone_file ?s" by code_simp
  ultimately show ?thesis using zone_word_is_safe [of "ascii ''UTC0''" "ascii ''GMT''" "[None]" True ?s] by blast
qed

end
