(* ===== verification/Session.thy ===== *)
theory Session
  imports Prelude
begin

text \<open>
  The assist session and the timers (\<^verbatim>\<open>main.c\<close>): the state under \<open>core_lock\<close> and every function that changes it, in the
  order of the file: pipeline states, the wake word and the button, mute, stopping, the playback queue, timers and
  their ring.  What the core asks of the protocol, the light ring, the front end and the music players is
  recorded in \<open>outs\<close>, oldest first; the time and other parts' answers are arguments.  Left out: volumes and mixing, the
  captured audio itself (the ring buffer, gain, end of request), wake word models, log lines.
\<close>

section \<open>State\<close>

datatype state = IDLE | LISTENING | THINKING | SPEAKING

datatype sound = SND_WAKE | SND_TOUCH | SND_MICS_OFF | SND_MICS_ON | SND_VOLUME | SND_BT_ON | SND_BT_OFF | SND_IDENTIFY
  | SND_DROPIN | SND_CALL_ON | SND_CALL_OFF | SND_RING_IN | SND_RING_OUT

datatype dropin_state = DROPIN_IDLE | DROPIN_CALLING | DROPIN_RINGING | DROPIN_LIVE

datatype hook = H_stop | H_cancel | H_played | H_mute_changed | H_timers_changed | H_dropin_changed | H_wake | H_reply_cut

datatype out = P_start | P_audio nat | P_stop | P_cancel | P_end | P_played | P_reply_cut | P_wake string | P_mute_changed bool
  | P_timers_changed | P_dropin_changed dropin_state bytes
  | Led_set string | Led_unset string | Listening bool | Stream_stopped | Wake_property string bool | Wake_reset
  | Dropin_hangup | Music_stop | Sendspin_pause | A2dp_pause | A2dp_unyield
  | Play_sound sound | Ring_sound sound | Timer_sound
  | Play_open nat nat | Play_close bool | Play_write bytes | Write_adopted

record running =
  r_id :: bytes
  r_name :: bytes
  r_total :: nat
  r_active :: bool
  r_end :: int
  r_left :: int

record ringing =
  g_id :: bytes
  g_name :: bytes

datatype item = Q_START nat nat | Q_DATA bytes | Q_STOP

text \<open>What is fixed for a run of the program: where the wake word is heard, which hooks the protocol has.\<close>

record conf =
  core_local_wake :: bool
  hooks :: "hook set"
  no_earcons :: bool

record core =
  connected :: bool
  satellite_running :: bool
  link_paused :: bool
  oobe :: bool
  state :: state
  state_since :: int
  busy :: bool
  streaming :: bool
  flush_playback :: bool
  alarm_on :: bool
  tts_on :: bool
  music_on :: "nat set"
  soft_mute :: bool
  latch :: bool
  last_latch :: bool
  dnd :: bool
  use_earcon :: bool
  sounds_off :: "sound set"
  sounds_pending :: "sound set"
  barge_in :: bool
  barge_from :: nat
  replay_from :: nat
  replay_whole :: bool
  wake_in_request :: bool
  kw_begin :: nat
  kw_end :: nat
  mic_fresh :: bool
  run_over :: bool
  wake_wait :: bool
  wake_cut :: bool
  wake_fails :: nat
  run_wake :: bool
  quiet_abort :: bool
  wake_cut_ms :: int
  last_wake_ms :: int
  heard_ms :: int
  stop_ms :: int
  stop_cut :: bool
  stop_ends :: bool
  listen_pipe :: bool
  listen_call :: bool
  listen_is :: "bool option"
  afe_asked :: bool
  dropin_was :: dropin_state
  dropin_live :: bool
  dropin_ring :: "sound option"
  dropin_ring_at :: int
  music_stopped_ms :: int
  q :: "item list"
  q_open :: bool
  ringing :: "ringing list"
  timer_ring_s :: int
  timer_stop_any :: bool
  alarm_until :: "int option"
  running :: "running list"
  timers_stale_at :: "int option"
  outs :: "out list"

text \<open>\<open>alarm_until\<close>, \<open>timers_stale_at\<close>: \<open>None\<close> is \<open>LLONG_MAX\<close>.  \<open>latch\<close> is \<open>buttons_muted()\<close>.\<close>

text \<open>The two clocks: \<open>mono_ms()\<close> and \<open>time(NULL)\<close>.\<close>

record clk =
  ms :: int
  secs :: int

definition emit :: "out \<Rightarrow> core \<Rightarrow> core" where
  "emit x s = s\<lparr>outs := outs s @ [x]\<rparr>"

definition emits :: "out list \<Rightarrow> core \<Rightarrow> core" where
  "emits xs s = s\<lparr>outs := outs s @ xs\<rparr>"

definition doif :: "bool \<Rightarrow> (core \<Rightarrow> core) \<Rightarrow> core \<Rightarrow> core" where
  "doif b f s = (if b then f s else s)"

definition hook :: "conf \<Rightarrow> hook \<Rightarrow> out \<Rightarrow> core \<Rightarrow> core" where
  "hook C h x s = (if h \<in> hooks C then emit x s else s)"

section \<open>Sounds, ring, state\<close>

definition sound_queue :: "sound \<Rightarrow> core \<Rightarrow> core" where
  "sound_queue x s = s\<lparr>sounds_pending := insert x (sounds_pending s)\<rparr>"

definition sound_request :: "conf \<Rightarrow> sound \<Rightarrow> core \<Rightarrow> core" where
  "sound_request C x s = (if \<not> no_earcons C \<and> (if x = SND_WAKE then use_earcon s else x \<notin> sounds_off s) then sound_queue x s else s)"

definition drop_wake_sounds :: "core \<Rightarrow> core" where
  "drop_wake_sounds s = s\<lparr>sounds_pending := sounds_pending s - {SND_WAKE, SND_TOUCH}\<rparr>"

fun pattern :: "state \<Rightarrow> string option" where
  "pattern IDLE = None"
| "pattern LISTENING = Some ''active-start''"
| "pattern THINKING = Some ''active-thinking''"
| "pattern SPEAKING = Some ''active-talking''"

definition led_for :: "state \<Rightarrow> state \<Rightarrow> out list" where
  "led_for from to = (case pattern from of None \<Rightarrow> [] | Some p \<Rightarrow> [Led_unset p]) @
     (case pattern to of Some p \<Rightarrow> [Led_set p] | None \<Rightarrow> if from \<noteq> IDLE then [Led_set ''active-end''] else [])"

definition core_set_state :: "clk \<Rightarrow> state \<Rightarrow> core \<Rightarrow> core" where
  "core_set_state now x s = (if x = state s then s
     else (emits ((if state s = IDLE \<and> alarm_on s then [Led_set ''ready-timer-short''] else []) @ led_for (state s) x) s)
            \<lparr>state := x, state_since := secs now, busy := (x \<noteq> IDLE)\<rparr>)"

definition playback_hint :: "core \<Rightarrow> core" where
  "playback_hint s = emits [Wake_property ''AlarmState'' (alarm_on s), Wake_property ''AudioPlayerState'' (music_on s \<noteq> {}),
     Wake_property ''audio_playback'' (alarm_on s \<or> music_on s \<noteq> {} \<or> tts_on s)] s"

definition adopted :: "bool \<Rightarrow> core \<Rightarrow> core" where
  "adopted wrote s = (if \<not> oobe s then s
     else let s1 = emit Write_adopted s in if \<not> wrote then s1 else emit (Led_unset ''setup-mode'') (s1\<lparr>oobe := False\<rparr>))"

section \<open>Pipelines\<close>

definition afe_done :: "core \<Rightarrow> core" where
  "afe_done s = (if \<not> afe_asked s then s else emit Stream_stopped (s\<lparr>afe_asked := False\<rparr>))"

definition listening_apply :: "core \<Rightarrow> core" where
  "listening_apply s = (let on = listen_pipe s \<or> listen_call s
     in if listen_is s = Some on then s else emit (Listening on) (s\<lparr>listen_is := Some on\<rparr>))"

definition listening :: "bool \<Rightarrow> core \<Rightarrow> core" where
  "listening on s = listening_apply (s\<lparr>listen_pipe := on\<rparr>)"

text \<open>\<open>LEAD_IN_MS\<close> of silence at 16 kHz, in blocks of 1024 samples.\<close>

fun lead_in_loop :: "nat \<Rightarrow> out list" where
  "lead_in_loop left = (if left = 0 then [] else if left < 1024 then [P_audio left] else P_audio 1024 # lead_in_loop (left - 1024))"

declare lead_in_loop.simps [simp del]

definition lead_in :: "core \<Rightarrow> core" where
  "lead_in s = emits (lead_in_loop (800 * 16000 div 1000)) s"

definition pipeline_start :: "conf \<Rightarrow> clk \<Rightarrow> nat \<Rightarrow> core \<Rightarrow> core" where
  "pipeline_start C now from s =
     (let s1 = emit P_start (s\<lparr>run_over := False, wake_wait := False, quiet_abort := False, mic_fresh := True, replay_from := from,
                 replay_whole := (wake_in_request s \<and> from \<noteq> 0 \<and> from = kw_end s \<and> kw_begin s < kw_end s),
                 run_wake := (from \<noteq> 0)\<rparr>);
          s2 = s1\<lparr>streaming := True\<rparr>;
          s3 = listening (core_local_wake C) (doif (core_local_wake C) lead_in s2)
      in doif (core_local_wake C) (core_set_state now LISTENING) s3)"

definition core_muted :: "core \<Rightarrow> bool" where
  "core_muted s \<longleftrightarrow> soft_mute s \<or> latch s"

definition wake_told :: "conf \<Rightarrow> string \<Rightarrow> core \<Rightarrow> core" where
  "wake_told C e s = (if connected s \<and> \<not> core_muted s then hook C H_wake (P_wake e) s else s)"

definition core_remote_wake :: "conf \<Rightarrow> clk \<Rightarrow> core \<Rightarrow> core" where
  "core_remote_wake C now s = (if core_local_wake C \<or> \<not> streaming s then s
     else let s1 = (if state s = SPEAKING
                    then hook C H_reply_cut P_reply_cut (s\<lparr>wake_cut_ms := ms now, wake_cut := True, wake_wait := False, barge_in := False,
                            barge_from := 0, flush_playback := True\<rparr>)
                    else s)
          in core_set_state now LISTENING (listening True (sound_request C SND_WAKE (wake_told C ''detected'' (s1\<lparr>run_wake := True\<rparr>)))))"

definition WAKE_FAILS_MAX :: nat where "WAKE_FAILS_MAX = 3"

definition wake_listen :: "conf \<Rightarrow> clk \<Rightarrow> core \<Rightarrow> core" where
  "wake_listen C now s = (if core_local_wake C \<or> \<not> run_over s \<or> state s \<noteq> SPEAKING \<or> streaming s \<or> flush_playback s \<or>
       wake_fails s \<ge> WAKE_FAILS_MAX \<or> \<not> connected s \<or> \<not> satellite_running s then s
     else (pipeline_start C now 0 s)\<lparr>wake_wait := True\<rparr>)"

text \<open>\<open>mic_stopped\<close>, without the log lines about the end of the request and the noise reduction.\<close>

definition mic_stopped :: "core \<Rightarrow> core" where
  "mic_stopped s = afe_done (listening False s)"

definition core_wake_run_ended :: "bool \<Rightarrow> core \<Rightarrow> core \<times> bool" where
  "core_wake_run_ended failed s = (if \<not> wake_wait s \<or> state s \<noteq> SPEAKING then (s, False)
     else let s1 = (mic_stopped (s\<lparr>streaming := False\<rparr>))\<lparr>wake_wait := False\<rparr>
          in (if failed then s1\<lparr>wake_fails := wake_fails s1 + 1\<rparr> else s1, True))"

definition core_run_over :: "conf \<Rightarrow> clk \<Rightarrow> core \<Rightarrow> core" where
  "core_run_over C now s = wake_listen C now (s\<lparr>run_over := True\<rparr>)"

definition core_mic_off :: "core \<Rightarrow> core" where
  "core_mic_off s = mic_stopped (s\<lparr>streaming := False\<rparr>)"

definition heard_end :: "conf \<Rightarrow> clk \<Rightarrow> core \<Rightarrow> core" where
  "heard_end C now s = (let s1 = core_mic_off (emit P_end s)
     in doif (state s1 = LISTENING) (core_set_state now THINKING) s1)"

definition core_restart_after :: "core \<Rightarrow> core" where
  "core_restart_after s = s\<lparr>barge_in := True, barge_from := 0\<rparr>"

definition core_pipeline_finish :: "conf \<Rightarrow> clk \<Rightarrow> core \<Rightarrow> core" where
  "core_pipeline_finish C now s =
     (let s1 = s\<lparr>wake_fails := 0, streaming := False\<rparr>;
          s2 = (if streaming s \<and> connected s
                then (if wake_wait s \<and> H_cancel \<in> hooks C then emit P_cancel s1 else hook C H_stop P_stop s1) else s1);
          s3 = core_set_state now IDLE (mic_stopped s2);
          s4 = doif (ms now - last_wake_ms s3 > 3000) (emit Wake_reset) s3;
          s5 = doif (\<not> connected s4) (\<lambda>s. s\<lparr>barge_in := False\<rparr>) s4
      in if (barge_in s5 \<or> \<not> core_local_wake C) \<and> satellite_running s5 \<and> connected s5
         then let s6 = doif (barge_in s5) (sound_request C SND_WAKE) s5;
                  from = (if barge_in s5 then barge_from s5 else 0)
              in pipeline_start C now from (s6\<lparr>barge_in := False, barge_from := 0\<rparr>)
         else s5)"

definition core_link :: "conf \<Rightarrow> clk \<Rightarrow> bool \<Rightarrow> bool \<Rightarrow> bool \<Rightarrow> core \<Rightarrow> core" where
  "core_link C now up ready wrote s =
     (let s1 = s\<lparr>connected := up, satellite_running := (up \<and> ready), link_paused := False\<rparr>;
          s2 = doif (satellite_running s1) (adopted wrote) s1
      in if \<not> satellite_running s2 then core_pipeline_finish C now s2
         else if \<not> satellite_running s \<and> \<not> core_local_wake C \<and> state s2 = IDLE then pipeline_start C now 0 s2 else s2)"

definition core_link_pause :: "conf \<Rightarrow> clk \<Rightarrow> core \<Rightarrow> core" where
  "core_link_pause C now s = (core_link C now True False False s)\<lparr>link_paused := True\<rparr>"

definition core_error :: "conf \<Rightarrow> clk \<Rightarrow> core \<Rightarrow> core" where
  "core_error C now s = (if quiet_abort s then s\<lparr>quiet_abort := False\<rparr>
     else if state s \<noteq> SPEAKING then core_pipeline_finish C now (emit (Led_set ''anim_start_error_short'') s) else s)"

definition core_no_speech :: "conf \<Rightarrow> clk \<Rightarrow> core \<Rightarrow> core" where
  "core_no_speech C now s = (if quiet_abort s then s\<lparr>quiet_abort := False\<rparr>
     else let s1 = doif (run_wake s) (wake_told C ''no_speech'') s
          in doif (state s1 \<noteq> SPEAKING) (core_pipeline_finish C now) s1)"

definition quiet_cancel :: "conf \<Rightarrow> clk \<Rightarrow> core \<Rightarrow> core" where
  "quiet_cancel C now s =
     (core_pipeline_finish C now (emit P_cancel (s\<lparr>barge_in := False, streaming := False\<rparr>)))\<lparr>quiet_abort := True\<rparr>"

section \<open>Mute\<close>

definition mute_update :: "conf \<Rightarrow> clk \<Rightarrow> bool \<Rightarrow> bool \<Rightarrow> core \<Rightarrow> core" where
  "mute_update C now was sound s = (let m = core_muted s
     in if m = was then s
        else let s1 = doif sound (sound_request C (if m then SND_MICS_OFF else SND_MICS_ON)) s;
                 s2 = (if m then emit (Led_set ''mics-off_on'') (doif (state s1 = LISTENING) (core_pipeline_finish C now) s1)
                       else emits [Led_unset ''mics-off_on'', Led_set ''mics-off_end''] s1)
             in doif (connected s2) (hook C H_mute_changed (P_mute_changed m)) s2)"

definition core_soft_mute :: "conf \<Rightarrow> clk \<Rightarrow> bool \<Rightarrow> core \<Rightarrow> core" where
  "core_soft_mute C now x s = (if x = soft_mute s then s
     else let s1 = mute_update C now (core_muted s) (satellite_running s) (s\<lparr>soft_mute := x\<rparr>)
          in doif (\<not> x \<and> latch s1 \<and> connected s1) (hook C H_mute_changed (P_mute_changed True)) s1)"

text \<open>The button's latch changed: \<open>buttons.c\<close> knows it already when it calls.\<close>

definition mute_latch :: "conf \<Rightarrow> clk \<Rightarrow> bool \<Rightarrow> bool \<Rightarrow> core \<Rightarrow> core" where
  "mute_latch C now muted sound s =
     (let was = (last_latch s \<or> soft_mute s); s1 = s\<lparr>latch := muted, last_latch := muted\<rparr>
      in mute_update C now was sound (doif (\<not> muted) (\<lambda>s. s\<lparr>soft_mute := False\<rparr>) s1))"

section \<open>Timers\<close>

definition RINGING_MAX :: nat where "RINGING_MAX = 4"
definition RUNNING_MAX :: nat where "RUNNING_MAX = 8"
definition TIMER_STALE_MS :: int where "TIMER_STALE_MS = 10000"

definition drop_nth :: "nat \<Rightarrow> 'a list \<Rightarrow> 'a list" where
  "drop_nth i xs = take i xs @ drop (Suc i) xs"

definition index_of :: "('a \<Rightarrow> bool) \<Rightarrow> 'a list \<Rightarrow> nat option" where
  "index_of P xs = (let i = length (takeWhile (\<lambda>x. \<not> P x) xs) in if i < length xs then Some i else None)"

definition running_drop :: "nat \<Rightarrow> core \<Rightarrow> core" where
  "running_drop i s = s\<lparr>running := drop_nth i (running s)\<rparr>"

definition running_find :: "bytes \<Rightarrow> core \<Rightarrow> nat option" where
  "running_find i s = index_of (\<lambda>r. r_id r = i) (running s)"

fun stale_min :: "running list \<Rightarrow> int option \<Rightarrow> int option" where
  "stale_min [] best = best"
| "stale_min (r # rs) best = stale_min rs
     (if r_active r \<and> (case best of None \<Rightarrow> True | Some t \<Rightarrow> r_end r + TIMER_STALE_MS < t) then Some (r_end r + TIMER_STALE_MS) else best)"

definition running_stale_at :: "core \<Rightarrow> core" where
  "running_stale_at s = s\<lparr>timers_stale_at := stale_min (running s) None\<rparr>"

definition timers_told :: "conf \<Rightarrow> core \<Rightarrow> core" where
  "timers_told C s = doif (connected s) (hook C H_timers_changed P_timers_changed) s"

definition core_timer_running :: "conf \<Rightarrow> clk \<Rightarrow> bytes \<Rightarrow> bytes \<Rightarrow> nat \<Rightarrow> nat \<Rightarrow> bool \<Rightarrow> core \<Rightarrow> core" where
  "core_timer_running C now i name tot lef active s =
     (let mk = (\<lambda>k. \<lparr>r_id = k, r_name = fit 64 name, r_total = tot, r_active = active, r_end = ms now + int lef * 1000,
                    r_left = int lef * 1000\<rparr>);
          s1 = (case running_find i s of
                  Some k \<Rightarrow> s\<lparr>running := (running s)[k := mk (r_id (running s ! k))]\<rparr>
                | None \<Rightarrow>
                    (let s2 = (if length (running s) = RUNNING_MAX
                               then running_drop (case index_of (\<lambda>r. \<not> r_active r) (running s) of Some k \<Rightarrow> k | None \<Rightarrow> 0) s else s)
                     in s2\<lparr>running := running s2 @ [mk (fit 40 i)]\<rparr>))
      in timers_told C (running_stale_at s1))"

fun next_best :: "running list \<Rightarrow> running option \<Rightarrow> running option" where
  "next_best [] best = best"
| "next_best (r # rs) best =
     next_best rs (if r_active r \<and> (case best of None \<Rightarrow> True | Some b \<Rightarrow> r_end r < r_end b) then Some r else best)"

definition core_timer_next :: "int \<Rightarrow> core \<Rightarrow> (bytes \<times> nat \<times> int) option" where
  "core_timer_next now s = (case next_best (running s) None of None \<Rightarrow> None
     | Some b \<Rightarrow> Some (r_name b, r_total b, if r_end b > now then r_end b - now else 0))"

definition timers_prune :: "conf \<Rightarrow> clk \<Rightarrow> core \<Rightarrow> core" where
  "timers_prune C now s =
     (let stale = (\<lambda>r. r_active r \<and> r_end r + TIMER_STALE_MS \<le> ms now);
          s1 = running_stale_at (s\<lparr>running := filter (\<lambda>r. \<not> stale r) (running s)\<rparr>)
      in doif (\<exists>r\<in>set (running s). stale r) (timers_told C) s1)"

definition alarm_set :: "bool \<Rightarrow> core \<Rightarrow> core" where
  "alarm_set on s = (if alarm_on s = on then s
     else playback_hint (emit (if on then Led_set ''ready-timer'' else Led_unset ''ready-timer'') (s\<lparr>alarm_on := on\<rparr>)))"

text \<open>A timer without a name is called by its length.\<close>

definition timer_name :: "bytes \<Rightarrow> nat \<Rightarrow> bytes" where
  "timer_name name t = (let h = t div 3600; m = t mod 3600 div 60
     in if name \<noteq> [] then fit 64 name
        else if t mod 60 \<noteq> 0 \<or> t = 0 then dec_digits t @ ascii '' s''
        else if h \<noteq> 0 \<and> m \<noteq> 0 then dec_digits h @ ascii '' h '' @ dec_digits m @ ascii '' min''
        else if h \<noteq> 0 then dec_digits h @ ascii '' h''
        else dec_digits m @ ascii '' min'')"

definition core_timer_finished :: "conf \<Rightarrow> clk \<Rightarrow> bytes \<Rightarrow> bytes \<Rightarrow> nat \<Rightarrow> core \<Rightarrow> core" where
  "core_timer_finished C now i name t s =
     (let s1 = (case running_find i s of Some k \<Rightarrow> running_stale_at (running_drop k s) | None \<Rightarrow> s);
          g = \<lparr>g_id = fit 40 i, g_name = timer_name name t\<rparr>;
          rs = (case index_of (\<lambda>x. g_id x = i) (ringing s1) of
                  Some k \<Rightarrow> (ringing s1)[k := g]
                | None \<Rightarrow> (if length (ringing s1) = RINGING_MAX then tl (ringing s1) else ringing s1) @ [g]);
          s2 = s1\<lparr>ringing := rs, alarm_until := (if timer_ring_s s1 \<noteq> 0 then Some (ms now + timer_ring_s s1 * 1000) else None)\<rparr>
      in timers_told C (alarm_set True s2))"

definition core_timer_cancelled :: "conf \<Rightarrow> bytes \<Rightarrow> core \<Rightarrow> core" where
  "core_timer_cancelled C i s =
     (let s1 = (case running_find i s of Some k \<Rightarrow> timers_told C (running_stale_at (running_drop k s)) | None \<Rightarrow> s)
      in case index_of (\<lambda>x. g_id x = i) (ringing s1) of
           None \<Rightarrow> s1
         | Some k \<Rightarrow> (let s2 = s1\<lparr>ringing := drop_nth k (ringing s1)\<rparr>
                     in timers_told C (doif (ringing s2 = []) (alarm_set False) s2)))"

definition core_alarm_stop :: "conf \<Rightarrow> core \<Rightarrow> core" where
  "core_alarm_stop C s = (if \<not> alarm_on s then s else timers_told C (alarm_set False (s\<lparr>ringing := []\<rparr>)))"

text \<open>The names of what rings, for a state: cut to \<open>cap\<close>.\<close>

definition core_timers_ringing :: "nat \<Rightarrow> core \<Rightarrow> bytes \<times> nat" where
  "core_timers_ringing cap s =
     (fit cap (concat (map (\<lambda>(k, g). (if k = 0 then [] else ascii '', '') @ g_name g) (enumerate 0 (ringing s)))), length (ringing s))"

text \<open>
  A round of the earcon thread: timers Home Assistant forgot, the sounds asked for in their order, a Drop In's ring, which comes before
  a timer's, a ring whose time is over, the timer's sound.  \<open>there\<close>: the image has the sound; a blip stands in for three.
  The settings page's preview is left out.
\<close>

definition sounds :: "sound list" where
  "sounds = [SND_WAKE, SND_TOUCH, SND_MICS_OFF, SND_MICS_ON, SND_VOLUME, SND_BT_ON, SND_BT_OFF, SND_IDENTIFY, SND_DROPIN, SND_CALL_ON,
     SND_CALL_OFF, SND_RING_IN, SND_RING_OUT]"

definition play_pending :: "(sound \<Rightarrow> bool) \<Rightarrow> core \<Rightarrow> core" where
  "play_pending there s = emits (map Play_sound (filter (\<lambda>x. x \<in> sounds_pending s \<and> (there x \<or> x \<in> {SND_WAKE, SND_TOUCH, SND_IDENTIFY})) sounds))
     (s\<lparr>sounds_pending := {}\<rparr>)"

definition rings_now :: "(sound \<Rightarrow> bool) \<Rightarrow> clk \<Rightarrow> core \<Rightarrow> bool" where
  "rings_now there now s = (case dropin_ring s of None \<Rightarrow> False | Some r \<Rightarrow> dropin_ring_at s \<le> ms now \<and> there r)"

definition earcon_round :: "conf \<Rightarrow> clk \<Rightarrow> (sound \<Rightarrow> bool) \<Rightarrow> core \<Rightarrow> core" where
  "earcon_round C now there s =
     (let s1 = doif (case timers_stale_at s of None \<Rightarrow> False | Some t \<Rightarrow> ms now > t) (timers_prune C now) s;
          s2 = play_pending there s1
      in if rings_now there now s2 then emit (Ring_sound (the (dropin_ring s2))) s2
         else if \<not> alarm_on s2 then s2
         else if (case alarm_until s2 of None \<Rightarrow> False | Some t \<Rightarrow> ms now > t) then core_alarm_stop C s2
         else doif (\<not> busy s2) (emit Timer_sound) s2)"

definition alarm_go :: "clk \<Rightarrow> core \<Rightarrow> bool" where
  "alarm_go now s \<longleftrightarrow> alarm_on s \<and> (case alarm_until s of None \<Rightarrow> True | Some t \<Rightarrow> ms now \<le> t) \<and> \<not> busy s \<and> sounds_pending s = {} \<and>
     dropin_ring s = None"

section \<open>The wake word, the button, ``stop''\<close>

definition stop_heard :: "core \<Rightarrow> bool" where
  "stop_heard s \<longleftrightarrow> heard_ms s \<noteq> 0 \<and> stop_ms s \<ge> heard_ms s \<and> stop_ms s - heard_ms s < 4000"

definition stopped_now :: "core \<Rightarrow> bool" where
  "stopped_now s \<longleftrightarrow> stop_heard s \<and> (stop_cut s \<or> stop_ends s)"

definition error_shows :: "core \<Rightarrow> bool" where
  "error_shows s \<longleftrightarrow> \<not> core_muted s \<and> \<not> link_paused s \<and> \<not> oobe s \<and> state s = IDLE \<and> \<not> alarm_on s \<and> dropin_was s = DROPIN_IDLE"

definition trigger :: "conf \<Rightarrow> clk \<Rightarrow> bool \<Rightarrow> nat \<Rightarrow> core \<Rightarrow> core" where
  "trigger C now touch from s =
     (if touch \<and> alarm_on s then (core_alarm_stop C s)\<lparr>wake_cut_ms := ms now\<rparr>
      else if (state s = THINKING \<or> touch \<and> state s = LISTENING) \<and> connected s \<and> H_cancel \<in> hooks C
      then (let s1 = quiet_cancel C now s
            in if \<not> touch \<and> stopped_now s1 then s1
               else if \<not> touch \<and> state s1 = IDLE \<and> satellite_running s1 \<and> \<not> core_muted s1
               then pipeline_start C now from (sound_request C SND_WAKE (s1\<lparr>wake_cut_ms := ms now\<rparr>))
               else s1)
      else if \<not> connected s \<or> \<not> satellite_running s \<or> core_muted s
      then doif (error_shows s) (emit (Led_set ''anim_start_error_short'')) s
      else if state s = IDLE \<and> \<not> touch \<and> stopped_now s then s
      else if state s = IDLE
      then (let s1 = doif (alarm_on s \<or> dropin_was s \<noteq> DROPIN_IDLE) (\<lambda>s. s\<lparr>wake_cut_ms := ms now\<rparr>) s
            in pipeline_start C now (if touch then 0 else from) (sound_request C (if touch then SND_TOUCH else SND_WAKE) s1))
      else if state s = SPEAKING \<and> \<not> touch \<and> stopped_now s then s\<lparr>barge_in := False, flush_playback := True\<rparr>
      else if state s = SPEAKING \<and> \<not> flush_playback s
      then s\<lparr>wake_cut_ms := ms now, barge_in := True, barge_from := from, flush_playback := True\<rparr>
      else s)"

text \<open>The wake engine's report (\<open>on_wake\<close>): what is noted before the arbitration round or \<open>trigger\<close>.\<close>

definition wake_noted :: "conf \<Rightarrow> clk \<Rightarrow> nat \<Rightarrow> nat \<Rightarrow> core \<Rightarrow> core" where
  "wake_noted C now b e s =
     (wake_told C ''detected'' s)\<lparr>last_wake_ms := ms now, heard_ms := ms now, kw_begin := b, kw_end := e\<rparr>"

text \<open>\<open>paused\<close>: the players said that something played.\<close>

definition music_stop :: "clk \<Rightarrow> bool \<Rightarrow> core \<Rightarrow> core" where
  "music_stop now paused s = (let s1 = emit Music_stop s in if paused then s1\<lparr>music_stopped_ms := ms now\<rparr> else s1)"

definition stop_word :: "conf \<Rightarrow> clk \<Rightarrow> bool \<Rightarrow> bool \<Rightarrow> core \<Rightarrow> core" where
  "stop_word C now in_call paused s0 =
     (let s1 = (doif in_call (emit Dropin_hangup) s0)\<lparr>stop_ms := ms now\<rparr>;
          ended = (in_call \<or> alarm_on s1);
          s2 = doif (alarm_on s1) (core_alarm_stop C) s1;
          s3 = s2\<lparr>stop_cut := (ended \<or> state s2 = SPEAKING \<or> state s2 = THINKING)\<rparr>
      in if state s3 = SPEAKING then (drop_wake_sounds s3)\<lparr>barge_in := False, flush_playback := True\<rparr>
         else if state s3 = LISTENING \<and> ms now - wake_cut_ms s3 < 4000
         then (let s4 = drop_wake_sounds (s3\<lparr>stop_cut := True\<rparr>)
               in if connected s4 \<and> H_cancel \<in> hooks C then quiet_cancel C now s4
                  else (core_pipeline_finish C now (s4\<lparr>barge_in := False\<rparr>))\<lparr>quiet_abort := True\<rparr>)
         else (let quiet = (state s3 = LISTENING \<and> stop_ends s3 \<and> stop_heard s3 \<and> connected s3 \<and> H_cancel \<in> hooks C);
                   s4 = doif (\<not> ended \<and> music_on s3 \<noteq> {}) (music_stop now paused) s3
               in if quiet then quiet_cancel C now (drop_wake_sounds s4) else s4))"

definition pipeline_timeout :: "conf \<Rightarrow> clk \<Rightarrow> core \<Rightarrow> core" where
  "pipeline_timeout C now s =
     doif (core_local_wake C \<and> (state s = LISTENING \<or> state s = THINKING) \<and> secs now - state_since s > 30) (core_pipeline_finish C now) s"

section \<open>The playback queue\<close>

definition q_push :: "item \<Rightarrow> core \<Rightarrow> core" where
  "q_push x s = s\<lparr>q := q s @ [x]\<rparr>"

definition core_tts_begin :: "conf \<Rightarrow> clk \<Rightarrow> nat \<Rightarrow> nat \<Rightarrow> core \<Rightarrow> core" where
  "core_tts_begin C now rate ch s =
     (let s1 = doif (\<not> wake_wait s) core_mic_off s
      in wake_listen C now (q_push (Q_START rate ch) (core_set_state now SPEAKING s1)))"

definition core_tts_data :: "bytes \<Rightarrow> core \<Rightarrow> core" where
  "core_tts_data b s = (if flush_playback s then s else q_push (Q_DATA b) s)"

definition core_tts_end :: "core \<Rightarrow> core" where
  "core_tts_end s = q_push Q_STOP s"

definition core_tts_abandoned :: "core \<Rightarrow> core" where
  "core_tts_abandoned s = s\<lparr>wake_cut := False\<rparr>"

definition core_tts_flush :: "core \<Rightarrow> core" where
  "core_tts_flush s = s\<lparr>flush_playback := True\<rparr>"

text \<open>One item of the playback thread; \<open>ok\<close>: the device opened, or took the data.\<close>

definition play_item :: "conf \<Rightarrow> clk \<Rightarrow> bool \<Rightarrow> item \<Rightarrow> core \<Rightarrow> core" where
  "play_item C now ok x s =
     (if flush_playback s \<and> x \<noteq> Q_STOP then doif (q_open s) (\<lambda>s. emit (Play_close False) (s\<lparr>q_open := False\<rparr>)) s
      else case x of
          Q_START rate ch \<Rightarrow>
            (let s1 = emit (Play_open rate ch) (doif (q_open s) (emit (Play_close True)) s); s2 = s1\<lparr>q_open := ok\<rparr>
             in doif ok (\<lambda>s. playback_hint (s\<lparr>tts_on := True\<rparr>)) s2)
        | Q_DATA b \<Rightarrow>
            (if \<not> q_open s then s
             else let s1 = emit (Play_write b) s in if ok then s1 else emit (Play_close False) (s1\<lparr>q_open := False\<rparr>))
        | Q_STOP \<Rightarrow>
            (let s1 = doif (q_open s) (\<lambda>s. emit (Play_close True) (s\<lparr>q_open := False\<rparr>)) s;
                 s2 = hook C H_played P_played ((playback_hint (s1\<lparr>tts_on := False\<rparr>))\<lparr>flush_playback := False\<rparr>)
             in if wake_cut s2 then s2\<lparr>wake_cut := False\<rparr> else core_pipeline_finish C now s2))"

definition playback_step :: "conf \<Rightarrow> clk \<Rightarrow> bool \<Rightarrow> core \<Rightarrow> core" where
  "playback_step C now ok s = (case q s of [] \<Rightarrow> s | x # r \<Rightarrow> play_item C now ok x (s\<lparr>q := r\<rparr>))"

section \<open>What Home Assistant understood\<close>

definition stops :: "bytes list" where
  "stops = map ascii [''stop'', ''stopp'', ''stoppen'', ''stoppa'', ''halt'', ''arr'' @ [CHR 0xc3, CHR 0xaa] @ ''te'', ''arrete'', ''basta'',
     ''para'', ''pare'']"

definition hangups :: "bytes list" where
  "hangups = map ascii [''hangup'', ''endcall'', ''endthecall'', ''enddropin'', ''auflegen'', ''legauf'', ''beenden'', ''anrufbeenden'',
     ''dropinbeenden'', ''gespr'' @ [CHR 0xc3, CHR 0xa4] @ ''chbeenden'', ''raccroche'', ''raccrocher'', ''cuelga'', ''colgar'',
     ''riattacca'', ''riaggancia'', ''ophangen'', ''hangop'', ''legop'']"

definition lower :: "byte \<Rightarrow> byte" where
  "lower c = (if 0x41 \<le> c \<and> c \<le> 0x5a then c + 0x20 else c)"

text \<open>Lower case, without spaces and punctuation: the bytes of blank, tab, \<open>.,!?"'\<close> and the two inverted marks in UTF-8.\<close>

definition squeeze :: "bytes \<Rightarrow> bytes" where
  "squeeze t = take 31 (map lower (filter (\<lambda>c. c \<notin> {0x20, 0x09, 0x2e, 0x2c, 0x21, 0x3f, 0xc2, 0xa1, 0xbf, 0x22, 0x27}) t))"

definition end_run :: "conf \<Rightarrow> clk \<Rightarrow> core \<Rightarrow> core" where
  "end_run C now s =
     core_pipeline_finish C now (if connected s \<and> H_cancel \<in> hooks C
       then (emit P_cancel (s\<lparr>barge_in := False, streaming := False\<rparr>))\<lparr>quiet_abort := True\<rparr> else s)"

definition core_transcript :: "conf \<Rightarrow> clk \<Rightarrow> bytes \<Rightarrow> bytes \<Rightarrow> bool \<Rightarrow> bool \<Rightarrow> core \<Rightarrow> core \<times> bool" where
  "core_transcript C now phrase heard_t in_call paused s =
     (let w0 = squeeze heard_t; k = squeeze phrase;
          w = (if k \<noteq> [] \<and> length w0 > length k \<and> take (length k) w0 = k then drop (length k) w0 else w0)
      in if replay_whole s \<and> k \<noteq> [] \<and> length w0 = length k \<and> w = k
         then (let s1 = doif (run_wake s) (wake_told C ''no_speech'') s
               in (if connected s1 \<and> H_cancel \<in> hooks C then quiet_cancel C now s1 else core_pipeline_finish C now s1, True))
         else if in_call \<and> (w \<in> set stops \<or> w \<in> set hangups) then (end_run C now (emit Dropin_hangup s), True)
         else if alarm_on s
         then (if w \<notin> set stops \<and> \<not> (timer_stop_any s \<and> w \<noteq> []) then (s, False)
               else (end_run C now (core_alarm_stop C s), True))
         else (let cut = (ms now - wake_cut_ms s < 10000); s1 = (if cut then s else music_stop now paused s)
               in if w \<notin> set stops then (s, False)
                  else if cut \<or> paused \<or> music_stopped_ms s1 \<noteq> 0 \<and> ms now - music_stopped_ms s1 < 10000
                  then (end_run C now s1, True) else (s1, False)))"

section \<open>Music and calls\<close>

abbreviation MUSIC_SENDSPIN :: nat where "MUSIC_SENDSPIN \<equiv> 1"
abbreviation MUSIC_BLUETOOTH :: nat where "MUSIC_BLUETOOTH \<equiv> 2"

definition core_music :: "nat \<Rightarrow> bool \<Rightarrow> core \<Rightarrow> core" where
  "core_music src on s =
     (let was = music_on s; s1 = s\<lparr>music_on := (if on then insert src was else was - {src})\<rparr>;
          s2 = (if on \<and> src \<notin> was
                then doif (src = MUSIC_SENDSPIN \<and> MUSIC_BLUETOOTH \<in> was) (emit A2dp_pause)
                       (doif (src = MUSIC_BLUETOOTH \<and> MUSIC_SENDSPIN \<in> was) (emit Sendspin_pause) s1) else s1);
          s3 = doif (\<not> on \<and> src = MUSIC_SENDSPIN \<and> MUSIC_SENDSPIN \<in> was) (emit A2dp_unyield) s2
      in doif ((was = {}) \<noteq> (music_on s3 = {})) playback_hint s3)"

fun dropin_led :: "dropin_state \<Rightarrow> string option" where
  "dropin_led DROPIN_IDLE = None"
| "dropin_led DROPIN_CALLING = Some ''call_outbound_ringing''"
| "dropin_led DROPIN_RINGING = Some ''call_incoming''"
| "dropin_led DROPIN_LIVE = Some ''call_connected''"

definition core_dropin :: "conf \<Rightarrow> clk \<Rightarrow> dropin_state \<Rightarrow> bytes \<Rightarrow> bool \<Rightarrow> core \<Rightarrow> core" where
  "core_dropin C now x peer outgoing s =
     (let was = dropin_was s; s0 = s\<lparr>dropin_was := x\<rparr>
      in if x = was then s0
         else let s1 = emits ((case dropin_led was of None \<Rightarrow> [] | Some p \<Rightarrow> [Led_unset p]) @
                        (case dropin_led x of Some p \<Rightarrow> [Led_set p]
                         | None \<Rightarrow> if was = DROPIN_LIVE then [Led_set ''call_connected_end''] else [])) s0;
                  s2 = s1\<lparr>dropin_ring_at := ms now + (if x = DROPIN_CALLING then 1000 else 0),
                          dropin_ring := (if x = DROPIN_RINGING then Some SND_RING_IN else if x = DROPIN_CALLING then Some SND_RING_OUT else None)\<rparr>;
                  s3 = (if x = DROPIN_LIVE then sound_queue (if outgoing \<or> was = DROPIN_RINGING then SND_CALL_ON else SND_DROPIN) s2
                        else if x = DROPIN_IDLE then sound_queue SND_CALL_OFF s2 else s2);
                  s4 = s3\<lparr>dropin_live := (x = DROPIN_LIVE)\<rparr>;
                  s5 = doif (x \<noteq> DROPIN_LIVE) (\<lambda>s. listening_apply (s\<lparr>listen_call := False\<rparr>)) s4;
                  s6 = doif (connected s5) (hook C H_dropin_changed (P_dropin_changed x peer)) s5;
                  s7 = doif (x = DROPIN_LIVE) (emits [Sendspin_pause, A2dp_pause]) s6
              in doif (x = DROPIN_IDLE \<and> was = DROPIN_LIVE) (emit A2dp_unyield) s7)"

definition core_dropin_listen :: "bool \<Rightarrow> core \<Rightarrow> core" where
  "core_dropin_listen on s =
     doif (on \<noteq> listen_call s \<and> (\<not> on \<or> dropin_live s)) (\<lambda>s. listening_apply (s\<lparr>listen_call := on\<rparr>)) s"

definition core_dropin_refusal :: "bool \<Rightarrow> core \<Rightarrow> string option" where
  "core_dropin_refusal incoming s =
     (if core_muted s then Some ''the microphones are off'' else if incoming \<and> dnd s then Some ''do not disturb is on'' else None)"

end
