(* ===== verification/Session_Ring.thy ===== *)
theory Session_Ring
  imports Session
begin

text \<open>
  What holds whatever happens to the core: the step relation \<open>core_step\<close> of everything that may be called under the
  lock, in any order, and its invariants.  Shown: the microphone streams only to a linked satellite, and the front end's listening mode
  follows it; the light ring shows the state, a ringing timer and the mute truthfully; timers and their ring are kept consistently;
  ``stop'' starts nothing; nothing but a follow-up opens the microphone while muted.
\<close>

section \<open>Every step\<close>

inductive core_step :: "conf \<Rightarrow> core \<Rightarrow> core \<Rightarrow> bool" for C where
  set_state: "core_step C s (core_set_state now x s)"
| remote_wake: "core_step C s (core_remote_wake C now s)"
| wake_run_ended: "core_step C s (fst (core_wake_run_ended failed s))"
| run_over: "core_step C s (core_run_over C now s)"
| mic_off: "core_step C s (core_mic_off s)"
| heard_end: "core_step C s (heard_end C now s)"
| restart_after: "core_step C s (core_restart_after s)"
| pipeline_finish: "core_step C s (core_pipeline_finish C now s)"
| link: "core_step C s (core_link C now up ready wrote s)"
| link_pause: "core_step C s (core_link_pause C now s)"
| error: "core_step C s (core_error C now s)"
| no_speech: "core_step C s (core_no_speech C now s)"
| soft_mute: "core_step C s (core_soft_mute C now x s)"
| mute_latch: "core_step C s (mute_latch C now muted noisy s)"
| timer_running: "length i < 40 \<Longrightarrow> core_step C s (core_timer_running C now i name t l active s)"
| timer_finished: "length i < 40 \<Longrightarrow> core_step C s (core_timer_finished C now i name t s)"
| timer_cancelled: "core_step C s (core_timer_cancelled C i s)"
| alarm_stop: "core_step C s (core_alarm_stop C s)"
| earcon: "core_step C s (earcon_round C now there s)"
| wake_noted: "core_step C s (wake_noted C now b e s)"
| trigger: "core_step C s (trigger C now touch from s)"
| stop_word: "core_step C s (stop_word C now in_call paused s)"
| timeout: "core_step C s (pipeline_timeout C now s)"
| tts_begin: "core_step C s (core_tts_begin C now rate ch s)"
| tts_data: "core_step C s (core_tts_data d s)"
| tts_end: "core_step C s (core_tts_end s)"
| tts_abandoned: "core_step C s (core_tts_abandoned s)"
| tts_flush: "core_step C s (core_tts_flush s)"
| playback: "core_step C s (playback_step C now ok s)"
| transcript: "core_step C s (fst (core_transcript C now phrase t in_call paused s))"
| music: "core_step C s (core_music src on s)"
| dropin: "core_step C s (core_dropin C now x peer outgoing s)"
| dropin_listen: "core_step C s (core_dropin_listen on s)"

definition core0 :: core where
  "core0 = \<lparr>connected = False, satellite_running = False, link_paused = False, oobe = False, state = IDLE, state_since = 0,
     busy = False, streaming = False, flush_playback = False, alarm_on = False, tts_on = False, music_on = {}, soft_mute = False,
     latch = False, last_latch = False, dnd = False, use_earcon = True, sounds_off = {}, sounds_pending = {}, barge_in = False,
     barge_from = 0, replay_from = 0, replay_whole = False, wake_in_request = False, kw_begin = 0, kw_end = 0, mic_fresh = False,
     run_over = False, wake_wait = False, wake_cut = False, wake_fails = 0, run_wake = False, quiet_abort = False,
     wake_cut_ms = 0, last_wake_ms = 0, heard_ms = 0, stop_ms = 0, stop_cut = False, stop_ends = False, listen_pipe = False,
     listen_call = False, listen_is = None, afe_asked = False, dropin_was = DROPIN_IDLE, dropin_live = False, dropin_ring = None,
     dropin_ring_at = 0, music_stopped_ms = 0, q = [], q_open = False, ringing = [], timer_ring_s = 60, timer_stop_any = False,
     alarm_until = None, running = [], timers_stale_at = None, outs = []\<rparr>"

inductive reachable :: "conf \<Rightarrow> core \<Rightarrow> bool" for C where
  init: "reachable C core0"
| step: "reachable C s \<Longrightarrow> core_step C s t \<Longrightarrow> reachable C t"

section \<open>What the ring shows\<close>

definition lit_by :: "string \<Rightarrow> out list \<Rightarrow> bool \<Rightarrow> bool" where
  "lit_by p os b = foldl (\<lambda>b x. if x = Led_set p then True else if x = Led_unset p then False else b) b os"

definition lit :: "string \<Rightarrow> core \<Rightarrow> bool" where
  "lit p s = lit_by p (outs s) False"

lemma lit_by_simps [simp]:
  "lit_by p [] b = b"
  "lit_by p (x # xs) b = lit_by p xs (if x = Led_set p then True else if x = Led_unset p then False else b)"
  "lit_by p (xs @ ys) b = lit_by p ys (lit_by p xs b)"
  by (simp_all add: lit_by_def)

lemma lit_by_other: "Led_set p \<notin> set xs \<Longrightarrow> Led_unset p \<notin> set xs \<Longrightarrow> lit_by p xs b = b"
  by (induction xs arbitrary: b) auto

text \<open>What most of the core leaves alone: the link, mute, timers, and the ring's two lasting patterns.\<close>

definition kept :: "core \<Rightarrow> core \<Rightarrow> bool" where
  "kept s s' \<longleftrightarrow> connected s' = connected s \<and> satellite_running s' = satellite_running s \<and> soft_mute s' = soft_mute s \<and>
     latch s' = latch s \<and> last_latch s' = last_latch s \<and> alarm_on s' = alarm_on s \<and> ringing s' = ringing s \<and>
     running s' = running s \<and> timers_stale_at s' = timers_stale_at s \<and>
     lit ''ready-timer'' s' = lit ''ready-timer'' s \<and> lit ''mics-off_on'' s' = lit ''mics-off_on'' s"

lemma kept_refl [simp]: "kept s s"
  by (simp add: kept_def)

lemma kept_trans: "kept s t \<Longrightarrow> kept t u \<Longrightarrow> kept s u"
  by (simp add: kept_def)

lemma emit_sel [simp]:
  "state (emit x s) = state s" "busy (emit x s) = busy s" "streaming (emit x s) = streaming s" "connected (emit x s) = connected s"
  "satellite_running (emit x s) = satellite_running s" "listen_pipe (emit x s) = listen_pipe s" "listen_call (emit x s) = listen_call s"
  "listen_is (emit x s) = listen_is s" "alarm_on (emit x s) = alarm_on s" "ringing (emit x s) = ringing s" "running (emit x s) = running s"
  "timers_stale_at (emit x s) = timers_stale_at s" "soft_mute (emit x s) = soft_mute s" "latch (emit x s) = latch s"
  "last_latch (emit x s) = last_latch s" "barge_in (emit x s) = barge_in s" "outs (emit x s) = outs s @ [x]"
  by (simp_all add: emit_def)

lemma emits_sel [simp]:
  "state (emits x s) = state s" "busy (emits x s) = busy s" "streaming (emits x s) = streaming s" "connected (emits x s) = connected s"
  "satellite_running (emits x s) = satellite_running s" "listen_pipe (emits x s) = listen_pipe s" "listen_call (emits x s) = listen_call s"
  "listen_is (emits x s) = listen_is s" "alarm_on (emits x s) = alarm_on s" "ringing (emits x s) = ringing s" "running (emits x s) = running s"
  "timers_stale_at (emits x s) = timers_stale_at s" "soft_mute (emits x s) = soft_mute s" "latch (emits x s) = latch s"
  "last_latch (emits x s) = last_latch s" "barge_in (emits x s) = barge_in s" "outs (emits x s) = outs s @ x"
  by (simp_all add: emits_def)

text \<open>The other half: the pipeline's state, the microphone, and the listening mode.\<close>

definition run_kept :: "core \<Rightarrow> core \<Rightarrow> bool" where
  "run_kept s s' \<longleftrightarrow> state s' = state s \<and> busy s' = busy s \<and> streaming s' = streaming s \<and> listen_pipe s' = listen_pipe s \<and>
     listen_call s' = listen_call s \<and> listen_is s' = listen_is s \<and> barge_in s' = barge_in s \<and>
     (\<forall>p \<in> {''active-start'', ''active-thinking'', ''active-talking''}. lit p s' = lit p s)"

lemma run_kept_refl [simp]: "run_kept s s"
  by (simp add: run_kept_def)

lemma run_kept_trans: "run_kept s t \<Longrightarrow> run_kept t u \<Longrightarrow> run_kept s u"
  by (simp add: run_kept_def)

definition quiet_out :: "out \<Rightarrow> bool" where
  "quiet_out x = (case x of Led_set p \<Rightarrow> p \<notin> {''ready-timer'', ''mics-off_on'', ''active-start'', ''active-thinking'', ''active-talking''}
     | Led_unset p \<Rightarrow> p \<notin> {''ready-timer'', ''mics-off_on'', ''active-start'', ''active-thinking'', ''active-talking''} | _ \<Rightarrow> True)"

lemmas keeps = kept_def run_kept_def lit_def

lemma kept_emit: "quiet_out x \<Longrightarrow> kept s (emit x s) \<and> run_kept s (emit x s)"
  by (cases x) (auto simp: keeps quiet_out_def)

lemma kept_hook: "quiet_out x \<Longrightarrow> kept s (hook C h x s) \<and> run_kept s (hook C h x s)"
  by (simp add: hook_def kept_emit)

lemma kept_sound_request: "kept s (sound_request C x s) \<and> run_kept s (sound_request C x s)"
  by (simp add: sound_request_def sound_queue_def keeps)

lemma kept_wake_told: "kept s (wake_told C e s) \<and> run_kept s (wake_told C e s)"
  by (simp add: wake_told_def quiet_out_def kept_hook)

lemma kept_afe_done: "kept s (afe_done s) \<and> run_kept s (afe_done s)"
  by (simp add: afe_done_def keeps)

lemma kept_lead_in: "kept s (lead_in s) \<and> run_kept s (lead_in s)"
proof -
  have "Led_set p \<notin> set (lead_in_loop n) \<and> Led_unset p \<notin> set (lead_in_loop n)" for p n
    by (induction n rule: lead_in_loop.induct) (simp add: lead_in_loop.simps)
  then show ?thesis by (simp add: lead_in_def keeps lit_by_other)
qed

lemma kept_adopted: "kept s (adopted b s) \<and> run_kept s (adopted b s)"
  by (simp add: adopted_def keeps Let_def)

lemma kept_playback_hint: "kept s (playback_hint s) \<and> run_kept s (playback_hint s)"
  by (simp add: playback_hint_def keeps)

lemmas small_sel [simp] =
  kept_sound_request [unfolded keeps] kept_wake_told [unfolded keeps] kept_afe_done [unfolded keeps] kept_lead_in [unfolded keeps]
  kept_adopted [unfolded keeps] kept_playback_hint [unfolded keeps]

lemma hook_sel: "quiet_out x \<Longrightarrow> kept s (hook C h x s)" "quiet_out x \<Longrightarrow> run_kept s (hook C h x s)"
  by (simp_all add: kept_hook)

lemma kept_listening_apply: "kept s (listening_apply s)"
  by (simp add: listening_apply_def keeps Let_def)

lemma listening_apply_sel [simp]:
  "state (listening_apply s) = state s" "busy (listening_apply s) = busy s" "streaming (listening_apply s) = streaming s"
  "listen_pipe (listening_apply s) = listen_pipe s" "listen_call (listening_apply s) = listen_call s"
  "listen_is (listening_apply s) = Some (listen_pipe s \<or> listen_call s)" "barge_in (listening_apply s) = barge_in s"
  "lit_by p (outs (listening_apply s)) b = lit_by p (outs s) b"
  by (simp_all add: listening_apply_def Let_def)

lemmas listening_apply_kept [simp] = kept_listening_apply [unfolded keeps]

lemma kept_listening: "kept s (listening b s)"
  by (simp add: listening_def keeps)

lemma listening_sel [simp]:
  "state (listening b s) = state s" "busy (listening b s) = busy s" "streaming (listening b s) = streaming s"
  "listen_pipe (listening b s) = b" "listen_call (listening b s) = listen_call s"
  "listen_is (listening b s) = Some (b \<or> listen_call s)" "barge_in (listening b s) = barge_in s"
  "lit_by p (outs (listening b s)) c = lit_by p (outs s) c"
  by (simp_all add: listening_def)

lemmas listening_kept [simp] = kept_listening [unfolded keeps]

lemma kept_set_state: "kept s (core_set_state now x s)"
  by (cases "state s"; cases x) (simp_all add: core_set_state_def led_for_def keeps)

lemma set_state_sel [simp]:
  "state (core_set_state now x s) = x" "streaming (core_set_state now x s) = streaming s" "listen_pipe (core_set_state now x s) = listen_pipe s"
  "listen_call (core_set_state now x s) = listen_call s" "listen_is (core_set_state now x s) = listen_is s"
  "barge_in (core_set_state now x s) = barge_in s"
  by (simp_all add: core_set_state_def)

lemmas set_state_kept [simp] = kept_set_state [unfolded keeps]

section \<open>The state on the ring\<close>

definition state_shown :: "core \<Rightarrow> bool" where
  "state_shown s \<longleftrightarrow> busy s = (state s \<noteq> IDLE) \<and> lit ''active-start'' s = (state s = LISTENING) \<and>
     lit ''active-thinking'' s = (state s = THINKING) \<and> lit ''active-talking'' s = (state s = SPEAKING)"

lemma state_shown_kept: "run_kept s s' \<Longrightarrow> state_shown s \<Longrightarrow> state_shown s'"
  by (simp add: run_kept_def state_shown_def)

lemma state_shown_set: "state_shown s \<Longrightarrow> state_shown (core_set_state now x s)"
  by (cases "state s"; cases x) (simp_all add: core_set_state_def led_for_def state_shown_def lit_def)

lemma state_shown_same:
  "state s' = state s \<Longrightarrow> busy s' = busy s \<Longrightarrow> (\<And>p. lit_by p (outs s') False = lit_by p (outs s) False) \<Longrightarrow> state_shown s' = state_shown s"
  by (simp add: state_shown_def lit_def)

section \<open>Starting and ending a pipeline\<close>

lemma kept_pipeline_start: "kept s (pipeline_start C now from s)"
  by (simp add: pipeline_start_def doif_def keeps Let_def)

lemma pipeline_start_sel [simp]:
  "state (pipeline_start C now from s) = (if core_local_wake C then LISTENING else state s)"
  "streaming (pipeline_start C now from s)"
  "listen_pipe (pipeline_start C now from s) = core_local_wake C" "listen_call (pipeline_start C now from s) = listen_call s"
  "listen_is (pipeline_start C now from s) = Some (core_local_wake C \<or> listen_call s)"
  "barge_in (pipeline_start C now from s) = barge_in s"
  by (simp_all add: pipeline_start_def doif_def Let_def)

lemmas pipeline_start_kept [simp] = kept_pipeline_start [unfolded keeps]

lemma state_shown_start: "state_shown s \<Longrightarrow> state_shown (pipeline_start C now from s)"
  by (auto simp: pipeline_start_def doif_def Let_def intro!: state_shown_set)
     (simp_all add: state_shown_def lit_def)

lemma kept_mic_stopped: "kept s (mic_stopped s)"
  by (simp add: mic_stopped_def keeps)

lemma mic_stopped_sel [simp]:
  "state (mic_stopped s) = state s" "busy (mic_stopped s) = busy s" "streaming (mic_stopped s) = streaming s"
  "listen_pipe (mic_stopped s) = False" "listen_call (mic_stopped s) = listen_call s" "listen_is (mic_stopped s) = Some (listen_call s)"
  "barge_in (mic_stopped s) = barge_in s" "state_shown (mic_stopped s) = state_shown s"
  by (simp_all add: mic_stopped_def state_shown_def lit_def)

lemmas mic_stopped_kept [simp] = kept_mic_stopped [unfolded keeps]

lemma hook_sels [simp]:
  "state (hook C h x s) = state s" "busy (hook C h x s) = busy s" "streaming (hook C h x s) = streaming s" "connected (hook C h x s) = connected s"
  "satellite_running (hook C h x s) = satellite_running s" "listen_pipe (hook C h x s) = listen_pipe s" "listen_call (hook C h x s) = listen_call s"
  "listen_is (hook C h x s) = listen_is s" "alarm_on (hook C h x s) = alarm_on s" "ringing (hook C h x s) = ringing s"
  "running (hook C h x s) = running s" "timers_stale_at (hook C h x s) = timers_stale_at s" "soft_mute (hook C h x s) = soft_mute s"
  "latch (hook C h x s) = latch s" "last_latch (hook C h x s) = last_latch s" "barge_in (hook C h x s) = barge_in s"
  "(\<And>p. x \<noteq> Led_set p) \<Longrightarrow> (\<And>p. x \<noteq> Led_unset p) \<Longrightarrow> lit_by p (outs (hook C h x s)) b = lit_by p (outs s) b"
  by (simp_all add: hook_def)

text \<open>Ending a pipeline in three parts: the microphone off and the state idle, what is forgotten, and what begins next.\<close>

definition finish_stop :: "conf \<Rightarrow> clk \<Rightarrow> core \<Rightarrow> core" where
  "finish_stop C now s =
     (let s1 = s\<lparr>wake_fails := 0, streaming := False\<rparr>;
          s2 = (if streaming s \<and> connected s
                then (if wake_wait s \<and> H_cancel \<in> hooks C then emit P_cancel s1 else hook C H_stop P_stop s1) else s1);
          s3 = core_set_state now IDLE (mic_stopped s2);
          s4 = doif (ms now - last_wake_ms s3 > 3000) (emit Wake_reset) s3
      in doif (\<not> connected s4) (\<lambda>s. s\<lparr>barge_in := False\<rparr>) s4)"

definition restarts :: "conf \<Rightarrow> core \<Rightarrow> bool" where
  "restarts C s \<longleftrightarrow> (barge_in s \<or> \<not> core_local_wake C) \<and> satellite_running s \<and> connected s"

lemma pipeline_finish_parts: "core_pipeline_finish C now s = (let t = finish_stop C now s in
     if restarts C t
     then pipeline_start C now (if barge_in t then barge_from t else 0)
            ((doif (barge_in t) (sound_request C SND_WAKE) t)\<lparr>barge_in := False, barge_from := 0\<rparr>)
     else t)"
  by (simp only: core_pipeline_finish_def finish_stop_def restarts_def Let_def)

lemma kept_finish_stop: "kept s (finish_stop C now s)"
  by (simp add: finish_stop_def doif_def keeps Let_def)

lemma finish_stop_sel [simp]:
  "state (finish_stop C now s) = IDLE" "streaming (finish_stop C now s) = False" "listen_pipe (finish_stop C now s) = False"
  "listen_call (finish_stop C now s) = listen_call s" "listen_is (finish_stop C now s) = Some (listen_call s)"
  "barge_in (finish_stop C now s) = (barge_in s \<and> connected s)"
  by (simp_all add: finish_stop_def doif_def Let_def)

lemmas finish_stop_kept [simp] = kept_finish_stop [unfolded keeps]

lemma state_shown_finish_stop: "state_shown s \<Longrightarrow> state_shown (finish_stop C now s)"
proof -
  assume s: "state_shown s"
  let ?s1 = "s\<lparr>wake_fails := 0, streaming := False\<rparr>"
  let ?s2 = "if streaming s \<and> connected s
                then (if wake_wait s \<and> H_cancel \<in> hooks C then emit P_cancel ?s1 else hook C H_stop P_stop ?s1) else ?s1"
  have "state_shown ?s2" using s by (simp add: state_shown_def lit_def)
  then have "state_shown (core_set_state now IDLE (mic_stopped ?s2))" by (simp only: state_shown_set mic_stopped_sel)
  then show ?thesis by (simp only: finish_stop_def Let_def doif_def) (simp add: state_shown_def lit_def)
qed

lemma kept_pipeline_finish: "kept s (core_pipeline_finish C now s)"
  by (simp add: pipeline_finish_parts doif_def keeps Let_def)

lemmas pipeline_finish_kept [simp] = kept_pipeline_finish [unfolded keeps]

lemma state_shown_finish: "state_shown s \<Longrightarrow> state_shown (core_pipeline_finish C now s)"
  using state_shown_finish_stop [of s C now]
  by (auto simp: pipeline_finish_parts doif_def Let_def intro!: state_shown_start) (simp_all add: state_shown_def lit_def)

definition mic_ok :: "conf \<Rightarrow> core \<Rightarrow> bool" where
  "mic_ok C s \<longleftrightarrow> (streaming s \<longrightarrow> satellite_running s) \<and> (satellite_running s \<longrightarrow> connected s) \<and>
     (core_local_wake C \<longrightarrow> listen_pipe s = streaming s) \<and>
     (listen_is s = Some (listen_pipe s \<or> listen_call s) \<or> listen_is s = None \<and> \<not> listen_pipe s \<and> \<not> listen_call s)"

lemma mic_ok_start: "satellite_running s \<Longrightarrow> connected s \<Longrightarrow> mic_ok C (pipeline_start C now from s)"
  by (simp add: mic_ok_def)

lemma mic_ok_finish: "(satellite_running s \<longrightarrow> connected s) \<Longrightarrow> mic_ok C (core_pipeline_finish C now s)"
  by (simp add: pipeline_finish_parts restarts_def doif_def mic_ok_def Let_def)

lemma mic_ok_kept: "kept s s' \<Longrightarrow> run_kept s s' \<Longrightarrow> mic_ok C s \<Longrightarrow> mic_ok C s'"
  by (simp add: kept_def run_kept_def mic_ok_def)

lemma mic_ok_stopped: "mic_ok C s \<Longrightarrow> \<not> streaming s \<or> \<not> core_local_wake C \<Longrightarrow> mic_ok C (mic_stopped (s\<lparr>streaming := False\<rparr>))"
  by (simp add: mic_ok_def)

section \<open>Mute and timers\<close>

definition mute_ok :: "core \<Rightarrow> bool" where
  "mute_ok s \<longleftrightarrow> last_latch s = latch s \<and> lit ''mics-off_on'' s = core_muted s"

definition timers_ok :: "core \<Rightarrow> bool" where
  "timers_ok s \<longleftrightarrow> alarm_on s = (ringing s \<noteq> []) \<and> lit ''ready-timer'' s = alarm_on s \<and>
     length (ringing s) \<le> RINGING_MAX \<and> distinct (map g_id (ringing s)) \<and>
     length (running s) \<le> RUNNING_MAX \<and> distinct (map r_id (running s)) \<and> timers_stale_at s = stale_min (running s) None"

lemma timers_ok_kept: "kept s s' \<Longrightarrow> timers_ok s \<Longrightarrow> timers_ok s'"
  by (simp add: kept_def timers_ok_def)

lemma mute_ok_kept: "kept s s' \<Longrightarrow> mute_ok s \<Longrightarrow> mute_ok s'"
  by (simp add: kept_def mute_ok_def core_muted_def)

definition core_inv :: "conf \<Rightarrow> core \<Rightarrow> bool" where
  "core_inv C s \<longleftrightarrow> state_shown s \<and> mic_ok C s \<and> mute_ok s \<and> timers_ok s"

lemma inv_kept: "kept s s' \<Longrightarrow> core_inv C s \<Longrightarrow> state_shown s' \<Longrightarrow> mic_ok C s' \<Longrightarrow> core_inv C s'"
  using mute_ok_kept timers_ok_kept by (simp add: core_inv_def)

lemma inv_same: "kept s s' \<Longrightarrow> run_kept s s' \<Longrightarrow> core_inv C s \<Longrightarrow> core_inv C s'"
  by (rule inv_kept) (auto simp: core_inv_def intro: mic_ok_kept state_shown_kept)

lemma core_inv_mic: "core_inv C s \<Longrightarrow> satellite_running s \<Longrightarrow> connected s"
  by (simp add: core_inv_def mic_ok_def)

section \<open>Every step keeps the invariant\<close>

lemma core_inv_shown: "core_inv C s \<Longrightarrow> state_shown s"
  by (simp add: core_inv_def)

lemma core_inv_ok: "core_inv C s \<Longrightarrow> mic_ok C s"
  by (simp add: core_inv_def)

lemma inv_set_state: "core_inv C s \<Longrightarrow> core_inv C (core_set_state now x s)"
  by (rule inv_kept [OF kept_set_state]) (auto simp: core_inv_def mic_ok_def intro: state_shown_set)

lemma inv_finish: "core_inv C s \<Longrightarrow> core_inv C (core_pipeline_finish C now s)"
  by (rule inv_kept [OF kept_pipeline_finish]) (auto dest: core_inv_mic core_inv_shown intro: state_shown_finish mic_ok_finish)

lemma inv_start: "core_inv C s \<Longrightarrow> satellite_running s \<Longrightarrow> core_inv C (pipeline_start C now from s)"
  by (rule inv_kept [OF kept_pipeline_start]) (auto dest: core_inv_mic core_inv_shown intro: state_shown_start mic_ok_start)

lemma inv_sound_request: "core_inv C s \<Longrightarrow> core_inv C (sound_request D x s)"
  by (rule inv_same) (simp_all add: kept_sound_request)

lemma inv_wake_told: "core_inv C s \<Longrightarrow> core_inv C (wake_told D e s)"
  by (rule inv_same) (simp_all add: kept_wake_told)

lemma inv_emit: "quiet_out x \<Longrightarrow> core_inv C s \<Longrightarrow> core_inv C (emit x s)"
  using inv_same kept_emit by blast

lemma inv_emits: "\<forall>x\<in>set xs. quiet_out x \<Longrightarrow> core_inv C s \<Longrightarrow> core_inv C (emits xs s)"
proof (induction xs arbitrary: s)
  case Nil
  then show ?case by (simp add: emits_def)
next
  case (Cons x xs)
  have "emits (x # xs) s = emits xs (emit x s)" by (simp add: emits_def emit_def)
  then show ?case using Cons inv_emit by simp
qed

lemma inv_hook: "quiet_out x \<Longrightarrow> core_inv C s \<Longrightarrow> core_inv C (hook D h x s)"
  using inv_same kept_hook by blast

lemma inv_doif: "(\<And>s. core_inv C s \<Longrightarrow> core_inv C (f s)) \<Longrightarrow> core_inv C s \<Longrightarrow> core_inv C (doif b f s)"
  by (simp add: doif_def)

text \<open>Fields the invariant does not speak of.\<close>

lemma inv_upd [simp]:
  "core_inv C (s\<lparr>flush_playback := b\<rparr>) = core_inv C s" "core_inv C (s\<lparr>barge_in := b\<rparr>) = core_inv C s"
  "core_inv C (s\<lparr>barge_from := n\<rparr>) = core_inv C s" "core_inv C (s\<lparr>wake_cut_ms := t\<rparr>) = core_inv C s"
  "core_inv C (s\<lparr>wake_cut := b\<rparr>) = core_inv C s" "core_inv C (s\<lparr>wake_wait := b\<rparr>) = core_inv C s"
  "core_inv C (s\<lparr>run_wake := b\<rparr>) = core_inv C s" "core_inv C (s\<lparr>run_over := b\<rparr>) = core_inv C s"
  "core_inv C (s\<lparr>quiet_abort := b\<rparr>) = core_inv C s" "core_inv C (s\<lparr>wake_fails := n\<rparr>) = core_inv C s"
  "core_inv C (s\<lparr>link_paused := b\<rparr>) = core_inv C s" "core_inv C (s\<lparr>last_wake_ms := t\<rparr>) = core_inv C s"
  "core_inv C (s\<lparr>heard_ms := t\<rparr>) = core_inv C s" "core_inv C (s\<lparr>stop_ms := t\<rparr>) = core_inv C s"
  "core_inv C (s\<lparr>stop_cut := b\<rparr>) = core_inv C s" "core_inv C (s\<lparr>kw_begin := n\<rparr>) = core_inv C s" "core_inv C (s\<lparr>kw_end := n\<rparr>) = core_inv C s"
  "core_inv C (s\<lparr>music_stopped_ms := t\<rparr>) = core_inv C s" "core_inv C (s\<lparr>q := x\<rparr>) = core_inv C s" "core_inv C (s\<lparr>q_open := b\<rparr>) = core_inv C s"
  "core_inv C (s\<lparr>tts_on := b\<rparr>) = core_inv C s" "core_inv C (s\<lparr>music_on := m\<rparr>) = core_inv C s"
  "core_inv C (s\<lparr>sounds_pending := y\<rparr>) = core_inv C s" "core_inv C (s\<lparr>dropin_was := z\<rparr>) = core_inv C s"
  "core_inv C (s\<lparr>dropin_ring := r\<rparr>) = core_inv C s" "core_inv C (s\<lparr>dropin_ring_at := t\<rparr>) = core_inv C s"
  "core_inv C (s\<lparr>dropin_live := b\<rparr>) = core_inv C s" "core_inv C (s\<lparr>alarm_until := u\<rparr>) = core_inv C s"
  by (simp_all add: core_inv_def state_shown_def mic_ok_def mute_ok_def timers_ok_def core_muted_def lit_def)

lemma kept_mic_off: "kept s (core_mic_off s)"
  by (simp add: core_mic_off_def keeps)

lemma inv_mic_off: "core_inv C s \<Longrightarrow> core_inv C (core_mic_off s)"
  by (rule inv_kept [OF kept_mic_off])
     (auto simp: core_inv_def mic_ok_def core_mic_off_def state_shown_def lit_def mic_stopped_def)

lemma inv_heard_end: "core_inv C s \<Longrightarrow> core_inv C (heard_end C now s)"
  by (auto simp: heard_end_def quiet_out_def Let_def intro!: inv_doif inv_set_state inv_mic_off inv_emit)

lemma inv_listening: "\<not> core_local_wake C \<Longrightarrow> core_inv C s \<Longrightarrow> core_inv C (listening b s)"
  by (rule inv_kept [OF kept_listening]) (auto simp: core_inv_def mic_ok_def state_shown_def lit_def)

lemma inv_remote_wake: "core_inv C s \<Longrightarrow> core_inv C (core_remote_wake C now s)"
  by (auto simp: core_remote_wake_def quiet_out_def Let_def
      intro!: inv_set_state inv_listening inv_sound_request inv_wake_told inv_hook)

lemma inv_wake_listen: "core_inv C s \<Longrightarrow> core_inv C (wake_listen C now s)"
  by (auto simp: wake_listen_def intro!: inv_start)

lemma inv_wake_run_ended: "core_inv C s \<Longrightarrow> core_inv C (fst (core_wake_run_ended failed s))"
  using inv_mic_off [of C s] by (auto simp: core_wake_run_ended_def core_mic_off_def Let_def)

lemma inv_run_over: "core_inv C s \<Longrightarrow> core_inv C (core_run_over C now s)"
  by (auto simp: core_run_over_def intro!: inv_wake_listen)

lemma inv_link: "core_inv C s \<Longrightarrow> core_inv C (core_link C now up ready wrote s)"
proof -
  assume inv: "core_inv C s"
  let ?s1 = "s\<lparr>connected := up, satellite_running := (up \<and> ready), link_paused := False\<rparr>"
  let ?s2 = "doif (satellite_running ?s1) (adopted wrote) ?s1"
  have sh: "state_shown ?s2" using core_inv_shown [OF inv] by (simp add: doif_def state_shown_def lit_def)
  have mt: "mute_ok ?s2 \<and> timers_ok ?s2"
    using inv by (simp add: core_inv_def mute_ok_def timers_ok_def core_muted_def doif_def lit_def)
  show ?thesis
  proof (cases "up \<and> ready")
    case True
    then have "core_inv C ?s2" using sh mt inv by (auto simp: core_inv_def mic_ok_def doif_def)
    then show ?thesis using True inv_start [of C ?s2] by (auto simp: core_link_def doif_def Let_def)
  next
    case False
    then have "mic_ok C (core_pipeline_finish C now ?s2)" by (intro mic_ok_finish) (simp add: doif_def)
    then have "core_inv C (core_pipeline_finish C now ?s2)"
      using sh mt mute_ok_kept timers_ok_kept kept_pipeline_finish state_shown_finish unfolding core_inv_def by metis
    then show ?thesis using False by (auto simp: core_link_def doif_def Let_def)
  qed
qed

lemma inv_link_pause: "core_inv C s \<Longrightarrow> core_inv C (core_link_pause C now s)"
  by (simp add: core_link_pause_def inv_link)

lemma inv_error: "core_inv C s \<Longrightarrow> core_inv C (core_error C now s)"
  by (auto simp: core_error_def quiet_out_def intro!: inv_finish inv_emit)

lemma inv_no_speech: "core_inv C s \<Longrightarrow> core_inv C (core_no_speech C now s)"
  by (auto simp: core_no_speech_def Let_def intro!: inv_doif inv_finish inv_wake_told)

text \<open>A cancelled run: the microphone is off before it is ended.\<close>

lemma inv_finish_off:
  assumes "core_inv C s" "quiet_out x"
  shows "core_inv C (core_pipeline_finish C now (emit x (s\<lparr>barge_in := False, streaming := False\<rparr>)))"
proof -
  let ?s = "emit x (s\<lparr>barge_in := False, streaming := False\<rparr>)"
  have k: "kept s ?s" using assms(2) by (cases x) (auto simp: keeps quiet_out_def)
  have sh: "state_shown ?s" using core_inv_shown [OF assms(1)] assms(2) by (cases x) (auto simp: state_shown_def lit_def quiet_out_def)
  have "mic_ok C (core_pipeline_finish C now ?s)"
    using core_inv_mic [OF assms(1)] by (intro mic_ok_finish) simp
  then show ?thesis
    using inv_kept [OF kept_trans [OF k kept_pipeline_finish] assms(1)] state_shown_finish [OF sh] by blast
qed

lemma inv_quiet_cancel: "core_inv C s \<Longrightarrow> core_inv C (quiet_cancel C now s)"
  using inv_finish_off [of C s P_cancel now] by (simp add: quiet_cancel_def quiet_out_def)

lemma inv_mute_update:
  assumes "state_shown s" "mic_ok C s" "timers_ok s" "last_latch s = latch s" "lit ''mics-off_on'' s = was"
  shows "core_inv C (mute_update C now was sound s)"
proof -
  let ?s1 = "doif sound (sound_request C (if core_muted s then SND_MICS_OFF else SND_MICS_ON)) s"
  let ?s2 = "if core_muted s then emit (Led_set ''mics-off_on'') (doif (state ?s1 = LISTENING) (core_pipeline_finish C now) ?s1)
             else emits [Led_unset ''mics-off_on'', Led_set ''mics-off_end''] ?s1"
  have k1: "kept s ?s1 \<and> run_kept s ?s1" by (simp add: doif_def kept_sound_request)
  have shown: "state_shown ?s1" "mic_ok C ?s1" "timers_ok ?s1"
    using k1 assms state_shown_kept mic_ok_kept timers_ok_kept by blast+
  have sat: "satellite_running ?s1 \<longrightarrow> connected ?s1" using shown(2) by (simp add: mic_ok_def)
  define u where "u = doif (state ?s1 = LISTENING) (core_pipeline_finish C now) ?s1"
  have "state_shown u" "mic_ok C u" "kept s u"
    unfolding u_def doif_def [of "state ?s1 = LISTENING"]
    using shown k1 state_shown_finish [OF shown(1)] mic_ok_finish [OF sat] kept_trans [OF _ kept_pipeline_finish] by simp_all
  then have "core_inv C (emit (Led_set ''mics-off_on'') u)" if "core_muted s"
    using that timers_ok_kept [of s u] assms(3,4)
    by (simp add: core_inv_def state_shown_def mic_ok_def mute_ok_def timers_ok_def core_muted_def kept_def lit_def)
  moreover have "core_inv C (emits [Led_unset ''mics-off_on'', Led_set ''mics-off_end''] ?s1)" if "\<not> core_muted s"
    using that shown k1 assms(4)
    by (simp add: core_inv_def state_shown_def mic_ok_def mute_ok_def timers_ok_def core_muted_def kept_def lit_def)
  ultimately have "core_inv C ?s2" unfolding u_def [symmetric] by simp
  then have change: "core_inv C (doif (connected ?s2) (hook C H_mute_changed (P_mute_changed (core_muted s))) ?s2)"
    by (intro inv_doif inv_hook) (simp_all add: quiet_out_def)
  show ?thesis
  proof (cases "core_muted s = was")
    case True
    then show ?thesis using assms by (simp add: mute_update_def core_inv_def mute_ok_def)
  next
    case False
    then show ?thesis using change by (simp only: mute_update_def Let_def if_False)
  qed
qed

lemma inv_soft_mute: "core_inv C s \<Longrightarrow> core_inv C (core_soft_mute C now x s)"
proof -
  assume inv: "core_inv C s"
  let ?s = "s\<lparr>soft_mute := x\<rparr>"
  have "core_inv C (mute_update C now (core_muted s) (satellite_running s) ?s)"
    using inv by (intro inv_mute_update) (simp_all add: core_inv_def state_shown_def mic_ok_def mute_ok_def timers_ok_def lit_def)
  then show ?thesis using inv by (auto simp: core_soft_mute_def quiet_out_def Let_def intro!: inv_doif inv_hook)
qed

lemma inv_mute_latch: "core_inv C s \<Longrightarrow> core_inv C (mute_latch C now muted noisy s)"
proof -
  assume inv: "core_inv C s"
  then have "last_latch s \<or> soft_mute s \<longleftrightarrow> core_muted s" by (auto simp: core_inv_def mute_ok_def core_muted_def)
  then show ?thesis
    using inv unfolding mute_latch_def Let_def
    by (intro inv_mute_update) (simp_all add: doif_def core_inv_def state_shown_def mic_ok_def mute_ok_def timers_ok_def lit_def)
qed

section \<open>Timers\<close>

text \<open>What the timers leave alone.\<close>

definition t_kept :: "core \<Rightarrow> core \<Rightarrow> bool" where
  "t_kept s s' \<longleftrightarrow> connected s' = connected s \<and> satellite_running s' = satellite_running s \<and> soft_mute s' = soft_mute s \<and>
     latch s' = latch s \<and> last_latch s' = last_latch s \<and> lit ''mics-off_on'' s' = lit ''mics-off_on'' s \<and> run_kept s s'"

lemma inv_timers: "t_kept s s' \<Longrightarrow> core_inv C s \<Longrightarrow> timers_ok s' \<Longrightarrow> core_inv C s'"
  by (auto simp: t_kept_def core_inv_def run_kept_def state_shown_def mic_ok_def mute_ok_def core_muted_def)

lemma t_kept_trans: "t_kept s t \<Longrightarrow> t_kept t u \<Longrightarrow> t_kept s u"
  by (simp add: t_kept_def run_kept_def)

lemma alarm_set_sel [simp]:
  "alarm_on (alarm_set on s) = on" "ringing (alarm_set on s) = ringing s" "running (alarm_set on s) = running s"
  "timers_stale_at (alarm_set on s) = timers_stale_at s" "connected (alarm_set on s) = connected s"
  by (auto simp: alarm_set_def)

lemma t_kept_alarm_set: "t_kept s (alarm_set on s)"
  by (simp add: alarm_set_def t_kept_def run_kept_def lit_def)

lemma lit_alarm_set: "lit ''ready-timer'' s = alarm_on s \<Longrightarrow> lit ''ready-timer'' (alarm_set on s) = on"
  by (auto simp: alarm_set_def lit_def)

lemma kept_timers_told: "kept s (timers_told C s) \<and> run_kept s (timers_told C s)"
  by (simp add: timers_told_def doif_def kept_hook quiet_out_def)

lemma inv_timers_told: "core_inv C s \<Longrightarrow> core_inv C (timers_told D s)"
  using inv_same kept_timers_told by blast

lemma index_of_Some: "index_of P xs = Some k \<Longrightarrow> k < length xs \<and> P (xs ! k)"
  unfolding index_of_def Let_def using nth_length_takeWhile [of "\<lambda>x. \<not> P x" xs] by (auto split: if_splits)

lemma index_of_None: "index_of P xs = None \<Longrightarrow> \<forall>x\<in>set xs. \<not> P x"
proof -
  assume "index_of P xs = None"
  then have "takeWhile (\<lambda>x. \<not> P x) xs = xs"
    unfolding index_of_def Let_def by (metis length_takeWhile_le linorder_not_less nat_less_le option.distinct(1) takeWhile_eq_take take_all_iff order_refl)
  then show ?thesis by (metis set_takeWhileD)
qed

lemma length_drop_nth: "i < length xs \<Longrightarrow> length (drop_nth i xs) = length xs - 1"
  by (simp add: drop_nth_def)

lemma distinct_drop_nth: "distinct (map f xs) \<Longrightarrow> distinct (map f (drop_nth i xs))"
proof (cases "i < length xs")
  case True
  assume "distinct (map f xs)"
  then have "distinct (map f (take i xs @ xs ! i # drop (Suc i) xs))" using id_take_nth_drop [OF True] by simp
  then show ?thesis by (auto simp: drop_nth_def)
qed (simp add: drop_nth_def)

lemma length_drop_nth_le: "length (drop_nth i xs) \<le> length xs"
  by (simp add: drop_nth_def)

lemma in_set_tl: "x \<in> set (tl xs) \<Longrightarrow> x \<in> set xs"
  by (cases xs) auto

lemma set_drop_nth: "set (drop_nth i xs) \<subseteq> set xs"
  by (auto simp: drop_nth_def dest: in_set_takeD in_set_dropD)

lemma map_update_same: "k < length xs \<Longrightarrow> f y = f (xs ! k) \<Longrightarrow> map f (xs[k := y]) = map f xs"
  by (metis list_update_id map_update)

text \<open>The table of running timers: its ids stay distinct, it never overflows.\<close>

definition table_ok :: "running list \<Rightarrow> bool" where
  "table_ok rs \<longleftrightarrow> length rs \<le> RUNNING_MAX \<and> distinct (map r_id rs)"

lemma inv_table:
  assumes "core_inv C s" "table_ok rs"
  shows "core_inv C (running_stale_at (s\<lparr>running := rs\<rparr>))"
proof (rule inv_timers [OF _ assms(1)])
  show "t_kept s (running_stale_at (s\<lparr>running := rs\<rparr>))" by (simp add: t_kept_def run_kept_def running_stale_at_def lit_def)
  show "timers_ok (running_stale_at (s\<lparr>running := rs\<rparr>))"
    using assms by (simp add: core_inv_def timers_ok_def running_stale_at_def table_ok_def lit_def)
qed

lemma table_okD: "core_inv C s \<Longrightarrow> table_ok (running s)"
  by (simp add: core_inv_def timers_ok_def table_ok_def)

lemma table_drop: "table_ok rs \<Longrightarrow> table_ok (drop_nth k rs)"
  using length_drop_nth_le [of k rs] by (simp add: table_ok_def distinct_drop_nth)

lemma inv_running_drop: "core_inv C s \<Longrightarrow> core_inv C (running_stale_at (running_drop k s))"
  by (simp add: running_drop_def inv_table table_drop table_okD)

lemma inv_timer_running:
  assumes inv: "core_inv C s" and i: "length i < 40"
  shows "core_inv C (core_timer_running C now i name t l active s)"
proof -
  note tab = table_okD [OF inv]
  let ?mk = "\<lambda>k. \<lparr>r_id = k, r_name = fit 64 name, r_total = t, r_active = active, r_end = ms now + int l * 1000, r_left = int l * 1000\<rparr>"
  let ?old = "case index_of (\<lambda>r. \<not> r_active r) (running s) of Some k \<Rightarrow> k | None \<Rightarrow> 0"
  let ?full = "length (running s) = RUNNING_MAX"
  let ?base = "if ?full then drop_nth ?old (running s) else running s"
  show ?thesis
  proof (cases "running_find i s")
    case None
    then have new: "i \<notin> r_id ` set (running s)" using index_of_None [of "\<lambda>r. r_id r = i" "running s"] by (auto simp: running_find_def)
    have "?full \<Longrightarrow> ?old < length (running s)" using index_of_Some by (fastforce simp: RUNNING_MAX_def split: option.split)
    then have "length ?base < RUNNING_MAX" using tab by (auto simp: length_drop_nth table_ok_def RUNNING_MAX_def)
    moreover have "distinct (map r_id ?base)" using tab by (simp add: table_ok_def distinct_drop_nth)
    moreover have "i \<notin> r_id ` set ?base" using new set_drop_nth [of ?old "running s"] by auto
    ultimately have "table_ok (?base @ [?mk (fit 40 i)])" using i by (simp add: table_ok_def fit_id)
    then have "core_inv C (running_stale_at (s\<lparr>running := ?base @ [?mk (fit 40 i)]\<rparr>))" by (rule inv_table [OF inv])
    from inv_timers_told [OF this, of C] show ?thesis
      using None by (cases ?full) (simp_all add: core_timer_running_def running_drop_def Let_def)
  next
    case (Some k)
    then have k: "k < length (running s)" "r_id (running s ! k) = i" using index_of_Some by (auto simp: running_find_def)
    have "table_ok ((running s)[k := ?mk (r_id (running s ! k))])"
      using tab k map_update_same [OF k(1), of r_id "?mk (r_id (running s ! k))"] by (simp add: table_ok_def)
    then have "core_inv C (running_stale_at (s\<lparr>running := (running s)[k := ?mk (r_id (running s ! k))]\<rparr>))" by (rule inv_table [OF inv])
    then show ?thesis using Some by (simp add: core_timer_running_def inv_timers_told Let_def)
  qed
qed

lemma inv_timers_prune: "core_inv C s \<Longrightarrow> core_inv C (timers_prune C now s)"
proof -
  assume inv: "core_inv C s"
  have "table_ok (filter P (running s))" for P
    using table_okD [OF inv] by (auto simp: table_ok_def distinct_map_filter intro: order.trans [OF length_filter_le])
  then show ?thesis unfolding timers_prune_def Let_def by (intro inv_doif inv_timers_told inv_table inv)
qed

text \<open>The timers that ring.\<close>

lemma inv_ringing:
  assumes "core_inv C s" "length gs \<le> RINGING_MAX" "distinct (map g_id gs)"
  shows "core_inv C (timers_told D (alarm_set (gs \<noteq> []) (s\<lparr>ringing := gs, alarm_until := u\<rparr>)))"
proof -
  let ?s = "s\<lparr>ringing := gs, alarm_until := u\<rparr>"
  have "t_kept s ?s" by (simp add: t_kept_def run_kept_def lit_def)
  then have k: "t_kept s (alarm_set (gs \<noteq> []) ?s)" using t_kept_trans t_kept_alarm_set by blast
  have "lit ''ready-timer'' ?s = alarm_on ?s" using assms(1) by (simp add: core_inv_def timers_ok_def lit_def)
  then have "timers_ok (alarm_set (gs \<noteq> []) ?s)"
    using assms lit_alarm_set [of ?s] by (simp add: core_inv_def timers_ok_def)
  then show ?thesis by (intro inv_timers_told inv_timers [OF k assms(1)])
qed

lemma inv_alarm_stop: "core_inv C s \<Longrightarrow> core_inv C (core_alarm_stop D s)"
  using inv_ringing [of C s "[]" D "alarm_until s"] by (simp add: core_alarm_stop_def)

lemma inv_timer_finished:
  assumes inv: "core_inv C s" and i: "length i < 40"
  shows "core_inv C (core_timer_finished C now i name t s)"
proof -
  let ?s1 = "case running_find i s of Some k \<Rightarrow> running_stale_at (running_drop k s) | None \<Rightarrow> s"
  let ?g = "\<lparr>g_id = fit 40 i, g_name = timer_name name t\<rparr>"
  have inv1: "core_inv C ?s1" using inv inv_running_drop by (auto split: option.split)
  have len: "length (ringing ?s1) \<le> RINGING_MAX" and dis: "distinct (map g_id (ringing ?s1))"
    using inv1 by (auto simp: core_inv_def timers_ok_def)
  show ?thesis
  proof (cases "index_of (\<lambda>x. g_id x = i) (ringing ?s1)")
    case None
    let ?b = "if length (ringing ?s1) = RINGING_MAX then tl (ringing ?s1) else ringing ?s1"
    have "i \<notin> g_id ` set (ringing ?s1)" using index_of_None [OF None] by auto
    then have "i \<notin> g_id ` set ?b" using in_set_tl [of _ "ringing ?s1"] by auto
    moreover have "distinct (map g_id ?b)" using dis by (simp add: distinct_tl map_tl)
    moreover have "length ?b < RINGING_MAX" using len by (auto simp: RINGING_MAX_def)
    ultimately have ok: "length (?b @ [?g]) \<le> RINGING_MAX" "distinct (map g_id (?b @ [?g]))" using i by (simp_all add: fit_id)
    then show ?thesis
      using inv_ringing [OF inv1 ok, of C] None unfolding core_timer_finished_def Let_def by simp
  next
    case (Some k)
    then have k: "k < length (ringing ?s1)" "g_id (ringing ?s1 ! k) = i" using index_of_Some by fastforce+
    then have ok: "length ((ringing ?s1)[k := ?g]) \<le> RINGING_MAX" "distinct (map g_id ((ringing ?s1)[k := ?g]))"
      using len dis i map_update_same [OF k(1), of g_id ?g] by (simp_all add: fit_id)
    have "(ringing ?s1)[k := ?g] \<noteq> []" using k(1) by auto
    then show ?thesis
      using inv_ringing [OF inv1 ok, of C] Some unfolding core_timer_finished_def Let_def by simp
  qed
qed

lemma alarm_set_id: "alarm_on s = on \<Longrightarrow> alarm_set on s = s"
  by (simp add: alarm_set_def)

lemma inv_timer_cancelled:
  assumes inv: "core_inv C s"
  shows "core_inv C (core_timer_cancelled C i s)"
proof -
  let ?s1 = "case running_find i s of Some k \<Rightarrow> timers_told C (running_stale_at (running_drop k s)) | None \<Rightarrow> s"
  have inv1: "core_inv C ?s1" using inv inv_running_drop inv_timers_told by (auto split: option.split)
  show ?thesis
  proof (cases "index_of (\<lambda>x. g_id x = i) (ringing ?s1)")
    case None
    then show ?thesis using inv1 unfolding core_timer_cancelled_def Let_def by simp
  next
    case (Some k)
    let ?gs = "drop_nth k (ringing ?s1)"
    have ok: "length ?gs \<le> RINGING_MAX" "distinct (map g_id ?gs)" and on: "alarm_on ?s1 = (ringing ?s1 \<noteq> [])"
      using inv1 distinct_drop_nth [of g_id "ringing ?s1" k] length_drop_nth_le [of k "ringing ?s1"]
      by (simp_all add: core_inv_def timers_ok_def)
    have "ringing ?s1 \<noteq> []" using index_of_Some [OF Some] by auto
    then have "doif (?gs = []) (alarm_set False) (?s1\<lparr>ringing := ?gs\<rparr>) = alarm_set (?gs \<noteq> []) (?s1\<lparr>ringing := ?gs, alarm_until := alarm_until ?s1\<rparr>)"
      using on alarm_set_id [of "?s1\<lparr>ringing := ?gs\<rparr>" True] by (simp add: doif_def)
    then show ?thesis
      using inv_ringing [OF inv1 ok, of C "alarm_until ?s1"] Some unfolding core_timer_cancelled_def Let_def by simp
  qed
qed

section \<open>The rest of the steps\<close>

lemma inv_wake_noted: "core_inv C s \<Longrightarrow> core_inv C (wake_noted C now b e s)"
  by (simp add: wake_noted_def inv_wake_told)

lemma inv_if: "(b \<Longrightarrow> core_inv C x) \<Longrightarrow> (\<not> b \<Longrightarrow> core_inv C y) \<Longrightarrow> core_inv C (if b then x else y)"
  by simp

lemmas inv_intros = inv_if inv_upd [THEN iffD2] inv_sound_request inv_alarm_stop inv_quiet_cancel inv_finish inv_wake_told inv_doif

lemma inv_play_pending: "core_inv C s \<Longrightarrow> core_inv C (play_pending there s)"
  unfolding play_pending_def by (intro inv_emits inv_upd [THEN iffD2]) (auto simp: quiet_out_def)

lemma inv_earcon: "core_inv C s \<Longrightarrow> core_inv C (earcon_round C now there s)"
proof -
  assume inv: "core_inv C s"
  have "core_inv C (play_pending there (doif b (timers_prune C now) s))" for b
    using inv by (intro inv_play_pending inv_doif inv_timers_prune)
  then show ?thesis
    unfolding earcon_round_def Let_def by (intro inv_intros inv_emit) (simp_all add: quiet_out_def)
qed

lemma satellite_sels [simp]:
  "satellite_running (doif b (\<lambda>s. s\<lparr>wake_cut_ms := t\<rparr>) s) = satellite_running s"
  by (simp add: doif_def)

lemma inv_trigger: "core_inv C s \<Longrightarrow> core_inv C (trigger C now touch from s)"
  unfolding trigger_def Let_def
  by (intro inv_intros inv_start inv_emit; (assumption | simp add: quiet_out_def)?)

lemma inv_drop_wake_sounds: "core_inv C s \<Longrightarrow> core_inv C (drop_wake_sounds s)"
  by (simp add: drop_wake_sounds_def)

lemma inv_music_stop: "core_inv C s \<Longrightarrow> core_inv C (music_stop now paused s)"
  by (simp add: music_stop_def inv_emit quiet_out_def Let_def)

lemma inv_stop_word: "core_inv C s \<Longrightarrow> core_inv C (stop_word C now in_call paused s)"
proof -
  assume inv: "core_inv C s"
  let ?s1 = "(doif in_call (emit Dropin_hangup) s)\<lparr>stop_ms := ms now\<rparr>"
  have "core_inv C (doif in_call (emit Dropin_hangup) s)" using inv by (intro inv_doif inv_emit) (simp_all add: quiet_out_def)
  then have "core_inv C ?s1" by simp
  then have i2: "core_inv C (doif (alarm_on ?s1) (core_alarm_stop C) ?s1)" by (intro inv_doif inv_alarm_stop)
  show ?thesis
    unfolding stop_word_def Let_def by (intro inv_intros inv_drop_wake_sounds inv_music_stop i2)
qed

lemma inv_timeout: "core_inv C s \<Longrightarrow> core_inv C (pipeline_timeout C now s)"
  unfolding pipeline_timeout_def by (intro inv_doif inv_finish)

lemma inv_tts_begin: "core_inv C s \<Longrightarrow> core_inv C (core_tts_begin C now rate ch s)"
  by (auto simp: core_tts_begin_def q_push_def Let_def intro!: inv_wake_listen inv_set_state inv_doif inv_mic_off)

lemma inv_playback_hint: "core_inv C s \<Longrightarrow> core_inv C (playback_hint s)"
  using inv_same kept_playback_hint by blast

lemma inv_playback_step: "core_inv C s \<Longrightarrow> core_inv C (playback_step C now ok s)"
  by (cases "q s")
     (auto simp: playback_step_def play_item_def Let_def doif_def quiet_out_def split: item.split
       intro!: inv_emit inv_hook inv_finish inv_playback_hint)

lemma inv_end_run: "core_inv C s \<Longrightarrow> core_inv C (end_run C now s)"
proof -
  assume inv: "core_inv C s"
  let ?s = "emit P_cancel (s\<lparr>barge_in := False, streaming := False\<rparr>)"
  have "core_inv C (core_pipeline_finish C now (?s\<lparr>quiet_abort := True\<rparr>))"
  proof (rule inv_kept [OF _ inv])
    have "kept s (?s\<lparr>quiet_abort := True\<rparr>)" by (simp add: keeps)
    then show "kept s (core_pipeline_finish C now (?s\<lparr>quiet_abort := True\<rparr>))" using kept_trans kept_pipeline_finish by blast
    show "state_shown (core_pipeline_finish C now (?s\<lparr>quiet_abort := True\<rparr>))"
      using core_inv_shown [OF inv] by (intro state_shown_finish) (simp add: state_shown_def lit_def)
    show "mic_ok C (core_pipeline_finish C now (?s\<lparr>quiet_abort := True\<rparr>))"
      using core_inv_mic [OF inv] by (intro mic_ok_finish) simp
  qed
  then show ?thesis using inv_finish [OF inv] by (simp add: end_run_def)
qed

lemma inv_transcript: "core_inv C s \<Longrightarrow> core_inv C (fst (core_transcript C now phrase t in_call paused s))"
  unfolding core_transcript_def Let_def if_distrib [of fst] fst_conv
  by (intro inv_intros inv_end_run inv_music_stop inv_emit; (assumption | simp add: quiet_out_def)?)

lemma inv_music: "core_inv C s \<Longrightarrow> core_inv C (core_music src on s)"
  unfolding core_music_def Let_def
  by (auto simp: quiet_out_def doif_def intro!: inv_playback_hint inv_emit)

lemma inv_listening_apply_call:
  "core_inv C s \<Longrightarrow> core_inv C (listening_apply (s\<lparr>listen_call := b\<rparr>))"
  by (rule inv_kept [of s]) (auto simp: keeps core_inv_def state_shown_def mic_ok_def)

lemma inv_sound_queue [simp]: "core_inv C (sound_queue x s) = core_inv C s"
  by (simp add: sound_queue_def)

lemma inv_dropin: "core_inv C s \<Longrightarrow> core_inv C (core_dropin C now x peer outgoing s)"
proof -
  assume inv: "core_inv C s"
  have leds: "\<forall>y\<in>set ((case dropin_led w of None \<Rightarrow> [] | Some p \<Rightarrow> [Led_unset p]) @
      (case dropin_led x of Some p \<Rightarrow> [Led_set p] | None \<Rightarrow> if w = DROPIN_LIVE then [Led_set ''call_connected_end''] else [])). quiet_out y" for w
    by (cases w; cases x) (simp_all add: quiet_out_def)
  show ?thesis
    unfolding core_dropin_def Let_def
    by (intro inv_intros inv_emit inv_emits inv_hook inv_listening_apply_call inv_sound_queue [THEN iffD2] leds inv)
       (simp_all add: quiet_out_def)
qed

lemma inv_dropin_listen: "core_inv C s \<Longrightarrow> core_inv C (core_dropin_listen on s)"
  unfolding core_dropin_listen_def by (intro inv_doif inv_listening_apply_call)

lemmas inv_ops = inv_set_state inv_remote_wake inv_wake_run_ended inv_run_over inv_mic_off inv_heard_end inv_finish inv_link inv_link_pause
  inv_error inv_no_speech inv_soft_mute inv_mute_latch inv_timer_running inv_timer_finished inv_timer_cancelled inv_alarm_stop inv_earcon
  inv_wake_noted inv_trigger inv_stop_word inv_timeout inv_tts_begin inv_playback_step inv_transcript inv_music inv_dropin inv_dropin_listen

lemma inv_step: "core_step C s t \<Longrightarrow> core_inv C s \<Longrightarrow> core_inv C t"
  by (induction rule: core_step.induct)
     (simp_all add: inv_ops core_restart_after_def core_tts_data_def core_tts_end_def core_tts_abandoned_def core_tts_flush_def q_push_def)

lemma inv_reachable: "reachable C s \<Longrightarrow> core_inv C s"
proof (induction rule: reachable.induct)
  case init
  then show ?case by (simp add: core0_def core_inv_def state_shown_def mic_ok_def mute_ok_def timers_ok_def core_muted_def lit_def)
next
  case (step s t)
  then show ?case using inv_step by blast
qed

section \<open>Who starts a request\<close>

definition starts :: "core \<Rightarrow> nat" where
  "starts s = length (filter (\<lambda>x. x = P_start) (outs s))"

lemma starts_led_for [simp]: "filter (\<lambda>x. x = P_start) (led_for a b) = []"
  by (cases a; cases b) (simp_all add: led_for_def)

lemma starts_simps [simp]:
  "starts (sound_request C x s) = starts s" "starts (listening b s) = starts s" "starts (afe_done s) = starts s"
  "starts (core_set_state now y s) = starts s" "starts (drop_wake_sounds s) = starts s" "starts (playback_hint s) = starts s"
  "h \<noteq> P_start \<Longrightarrow> starts (hook C k h s) = starts s" "starts (music_stop now p s) = starts s"
  by (simp_all add: starts_def sound_request_def sound_queue_def listening_def listening_apply_def afe_done_def core_set_state_def
      drop_wake_sounds_def playback_hint_def hook_def music_stop_def Let_def)

lemma starts_emit [simp]: "starts (emit x s) = starts s + (if x = P_start then 1 else 0)"
  by (simp add: starts_def)

lemma starts_upd [simp]:
  "starts (s\<lparr>barge_in := b\<rparr>) = starts s" "starts (s\<lparr>wake_fails := n\<rparr>) = starts s" "starts (s\<lparr>streaming := b\<rparr>) = starts s"
  "starts (s\<lparr>stop_cut := b\<rparr>) = starts s" "starts (s\<lparr>stop_ms := t\<rparr>) = starts s" "starts (s\<lparr>quiet_abort := b\<rparr>) = starts s"
  "starts (s\<lparr>flush_playback := b\<rparr>) = starts s" "starts (s\<lparr>alarm_on := b\<rparr>) = starts s" "starts (s\<lparr>ringing := r\<rparr>) = starts s"
  by (simp_all add: starts_def)

lemma starts_outs: "outs s' = outs s \<Longrightarrow> starts s' = starts s"
  by (simp add: starts_def)

lemma starts_finish_stop: "starts (finish_stop C now s) = starts s"
  by (simp add: finish_stop_def mic_stopped_def doif_def Let_def)

lemma starts_finish: "core_local_wake C \<Longrightarrow> \<not> barge_in s \<Longrightarrow> starts (core_pipeline_finish C now s) = starts s"
  by (simp add: pipeline_finish_parts restarts_def starts_finish_stop Let_def)

lemma starts_quiet_cancel: "core_local_wake C \<Longrightarrow> starts (quiet_cancel C now s) = starts s"
  using starts_finish [of C "emit P_cancel (s\<lparr>barge_in := False, streaming := False\<rparr>)" now]
  by (simp add: quiet_cancel_def)

lemma starts_timers_told: "starts (timers_told C s) = starts s"
  by (simp add: timers_told_def doif_def)

lemma starts_alarm_stop: "starts (core_alarm_stop C s) = starts s"
  by (simp add: core_alarm_stop_def starts_timers_told alarm_set_def)

lemma alarm_stop_sel: "alarm_on (core_alarm_stop C s) = False" "ringing (core_alarm_stop C s) = (if alarm_on s then [] else ringing s)"
  using kept_timers_told [of _ C] by (auto simp: core_alarm_stop_def keeps)

lemma stop_word_both:
  assumes loc: "core_local_wake C"
  shows "starts (stop_word C now in_call paused s) = starts s \<and> \<not> alarm_on (stop_word C now in_call paused s)"
proof -
  define s1 where "s1 = (doif in_call (emit Dropin_hangup) s)\<lparr>stop_ms := ms now\<rparr>"
  define s2 where "s2 = doif (alarm_on s1) (core_alarm_stop C) s1"
  define s3 where "s3 = s2\<lparr>stop_cut := ((in_call \<or> alarm_on s1) \<or> state s2 = SPEAKING \<or> state s2 = THINKING)\<rparr>"
  have "starts s3 = starts s" "\<not> alarm_on s3"
    by (simp_all add: s1_def s2_def s3_def doif_def starts_alarm_stop alarm_stop_sel)
  moreover have "starts (quiet_cancel C now x) = starts x \<and> alarm_on (quiet_cancel C now x) = alarm_on x" for x
    using starts_quiet_cancel [OF loc] by (simp add: quiet_cancel_def)
  moreover have "starts (core_pipeline_finish C now (x\<lparr>barge_in := False\<rparr>)) = starts x" for x
    using starts_finish [OF loc, of "x\<lparr>barge_in := False\<rparr>"] by simp
  moreover have "alarm_on (drop_wake_sounds x) = alarm_on x" "alarm_on (music_stop now paused x) = alarm_on x" for x
    by (simp_all add: drop_wake_sounds_def music_stop_def Let_def)
  ultimately show ?thesis
    unfolding stop_word_def Let_def s1_def [symmetric] s2_def [symmetric] s3_def [symmetric] by (simp add: doif_def)
qed

section \<open>Theorems\<close>



text \<open>
  ``Stop'' never starts anything: whatever it interrupts, no request to Home Assistant begins, and no timer rings afterwards.
\<close>

theorem stop_starts_nothing:
  assumes "core_local_wake C"
  shows "starts (stop_word C now in_call paused s) = starts s \<and> \<not> alarm_on (stop_word C now in_call paused s)"
  by (rule stop_word_both [OF assms])

text \<open>An Echo on ESPHome that hears its wake word, answers with a follow-up question, and is muted while it speaks.\<close>

definition esphome_conf :: conf where
  "esphome_conf = \<lparr>core_local_wake = True, hooks = {H_stop, H_cancel, H_played, H_mute_changed, H_timers_changed, H_dropin_changed, H_wake,
     H_reply_cut}, no_earcons = False\<rparr>"

definition noon :: clk where
  "noon = \<lparr>ms = 100000, secs = 1800000000\<rparr>"

definition woken :: core where
  "woken = trigger esphome_conf noon False 5 (core_link esphome_conf noon True True True core0)"

definition asked_back :: core where
  "asked_back = core_tts_end (core_soft_mute esphome_conf noon True
     (core_restart_after (core_tts_begin esphome_conf noon 8 1 (core_mic_off woken))))"

definition followed_up :: core where
  "followed_up = playback_step esphome_conf noon True (playback_step esphome_conf noon True asked_back)"

lemma lead_in_code [code]: "lead_in s = emits [P_audio 1024, P_audio 1024, P_audio 1024, P_audio 1024, P_audio 1024, P_audio 1024, P_audio 1024, P_audio 1024, P_audio 1024, P_audio 1024, P_audio 1024, P_audio 1024,
     P_audio 512] s"
  by (simp add: lead_in_def lead_in_loop.simps)

lemma reachable_woken: "reachable esphome_conf woken"
  unfolding woken_def by (rule reachable.step [OF _ core_step.trigger], rule reachable.step [OF reachable.init core_step.link])

lemma reachable_asked_back: "reachable esphome_conf asked_back"
  unfolding asked_back_def
  by (rule reachable.step [OF _ core_step.tts_end], rule reachable.step [OF _ core_step.soft_mute],
      rule reachable.step [OF _ core_step.restart_after], rule reachable.step [OF _ core_step.tts_begin],
      rule reachable.step [OF reachable_woken core_step.mic_off])

lemma reachable_followed_up: "reachable esphome_conf followed_up"
  unfolding followed_up_def
  by (rule reachable.step [OF _ core_step.playback], rule reachable.step [OF reachable_asked_back core_step.playback])



theorem stop_starts_nothing_witness:
  "starts (stop_word esphome_conf noon False True woken) = starts woken \<and> \<not> alarm_on (stop_word esphome_conf noon False True woken)"
  by (rule stop_starts_nothing) (simp add: esphome_conf_def)


end
