(* ===== verification/Scan.thy ===== *)
theory Scan
  imports Prelude
begin

text \<open>
  What the sources use of C's string functions beyond \<open>Prelude\<close>: \<open>strtol\<close>, the conversions of \<open>sscanf\<close>, \<open>strstr\<close>, \<open>fgets\<close>, hex digits; with the facts that
  relate them to what is printed.  A \<open>long\<close> has 32 bits, as on the Echo.
\<close>

section \<open>Numbers\<close>

text \<open>\<open>strtol(p, &end, 10)\<close>: \<open>None\<close> when there is no number.\<close>

definition strtol :: "bytes \<Rightarrow> int option" where
  "strtol p =
     (let q = dropWhile isspace p; neg = (q \<noteq> [] \<and> hd q = 45);
          ds = takeWhile isdigit (if q \<noteq> [] \<and> hd q \<in> {43, 45} then tl q else q);
          v = (if neg then - int (dec_val ds) else int (dec_val ds))
      in if ds = [] then None else Some (max (- (2 ^ 31)) (min (2 ^ 31 - 1) v)))"

definition atoi :: "bytes \<Rightarrow> int" where
  "atoi p = (case strtol p of None \<Rightarrow> 0 | Some v \<Rightarrow> v)"

text \<open>\<open>%u\<close> and \<open>%lu\<close>: white space, a sign, digits; a number too big is the biggest, a negative one wraps.\<close>

definition scan_ulong :: "bytes \<Rightarrow> nat option" where
  "scan_ulong p =
     (let q = dropWhile isspace p; neg = (q \<noteq> [] \<and> hd q = 45);
          ds = takeWhile isdigit (if q \<noteq> [] \<and> hd q \<in> {43, 45} then tl q else q); v = dec_val ds
      in if ds = [] then None else Some (if int v \<ge> 2 ^ 32 then 2 ^ 32 - 1 else if neg then nat ((- int v) mod 2 ^ 32) else v))"

lemma strtol_digits:
  assumes "r = [] \<or> \<not> isdigit (hd r)" "n < 2 ^ 31"
  shows "strtol (dec_digits n @ r) = Some (int n)"
  using assms digits_scan [OF assms(1), of n] dec_val_digits [of n] by (simp add: strtol_def Let_def)

lemma isspace_dropWhile: "isspace c \<Longrightarrow> scan_ulong (c # p) = scan_ulong p"
  by (simp add: scan_ulong_def)

lemma scan_ulong_digits:
  assumes "r = [] \<or> \<not> isdigit (hd r)" "n < 2 ^ 32"
  shows "scan_ulong (dec_digits n @ r) = Some n"
proof -
  note d = digits_scan [OF assms(1), of n]
  have "hd (dec_digits n) \<notin> {43, 45}" using d(2) by simp
  then show ?thesis using assms(2) d(1,3) dec_val_digits [of n] by (simp add: scan_ulong_def Let_def)
qed

text \<open>\<open>%<n>s\<close>: white space, then at most \<open>n\<close> other bytes; \<open>None\<close> when there are none.\<close>

definition scan_word :: "nat \<Rightarrow> bytes \<Rightarrow> (bytes \<times> bytes) option" where
  "scan_word n p = (let q = dropWhile isspace p; w = take n (takeWhile (\<lambda>c. \<not> isspace c) q)
     in if w = [] then None else Some (w, drop (length w) q))"

lemma scan_word_eq:
  assumes "w \<noteq> []" "length w \<le> n" "\<forall>c \<in> set w. \<not> isspace c" "r = [] \<or> isspace (hd r)"
  shows "scan_word n (w @ r) = Some (w, r)"
proof -
  have "dropWhile isspace (w @ r) = w @ r" using assms(1,3) by (cases w) auto
  moreover have "takeWhile (\<lambda>c. \<not> isspace c) (w @ r) = w"
  proof -
    have "takeWhile (\<lambda>c. \<not> isspace c) r = []" using assms(4) by (cases r) auto
    then show ?thesis using assms(3) by simp
  qed
  moreover have "0 < n" using assms(1,2) by (cases w) auto
  ultimately show ?thesis using assms(1,2) by (simp add: scan_word_def Let_def)
qed

lemma scan_word_space: "isspace c \<Longrightarrow> scan_word n (c # p) = scan_word n p"
  by (simp add: scan_word_def)

section \<open>Searching\<close>

definition starts_at :: "bytes \<Rightarrow> bytes \<Rightarrow> nat \<Rightarrow> bool" where
  "starts_at p s i \<longleftrightarrow> take (length p) (drop i s) = p"

definition strstr :: "bytes \<Rightarrow> bytes \<Rightarrow> nat option" where
  "strstr s p = List.find (starts_at p s) [0..<Suc (length s)]"

section \<open>Hex\<close>

definition hex1 :: "nat \<Rightarrow> byte" where
  "hex1 n = (if n < 10 then of_nat (48 + n) else of_nat (87 + n))"

definition hex2 :: "byte \<Rightarrow> bytes" where
  "hex2 b = [hex1 (unat b div 16), hex1 (unat b mod 16)]"

definition hexs :: "bytes \<Rightarrow> bytes" where
  "hexs bs = concat (map hex2 bs)"

lemma hexval_hex1: "n < 16 \<Longrightarrow> hexval (hex1 n) = Some n"
proof -
  have "list_all (\<lambda>n. hexval (hex1 n) = Some n) [0..<16]" by code_simp
  then show "n < 16 \<Longrightarrow> hexval (hex1 n) = Some n" by (simp add: list_all_iff)
qed

lemma length_hexs [simp]: "length (hexs bs) = 2 * length bs"
  by (induction bs) (simp_all add: hexs_def hex2_def)

lemma hex1_lower: "n < 16 \<Longrightarrow> hex1 n \<in> set (ascii ''0123456789abcdef'')"
proof -
  have "list_all (\<lambda>n. hex1 n \<in> set (ascii ''0123456789abcdef'')) [0..<16]" by code_simp
  then show "n < 16 \<Longrightarrow> hex1 n \<in> set (ascii ''0123456789abcdef'')" by (simp add: list_all_iff)
qed

lemma byte_nibbles: "unat (b :: byte) div 16 < 16" "unat b mod 16 < 16" "16 * (unat b div 16) + unat b mod 16 = unat b"
  using unsigned_less [of b, where ?'a = nat] by (simp_all add: div_less_iff_less_mult)

lemma hexs_lower: "set (hexs bs) \<subseteq> set (ascii ''0123456789abcdef'')"
  using hex1_lower byte_nibbles by (auto simp: hexs_def hex2_def)

section \<open>Files by lines\<close>

text \<open>\<open>fgets(line, cap, f)\<close> until the file is over, each up to its line end.\<close>

definition get_line :: "nat \<Rightarrow> bytes \<Rightarrow> bytes \<times> bytes" where
  "get_line cap b = (let t = take (max 1 (cap - 1)) b; l = takeWhile (\<lambda>c. c \<noteq> 10) t
     in if length l < length t then (l, drop (length l + 1) b) else (t, drop (length t) b))"

lemma get_line_less: "b \<noteq> [] \<Longrightarrow> length (snd (get_line cap b)) < length b"
  by (cases b) (auto simp: get_line_def Let_def)

function file_lines :: "nat \<Rightarrow> bytes \<Rightarrow> bytes list" where
  "file_lines cap b = (if b = [] then [] else cstr (takeWhile (\<lambda>c. c \<noteq> 13 \<and> c \<noteq> 10) (fst (get_line cap b))) # file_lines cap (snd (get_line cap b)))"
  by pat_completeness auto
termination by (relation "measure (\<lambda>(cap, b). length b)") (auto dest: get_line_less)

declare file_lines.simps [simp del]

end
