(* ===== verification/Wyoming.thy ===== *)
theory Wyoming
  imports Session_Ring Scan
begin

text \<open>
  The Wyoming protocol: its frames (\<^verbatim>\<open>wyoming.c\<close>) and the satellite that speaks it (\<^verbatim>\<open>proto_wyoming.c\<close>) over the
  session of \<open>Session\<close>.  The socket is the bytes still to come, after which the peer closes; \<open>writev\<close> takes as many bytes as an
  argument says.  A \<open>long\<close> has 32 bits, as on the Echo.
\<close>

section \<open>Key lookup\<close>

definition WY_MAX_JSON :: nat where "WY_MAX_JSON = 8192"
definition WY_MAX_PAYLOAD :: nat where "WY_MAX_PAYLOAD = 2 ^ 20"

abbreviation space :: byte where "space \<equiv> 32"

definition starts_with :: "bytes \<Rightarrow> bytes \<Rightarrow> bool" where
  "starts_with p s \<longleftrightarrow> take (length p) s = p"

definition key_pat :: "bytes \<Rightarrow> bytes" where
  "key_pat key = fit 64 (34 # key @ [34])"

lemma key_pat_pos: "0 < length (key_pat key)"
  by (simp add: key_pat_def fit_def)

function find_key :: "bytes \<Rightarrow> bytes \<Rightarrow> bytes option" where
  "find_key key p =
     (if starts_with (key_pat key) p
      then let q = dropWhile (\<lambda>c. c = space) (drop (length (key_pat key)) p)
           in if q \<noteq> [] \<and> hd q = 58 then Some (dropWhile (\<lambda>c. c = space) (tl q)) else find_key key q
      else case p of [] \<Rightarrow> None | c # r \<Rightarrow> find_key key r)"
  by pat_completeness auto
termination
proof (relation "measure (\<lambda>(key, p). length p)")
  fix key p q
  assume s: "starts_with (key_pat key) p" and q: "q = dropWhile (\<lambda>c. c = space) (drop (length (key_pat key)) p)"
  have "length (key_pat key) \<le> length p" using s by (metis starts_with_def length_take min.absorb_iff2 nat_le_linear take_all_iff)
  moreover have "length q \<le> length p - length (key_pat key)" using q length_dropWhile_le by (metis length_drop)
  ultimately show "((key, q), key, p) \<in> measure (\<lambda>(key, p). length p)" using key_pat_pos [of key] by (cases "key_pat key") auto
qed auto

declare find_key.simps [simp del]

definition wy_json_int :: "bytes \<Rightarrow> bytes \<Rightarrow> int option" where
  "wy_json_int json key = (case find_key key json of None \<Rightarrow> None | Some p \<Rightarrow> strtol p)"

fun str_loop :: "nat \<Rightarrow> bytes \<Rightarrow> bytes" where
  "str_loop 0 p = []"
| "str_loop (Suc n) [] = []"
| "str_loop (Suc n) [c] = (if c = 34 then [] else [c])"
| "str_loop (Suc n) (c # d # r) = (if c = 34 then [] else if c = 92 then d # str_loop n r else c # str_loop n (d # r))"

definition wy_json_str :: "nat \<Rightarrow> bytes \<Rightarrow> bytes \<Rightarrow> bytes option" where
  "wy_json_str cap json key = (case find_key key json of Some (c # p) \<Rightarrow> if c = 34 then Some (str_loop (cap - 1) p) else None | _ \<Rightarrow> None)"

section \<open>Reading and writing\<close>

text \<open>\<open>json\<close>: the header line, a line end and the data, up to its first NUL when read as a string.\<close>

record wy_event =
  wy_type :: bytes
  wy_json :: bytes
  wy_payload :: bytes

datatype 'a wy_result = Wy 'a bytes | Wy_closed | Wy_bad

fun read_line :: "bytes \<Rightarrow> bytes \<Rightarrow> bytes wy_result" where
  "read_line acc [] = Wy_closed"
| "read_line acc (c # r) = (if c = 10 then Wy acc r else if length acc + 1 \<ge> WY_MAX_JSON then Wy_bad else read_line (acc @ [c]) r)"

definition wy_body :: "bytes \<Rightarrow> bytes \<Rightarrow> nat \<Rightarrow> nat \<Rightarrow> bytes \<Rightarrow> wy_event wy_result" where
  "wy_body ty line dl pl r =
     (if length r < dl then Wy_closed
      else if length r - dl < pl then Wy_closed
      else Wy \<lparr>wy_type = ty, wy_json = cstr (if dl = 0 then line else line @ 10 # take dl r), wy_payload = take pl (drop dl r)\<rparr> (drop (dl + pl) r))"

definition wy_read :: "bytes \<Rightarrow> wy_event wy_result" where
  "wy_read str = (case read_line [] str of Wy_closed \<Rightarrow> Wy_closed | Wy_bad \<Rightarrow> Wy_bad
     | Wy line r \<Rightarrow> (case wy_json_str 48 (cstr line) (ascii ''type'') of None \<Rightarrow> Wy_bad
       | Some ty \<Rightarrow>
         (let dl = (case wy_json_int (cstr line) (ascii ''data_length'') of None \<Rightarrow> 0 | Some v \<Rightarrow> v);
              pl = (case wy_json_int (cstr line) (ascii ''payload_length'') of None \<Rightarrow> 0 | Some v \<Rightarrow> v)
          in if dl < 0 \<or> pl < 0 \<or> pl > int WY_MAX_PAYLOAD then Wy_bad
             else if dl \<noteq> 0 \<and> int (length line) + 1 + dl \<ge> int WY_MAX_JSON then Wy_bad
             else wy_body ty line (nat dl) (nat pl) r)))"

definition wy_head :: "bytes \<Rightarrow> nat \<Rightarrow> nat \<Rightarrow> bytes" where
  "wy_head ty dl pl = ascii ''{\"type\":\"'' @ ty @ ascii ''\",\"version\":\"1.5.4\"''
     @ (if dl = 0 then [] else ascii '',\"data_length\":'' @ dec_digits dl)
     @ (if pl = 0 then [] else ascii '',\"payload_length\":'' @ dec_digits pl) @ ascii ''}''"

text \<open>
  The buffers after \<open>writev\<close> took \<open>w\<close> bytes of them; and the loop over it, given how many bytes each call takes.  The bytes
  written, and whether all were; an empty list of calls is an error of the socket.
\<close>

fun advance :: "nat \<Rightarrow> bytes list \<Rightarrow> bytes list" where
  "advance w [] = []"
| "advance w (b # bs) = (if w = 0 then b # bs else if length b \<le> w then advance (w - length b) bs else drop w b # bs)"

lemma concat_advance: "concat (advance w iov) = drop w (concat iov)"
  by (induction iov arbitrary: w) auto

lemma length_advance: "length (advance w iov) \<le> length iov"
  by (induction iov arbitrary: w) (auto simp: le_SucI)

function wy_writev :: "bytes list \<Rightarrow> nat list \<Rightarrow> bytes \<times> bool" where
  "wy_writev [] ws = ([], True)"
| "wy_writev (b # bs) ws =
     (if b = [] then wy_writev bs ws
      else case ws of [] \<Rightarrow> ([], False)
      | w # ws' \<Rightarrow> (let k = min w (length (concat (b # bs))); (out, ok) = wy_writev (advance k (b # bs)) ws'
                   in (take k (concat (b # bs)) @ out, ok)))"
  by pat_completeness auto
termination by (relation "measures [\<lambda>(iov, ws). length ws, \<lambda>(iov, ws). length iov]") auto

definition wy_write :: "bytes \<Rightarrow> bytes \<Rightarrow> bytes \<Rightarrow> nat list \<Rightarrow> bytes \<times> bool" where
  "wy_write ty d payload ws = wy_writev [wy_head ty (length d) (length payload) @ [10], d, payload] ws"

section \<open>What is written is read back\<close>

lemma wy_writev_step:
  assumes "b \<noteq> []" "k = min w (length (concat (b # bs)))"
  shows "wy_writev (b # bs) (w # ws) =
     (take k (concat (b # bs)) @ fst (wy_writev (advance k (b # bs)) ws), snd (wy_writev (advance k (b # bs)) ws))"
  using assms by (simp add: Let_def case_prod_beta del: advance.simps)

declare wy_writev.simps(2) [simp del]

lemma wy_writev_all: "snd (wy_writev iov ws) \<Longrightarrow> fst (wy_writev iov ws) = concat iov"
proof (induction iov ws rule: wy_writev.induct)
  case (2 b bs ws)
  show ?case
  proof (cases "b = []")
    case True
    then show ?thesis using 2 by (simp add: wy_writev.simps(2))
  next
    case False
    then obtain w ws' where ws: "ws = w # ws'" using 2(3) by (cases ws) (auto simp: wy_writev.simps(2))
    define k where "k = min w (length (concat (b # bs)))"
    note step = wy_writev_step [OF False k_def, of ws']
    have "fst (wy_writev (advance k (b # bs)) ws') = drop k (concat (b # bs))"
      using 2(2) [OF False ws k_def] 2(3) ws step by (simp add: concat_advance del: advance.simps)
    then have "fst (wy_writev (b # bs) (w # ws')) = take k (concat (b # bs)) @ drop k (concat (b # bs))" using step by (metis fst_conv)
    then show ?thesis using ws by (metis append_take_drop_id)
  qed
qed simp

lemma wy_writev_done: "0 \<notin> set ws \<Longrightarrow> length (concat iov) \<le> length ws \<Longrightarrow> snd (wy_writev iov ws)"
proof (induction iov ws rule: wy_writev.induct)
  case (2 b bs ws)
  show ?case
  proof (cases "b = []")
    case True
    then show ?thesis using 2 by (simp add: wy_writev.simps(2))
  next
    case False
    then obtain w ws' where ws: "ws = w # ws'" using 2(4) by (cases ws) auto
    define k where "k = min w (length (concat (b # bs)))"
    have "0 < k" using False 2(3) ws by (auto simp: k_def)
    then have "length (concat (advance k (b # bs))) \<le> length ws'" using 2(4) ws by (simp add: concat_advance del: advance.simps)
    moreover have "0 \<notin> set ws'" using 2(3) ws by simp
    ultimately have "snd (wy_writev (advance k (b # bs)) ws')" using 2(2) [OF False ws k_def] by blast
    then show ?thesis using ws wy_writev_step [OF False k_def, of ws'] by simp
  qed
qed simp

text \<open>Looking for a key: what stands before its quote is passed over.\<close>

lemma find_key_skip: "34 \<notin> set xs \<Longrightarrow> find_key key (xs @ r) = find_key key r"
  by (induction xs) (auto simp: find_key.simps [of key "_ # _"] starts_with_def key_pat_def fit_def)

lemma find_key_skip1: "c \<noteq> 34 \<Longrightarrow> find_key key (c # r) = find_key key r"
  using find_key_skip [of "[c]"] by simp

lemma find_key_Nil [simp]: "find_key key [] = None"
  by (simp add: find_key.simps [of key "[]"] starts_with_def key_pat_def fit_def)

text \<open>A key, quoted.\<close>

definition plain_key :: "bytes \<Rightarrow> bool" where
  "plain_key key \<longleftrightarrow> 34 \<notin> set key \<and> length key < 60 \<and> key \<noteq> [] \<and> hd key \<notin> {34, 44, 58, 125}"

lemma key_pat_plain: "plain_key key \<Longrightarrow> key_pat key = 34 # key @ [34]"
  by (simp add: key_pat_def fit_id plain_key_def)

lemma starts_with_iff: "starts_with p s \<longleftrightarrow> (\<exists>t. s = p @ t)"
  by (metis append_eq_conv_conj append_take_drop_id starts_with_def)

lemma quote_split: "34 \<notin> set xs \<Longrightarrow> 34 \<notin> set ys \<Longrightarrow> xs @ 34 # r = ys @ (34 :: byte) # t \<Longrightarrow> xs = ys"
proof (induction xs arbitrary: ys)
  case Nil
  then show ?case by (cases ys) auto
next
  case (Cons x xs)
  then show ?case by (cases ys) auto
qed

lemma starts_with_quoted:
  assumes "34 \<notin> set key" "34 \<notin> set xs"
  shows "starts_with (34 # key @ [34]) (34 # xs @ 34 # r) \<longleftrightarrow> xs = key"
  using assms quote_split [of xs key r] by (auto simp: starts_with_iff)

lemma find_key_quote:
  assumes "plain_key key" "c \<in> {44, 58, 125}"
  shows "find_key key (34 # c # r) = find_key key (c # r)"
proof -
  have "\<not> starts_with (key_pat key) (34 # c # r)"
    using assms by (cases key) (auto simp: key_pat_plain starts_with_iff plain_key_def)
  then show ?thesis by (simp add: find_key.simps [of key "34 # c # r"])
qed

lemma find_key_string:
  assumes key: "plain_key key" and xs: "34 \<notin> set xs" and c: "c \<in> {44, 125}"
  shows "find_key key (34 # xs @ 34 # c # r) = find_key key (c # r)"
proof (cases "xs = key")
  case True
  then have "starts_with (key_pat key) (34 # xs @ 34 # c # r)"
    using key starts_with_quoted [of key key "c # r"] by (simp add: key_pat_plain plain_key_def)
  then show ?thesis
    using True key c by (auto simp: find_key.simps [of key "34 # key @ 34 # c # r"] key_pat_plain)
next
  case False
  then have "\<not> starts_with (key_pat key) (34 # xs @ 34 # c # r)"
    using key xs starts_with_quoted [of key xs "c # r"] by (simp add: key_pat_plain plain_key_def)
  then have "find_key key (34 # xs @ 34 # c # r) = find_key key (xs @ 34 # c # r)"
    by (simp add: find_key.simps [of key "34 # xs @ 34 # c # r"])
  also have "\<dots> = find_key key (34 # c # r)" by (rule find_key_skip [OF xs])
  also have "\<dots> = find_key key (c # r)"
    using find_key_quote [OF key] c by blast
  finally show ?thesis .
qed

lemma find_key_other:
  assumes key: "plain_key key" and xs: "34 \<notin> set xs" "xs \<noteq> key"
  shows "find_key key (34 # xs @ 34 # 58 # r) = find_key key r"
proof -
  have "\<not> starts_with (key_pat key) (34 # xs @ 34 # 58 # r)"
    using key xs starts_with_quoted [of key xs "58 # r"] by (simp add: key_pat_plain plain_key_def)
  then have "find_key key (34 # xs @ 34 # 58 # r) = find_key key (xs @ 34 # 58 # r)"
    by (simp add: find_key.simps [of key "34 # xs @ 34 # 58 # r"])
  also have "\<dots> = find_key key (34 # 58 # r)" by (rule find_key_skip [OF xs(1)])
  also have "\<dots> = find_key key (58 # r)"
    using find_key_quote [OF key] by blast
  finally show ?thesis by (simp add: find_key_skip1)
qed

lemma find_key_hit:
  assumes "plain_key key" "r = [] \<or> hd r \<noteq> space"
  shows "find_key key (34 # key @ 34 # 58 # r) = Some r"
proof -
  have "starts_with (key_pat key) (34 # key @ 34 # 58 # r)"
    using assms starts_with_quoted [of key key "58 # r"] by (simp add: key_pat_plain plain_key_def)
  moreover have "dropWhile (\<lambda>c. c = space) r = r" using assms(2) by (cases r) auto
  ultimately show ?thesis
    using assms by (simp add: find_key.simps [of key "34 # key @ 34 # 58 # r"] key_pat_plain)
qed

text \<open>The header line and what the reader finds in it.\<close>

lemma lits:
  "ascii ''type'' = [0x74, 0x79, 0x70, 0x65]"
  "ascii ''data_length'' = [0x64, 0x61, 0x74, 0x61, 0x5f, 0x6c, 0x65, 0x6e, 0x67, 0x74, 0x68]"
  "ascii ''payload_length'' = [0x70, 0x61, 0x79, 0x6c, 0x6f, 0x61, 0x64, 0x5f, 0x6c, 0x65, 0x6e, 0x67, 0x74, 0x68]"
  "ascii ''version'' = [0x76, 0x65, 0x72, 0x73, 0x69, 0x6f, 0x6e]"
  "ascii ''1.5.4'' = [0x31, 0x2e, 0x35, 0x2e, 0x34]"
  by code_simp+

lemma head_lits:
  "ascii ''{\"type\":\"'' = 123 # 34 # ascii ''type'' @ [34, 58, 34]"
  "ascii ''\",\"version\":\"1.5.4\"'' = 34 # 44 # 34 # ascii ''version'' @ 34 # 58 # 34 # ascii ''1.5.4'' @ [34]"
  "ascii '',\"data_length\":'' = 44 # 34 # ascii ''data_length'' @ [34, 58]"
  "ascii '',\"payload_length\":'' = 44 # 34 # ascii ''payload_length'' @ [34, 58]"
  "ascii ''}'' = [125]"
  by code_simp+

lemma plain_keys: "plain_key (ascii ''type'')" "plain_key (ascii ''data_length'')" "plain_key (ascii ''payload_length'')"
  by (simp_all add: plain_key_def lits)

definition wy_tail :: "nat \<Rightarrow> nat \<Rightarrow> bytes" where
  "wy_tail dl pl = (if dl = 0 then [] else 44 # 34 # ascii ''data_length'' @ 34 # 58 # dec_digits dl)
     @ (if pl = 0 then [] else 44 # 34 # ascii ''payload_length'' @ 34 # 58 # dec_digits pl) @ [125]"

lemma wy_head_parts:
  "wy_head ty dl pl = 123 # 34 # ascii ''type'' @ 34 # 58 # 34 # ty @ 34 # 44 # 34 # ascii ''version'' @ 34 # 58 # 34 # ascii ''1.5.4'' @ 34
     # wy_tail dl pl"
  by (simp add: wy_head_def head_lits wy_tail_def)

lemma digits_quote: "34 \<notin> set (dec_digits n)"
  using dec_digits_set [of 34 n] by auto

lemma tail_cons: "\<exists>c r. wy_tail dl pl = c # r \<and> c \<in> {44, 125}"
  by (simp add: wy_tail_def)

lemma find_key_head:
  assumes "plain_key key" "key \<noteq> ascii ''type''" "key \<noteq> ascii ''version''" "34 \<notin> set ty"
  shows "find_key key (wy_head ty dl pl) = find_key key (wy_tail dl pl)"
proof -
  obtain c r where t: "wy_tail dl pl = c # r" "c \<in> {44, 125}" using tail_cons by blast
  have "34 \<notin> set (ascii ''version'')" "34 \<notin> set (ascii ''1.5.4'')" "34 \<notin> set (ascii ''type'')" by (simp_all add: lits)
  then show ?thesis
    using assms t by (simp add: wy_head_parts find_key_skip1 find_key_other find_key_string)
qed

lemma find_key_type: "find_key (ascii ''type'') (wy_head ty dl pl) = Some (34 # ty @ 34 # 44 # 34 # ascii ''version'' @ 34 # 58 # 34 # ascii ''1.5.4'' @ 34
     # wy_tail dl pl)"
  by (simp add: wy_head_parts find_key_skip1 find_key_hit plain_keys)

lemma strtol_then: "c \<in> {44, 125} \<Longrightarrow> n < 2 ^ 31 \<Longrightarrow> strtol (dec_digits n @ c # r) = Some (int n)"
  by (rule strtol_digits) (auto simp: isdigit_def)

lemma hd_digits: "hd (dec_digits n @ r) \<noteq> space"
  using isdigit_dec [of "hd (dec_digits n)" n] by (auto simp: isdigit_def)

lemma json_int_data:
  assumes "34 \<notin> set ty" "dl < 2 ^ 31"
  shows "(case wy_json_int (wy_head ty dl pl) (ascii ''data_length'') of None \<Rightarrow> 0 | Some v \<Rightarrow> v) = int dl"
proof -
  have ne: "ascii ''data_length'' \<noteq> ascii ''type''" "ascii ''data_length'' \<noteq> ascii ''version''" "ascii ''payload_length'' \<noteq> ascii ''data_length''"
    by (simp_all add: lits)
  have q: "34 \<notin> set (ascii ''payload_length'')" by (simp add: lits)
  have none: "find_key (ascii ''data_length'') (wy_tail 0 pl) = None"
    using ne q digits_quote [of pl]
    by (auto simp: wy_tail_def find_key_skip1 find_key_skip find_key_other plain_keys)
  have some: "dl \<noteq> 0 \<Longrightarrow> \<exists>c r. find_key (ascii ''data_length'') (wy_tail dl pl) = Some (dec_digits dl @ c # r) \<and> c \<in> {44, 125}"
    using hd_digits by (auto simp: wy_tail_def find_key_skip1 find_key_hit plain_keys)
  show ?thesis
    using none some strtol_then assms(2)
    by (cases "dl = 0") (auto simp: wy_json_int_def find_key_head [OF plain_keys(2) ne(1,2) assms(1)])
qed

lemma json_int_payload:
  assumes "34 \<notin> set ty" "pl < 2 ^ 31"
  shows "(case wy_json_int (wy_head ty dl pl) (ascii ''payload_length'') of None \<Rightarrow> 0 | Some v \<Rightarrow> v) = int pl"
proof -
  have ne: "ascii ''payload_length'' \<noteq> ascii ''type''" "ascii ''payload_length'' \<noteq> ascii ''version''" "ascii ''data_length'' \<noteq> ascii ''payload_length''"
    by (simp_all add: lits)
  have q: "34 \<notin> set (ascii ''data_length'')" by (simp add: lits)
  have tail: "find_key (ascii ''payload_length'') (wy_tail dl pl) = find_key (ascii ''payload_length'') (wy_tail 0 pl)"
    using ne q digits_quote [of dl]
    by (simp add: wy_tail_def find_key_skip1 find_key_skip find_key_other plain_keys)
  have none: "find_key (ascii ''payload_length'') (wy_tail 0 0) = None" by (simp add: wy_tail_def find_key_skip1)
  have some: "pl \<noteq> 0 \<Longrightarrow> find_key (ascii ''payload_length'') (wy_tail 0 pl) = Some (dec_digits pl @ [125])"
    using hd_digits by (simp add: wy_tail_def find_key_skip1 find_key_hit plain_keys)
  show ?thesis
    using none some strtol_then [of 125 pl "[]"] assms(2) tail
    by (cases "pl = 0") (auto simp: wy_json_int_def find_key_head [OF plain_keys(3) ne(1,2) assms(1)])
qed

lemma str_loop_plain: "set xs \<inter> {34, 92} = {} \<Longrightarrow> length xs \<le> n \<Longrightarrow> str_loop n (xs @ 34 # r) = xs"
proof (induction xs arbitrary: n)
  case Nil
  then show ?case by (cases n; cases r) auto
next
  case (Cons x xs)
  then obtain m where n: "n = Suc m" by (cases n) auto
  obtain d t where d: "xs @ 34 # r = d # t" by (cases "xs @ 34 # r") auto
  have "str_loop (Suc m) (x # d # t) = x # str_loop m (d # t)" using Cons.prems by simp
  also have "str_loop m (d # t) = xs" using Cons n by (simp flip: d)
  finally show ?case using n d by simp
qed

lemma read_line_eq: "10 \<notin> set xs \<Longrightarrow> length acc + length xs < WY_MAX_JSON \<Longrightarrow> read_line acc (xs @ 10 # r) = Wy (acc @ xs) r"
  by (induction xs arbitrary: acc) (auto simp: WY_MAX_JSON_def)

definition wy_name :: "bytes \<Rightarrow> bool" where
  "wy_name ty \<longleftrightarrow> set ty \<inter> {0, 10, 34, 92} = {} \<and> length ty < 48"

lemma digits_plain: "c \<in> set (dec_digits n) \<Longrightarrow> c \<noteq> 0 \<and> c \<noteq> 10"
  using dec_digits_set [of c n] by auto

lemma head_plain: "wy_name ty \<Longrightarrow> c \<in> set (wy_head ty dl pl) \<Longrightarrow> c \<noteq> 0 \<and> c \<noteq> 10"
  using digits_plain by (auto simp: wy_head_parts wy_tail_def lits wy_name_def split: if_splits)

lemma wy_read_written:
  assumes ty: "wy_name ty" and d: "0 \<notin> set d" and small: "length (wy_head ty (length d) (length payload)) + 1 + length d < WY_MAX_JSON"
    "length payload \<le> WY_MAX_PAYLOAD"
  defines "line \<equiv> wy_head ty (length d) (length payload)"
  shows "wy_read (line @ 10 # d @ payload @ rest) =
    Wy \<lparr>wy_type = ty, wy_json = (if d = [] then line else line @ 10 # d), wy_payload = payload\<rparr> rest"
proof -
  have q: "34 \<notin> set ty" using ty by (simp add: wy_name_def)
  have r: "read_line [] (line @ 10 # d @ payload @ rest) = Wy line (d @ payload @ rest)"
    using read_line_eq [of line "[]"] head_plain [OF ty] small(1) by (auto simp: line_def)
  have z: "0 \<notin> set line" using head_plain [OF ty] by (auto simp: line_def)
  then have c: "cstr line = line" "cstr (line @ 10 # d) = line @ 10 # d" using d by (auto intro!: cstr_id)
  have t: "wy_json_str 48 line (ascii ''type'') = Some ty"
    using ty by (auto simp: wy_json_str_def line_def find_key_type wy_name_def intro!: str_loop_plain)
  have n: "(case wy_json_int line (ascii ''data_length'') of None \<Rightarrow> 0 | Some v \<Rightarrow> v) = int (length d)"
    unfolding line_def using small(1) by (intro json_int_data q) (simp add: WY_MAX_JSON_def)
  have m: "(case wy_json_int line (ascii ''payload_length'') of None \<Rightarrow> 0 | Some v \<Rightarrow> v) = int (length payload)"
    unfolding line_def using small(2) by (intro json_int_payload q) (simp add: WY_MAX_PAYLOAD_def)
  show ?thesis
    using small by (simp add: wy_read_def r t n m c Let_def wy_body_def line_def [symmetric])
qed

section \<open>The satellite\<close>

text \<open>
  What is fixed: the session's configuration, the names in the description.  The state: the session, whether a client is connected,
  the events sent to it.  A write that fails shuts the socket down, and the reader then ends: that is \<open>wy_close\<close>.
\<close>

record wy_conf =
  wy_session :: conf
  wy_core_name :: bytes
  wy_model :: bytes
  wy_version :: bytes

record wy =
  wy_core :: core
  wy_client :: bool
  wy_sent :: "(bytes \<times> bytes \<times> bytes) list"

definition wyoming_hooks :: "conf \<Rightarrow> conf" where
  "wyoming_hooks C = C\<lparr>hooks := {H_played}\<rparr>"

definition send_event :: "bytes \<Rightarrow> bytes \<Rightarrow> bytes \<Rightarrow> wy \<Rightarrow> wy" where
  "send_event ty d payload s = (if wy_client s then s\<lparr>wy_sent := wy_sent s @ [(ty, d, payload)]\<rparr> else s)"

definition wy_start :: "conf \<Rightarrow> bytes \<times> bytes \<times> bytes" where
  "wy_start C = (ascii ''run-pipeline'', ascii ''{\"start_stage\":\"'' @ ascii (if core_local_wake C then ''asr'' else ''wake'')
     @ ascii ''\",\"end_stage\":\"tts\",\"restart_on_end\":false'' @ ascii (if core_local_wake C then '',\"wake_word_name\":\"alexa\"'' else [])
     @ ascii ''}'', [])"

definition wy_audio :: "clk \<Rightarrow> bytes \<Rightarrow> bytes \<times> bytes \<times> bytes" where
  "wy_audio now pcm = (ascii ''audio-chunk'',
     ascii ''{\"rate\":16000,\"width\":2,\"channels\":1,\"timestamp\":'' @ dec_digits (nat (ms now)) @ ascii ''}'', pcm)"

text \<open>What the session asks of the protocol; the silence of \<open>lead_in\<close> is two zero bytes a sample.\<close>

fun wy_out :: "conf \<Rightarrow> clk \<Rightarrow> out \<Rightarrow> (bytes \<times> bytes \<times> bytes) option" where
  "wy_out C now P_start = Some (wy_start C)"
| "wy_out C now (P_audio n) = Some (wy_audio now (replicate (2 * n) 0))"
| "wy_out C now P_played = Some (ascii ''played'', [], [])"
| "wy_out C now _ = None"

definition on_core :: "wy_conf \<Rightarrow> clk \<Rightarrow> (conf \<Rightarrow> core \<Rightarrow> core) \<Rightarrow> wy \<Rightarrow> wy" where
  "on_core W now f s =
     (let C = wyoming_hooks (wy_session W); c = f C (wy_core s); new = drop (length (outs (wy_core s))) (outs c)
      in s\<lparr>wy_core := c, wy_sent := wy_sent s @ (if wy_client s then List.map_filter (wy_out C now) new else [])\<rparr>)"

definition wy_info :: "wy_conf \<Rightarrow> bytes" where
  "wy_info W = fit 1024 (ascii ''{\"asr\":[],\"tts\":[],\"handle\":[],\"intent\":[],\"wake\":[],\"mic\":[],\"snd\":[],\"satellite\":{\"name\":\"''
     @ wy_core_name W @ ascii ''\",\"attribution\":{\"name\":\"hassmic\",\"url\":\"\"},\"installed\":true,\"description\":\"'' @ wy_model W
     @ ascii '' with Amazon audio front end\",\"version\":\"'' @ wy_version W @ ascii ''\",\"area\":null,\"has_vad\":false,\"active_wake_words\":[''
     @ ascii (if core_local_wake (wy_session W) then ''\"alexa\"'' else []) @ ascii ''],\"max_active_wake_words\":1,\"supports_trigger\":true}}'')"

definition unsigned_of :: "int \<Rightarrow> nat" where
  "unsigned_of v = nat (v mod 2 ^ 32)"

definition int_or :: "int \<Rightarrow> bytes \<Rightarrow> string \<Rightarrow> int" where
  "int_or v json key = (case wy_json_int json (ascii key) of None \<Rightarrow> v | Some w \<Rightarrow> w)"

text \<open>\<open>handle\<close>.  \<open>wrote\<close>: the file of an adopted Echo could be written.\<close>

definition wy_handle :: "wy_conf \<Rightarrow> clk \<Rightarrow> bool \<Rightarrow> wy_event \<Rightarrow> wy \<Rightarrow> wy" where
  "wy_handle W now wrote ev s =
     (let t = wy_type ev; op = (\<lambda>f. on_core W now f s)
      in if t = ascii ''audio-chunk'' then op (\<lambda>C. core_tts_data (wy_payload ev))
         else if t = ascii ''ping'' then send_event (ascii ''pong'') [] [] s
         else if t = ascii ''describe'' then send_event (ascii ''info'') (wy_info W) [] s
         else if t = ascii ''run-satellite'' then op (\<lambda>C. core_link C now True True wrote)
         else if t = ascii ''pause-satellite'' then op (\<lambda>C. core_link_pause C now)
         else if t = ascii ''detection'' then op (\<lambda>C. core_set_state now LISTENING)
         else if t = ascii ''voice-stopped'' \<or> t = ascii ''transcript''
           then op (\<lambda>C c. let c1 = doif (t = ascii ''transcript'') core_mic_off c in doif (state c1 = LISTENING) (core_set_state now THINKING) c1)
         else if t = ascii ''audio-start''
           then op (\<lambda>C. core_tts_begin C now (unsigned_of (int_or 22050 (wy_json ev) ''rate'')) (unsigned_of (int_or 1 (wy_json ev) ''channels'')))
         else if t = ascii ''audio-stop'' then op (\<lambda>C. core_tts_end)
         else if t = ascii ''error''
           then (if wy_json_str 64 (wy_json ev) (ascii ''code'') = Some (ascii ''stt-no-text-recognized'')
                 then op (\<lambda>C. core_no_speech C now) else op (\<lambda>C. core_error C now))
         else s)"

definition wy_open :: "wy_conf \<Rightarrow> clk \<Rightarrow> wy \<Rightarrow> wy" where
  "wy_open W now s = on_core W now (\<lambda>C. core_link C now True False False) (s\<lparr>wy_client := True\<rparr>)"

definition wy_close :: "wy_conf \<Rightarrow> clk \<Rightarrow> wy \<Rightarrow> wy" where
  "wy_close W now s = on_core W now (\<lambda>C. core_link C now False False False) (s\<lparr>wy_client := False\<rparr>)"

text \<open>
  A connection at a time, between its messages anything else the session does that is not its link: \<open>wys W seen s\<close> is reached with the
  message types \<open>seen\<close> on the connection, newest first.
\<close>

inductive wys :: "wy_conf \<Rightarrow> bytes list \<Rightarrow> wy \<Rightarrow> bool" for W where
  start: "wys W [] \<lparr>wy_core = core0, wy_client = False, wy_sent = []\<rparr>"
| connect: "wys W seen s \<Longrightarrow> \<not> wy_client s \<Longrightarrow> wys W [] (wy_open W now s)"
| message: "wys W seen s \<Longrightarrow> wy_client s \<Longrightarrow> wys W (wy_type ev # seen) (wy_handle W now wrote ev s)"
| close: "wys W seen s \<Longrightarrow> wy_client s \<Longrightarrow> wys W [] (wy_close W now s)"
| other: "wys W seen s \<Longrightarrow> core_step (wyoming_hooks (wy_session W)) (wy_core s) c \<Longrightarrow> connected c = connected (wy_core s) \<Longrightarrow>
     satellite_running c = satellite_running (wy_core s) \<Longrightarrow> wys W seen (on_core W now (\<lambda>_ _. c) s)"

text \<open>The client has the satellite run: it said so after it last said to pause.\<close>

fun asked_to_run :: "bytes list \<Rightarrow> bool" where
  "asked_to_run [] = False"
| "asked_to_run (t # seen) = (if t = ascii ''run-satellite'' then True else if t = ascii ''pause-satellite'' then False else asked_to_run seen)"

section \<open>The link\<close>

lemma on_core_sel [simp]:
  "wy_core (on_core W now f s) = f (wyoming_hooks (wy_session W)) (wy_core s)" "wy_client (on_core W now f s) = wy_client s"
  by (simp_all add: on_core_def Let_def)

lemma send_event_sel [simp]: "wy_core (send_event t d p s) = wy_core s" "wy_client (send_event t d p s) = wy_client s"
  by (simp_all add: send_event_def)

definition link_same :: "core \<Rightarrow> core \<Rightarrow> bool" where
  "link_same c c' \<longleftrightarrow> connected c' = connected c \<and> satellite_running c' = satellite_running c"

lemma link_same_kept: "kept c c' \<Longrightarrow> link_same c c'"
  by (simp add: link_same_def kept_def)

lemma link_same_tts_begin: "link_same c (core_tts_begin C now r ch c)"
proof -
  have "kept c (core_mic_off c)" by (rule kept_mic_off)
  then show ?thesis
    by (simp add: link_same_def core_tts_begin_def wake_listen_def q_push_def doif_def Let_def kept_def core_mic_off_def)
qed

lemma link_same_ops:
  "link_same c (core_tts_data b c)" "link_same c (core_set_state now x c)" "link_same c (core_mic_off c)" "link_same c (core_tts_end c)"
  "link_same c (core_no_speech C now c)" "link_same c (core_error C now c)" "link_same c (core_tts_begin C now r ch c)"
  using link_same_kept [OF kept_set_state] link_same_kept [OF kept_mic_off] link_same_tts_begin
  by (auto simp: link_same_def core_tts_data_def core_tts_end_def q_push_def core_no_speech_def core_error_def doif_def Let_def)

definition wy_ok :: "wy_conf \<Rightarrow> bytes list \<Rightarrow> wy \<Rightarrow> bool" where
  "wy_ok W seen s \<longleftrightarrow> reachable (wyoming_hooks (wy_session W)) (wy_core s) \<and> connected (wy_core s) = wy_client s \<and>
     satellite_running (wy_core s) = asked_to_run seen"

lemma wy_ok_op:
  assumes "wy_ok W seen s" "asked_to_run seen' = asked_to_run seen"
    "\<And>C c. reachable C c \<Longrightarrow> reachable C (f C c) \<and> link_same c (f C c)"
  shows "wy_ok W seen' (on_core W now f s)"
  using assms by (auto simp: wy_ok_def link_same_def)

lemma link_sel: "connected (core_link C now up ready wrote c) = up" "satellite_running (core_link C now up ready wrote c) = (up \<and> ready)"
  by (simp_all add: core_link_def doif_def Let_def)

lemma wy_ok_link:
  assumes "wy_ok W seen s" "wy_client s' = up" "wy_core s' = wy_core s" "asked_to_run seen' = (up \<and> ready)"
  shows "wy_ok W seen' (on_core W now (\<lambda>C. core_link C now up ready wrote) s')"
  using assms reachable.step [OF _ core_step.link] by (simp add: wy_ok_def link_sel)

lemma wy_ok_pause:
  assumes "wy_ok W seen s" "wy_client s" "\<not> asked_to_run seen'"
  shows "wy_ok W seen' (on_core W now (\<lambda>C. core_link_pause C now) s)"
  using assms reachable.step [OF _ core_step.link_pause] by (simp add: wy_ok_def core_link_pause_def link_sel)

lemma asked_other: "t \<noteq> ascii ''run-satellite'' \<Longrightarrow> t \<noteq> ascii ''pause-satellite'' \<Longrightarrow> asked_to_run (t # seen) = asked_to_run seen"
  by simp

lemma heard_out_step:
  assumes "reachable C c"
  shows "reachable C (let c1 = doif b core_mic_off c in doif (state c1 = LISTENING) (core_set_state now THINKING) c1) \<and>
    link_same c (let c1 = doif b core_mic_off c in doif (state c1 = LISTENING) (core_set_state now THINKING) c1)"
proof -
  let ?c1 = "doif b core_mic_off c"
  have "reachable C ?c1" "link_same c ?c1"
    using assms reachable.step [OF assms core_step.mic_off] link_same_ops(3) [of c] by (simp_all add: doif_def link_same_def)
  then show ?thesis
    using reachable.step [OF _ core_step.set_state] link_same_ops(2) by (simp add: doif_def link_same_def Let_def)
qed

text \<open>The operations a message leads to, the link's apart.\<close>

lemma wy_ok_ops:
  assumes "wy_ok W seen s" "asked_to_run seen' = asked_to_run seen"
  shows "wy_ok W seen' (on_core W now (\<lambda>C. core_tts_data b) s)" "wy_ok W seen' (on_core W now (\<lambda>C. core_set_state now LISTENING) s)"
    "wy_ok W seen' (on_core W now (\<lambda>C. core_tts_begin C now r ch) s)" "wy_ok W seen' (on_core W now (\<lambda>C. core_tts_end) s)"
    "wy_ok W seen' (on_core W now (\<lambda>C. core_no_speech C now) s)" "wy_ok W seen' (on_core W now (\<lambda>C. core_error C now) s)"
    "wy_ok W seen' (on_core W now (\<lambda>C c. doif (state (doif x core_mic_off c) = LISTENING) (core_set_state now THINKING) (doif x core_mic_off c)) s)"
  using reachable.step [OF _ core_step.tts_data] reachable.step [OF _ core_step.set_state] reachable.step [OF _ core_step.tts_begin]
    reachable.step [OF _ core_step.tts_end] reachable.step [OF _ core_step.no_speech] reachable.step [OF _ core_step.error]
  by (auto intro!: wy_ok_op [OF assms] link_same_ops heard_out_step [unfolded Let_def])

lemma wy_if: "(b \<Longrightarrow> wy_ok W seen x) \<Longrightarrow> (\<not> b \<Longrightarrow> wy_ok W seen y) \<Longrightarrow> wy_ok W seen (if b then x else y)"
  by simp

lemma wy_ok_send: "wy_ok W seen s \<Longrightarrow> asked_to_run seen' = asked_to_run seen \<Longrightarrow> wy_ok W seen' (send_event t d p s)"
  by (simp add: wy_ok_def)

lemma type_lits:
  "ascii ''run-satellite'' \<noteq> ascii ''pause-satellite''" "ascii ''run-satellite'' \<noteq> ascii ''audio-chunk''" "ascii ''run-satellite'' \<noteq> ascii ''ping''"
  "ascii ''run-satellite'' \<noteq> ascii ''describe''" "ascii ''pause-satellite'' \<noteq> ascii ''audio-chunk''" "ascii ''pause-satellite'' \<noteq> ascii ''ping''"
  "ascii ''pause-satellite'' \<noteq> ascii ''describe''" "ascii ''pause-satellite'' \<noteq> ascii ''run-satellite''"
  by code_simp+

lemma wy_ok_handle:
  assumes ok: "wy_ok W seen s" and up: "wy_client s"
  shows "wy_ok W (wy_type ev # seen) (wy_handle W now wrote ev s)"
proof -
  consider (run) "wy_type ev = ascii ''run-satellite''" | (pause) "wy_type ev = ascii ''pause-satellite''"
    | (else) "wy_type ev \<noteq> ascii ''run-satellite''" "wy_type ev \<noteq> ascii ''pause-satellite''" by blast
  then show ?thesis
  proof cases
    case run
    then have "wy_handle W now wrote ev s = on_core W now (\<lambda>C. core_link C now True True wrote) s" by (simp add: wy_handle_def type_lits)
    then show ?thesis using wy_ok_link [OF ok, of s True "wy_type ev # seen" True now wrote] up run by simp
  next
    case pause
    then have "wy_handle W now wrote ev s = on_core W now (\<lambda>C. core_link_pause C now) s" by (simp add: wy_handle_def type_lits)
    then show ?thesis using wy_ok_pause [OF ok up, of "wy_type ev # seen" now] pause by (simp add: type_lits)
  next
    case else
    then have a: "asked_to_run (wy_type ev # seen) = asked_to_run seen" by simp
    have same: "wy_ok W (wy_type ev # seen) s" using ok a by (simp add: wy_ok_def)
    have "wy_handle W now wrote ev s = (if wy_type ev = ascii ''run-satellite'' \<or> wy_type ev = ascii ''pause-satellite'' then s else wy_handle W now wrote ev s)"
      using else by simp
    also have "wy_ok W (wy_type ev # seen) \<dots>"
      unfolding wy_handle_def Let_def if_not_P [OF else(1)] if_not_P [OF else(2)]
      by (intro wy_if wy_ok_send [OF ok a] wy_ok_ops [OF ok a] same)
    finally show ?thesis .
  qed
qed

lemma wys_ok: "wys W seen s \<Longrightarrow> wy_ok W seen s"
proof (induction rule: wys.induct)
  case start
  then show ?case using reachable.init by (simp add: wy_ok_def core0_def)
next
  case (connect seen s now)
  then show ?case unfolding wy_open_def by (intro wy_ok_link [of W seen s]) simp_all
next
  case (message seen s ev now wrote)
  then show ?case by (simp add: wy_ok_handle)
next
  case (close seen s now)
  then show ?case unfolding wy_close_def by (intro wy_ok_link [of W seen s]) simp_all
next
  case (other seen s c now)
  then show ?case by (auto simp: wy_ok_def intro: reachable.step)
qed

section \<open>Theorems\<close>

text \<open>
  C23. Frames arrive as they were sent: whatever parts \<open>writev\<close> takes, what \<open>wy_write\<close> has written is read by \<open>wy_read\<close> as one event of
  that type with that data and payload, and the stream goes on behind it.
\<close>

theorem wy_write_read:
  assumes "wy_name ty" "0 \<notin> set d" "length (wy_head ty (length d) (length payload)) + 1 + length d < WY_MAX_JSON"
    "length payload \<le> WY_MAX_PAYLOAD" "0 \<notin> set ws" "length (wy_head ty (length d) (length payload)) + 1 + length d + length payload \<le> length ws"
  shows "\<exists>out. wy_write ty d payload ws = (out, True) \<and>
     wy_read (out @ rest) = Wy \<lparr>wy_type = ty,
       wy_json = (if d = [] then wy_head ty 0 (length payload) else wy_head ty (length d) (length payload) @ 10 # d), wy_payload = payload\<rparr> rest"
proof -
  let ?line = "wy_head ty (length d) (length payload)"
  have "snd (wy_write ty d payload ws)" unfolding wy_write_def using assms(5,6) by (intro wy_writev_done) simp_all
  moreover have "fst (wy_write ty d payload ws) = ?line @ 10 # d @ payload"
    using calculation wy_writev_all unfolding wy_write_def by fastforce
  ultimately have "wy_write ty d payload ws = (?line @ 10 # d @ payload, True)" by (metis prod.collapse eq_True)
  then show ?thesis using wy_read_written [OF assms(1-4), of rest] by simp
qed

theorem wy_write_read_witness:
  "\<exists>out. wy_write (ascii ''pong'') (ascii ''{}'') [0, 1] (replicate 200 1) = (out, True) \<and>
     wy_read (out @ [7]) = Wy \<lparr>wy_type = ascii ''pong'', wy_json = wy_head (ascii ''pong'') 2 2 @ 10 # ascii ''{}'', wy_payload = [0, 1]\<rparr> [7]"
proof -
  have e: "wy_name (ascii ''pong'')" "0 \<notin> set (ascii ''{}'')" "ascii ''{}'' \<noteq> []" by code_simp+
  have "length (wy_head (ascii ''pong'') 2 2) < 90" by code_simp
  then have n: "length (wy_head (ascii ''pong'') (length (ascii ''{}'')) (length [0, 1 :: byte])) < 90" by (simp add: numeral_2_eq_2)
  have ws: "0 \<notin> set (replicate 200 (1 :: nat))" "length (replicate 200 (1 :: nat)) = 200" by simp_all
  have "\<exists>out. wy_write (ascii ''pong'') (ascii ''{}'') [0, 1] (replicate 200 1) = (out, True) \<and>
     wy_read (out @ [7]) = Wy \<lparr>wy_type = ascii ''pong'', wy_json = (if ascii ''{}'' = [] then wy_head (ascii ''pong'') 0 (length [0, 1 :: byte])
       else wy_head (ascii ''pong'') (length (ascii ''{}'')) (length [0, 1 :: byte]) @ 10 # ascii ''{}''), wy_payload = [0, 1]\<rparr> [7]"
    by (rule wy_write_read [OF e(1,2) _ _ ws(1)]) (use n ws(2) in \<open>simp_all add: WY_MAX_JSON_def WY_MAX_PAYLOAD_def\<close>)
  then show ?thesis using e(3) by (simp add: numeral_2_eq_2)
qed

text \<open>
  C12. Over Wyoming the microphone streams only to a client that is connected and had the satellite run after it last paused it, whatever
  messages it sends and whatever else goes on between them.
\<close>

theorem wyoming_mic_asked:
  assumes "wys W seen s" "streaming (wy_core s)"
  shows "wy_client s \<and> asked_to_run seen"
  using wys_ok [OF assms(1)] inv_reachable assms(2) by (fastforce simp: wy_ok_def core_inv_def mic_ok_def)

definition demo_wy :: wy_conf where
  "demo_wy = \<lparr>wy_session = esphome_conf, wy_core_name = ascii ''Echo'', wy_model = ascii ''Echo'', wy_version = ascii ''1''\<rparr>"

definition demo_ready :: wy where
  "demo_ready = wy_handle demo_wy noon True \<lparr>wy_type = ascii ''run-satellite'', wy_json = [], wy_payload = []\<rparr>
     (wy_open demo_wy noon \<lparr>wy_core = core0, wy_client = False, wy_sent = []\<rparr>)"

definition demo_woken :: wy where
  "demo_woken = on_core demo_wy noon (\<lambda>C. trigger C noon False 5) demo_ready"

lemma on_core_const: "on_core W now f s = on_core W now (\<lambda>_ _. f (wyoming_hooks (wy_session W)) (wy_core s)) s"
  by (simp add: on_core_def Let_def)

lemma demo_ready_wys: "wys demo_wy [ascii ''run-satellite''] demo_ready"
proof -
  have "wys demo_wy [wy_type \<lparr>wy_type = ascii ''run-satellite'', wy_json = [], wy_payload = []\<rparr>] demo_ready"
    unfolding demo_ready_def by (intro wys.message wys.connect [OF wys.start]) (simp_all add: wy_open_def)
  then show ?thesis by simp
qed

theorem wyoming_mic_asked_witness: "wys demo_wy [ascii ''run-satellite''] demo_woken \<and> streaming (wy_core demo_woken) \<and> wy_client demo_woken"
proof -
  let ?c = "trigger (wyoming_hooks (wy_session demo_wy)) noon False 5 (wy_core demo_ready)"
  have "connected ?c = connected (wy_core demo_ready)" "satellite_running ?c = satellite_running (wy_core demo_ready)" and st: "streaming ?c" by code_simp+
  then have "wys demo_wy [ascii ''run-satellite''] (on_core demo_wy noon (\<lambda>_ _. ?c) demo_ready)"
    by (intro wys.other [OF demo_ready_wys core_step.trigger])
  then have w: "wys demo_wy [ascii ''run-satellite''] demo_woken" unfolding demo_woken_def by (subst on_core_const)
  have "streaming (wy_core demo_woken)" unfolding demo_woken_def using st by simp
  then show ?thesis using wyoming_mic_asked [OF w] w by blast
qed

end
