(* ===== verification/Ota.thy ===== *)
theory Ota
  imports Scan
begin

text \<open>
  Updates on their way to root's installer (\<^verbatim>\<open>ota.c\<close>): the push port, the hand-over of a download, and adb over Wi-Fi asked for with the
  owner's key.  \<open>eddsa_check\<close> is Monocypher's: whether a signature is good for a key and a message.  The folder
  \<open>state/ota\<close> is a map from names to contents; whether a write works, what root answers and the nonce drawn are arguments.
\<close>

section \<open>State\<close>

type_synonym eddsa = "bytes \<Rightarrow> bytes \<Rightarrow> bytes \<Rightarrow> bool"

record ota =
  update_pub :: "bytes option"
  release_pub :: "bytes option"
  release_pub_path :: bytes
  ota_dir :: "string \<rightharpoonup> bytes"
  adb_asks :: nat
  ota_replies :: "bytes list"

definition MAX_BUNDLE :: nat where "MAX_BUNDLE = 16 * 2 ^ 20"

definition reply :: "bytes \<Rightarrow> ota \<Rightarrow> ota" where
  "reply line s = s\<lparr>ota_replies := ota_replies s @ [fit 300 (line @ [10])]\<rparr>"

definition store :: "string \<Rightarrow> bytes \<Rightarrow> bool \<Rightarrow> ota \<Rightarrow> ota" where
  "store name d ok s = (if ok then s\<lparr>ota_dir := (ota_dir s)(name \<mapsto> d)\<rparr> else s)"

definition load_key :: "bytes option \<Rightarrow> bytes option" where
  "load_key f = (case f of None \<Rightarrow> None | Some b \<Rightarrow> if length b < 32 then None else Some (take 32 b))"

section \<open>Challenge\<close>

text \<open>
  The peer's socket: the bytes it sends, after which it closes.  \<open>nonce\<close> is \<open>None\<close> when there is no randomness, \<open>up\<close> says whether the challenge
  could be written.  The result: whether it was met.
\<close>

definition challenge :: "eddsa \<Rightarrow> bytes \<Rightarrow> bytes \<Rightarrow> bytes option \<Rightarrow> bool \<Rightarrow> bytes \<Rightarrow> ota \<Rightarrow> bool \<times> ota" where
  "challenge E pk line nonce up str s = (case nonce of None \<Rightarrow> (False, reply (ascii ''FAILED no randomness'') s)
     | Some n \<Rightarrow>
       (let s1 = (if up then s\<lparr>ota_replies := ota_replies s @ [ascii ''NONCE '' @ hexs n @ [10]]\<rparr> else s)
        in if \<not> up \<or> length str < 64 then (False, reply (ascii ''FAILED no signature'') s1)
           else if \<not> E (take 64 str) pk (line @ 10 # n)
             then (False, reply (ascii ''FAILED signature does not verify against this device's update key'') s1)
           else (True, s1)))"

section \<open>Root's answer, and the bundle for it\<close>

text \<open>\<open>answer\<close>: the result file's first line, once it is there; \<open>None\<close> when root did not write it in time.\<close>

definition answer :: "nat \<Rightarrow> bytes option \<Rightarrow> bytes" where
  "answer cap file = (case file of
       None \<Rightarrow> fit cap (ascii ''FAILED the installer did not answer (is the hassmic_fw service running?)'')
     | Some f \<Rightarrow> (let res = cstr (takeWhile (\<lambda>c. c \<noteq> 10) (fit cap f)) in if res = [] then fit cap (ascii ''FAILED empty result'') else res))"

definition relay :: "bytes option \<Rightarrow> ota \<Rightarrow> ota" where
  "relay file s = reply (answer 256 file) s"

text \<open>\<open>stage\<close>; \<open>oks\<close>: which of the three writes work.\<close>

definition stage :: "bytes \<Rightarrow> bytes \<Rightarrow> bool \<times> bool \<times> bool \<Rightarrow> ota \<Rightarrow> bool \<times> ota" where
  "stage b sig oks s =
     (let (ok1, ok2, ok3) = oks;
          s0 = s\<lparr>ota_dir := (ota_dir s)(''result'' := None)\<rparr>;
          s1 = store ''bundle'' b ok1 s0;
          s2 = (if ok1 then store ''bundle.sig'' sig ok2 s1 else s1);
          s3 = (if ok1 \<and> ok2 then store ''request'' [49, 10] ok3 s2 else s2)
      in (ok1 \<and> ok2 \<and> ok3, s3))"

definition ota_handoff :: "eddsa \<Rightarrow> bytes \<Rightarrow> bytes \<Rightarrow> bool \<times> bool \<times> bool \<Rightarrow> bytes option \<Rightarrow> ota \<Rightarrow> (bool \<times> bytes) \<times> ota" where
  "ota_handoff E b sig oks file s = (case load_key (release_pub s) of
       None \<Rightarrow> ((False, fit 256 (ascii ''FAILED no release key on this device ('' @ release_pub_path s
         @ ascii ''): an update with it pushed or installed first'')), s)
     | Some pk \<Rightarrow>
       if \<not> E sig pk b then ((False, ascii ''FAILED signature does not verify against the release key''), s)
       else (let (ok, s1) = stage b sig oks s; res = (if ok then answer 256 file else ascii ''FAILED cannot store the bundle'')
             in ((take 2 res = ascii ''OK'', res), s1)))"

definition ota_healthy :: "bool \<Rightarrow> ota \<Rightarrow> ota" where
  "ota_healthy ok s = store ''healthy'' [49, 10] ok s"

section \<open>The push port\<close>

definition adb_open :: "eddsa \<Rightarrow> bytes \<Rightarrow> bytes option \<Rightarrow> bool \<Rightarrow> bool \<Rightarrow> bytes \<Rightarrow> ota \<Rightarrow> ota" where
  "adb_open E pk nonce up granted str s =
     (let (ok, s1) = challenge E pk (ascii ''HMOTA-ADB1'') nonce up str s
      in if \<not> ok then s1
         else reply (if granted then ascii ''OK adb over Wi-Fi open for 30 min''
                     else ascii ''FAILED the firewall service did not answer (is hassmic_fw running?)'') (s1\<lparr>adb_asks := adb_asks s1 + 1\<rparr>))"

text \<open>The request line, byte by byte: at most 127 of them, the line end is taken with it.\<close>

fun request_line :: "nat \<Rightarrow> bytes \<Rightarrow> bytes \<times> bytes" where
  "request_line 0 str = ([], str)"
| "request_line (Suc n) [] = ([], [])"
| "request_line (Suc n) (c # r) = (if c = 10 then ([], r) else (let (l, r') = request_line n r in (c # l, r')))"

definition push_len :: "bytes \<Rightarrow> nat option" where
  "push_len line = (if take 11 line \<noteq> ascii ''HMOTA-PUSH1'' then None else scan_ulong (drop 11 line))"

record ota_io =
  io_nonce :: "bytes option"
  io_up :: bool
  io_granted :: bool
  io_mem :: bool
  io_oks :: "bool \<times> bool \<times> bool"
  io_result :: "bytes option"

definition ota_handle :: "eddsa \<Rightarrow> ota_io \<Rightarrow> bytes \<Rightarrow> ota \<Rightarrow> ota" where
  "ota_handle E io str s =
     (let (raw, r) = request_line 127 str; line = cstr raw; adb = (line = ascii ''HMOTA-ADB1''); len = push_len line
      in if \<not> adb \<and> (case len of None \<Rightarrow> True | Some n \<Rightarrow> n = 0 \<or> n > MAX_BUNDLE) then reply (ascii ''FAILED bad request'') s
         else case load_key (update_pub s) of
           None \<Rightarrow> reply (ascii ''FAILED this device has no update key (install-system.sh installs it)'') s
         | Some pk \<Rightarrow>
           if adb then adb_open E pk (io_nonce io) (io_up io) (io_granted io) r s
           else (let n = the len; sig = take 64 r; b = take n (drop 64 r)
                 in if \<not> io_mem io then reply (ascii ''FAILED out of memory'') s
                    else if length r < 64 + n then reply (ascii ''FAILED upload incomplete'') s
                    else if \<not> E sig pk b then reply (ascii ''FAILED signature does not verify against this device's update key'') s
                    else (let (ok, s1) = stage b sig (io_oks io) s
                          in if \<not> ok then reply (ascii ''FAILED cannot store the bundle'') s1 else relay (io_result io) s1)))"

section \<open>Every way to the installer\<close>

text \<open>
  What changes the folder: pushes, downloads handed over, the self test; and root, which takes the request, writes its result and may
  clear the bundle away, but puts none there.
\<close>

inductive ota_step :: "eddsa \<Rightarrow> ota \<Rightarrow> ota \<Rightarrow> bool" for E where
  push: "ota_step E s (ota_handle E io str s)"
| download: "ota_step E s (snd (ota_handoff E b sig oks file s))"
| healthy: "ota_step E s (ota_healthy ok s)"
| root: "d ''bundle'' \<in> {None, ota_dir s ''bundle''} \<Longrightarrow> ota_step E s (s\<lparr>ota_dir := d\<rparr>)"

definition signed :: "eddsa \<Rightarrow> ota \<Rightarrow> bytes \<Rightarrow> bool" where
  "signed E s b \<longleftrightarrow> (\<exists>pk sig. (load_key (update_pub s) = Some pk \<or> load_key (release_pub s) = Some pk) \<and> E sig pk b)"

definition ota_ok :: "eddsa \<Rightarrow> ota \<Rightarrow> bool" where
  "ota_ok E s \<longleftrightarrow> (\<forall>b. ota_dir s ''bundle'' = Some b \<longrightarrow> signed E s b)"

lemma reply_sel [simp]: "ota_dir (reply l s) = ota_dir s" "adb_asks (reply l s) = adb_asks s" "update_pub (reply l s) = update_pub s"
  "release_pub (reply l s) = release_pub s" "ota_replies (reply l s) = ota_replies s @ [fit 300 (l @ [10])]"
  by (simp_all add: reply_def)

lemma relay_sel [simp]: "ota_dir (relay f s) = ota_dir s" "adb_asks (relay f s) = adb_asks s" "update_pub (relay f s) = update_pub s"
  "release_pub (relay f s) = release_pub s"
  by (simp_all add: relay_def)

lemma stage_sel:
  "ota_dir (snd (stage b sig oks s)) ''bundle'' \<in> {Some b, ota_dir s ''bundle''}" "adb_asks (snd (stage b sig oks s)) = adb_asks s"
  "update_pub (snd (stage b sig oks s)) = update_pub s" "release_pub (snd (stage b sig oks s)) = release_pub s"
  by (cases oks; simp add: stage_def store_def Let_def)+

lemma stage_bundle: "\<exists>d. stage b sig oks s = (d, snd (stage b sig oks s))"
  by (metis surjective_pairing)

text \<open>What an operation may do: keep the keys, and put only a bundle there that was checked.\<close>

definition ota_safe :: "eddsa \<Rightarrow> ota \<Rightarrow> ota \<Rightarrow> bool" where
  "ota_safe E s s' \<longleftrightarrow> update_pub s' = update_pub s \<and> release_pub s' = release_pub s \<and>
     (ota_dir s' ''bundle'' \<in> {None, ota_dir s ''bundle''} \<or> (\<exists>b. ota_dir s' ''bundle'' = Some b \<and> signed E s b))"

lemma ota_safe_refl: "ota_dir s' = ota_dir s \<Longrightarrow> update_pub s' = update_pub s \<Longrightarrow> release_pub s' = release_pub s \<Longrightarrow> ota_safe E s s'"
  by (simp add: ota_safe_def)

lemma ota_safe_stage: "signed E s b \<Longrightarrow> ota_safe E s (snd (stage b sig oks s))"
  using stage_sel [of b sig oks s] by (auto simp: ota_safe_def)

lemma ota_safe_say: "ota_safe E s t \<Longrightarrow> ota_safe E s (reply l t)" "ota_safe E s t \<Longrightarrow> ota_safe E s (relay f t)"
  by (simp_all add: ota_safe_def)

lemma challenge_sel: "ota_dir (snd (challenge E pk l n up str s)) = ota_dir s" "update_pub (snd (challenge E pk l n up str s)) = update_pub s"
  "release_pub (snd (challenge E pk l n up str s)) = release_pub s" "adb_asks (snd (challenge E pk l n up str s)) = adb_asks s"
  by (simp_all add: challenge_def Let_def split: option.split)

lemma adb_open_sel: "ota_dir (adb_open E pk n up g str s) = ota_dir s" "update_pub (adb_open E pk n up g str s) = update_pub s"
  "release_pub (adb_open E pk n up g str s) = release_pub s"
  using challenge_sel [of E pk "ascii ''HMOTA-ADB1''" n up str s] by (simp_all add: adb_open_def Let_def case_prod_beta)

lemma ota_safe_handle: "ota_safe E s (ota_handle E io str s)"
proof -
  have "signed E s b" if "load_key (update_pub s) = Some pk" "E sig pk b" for pk sig b using that by (auto simp: signed_def)
  then show ?thesis
    by (auto simp: ota_handle_def Let_def case_prod_beta adb_open_sel split: option.split
        intro!: ota_safe_say ota_safe_stage intro: ota_safe_refl)
qed

lemma ota_safe_handoff: "ota_safe E s (snd (ota_handoff E b sig oks file s))"
proof -
  have "signed E s b" if "load_key (release_pub s) = Some pk" "E sig pk b" for pk using that by (auto simp: signed_def)
  then show ?thesis
    by (auto simp: ota_handoff_def Let_def case_prod_beta split: option.split intro!: ota_safe_stage intro: ota_safe_refl)
qed

lemma ota_step_safe: "ota_step E s t \<Longrightarrow> ota_safe E s t"
proof (induction rule: ota_step.induct)
  case (healthy s ok)
  then show ?case by (simp add: ota_healthy_def store_def ota_safe_def)
next
  case (root d s)
  then show ?case by (auto simp: ota_safe_def)
qed (rule ota_safe_handle ota_safe_handoff)+

lemma signed_cong: "update_pub t = update_pub s \<Longrightarrow> release_pub t = release_pub s \<Longrightarrow> signed E t b = signed E s b"
  by (simp add: signed_def)

lemma ota_ok_step: "ota_ok E s \<Longrightarrow> ota_safe E s t \<Longrightarrow> ota_ok E t"
  using signed_cong [of t s E] by (auto simp: ota_ok_def ota_safe_def)

lemma staged_signed: "ota_ok E s \<Longrightarrow> (ota_step E)\<^sup>*\<^sup>* s t \<Longrightarrow> ota_ok E t"
  by (rotate_tac 1, induction rule: rtranclp_induct) (auto dest: ota_step_safe ota_ok_step)

section \<open>A push by the owner\<close>

lemma request_line_eq: "10 \<notin> set l \<Longrightarrow> length l < n \<Longrightarrow> request_line n (l @ 10 # r) = (l, r)"
proof (induction l arbitrary: n)
  case Nil
  then show ?case by (cases n) auto
next
  case (Cons c l)
  then show ?case by (cases n) auto
qed

definition push_line :: "nat \<Rightarrow> bytes" where
  "push_line n = ascii ''HMOTA-PUSH1'' @ 32 # dec_digits n"

lemma push_line_len: "n < 2 ^ 32 \<Longrightarrow> push_len (push_line n) = Some n"
  using scan_ulong_digits [of "[]" n] by (simp add: push_len_def push_line_def isspace_dropWhile isspace_def)

lemma push_line_plain: "c \<in> set (push_line n) \<Longrightarrow> c \<noteq> 10 \<and> c \<noteq> 0"
proof -
  have "ascii ''HMOTA-PUSH1'' = [72, 77, 79, 84, 65, 45, 80, 85, 83, 72, 49]" by code_simp
  then show "c \<in> set (push_line n) \<Longrightarrow> c \<noteq> 10 \<and> c \<noteq> 0" using dec_digits_set [of c n] by (auto simp: push_line_def)
qed

lemma push_staged:
  assumes "load_key (update_pub s) = Some pk" "E sig pk b" "length sig = 64" "b \<noteq> []" "length b \<le> MAX_BUNDLE" "io_mem io" "io_oks io = (True, True, True)"
  shows "ota_dir (ota_handle E io (push_line (length b) @ 10 # sig @ b) s) =
      (ota_dir s)(''result'' := None, ''bundle'' \<mapsto> b, ''bundle.sig'' \<mapsto> sig, ''request'' \<mapsto> [49, 10]) \<and>
    ota_replies (ota_handle E io (push_line (length b) @ 10 # sig @ b) s) = ota_replies s @ [fit 300 (answer 256 (io_result io) @ [10])]"
proof -
  let ?n = "length b"
  have n: "?n < 2 ^ 32" "?n < 10 ^ Suc 8" using assms(5) by (simp_all add: MAX_BUNDLE_def)
  have "length (push_line ?n) < 127" using length_dec_digits [OF n(2)] by (simp add: push_line_def)
  then have r: "request_line 127 (push_line ?n @ 10 # sig @ b) = (push_line ?n, sig @ b)"
    using push_line_plain by (intro request_line_eq) blast+
  have c: "cstr (push_line ?n) = push_line ?n" using push_line_plain by (intro cstr_id) blast
  have a: "push_line ?n \<noteq> ascii ''HMOTA-ADB1''"
  proof
    assume "push_line ?n = ascii ''HMOTA-ADB1''"
    then have "length (push_line ?n) = 10" by simp
    then show False by (simp add: push_line_def)
  qed
  show ?thesis
    using assms a by (simp add: ota_handle_def r c push_line_len [OF n(1)] Let_def stage_def store_def relay_def)
qed

section \<open>Theorems\<close>

text \<open>
  Nothing unsigned reaches root's installer: whatever is sent to the push port and handed over from downloads, in whatever order and with whatever
  writes failing, the bundle in \<open>state/ota\<close> verifies against the owner's or the release key.
\<close>

theorem only_signed_staged:
  assumes "(ota_step E)\<^sup>*\<^sup>* s t" "ota_dir s ''bundle'' = None" "ota_dir t ''bundle'' = Some b"
  shows "\<exists>pk sig. (load_key (update_pub t) = Some pk \<or> load_key (release_pub t) = Some pk) \<and> E sig pk b"
proof -
  have "ota_ok E s" using assms(2) by (simp add: ota_ok_def)
  then have "ota_ok E t" using staged_signed assms(1) by blast
  then show ?thesis using assms(3) by (simp add: ota_ok_def signed_def)
qed

text \<open>
  C14. adb over Wi-Fi is asked for only by who signs this connection's nonce with the owner's key: the request line, then a signature that is good
  for the line and the nonce.
\<close>

theorem adb_needs_owner:
  assumes "adb_asks (ota_handle E io str s) \<noteq> adb_asks s"
  shows "\<exists>pk n line sig rest. load_key (update_pub s) = Some pk \<and> io_nonce io = Some n \<and> request_line 127 str = (line, sig @ rest) \<and>
     length sig = 64 \<and> E sig pk (ascii ''HMOTA-ADB1'' @ 10 # n)"
proof -
  obtain line r where l: "request_line 127 str = (line, r)" by (cases "request_line 127 str")
  obtain pk where pk: "load_key (update_pub s) = Some pk" "adb_asks (adb_open E pk (io_nonce io) (io_up io) (io_granted io) r s) \<noteq> adb_asks s"
    using assms stage_sel(2) by (auto simp: ota_handle_def l Let_def case_prod_beta split: option.splits if_splits)
  then obtain n where "io_nonce io = Some n" "64 \<le> length r" "E (take 64 r) pk (ascii ''HMOTA-ADB1'' @ 10 # n)"
    by (auto simp: adb_open_def challenge_def Let_def split: option.splits if_splits)
  moreover have "request_line 127 str = (line, take 64 r @ drop 64 r)" using l by simp
  ultimately show ?thesis
    using pk(1) by (intro exI [of _ pk] exI [of _ n] exI [of _ line] exI [of _ "take 64 r"] exI [of _ "drop 64 r"]) simp
qed

text \<open>
  The owner's update gets through: a push whose signature is good is stored whole, bundle, signature and request, and the pusher is told what
  root says.
\<close>

theorem owner_push_staged:
  assumes "load_key (update_pub s) = Some pk" "E sig pk b" "length sig = 64" "b \<noteq> []" "length b \<le> MAX_BUNDLE" "io_mem io" "io_oks io = (True, True, True)"
  shows "ota_dir (ota_handle E io (push_line (length b) @ 10 # sig @ b) s) =
      (ota_dir s)(''result'' := None, ''bundle'' \<mapsto> b, ''bundle.sig'' \<mapsto> sig, ''request'' \<mapsto> [49, 10]) \<and>
    ota_replies (ota_handle E io (push_line (length b) @ 10 # sig @ b) s) = ota_replies s @ [fit 300 (answer 256 (io_result io) @ [10])]"
  by (rule push_staged [where E = E, OF assms])

definition toy_eddsa :: eddsa where
  "toy_eddsa sig pk m \<longleftrightarrow> take 32 sig = pk \<and> drop 32 sig = take 32 (m @ replicate 32 0)"

definition toy_ota :: ota where
  "toy_ota = \<lparr>update_pub = Some (replicate 32 7), release_pub = None, release_pub_path = [], ota_dir = Map.empty, adb_asks = 0, ota_replies = []\<rparr>"

definition toy_io :: ota_io where
  "toy_io = \<lparr>io_nonce = Some (replicate 32 5), io_up = True, io_granted = True, io_mem = True, io_oks = (True, True, True), io_result = Some (ascii ''OK 1'')\<rparr>"

definition toy_sig :: bytes where
  "toy_sig = replicate 32 7 @ [1, 2, 3] @ replicate 29 0"

definition toy_pushed :: ota where
  "toy_pushed = ota_handle toy_eddsa toy_io (push_line 3 @ 10 # toy_sig @ [1, 2, 3]) toy_ota"

lemma toy_signed: "load_key (update_pub toy_ota) = Some (replicate 32 7)" "toy_eddsa toy_sig (replicate 32 7) [1, 2, 3]" "length toy_sig = 64"
  by code_simp+

theorem owner_push_staged_witness:
  "ota_dir toy_pushed ''bundle'' = Some [1, 2, 3] \<and> ota_dir toy_pushed ''request'' = Some [49, 10] \<and> ota_replies toy_pushed = [ascii ''OK 1'' @ [10]]"
proof -
  have "ota_dir toy_pushed = (ota_dir toy_ota)(''result'' := None, ''bundle'' \<mapsto> [1, 2, 3], ''bundle.sig'' \<mapsto> toy_sig, ''request'' \<mapsto> [49, 10]) \<and>
      ota_replies toy_pushed = ota_replies toy_ota @ [fit 300 (answer 256 (io_result toy_io) @ [10])]"
    using owner_push_staged [where E = toy_eddsa and s = toy_ota and sig = toy_sig and b = "[1, 2, 3]", OF toy_signed, of toy_io] by (simp add: toy_pushed_def toy_io_def MAX_BUNDLE_def numeral_3_eq_3)
  moreover have "fit 300 (answer 256 (io_result toy_io) @ [10]) = ascii ''OK 1'' @ [10]" "ota_replies toy_ota = []" by code_simp+
  ultimately show ?thesis by simp
qed

theorem only_signed_staged_witness:
  "\<exists>pk sig. (load_key (update_pub toy_pushed) = Some pk \<or> load_key (release_pub toy_pushed) = Some pk) \<and> toy_eddsa sig pk [1, 2, 3]"
proof (rule only_signed_staged)
  show "(ota_step toy_eddsa)\<^sup>*\<^sup>* toy_ota toy_pushed" unfolding toy_pushed_def by (intro r_into_rtranclp ota_step.push)
  show "ota_dir toy_ota ''bundle'' = None" by (simp add: toy_ota_def)
  show "ota_dir toy_pushed ''bundle'' = Some [1, 2, 3]"
    using push_staged [where E = toy_eddsa and s = toy_ota and sig = toy_sig and b = "[1, 2, 3]", OF toy_signed, of toy_io] by (simp add: toy_pushed_def toy_io_def MAX_BUNDLE_def numeral_3_eq_3)
qed

definition toy_adb :: bytes where
  "toy_adb = ascii ''HMOTA-ADB1'' @ 10 # replicate 32 7 @ take 32 (ascii ''HMOTA-ADB1'' @ 10 # replicate 32 5)"

theorem adb_needs_owner_witness:
  "adb_asks (ota_handle toy_eddsa toy_io toy_adb toy_ota) = 1 \<and>
   (\<exists>pk n line sig rest. load_key (update_pub toy_ota) = Some pk \<and> io_nonce toy_io = Some n \<and> request_line 127 toy_adb = (line, sig @ rest) \<and>
     length sig = 64 \<and> toy_eddsa sig pk (ascii ''HMOTA-ADB1'' @ 10 # n))"
proof -
  have a: "adb_asks (ota_handle toy_eddsa toy_io toy_adb toy_ota) = 1" "adb_asks toy_ota = 0" by code_simp+
  then have "adb_asks (ota_handle toy_eddsa toy_io toy_adb toy_ota) \<noteq> adb_asks toy_ota" by simp
  from adb_needs_owner [OF this] show ?thesis using a(1) by blast
qed

end
