(* ===== verification/Update.thy ===== *)
theory Update
  imports Ota
begin

text \<open>
  Online updates (\<^verbatim>\<open>update.c\<close>): the reader of GitHub's answers, the look for the newest build of a channel, its download and the hand-over to
  \<open>Ota\<close>, and the thread's round.  What a URL gives (libcurl) is an argument; the percentage shown during a download is left out.
\<close>

section \<open>The few fields of GitHub's answer\<close>

definition nibble :: "byte \<Rightarrow> nat" where
  "nibble c = (if isdigit c then unat c - 48 else nat ((int (unat (tolower c)) - 97 + 10) mod 16))"

definition utf8_of :: "nat \<Rightarrow> bytes" where
  "utf8_of n = (let u = (if 0xd800 \<le> n \<and> n < 0xe000 then 0xfffd else n)
     in if u < 0x80 then [of_nat u]
        else if u < 0x800 then [of_nat (0xc0 + u div 64), of_nat (0x80 + u mod 64)]
        else [of_nat (0xe0 + u div 4096), of_nat (0x80 + u div 64 mod 64), of_nat (0x80 + u mod 64)])"

definition cont :: "byte \<Rightarrow> bool" where
  "cont c \<longleftrightarrow> c AND 0xc0 = 0x80"

text \<open>One character of a string, decoded, and what follows it.\<close>

fun json_char :: "byte \<Rightarrow> bytes \<Rightarrow> (bytes \<times> bytes) option" where
  "json_char c r =
     (if c = 92
      then (case r of [] \<Rightarrow> None
        | d # r1 \<Rightarrow>
          if d = 0x6e then Some ([10], r1) else if d = 0x74 then Some ([9], r1) else if d = 0x72 then Some ([13], r1)
          else if d = 0x62 \<or> d = 0x66 then Some ([32], r1)
          else if d = 0x75
            then (if length r1 < 4 then None else Some (utf8_of (foldl (\<lambda>u x. 16 * u + nibble x) 0 (take 4 r1)), drop 4 r1))
          else Some ([d], r1))
      else if c AND 0xc0 = 0xc0 then (let t = take 3 (takeWhile cont r) in Some (c # t, drop (length t) r))
      else Some ([c], r))"

lemma json_char_less: "json_char c r = Some (u, r') \<Longrightarrow> length r' < Suc (length r)"
  by (auto simp: Let_def split: if_splits list.splits)

declare json_char.simps [simp del]

text \<open>\<open>json_string\<close>: the string, cut at a character to fit, and the text behind its closing quote.\<close>

function json_string :: "nat \<Rightarrow> bytes \<Rightarrow> bool \<Rightarrow> bytes \<Rightarrow> (bytes \<times> bytes) option" where
  "json_string cap out full [] = None"
| "json_string cap out full (c # r) =
     (if c = 34 then Some (out, r)
      else case json_char c r of None \<Rightarrow> None
      | Some (u, r') \<Rightarrow> (let fits = (\<not> full \<and> length out + length u < cap) in json_string cap (if fits then out @ u else out) (\<not> fits) r'))"
  by pat_completeness auto
termination by (relation "measure (\<lambda>(cap, out, full, p). length p)") (auto dest: json_char_less)

text \<open>A string passed over: its raw text and what follows its closing quote.\<close>

fun skip_string :: "bytes \<Rightarrow> (bytes \<times> bytes) option" where
  "skip_string [] = None"
| "skip_string [c] = (if c = 34 then Some ([], []) else None)"
| "skip_string (c # d # r) =
     (if c = 34 then Some ([], d # r)
      else if c = 92 then (case skip_string r of None \<Rightarrow> None | Some (b, r') \<Rightarrow> Some (c # d # b, r'))
      else (case skip_string (d # r) of None \<Rightarrow> None | Some (b, r') \<Rightarrow> Some (c # b, r')))"

lemma skip_string_less: "skip_string p = Some (b, r) \<Longrightarrow> length r < length p"
proof (induction p arbitrary: b r rule: skip_string.induct)
  case (3 c d t)
  then show ?case by (auto split: if_splits option.splits; fastforce)
qed (auto split: if_splits)

function json_get_loop :: "bytes \<Rightarrow> nat \<Rightarrow> nat \<Rightarrow> bytes \<Rightarrow> bytes option" where
  "json_get_loop key cap depth [] = None"
| "json_get_loop key cap depth (c # r) =
     (if c = 123 \<or> c = 91 then json_get_loop key cap (depth + 1) r
      else if c = 125 \<or> c = 93 then (if depth \<le> 1 then None else json_get_loop key cap (depth - 1) r)
      else if c = 34
        then (case skip_string r of None \<Rightarrow> None
          | Some (b, after) \<Rightarrow>
            (let q = dropWhile isspace after; p = dropWhile isspace (tl q);
                 w = take (cap - 1) (takeWhile (\<lambda>x. x \<notin> {0, 44, 125, 93, 32, 9, 13, 10}) p)
             in if depth \<noteq> 1 \<or> q = [] \<or> hd q \<noteq> 58 \<or> b \<noteq> key then json_get_loop key cap depth after
                else if p \<noteq> [] \<and> hd p = 34 then map_option (cstr \<circ> fst) (json_string cap [] False (tl p))
                else if w = [] then None else Some w))
      else json_get_loop key cap depth r)"
  by pat_completeness auto
termination by (relation "measure (\<lambda>(key, cap, depth, p). length p)") (auto dest: skip_string_less)

definition json_field :: "bytes \<Rightarrow> bytes \<Rightarrow> nat \<Rightarrow> bytes option" where
  "json_field js key cap =
     (let p = dropWhile isspace js; p1 = dropWhile isspace (if p \<noteq> [] \<and> hd p = 91 then tl p else p)
      in if p1 = [] \<or> hd p1 \<noteq> 123 then None else json_get_loop key cap 0 p1)"

text \<open>\<open>json_item\<close>: \<open>k\<close> objects of the array have begun, \<open>s\<close> is the text from the wanted one on.\<close>

function json_item_loop :: "nat \<Rightarrow> nat \<Rightarrow> nat \<Rightarrow> bytes \<Rightarrow> bytes \<Rightarrow> bytes option" where
  "json_item_loop i depth k s [] = None"
| "json_item_loop i depth k s (c # r) =
     (if c = 34 then (case skip_string r of None \<Rightarrow> None | Some (b, after) \<Rightarrow> json_item_loop i depth k s after)
      else if c = 123 \<or> c = 91
        then (if depth = 1 \<and> c = 123 then json_item_loop i 2 (k + 1) (if k = i then c # r else s) r
              else json_item_loop i (depth + 1) k s r)
      else if c = 125 \<or> c = 93
        then (if depth = 2 \<and> k = i + 1 \<and> c = 125 then Some (take (length s - length r) s)
              else if depth \<le> 1 then None else json_item_loop i (depth - 1) k s r)
      else json_item_loop i depth k s r)"
  by pat_completeness auto
termination by (relation "measure (\<lambda>(i, depth, k, s, p). length p)") (auto dest: skip_string_less)

definition json_item :: "bytes \<Rightarrow> nat \<Rightarrow> bytes option" where
  "json_item js i = (let p = dropWhile isspace js in if p = [] \<or> hd p \<noteq> 91 then None else json_item_loop i 0 0 [] p)"

lemma json_item_loop_bound: "json_item_loop i depth k s p = Some x \<Longrightarrow> i < k + length p"
proof (induction i depth k s p rule: json_item_loop.induct)
  case (2 i depth k s c r)
  show ?case
  proof (cases "c = 34")
    case True
    then obtain b after where a: "skip_string r = Some (b, after)" "json_item_loop i depth k s after = Some x"
      using 2(6) by (auto split: option.splits)
    then show ?thesis using 2(1) [OF True a(1) refl] skip_string_less [OF a(1)] by simp
  qed (use 2 in \<open>auto split: if_splits\<close>)
qed simp

text \<open>So the loop over \<open>json_item(\<dots>, 0)\<close>, \<open>json_item(\<dots>, 1)\<close>, \<dots> ends within as many turns as the text has bytes.\<close>

lemma json_item_ends: "length js \<le> i \<Longrightarrow> json_item js i = None"
proof (rule ccontr)
  assume "length js \<le> i" "json_item js i \<noteq> None"
  then obtain x where "json_item_loop i 0 0 [] (dropWhile isspace js) = Some x" by (auto simp: json_item_def Let_def split: if_splits)
  from json_item_loop_bound [OF this] show False using \<open>length js \<le> i\<close> length_dropWhile_le [of isspace js] by simp
qed

fun json_items_from :: "nat \<Rightarrow> bytes \<Rightarrow> nat \<Rightarrow> bytes list" where
  "json_items_from 0 js i = []"
| "json_items_from (Suc n) js i = (case json_item js i of None \<Rightarrow> [] | Some x \<Rightarrow> x # json_items_from n js (i + 1))"

definition json_items :: "bytes \<Rightarrow> bytes list" where
  "json_items js = json_items_from (length js) js 0"

section \<open>Versions\<close>

definition tag_version :: "bytes \<Rightarrow> bytes" where
  "tag_version t =
     (let v = fit 64 (if t \<noteq> [] \<and> hd t = 0x76 then tl t else t)
      in case strstr v (ascii ''-beta'') of Some i \<Rightarrow> if length v = i + 5 then take i v else v | None \<Rightarrow> v)"

definition version_char :: "byte \<Rightarrow> bool" where
  "version_char c \<longleftrightarrow> isalnum c \<or> c \<in> set (ascii ''.+_-'')"

definition version_ok :: "bytes \<Rightarrow> bool" where
  "version_ok v \<longleftrightarrow> v \<noteq> [] \<and> length v \<le> 60 \<and> list_all version_char v"

section \<open>State\<close>

datatype channel = UPDATE_OFF | UPDATE_BETA | UPDATE_RELEASE

text \<open>\<open>net\<close>: what a URL gives, or why nothing.  \<open>u_fetched\<close>: every URL asked for; \<open>u_told\<close>: how often \<open>notify\<close> was called.\<close>

record upd_env =
  api_base :: bytes
  dl_base :: bytes
  codename :: bytes
  net :: "bytes \<Rightarrow> bytes + bytes"
  env_eddsa :: eddsa
  env_oks :: "bool \<times> bool \<times> bool"
  env_result :: "bytes option"

record upd =
  u_channel :: channel
  want_check :: bool
  want_install :: bool
  in_progress :: bool
  u_current :: bytes
  u_latest :: bytes
  u_tag :: bytes
  u_url :: bytes
  u_summary :: bytes
  u_fetched :: "bytes list"
  u_told :: nat
  u_ota :: ota

section \<open>Looking and installing\<close>

definition fetch :: "upd_env \<Rightarrow> bytes \<Rightarrow> nat \<Rightarrow> upd \<Rightarrow> (bytes + bytes) \<times> upd" where
  "fetch V url mx s =
     (case net V url of Inl e \<Rightarrow> Inl e
      | Inr d \<Rightarrow> if length d > mx then Inl (fit 300 (url @ ascii '': Failed writing received data to disk/application'')) else Inr d,
      s\<lparr>u_fetched := u_fetched s @ [url]\<rparr>)"

definition set_failed :: "string \<Rightarrow> bytes \<Rightarrow> upd \<Rightarrow> upd" where
  "set_failed what reason s = s\<lparr>u_summary := fit 256 (ascii what @ ascii '': '' @ take 200 reason), in_progress := False\<rparr>"

fun cut_char :: "bytes \<Rightarrow> nat \<Rightarrow> nat" where
  "cut_char b 0 = 0"
| "cut_char b (Suc n) = (if cont (b ! Suc n) then cut_char b n else Suc n)"

definition summary_of :: "bytes \<Rightarrow> bytes" where
  "summary_of notes = (if length notes \<ge> 256 then take (cut_char notes 252) notes @ ascii ''...'' else notes)"

text \<open>The releases' loop on the beta channel: the best version so far, and its release.\<close>

fun best_release :: "bytes list \<Rightarrow> bytes \<Rightarrow> bytes option \<Rightarrow> bytes option" where
  "best_release [] best rs = rs"
| "best_release (it # its) best rs =
     (case json_field it (ascii ''tag_name'') 64 of None \<Rightarrow> best_release its best rs
      | Some t \<Rightarrow>
        if \<not> version_ok t then best_release its best rs
        else (let v = tag_version t
              in if (if length v = length best then bless best v else best = []) then best_release its v (Some it)
                 else best_release its best rs))"

definition releases_url :: "upd_env \<Rightarrow> channel \<Rightarrow> bytes" where
  "releases_url V ch = fit 400 (api_base V @ (if ch = UPDATE_RELEASE then ascii ''/releases/latest'' else ascii ''/releases?per_page=10''))"

definition release_in :: "channel \<Rightarrow> bytes \<Rightarrow> bytes option" where
  "release_in ch js = (if ch = UPDATE_BETA then best_release (json_items js) [] None else Some js)"

definition look :: "upd_env \<Rightarrow> channel \<Rightarrow> upd \<Rightarrow> bool \<times> upd" where
  "look V ch s =
     (let (r, s1) = fetch V (releases_url V ch) (2 ^ 20) s; failed = (\<lambda>reason. (False, set_failed ''could not look for updates'' reason s1))
      in case r of
        Inl e \<Rightarrow> failed (if strstr e (ascii ''HTTP 404'') \<noteq> None \<and> ch = UPDATE_RELEASE then ascii ''no release published yet'' else e)
      | Inr js \<Rightarrow>
        (case Option.bind (release_in ch js) (\<lambda>rel. map_option (\<lambda>t. (rel, t)) (json_field rel (ascii ''tag_name'') 64)) of
           None \<Rightarrow> failed (if ch = UPDATE_BETA then ascii ''nothing published yet'' else ascii ''unexpected answer from GitHub'')
         | Some (rel, t) \<Rightarrow>
           if \<not> version_ok t then failed (ascii ''a release with an unexpected tag'')
           else (let page = (case json_field rel (ascii ''html_url'') 192 of None \<Rightarrow> [] | Some x \<Rightarrow> x);
                     body = (case json_field rel (ascii ''body'') 1024 of None \<Rightarrow> [] | Some x \<Rightarrow> x)
                 in (True, s1\<lparr>u_tag := t, u_latest := tag_version t, u_url := page, u_summary := summary_of (dropWhile isspace body)\<rparr>))))"

definition notify :: "upd \<Rightarrow> upd" where
  "notify s = s\<lparr>u_told := u_told s + 1\<rparr>"

definition bundle_url :: "upd_env \<Rightarrow> bytes \<Rightarrow> string \<Rightarrow> bytes" where
  "bundle_url V t ext = fit 400 (dl_base V @ ascii ''/'' @ t @ ascii ''/hassmic-'' @ codename V @ ascii ext)"

definition handed :: "upd_env \<Rightarrow> bytes \<Rightarrow> bytes \<Rightarrow> upd \<Rightarrow> upd" where
  "handed V b sig s =
     (let ((ok, res), o') = ota_handoff (env_eddsa V) b sig (env_oks V) (env_result V) (u_ota s); s1 = s\<lparr>u_ota := o'\<rparr>
      in if \<not> ok then set_failed ''not installed'' (if take 7 res = ascii ''FAILED '' then drop 7 res else res) s1
         else s1\<lparr>u_summary := fit 256 (u_latest s1 @ ascii '' installed, restarting'')\<rparr>)"

definition install :: "upd_env \<Rightarrow> channel \<Rightarrow> upd \<Rightarrow> upd" where
  "install V ch s =
     (let (ok, s1) = look V ch s
      in if \<not> ok \<or> u_latest s1 = u_current s1 then s1
         else (let t = u_tag s1; (b, s2) = fetch V (bundle_url V t ''.bundle'') MAX_BUNDLE (notify (s1\<lparr>in_progress := True\<rparr>))
               in case b of Inl e \<Rightarrow> set_failed ''download failed'' e s2
                  | Inr bundle \<Rightarrow>
                    (let (g, s3) = fetch V (bundle_url V t ''.bundle.sig'') 64 s2
                     in case g of Inl e \<Rightarrow> set_failed ''download failed'' e s3
                        | Inr sig \<Rightarrow>
                          if length sig \<noteq> 64 then set_failed ''download failed'' (ascii ''the signature is not 64 bytes'') s3
                          else handed V bundle sig s3)))"

text \<open>A round of the thread, once something is wanted or the interval is over.\<close>

definition update_round :: "upd_env \<Rightarrow> upd \<Rightarrow> upd" where
  "update_round V s =
     (let ch = u_channel s; inst = want_install s; s1 = s\<lparr>want_check := False, want_install := False\<rparr>;
          s2 = (if ch = UPDATE_OFF then s1\<lparr>u_latest := u_current s1, u_tag := [], u_summary := [], u_url := []\<rparr>
                else if inst then install V ch s1 else snd (look V ch s1))
      in notify s2)"

definition update_channel :: "channel \<Rightarrow> upd \<Rightarrow> upd" where
  "update_channel ch s = (if ch \<noteq> u_channel s then s\<lparr>u_channel := ch, want_check := True\<rparr> else s)"

definition update_check :: "upd \<Rightarrow> upd" where
  "update_check s = s\<lparr>want_check := True\<rparr>"

definition update_install :: "upd \<Rightarrow> upd" where
  "update_install s = s\<lparr>want_install := True\<rparr>"

section \<open>The newest release\<close>

text \<open>The versions of the releases whose tag can be used, in GitHub's order.\<close>

definition version_of :: "bytes \<Rightarrow> bytes option" where
  "version_of it = (case json_field it (ascii ''tag_name'') 64 of None \<Rightarrow> None
     | Some t \<Rightarrow> if version_ok t \<and> tag_version t \<noteq> [] then Some (tag_version t) else None)"

definition versions :: "bytes list \<Rightarrow> bytes list" where
  "versions its = List.map_filter version_of its"

lemma versions_Cons: "versions (it # its) = (case version_of it of None \<Rightarrow> versions its | Some v \<Rightarrow> v # versions its)"
  by (simp add: versions_def List.map_filter_def split: option.split)

lemma best_release_Cons:
  "best_release (it # its) best rs = (case version_of it of None \<Rightarrow> best_release its best rs
     | Some v \<Rightarrow> if (if length v = length best then bless best v else best = []) then best_release its v (Some it) else best_release its best rs)"
  by (auto simp: version_of_def Let_def split: option.split)

declare best_release.simps(2) [simp del]

lemma best_release_later:
  assumes "best \<noteq> []" "version_of r = Some best"
  shows "\<exists>it v. best_release its best (Some r) = Some it \<and> version_of it = Some v \<and> v \<in> set (best # versions its) \<and> length v = length best \<and>
    (\<forall>w \<in> set (best # versions its). length w = length best \<longrightarrow> \<not> bless v w)"
  using assms
proof (induction its arbitrary: best r)
  case Nil
  then show ?case by (simp add: versions_def List.map_filter_def)
next
  case (Cons it its)
  show ?case
  proof (cases "version_of it")
    case None
    then show ?thesis using Cons by (simp add: best_release_Cons versions_Cons)
  next
    case (Some u)
    show ?thesis
    proof (cases "length u = length best \<and> bless best u")
      case True
      then have u: "u \<noteq> []" "best_release (it # its) best (Some r) = best_release its u (Some it)" using Cons.prems Some by (auto simp: best_release_Cons)
      obtain i v where v: "best_release its u (Some it) = Some i" "version_of i = Some v" "v \<in> set (u # versions its)" "length v = length u"
        "\<forall>w \<in> set (u # versions its). length w = length u \<longrightarrow> \<not> bless v w"
        using Cons.IH [OF u(1) Some] by blast
      have "\<not> bless v best" using v(5) True bless_trans by auto
      then show ?thesis using u v True Some by (intro exI [of _ i] exI [of _ v]) (auto simp: versions_Cons)
    next
      case False
      then have b: "best_release (it # its) best (Some r) = best_release its best (Some r)" using Cons.prems Some by (auto simp: best_release_Cons)
      obtain i v where v: "best_release its best (Some r) = Some i" "version_of i = Some v" "v \<in> set (best # versions its)" "length v = length best"
        "\<forall>w \<in> set (best # versions its). length w = length best \<longrightarrow> \<not> bless v w"
        using Cons.IH [OF Cons.prems] by blast
      have "length u = length best \<Longrightarrow> \<not> bless v u"
      proof -
        assume l: "length u = length best"
        then have "\<not> bless best u" using False by simp
        then have "u = best \<or> bless u best" using bless_total by blast
        then show "\<not> bless v u" using v(5) bless_trans by auto
      qed
      then show ?thesis using b v Some by (intro exI [of _ i] exI [of _ v]) (auto simp: versions_Cons)
    qed
  qed
qed

lemma best_release_newest:
  assumes "versions its \<noteq> []"
  shows "\<exists>it v. best_release its [] rs = Some it \<and> version_of it = Some v \<and> v \<in> set (versions its) \<and> length v = length (hd (versions its)) \<and>
    (\<forall>w \<in> set (versions its). length w = length (hd (versions its)) \<longrightarrow> \<not> bless v w)"
  using assms
proof (induction its)
  case Nil
  then show ?case by (simp add: versions_def List.map_filter_def)
next
  case (Cons it its)
  show ?case
  proof (cases "version_of it")
    case None
    then show ?thesis using Cons by (simp add: best_release_Cons versions_Cons)
  next
    case (Some v)
    then have "v \<noteq> []" by (auto simp: version_of_def split: option.splits if_splits)
    then have "best_release (it # its) [] rs = best_release its v (Some it)" using Some by (simp add: best_release_Cons)
    then show ?thesis using best_release_later [OF \<open>v \<noteq> []\<close> Some, of its] Some by (simp add: versions_Cons)
  qed
qed

section \<open>What is asked of the network\<close>

definition url_ok :: "upd_env \<Rightarrow> bytes \<Rightarrow> bool" where
  "url_ok V url \<longleftrightarrow> (\<exists>ch. url = releases_url V ch) \<or> (\<exists>t ext. version_ok t \<and> url = bundle_url V t ext)"

definition fetched_ok :: "upd_env \<Rightarrow> upd \<Rightarrow> upd \<Rightarrow> bool" where
  "fetched_ok V s s' \<longleftrightarrow> (\<forall>url \<in> set (u_fetched s'). url \<in> set (u_fetched s) \<or> url_ok V url)"

lemma fetch_sel [simp]: "u_fetched (snd (fetch V url m s)) = u_fetched s @ [url]" "u_ota (snd (fetch V url m s)) = u_ota s"
  "u_latest (snd (fetch V url m s)) = u_latest s" "u_tag (snd (fetch V url m s)) = u_tag s" "u_current (snd (fetch V url m s)) = u_current s"
  by (simp_all add: fetch_def)

lemma set_failed_sel [simp]: "u_fetched (set_failed w r s) = u_fetched s" "u_ota (set_failed w r s) = u_ota s" "u_tag (set_failed w r s) = u_tag s"
  by (simp_all add: set_failed_def)

lemma notify_sel [simp]: "u_fetched (notify s) = u_fetched s" "u_ota (notify s) = u_ota s" "u_tag (notify s) = u_tag s" "u_latest (notify s) = u_latest s"
  "u_current (notify s) = u_current s"
  by (simp_all add: notify_def)

lemma look_sel: "u_fetched (snd (look V ch s)) = u_fetched s @ [releases_url V ch]" "u_ota (snd (look V ch s)) = u_ota s"
  by (simp_all add: look_def Let_def case_prod_beta split: sum.split option.split)

lemma look_tag: "fst (look V ch s) \<Longrightarrow> version_ok (u_tag (snd (look V ch s)))"
  by (auto simp: look_def Let_def case_prod_beta split: sum.splits option.splits if_splits)

lemma handed_sel: "u_fetched (handed V b sig s) = u_fetched s"
  "u_ota (handed V b sig s) = snd (ota_handoff (env_eddsa V) b sig (env_oks V) (env_result V) (u_ota s))"
  by (simp_all add: handed_def Let_def case_prod_beta)

lemma install_fetched: "fetched_ok V s (install V ch s)"
  using look_tag [of V ch s]
  by (auto simp: install_def fetched_ok_def url_ok_def look_sel handed_sel Let_def case_prod_beta split: sum.splits if_splits)

section \<open>Every way an update comes\<close>

inductive upd_step :: "eddsa \<Rightarrow> upd \<Rightarrow> upd \<Rightarrow> bool" for E where
  round: "env_eddsa V = E \<Longrightarrow> upd_step E s (update_round V s)"
| channel: "upd_step E s (update_channel ch s)"
| check: "upd_step E s (update_check s)"
| install: "upd_step E s (update_install s)"
| ota: "ota_step E (u_ota s) o' \<Longrightarrow> upd_step E s (s\<lparr>u_ota := o'\<rparr>)"

lemma install_ota: "(ota_step (env_eddsa V))\<^sup>*\<^sup>* (u_ota s) (u_ota (install V ch s))"
  by (auto simp: install_def look_sel handed_sel Let_def case_prod_beta split: sum.splits intro!: r_into_rtranclp ota_step.download)

lemma upd_step_ota: "upd_step E s t \<Longrightarrow> (ota_step E)\<^sup>*\<^sup>* (u_ota s) (u_ota t)"
proof (induction rule: upd_step.induct)
  case (round V s)
  then show ?case using install_ota [of V "s\<lparr>want_check := False, want_install := False\<rparr>"] by (auto simp: update_round_def look_sel Let_def)
qed (auto simp: update_channel_def update_check_def update_install_def)

lemma upd_steps_ota: "(upd_step E)\<^sup>*\<^sup>* s t \<Longrightarrow> (ota_step E)\<^sup>*\<^sup>* (u_ota s) (u_ota t)"
  by (induction rule: rtranclp_induct) (auto dest: upd_step_ota)

section \<open>Theorems\<close>

text \<open>
  C10. No update gets to root's installer unsigned, wherever it comes from: whatever the servers answer, whatever is pushed and whatever is asked for in Home
  Assistant, in any order, the bundle handed over verifies against the owner's key or the release key.
\<close>

theorem updates_only_signed:
  assumes "(upd_step E)\<^sup>*\<^sup>* s t" "ota_dir (u_ota s) ''bundle'' = None" "ota_dir (u_ota t) ''bundle'' = Some b"
  shows "\<exists>pk sig. (load_key (update_pub (u_ota t)) = Some pk \<or> load_key (release_pub (u_ota t)) = Some pk) \<and> E sig pk b"
proof -
  have "ota_ok E (u_ota s)" using assms(2) by (simp add: ota_ok_def)
  then have "ota_ok E (u_ota t)" using staged_signed upd_steps_ota [OF assms(1)] by blast
  then show ?thesis using assms(3) by (simp add: ota_ok_def signed_def)
qed

text \<open>
  On the beta channel the newest build is offered, whatever order GitHub lists them in: of the releases with a usable tag none has a
  later version (of the first one's length) than the one found.
\<close>

theorem beta_offers_newest:
  assumes "net V (releases_url V UPDATE_BETA) = Inr js" "length js \<le> 2 ^ 20" "versions (json_items js) \<noteq> []"
  shows "fst (look V UPDATE_BETA s) \<and> u_latest (snd (look V UPDATE_BETA s)) \<in> set (versions (json_items js)) \<and>
    (\<forall>w \<in> set (versions (json_items js)). length w = length (hd (versions (json_items js))) \<longrightarrow> \<not> bless (u_latest (snd (look V UPDATE_BETA s))) w)"
proof -
  obtain it v where v: "best_release (json_items js) [] None = Some it" "version_of it = Some v" "v \<in> set (versions (json_items js))"
    "\<forall>w \<in> set (versions (json_items js)). length w = length (hd (versions (json_items js))) \<longrightarrow> \<not> bless v w"
    using best_release_newest [OF assms(3)] by blast
  then obtain t where t: "json_field it (ascii ''tag_name'') 64 = Some t" "version_ok t" "tag_version t = v"
    by (auto simp: version_of_def split: option.splits if_splits)
  have "fst (look V UPDATE_BETA s)" "u_latest (snd (look V UPDATE_BETA s)) = v"
    using assms(1,2) v(1) t by (simp_all add: look_def fetch_def release_in_def Let_def)
  then show ?thesis using v by simp
qed

text \<open>
  Nothing is fetched while updates are off, and on a channel only the list of releases and bundles at an address made of letters, digits and
  \<open>.+_-\<close> from the tag, whatever the answers hold.
\<close>

theorem update_fetches:
  "(u_channel s = UPDATE_OFF \<longrightarrow> u_fetched (update_round V s) = u_fetched s \<and> u_ota (update_round V s) = u_ota s \<and>
      u_latest (update_round V s) = u_current s) \<and>
   fetched_ok V s (update_round V s)"
proof -
  let ?s = "s\<lparr>want_check := False, want_install := False\<rparr>"
  have "fetched_ok V ?s (install V (u_channel s) ?s)" by (rule install_fetched)
  then show ?thesis
    by (auto simp: update_round_def fetched_ok_def url_ok_def look_sel Let_def)
qed

text \<open>A GitHub that lists an older build first.\<close>

definition demo_list :: bytes where
  "demo_list = ascii ''[{\"tag_name\":\"v2.1\"}, {\"tag_name\":\"v2.3-beta\",\"body\":\"notes\"}, {\"tag_name\":\"v2.2-beta\"}]''"

definition demo_upd_env :: upd_env where
  "demo_upd_env = \<lparr>api_base = ascii ''a'', dl_base = ascii ''d'', codename = ascii ''echo'', net = (\<lambda>_. Inr demo_list), env_eddsa = toy_eddsa,
     env_oks = (True, True, True), env_result = None\<rparr>"

definition demo_upd :: upd where
  "demo_upd = \<lparr>u_channel = UPDATE_OFF, want_check = False, want_install = True, in_progress = False, u_current = ascii ''2.0'', u_latest = ascii ''2.1'',
     u_tag = [], u_url = [], u_summary = [], u_fetched = [], u_told = 0, u_ota = toy_ota\<rparr>"

theorem beta_offers_newest_witness:
  "fst (look demo_upd_env UPDATE_BETA demo_upd) \<and> u_latest (snd (look demo_upd_env UPDATE_BETA demo_upd)) = ascii ''2.3''"
proof -
  have vs: "versions (json_items demo_list) = [ascii ''2.1'', ascii ''2.3'', ascii ''2.2'']" by code_simp
  have "length demo_list = 88" by code_simp
  then have small: "length demo_list \<le> 2 ^ 20" by simp
  have b: "bless (ascii ''2.1'') (ascii ''2.3'')" "bless (ascii ''2.2'') (ascii ''2.3'')" by code_simp+
  have "net demo_upd_env (releases_url demo_upd_env UPDATE_BETA) = Inr demo_list" by (simp add: demo_upd_env_def)
  from beta_offers_newest [OF this small, of demo_upd] show ?thesis using vs b by auto
qed

theorem update_fetches_witness:
  "u_fetched (update_round demo_upd_env demo_upd) = [] \<and> u_latest (update_round demo_upd_env demo_upd) = ascii ''2.0''"
  using update_fetches [of demo_upd demo_upd_env] by (simp add: demo_upd_def)

theorem updates_only_signed_witness:
  "\<exists>pk sig. (load_key (update_pub toy_pushed) = Some pk \<or> load_key (release_pub toy_pushed) = Some pk) \<and> toy_eddsa sig pk [1, 2, 3]"
proof -
  let ?t = "demo_upd\<lparr>u_ota := toy_pushed\<rparr>"
  have "ota_step toy_eddsa (u_ota demo_upd) toy_pushed" unfolding toy_pushed_def demo_upd_def upd.simps by (rule ota_step.push)
  then have "(upd_step toy_eddsa)\<^sup>*\<^sup>* demo_upd ?t" by (intro r_into_rtranclp upd_step.ota)
  moreover have "ota_dir (u_ota demo_upd) ''bundle'' = None" by (simp add: demo_upd_def toy_ota_def)
  moreover have "ota_dir (u_ota ?t) ''bundle'' = Some [1, 2, 3]"
    using push_staged [where E = toy_eddsa and s = toy_ota and sig = toy_sig and b = "[1, 2, 3]", OF toy_signed, of toy_io]
    by (simp add: toy_pushed_def toy_io_def MAX_BUNDLE_def numeral_3_eq_3)
  ultimately show ?thesis using updates_only_signed [of toy_eddsa demo_upd ?t] by simp
qed

end
