(* ===== verification/Wifi.thy ===== *)
theory Wifi
  imports Improv Hash Scan "HOL-Library.Multiset"
begin

text \<open>
  Requests to root's Wi-Fi watcher and its answers (\<^verbatim>\<open>wifi.c\<close>): names and keys, one request at a time, the scan's networks, the result of a switch.  Root's
  files are contents or \<open>None\<close>; the time and the random number are arguments.  The JSON for the settings page is left out, and with it a network's bands.
\<close>

section \<open>Names\<close>

fun unhexs_loop :: "bytes \<Rightarrow> bytes option" where
  "unhexs_loop [] = Some []"
| "unhexs_loop [c] = None"
| "unhexs_loop (c # d # r) = (case (hexval c, hexval d) of (Some a, Some b) \<Rightarrow> map_option (\<lambda>t. of_nat (16 * a + b) # t) (unhexs_loop r) | _ \<Rightarrow> None)"

definition unhexs :: "nat \<Rightarrow> bytes \<Rightarrow> bytes option" where
  "unhexs cap s = (if odd (length s) \<or> length s div 2 > cap then None else unhexs_loop s)"

text \<open>\<open>wpa_unescape\<close>, with the room left in the output.\<close>

fun wpa_unescape :: "nat \<Rightarrow> bytes \<Rightarrow> bytes" where
  "wpa_unescape 0 s = []"
| "wpa_unescape (Suc n) s = (case s of [] \<Rightarrow> []
     | c # r \<Rightarrow>
       if c \<noteq> 92 \<or> r = [] then c # wpa_unescape n r
       else (let d = hd r; t = tl r
             in if d = 0x6e then 10 # wpa_unescape n t
                else if d = 0x72 then 13 # wpa_unescape n t
                else if d = 0x74 then 9 # wpa_unescape n t
                else if d = 0x65 then 0x1b # wpa_unescape n t
                else if d = 0x78
                  then (case t of x # y # t' \<Rightarrow>
                          (case (hexval x, hexval y) of (Some a, Some b) \<Rightarrow> of_nat (16 * a + b) # wpa_unescape n t' | _ \<Rightarrow> d # wpa_unescape n t)
                        | _ \<Rightarrow> d # wpa_unescape n t)
                else d # wpa_unescape n t))"

section \<open>The PSK\<close>

definition pad64 :: "bytes \<Rightarrow> bytes" where
  "pad64 k = k @ replicate (64 - length k) 0"

definition hmac_sha1 :: "bytes \<Rightarrow> bytes \<Rightarrow> bytes" where
  "hmac_sha1 key m = (let k = pad64 (if length key > 64 then sha1 key else key); ih = sha1 (map (\<lambda>b. b XOR 0x36) k @ m)
     in sha1 (map (\<lambda>b. b XOR 0x5c) k @ ih))"

definition xor_bytes :: "bytes \<Rightarrow> bytes \<Rightarrow> bytes" where
  "xor_bytes a b = map2 (XOR) a b"

fun psk_rounds :: "nat \<Rightarrow> bytes \<Rightarrow> bytes \<Rightarrow> bytes \<Rightarrow> bytes" where
  "psk_rounds 0 pass u t = t"
| "psk_rounds (Suc n) pass u t = (let u' = hmac_sha1 pass u in psk_rounds n pass u' (xor_bytes t u'))"

definition psk_block :: "bytes \<Rightarrow> bytes \<Rightarrow> byte \<Rightarrow> bytes" where
  "psk_block pass name blk = (let u = hmac_sha1 pass (name @ [0, 0, 0, blk]) in psk_rounds 4095 pass u u)"

definition wpa_psk :: "bytes \<Rightarrow> bytes \<Rightarrow> bytes" where
  "wpa_psk pass name = psk_block pass name 1 @ take 12 (psk_block pass name 2)"

section \<open>Requests\<close>

record wifi_files =
  wifi_request :: "bytes option"
  f_lock :: bool
  f_result :: "bytes option"
  f_scan :: "bytes option"
  asked_at :: int

record switch =
  sw_id :: nat
  sw_state :: bytes
  sw_hex :: bytes
  sw_ip :: bytes
  sw_why :: bytes

text \<open>\<open>read_result\<close>, without what only the settings page shows (whether it was saved, the network fallen back to).\<close>

definition read_result :: "wifi_files \<Rightarrow> switch option" where
  "read_result w = (case f_result w of None \<Rightarrow> None
     | Some f \<Rightarrow>
       (case file_lines 400 f of [] \<Rightarrow> None
        | line # _ \<Rightarrow>
          (case scan_ulong line of None \<Rightarrow> None
           | Some n \<Rightarrow>
             (let q = dropWhile isspace line; r = dropWhile isdigit (if q \<noteq> [] \<and> hd q \<in> {43, 45} then tl q else q)
              in case scan_word 15 r of None \<Rightarrow> None
                 | Some (phase, r1) \<Rightarrow>
                   (case scan_word 71 r1 of None \<Rightarrow> None
                    | Some (hex, r2) \<Rightarrow>
                      (let arg = (\<lambda>k. case scan_word k r2 of None \<Rightarrow> [] | Some (x, _) \<Rightarrow> x)
                       in Some \<lparr>sw_id = n, sw_state = (if phase = ascii ''switching'' \<and> \<not> f_lock w then ascii ''interrupted'' else phase), sw_hex = hex,
                            sw_ip = (if phase = ascii ''ok'' then arg 47 else []), sw_why = (if phase = ascii ''failed'' then arg 23 else [])\<rparr>))))))"

definition pending :: "wifi_files \<Rightarrow> (bytes \<times> nat) option" where
  "pending w = (case wifi_request w of None \<Rightarrow> None
     | Some f \<Rightarrow>
       if f = [] then None
       else (case scan_word 7 (cstr (fst (get_line 64 f))) of None \<Rightarrow> None
             | Some (kind, r) \<Rightarrow> map_option (\<lambda>n. (kind, n)) (scan_ulong r)))"

datatype ask = May | Same nat | Busy string

definition may_ask :: "string \<Rightarrow> wifi_files \<Rightarrow> ask" where
  "may_ask kind w = (case pending w of
       Some (k, n) \<Rightarrow> if kind = ''scan'' \<and> k = ascii ''scan'' then Same n
                     else Busy ''The Echo has not taken the last request yet: try again in a few seconds''
     | None \<Rightarrow> if f_lock w \<and> (case read_result w of None \<Rightarrow> False | Some r \<Rightarrow> sw_state r = ascii ''switching'')
               then Busy ''The Echo is switching networks right now'' else May)"

definition write_req :: "bytes \<Rightarrow> int \<Rightarrow> bool \<Rightarrow> wifi_files \<Rightarrow> bool \<times> wifi_files" where
  "write_req line now ok w = (if ok then (True, w\<lparr>wifi_request := Some line, asked_at := now\<rparr>) else (False, w))"

definition new_id :: "u32 \<Rightarrow> nat" where
  "new_id v = unat ((v AND 0x7fffffff) OR 1)"

text \<open>The id to wait for, or why not.\<close>

definition scan_request :: "u32 \<Rightarrow> int \<Rightarrow> bool \<Rightarrow> wifi_files \<Rightarrow> (string + nat) \<times> wifi_files" where
  "scan_request rnd now ok w = (case may_ask ''scan'' w of Same n \<Rightarrow> (Inr n, w) | Busy e \<Rightarrow> (Inl e, w)
     | May \<Rightarrow> (let n = new_id rnd; (done, w1) = write_req (ascii ''scan '' @ dec_digits n @ [10]) now ok w
              in (if done then Inr n else Inl ''cannot write the request for root'', w1)))"

definition hexchars :: bytes where
  "hexchars = ascii ''0123456789abcdefABCDEF''"

definition psk_text :: "bytes \<Rightarrow> bytes \<Rightarrow> string + bytes" where
  "psk_text pass name =
     (if length pass = 64 \<and> set pass \<subseteq> set hexchars then Inr (map tolower pass)
      else if pass = [] then Inr [45]
      else if length pass < 8 \<or> length pass > 63 then Inl ''A Wi-Fi password has 8 to 63 characters''
      else if \<not> list_all (\<lambda>c. 0x20 \<le> c \<and> c \<le> 0x7e) pass then Inl ''A Wi-Fi password has only the characters of an English keyboard (ASCII)''
      else Inr (hexs (wpa_psk pass name)))"

definition join_line :: "nat \<Rightarrow> bytes \<Rightarrow> bytes \<Rightarrow> bytes" where
  "join_line n name psk = ascii ''join '' @ dec_digits n @ 32 # hexs name @ 32 # psk @ [10]"

definition join_request :: "u32 \<Rightarrow> int \<Rightarrow> bool \<Rightarrow> bytes \<Rightarrow> bytes \<Rightarrow> wifi_files \<Rightarrow> (string + nat) \<times> wifi_files" where
  "join_request rnd now ok name pass w =
     (if name = [] \<or> length name > 32 then (Inl ''A network name has 1 to 32 bytes'', w)
      else case psk_text pass name of Inl e \<Rightarrow> (Inl e, w)
      | Inr psk \<Rightarrow>
        (case may_ask ''join'' w of Busy e \<Rightarrow> (Inl e, w) | Same n \<Rightarrow> (Inl [], w)
         | May \<Rightarrow> (let n = new_id rnd; (done, w1) = write_req (join_line n name psk) now ok w
                  in (if done then Inr n else Inl ''cannot write the request for root'', w1))))"

section \<open>Answers\<close>

definition security_of :: "bytes \<Rightarrow> bytes" where
  "security_of fl = (let has = (\<lambda>x. strstr fl (ascii x) \<noteq> None)
     in if has ''PSK'' then ascii ''psk'' else if has ''SAE'' then ascii ''sae'' else if has ''EAP'' then ascii ''eap''
        else if has ''WEP'' then ascii ''wep'' else if has ''OWE'' then ascii ''owe'' else ascii ''open'')"

fun tab_fields :: "nat \<Rightarrow> bytes \<Rightarrow> bytes list" where
  "tab_fields 0 s = [s]"
| "tab_fields (Suc n) s = (let f = takeWhile (\<lambda>c. c \<noteq> 9) s in if f = s then [s] else f # tab_fields n (drop (length f + 1) s))"

datatype scan_entry = Scan_id nat | Scan_net wifi_net | Scan_none

definition scan_line :: "bytes \<Rightarrow> scan_entry" where
  "scan_line line = (case (if take 2 line = ascii ''id'' then scan_ulong (drop 2 line) else None) of Some n \<Rightarrow> Scan_id n
     | None \<Rightarrow>
       (let fld = tab_fields 4 line
        in if length fld < 5 then Scan_none
           else (let name = wpa_unescape 32 (fld ! 4)
                 in if name = [] \<or> hd name = 0 then Scan_none
                    else Scan_net \<lparr>ssid = name, signal = atoi (fld ! 2), sec = security_of (fld ! 3)\<rparr>)))"

fun put_net :: "nat \<Rightarrow> wifi_net \<Rightarrow> wifi_net list \<Rightarrow> wifi_net list" where
  "put_net room x [] = (if room = 0 then [] else [x])"
| "put_net room x (y # ys) =
     (if ssid y = ssid x then (if signal x > signal y then y\<lparr>signal := signal x, sec := sec x\<rparr> # ys else y # ys) else y # put_net (room - 1) x ys)"

fun scan_loop :: "nat \<Rightarrow> bytes list \<Rightarrow> nat \<times> wifi_net list \<Rightarrow> nat \<times> wifi_net list" where
  "scan_loop mx [] s = s"
| "scan_loop mx (l # ls) (n, nets) =
     scan_loop mx ls (case scan_line l of Scan_id k \<Rightarrow> (k, nets) | Scan_net x \<Rightarrow> (n, put_net mx x nets) | Scan_none \<Rightarrow> (n, nets))"

text \<open>The exchange sort: each in turn moves up past weaker ones; the list is held back to front.\<close>

fun move_up :: "wifi_net \<Rightarrow> wifi_net list \<Rightarrow> wifi_net list" where
  "move_up x [] = [x]"
| "move_up x (y # ys) = (if signal x > signal y then y # move_up x ys else x # y # ys)"

definition strongest_first :: "wifi_net list \<Rightarrow> wifi_net list" where
  "strongest_first nets = rev (foldl (\<lambda>acc x. move_up x acc) [] nets)"

definition scan_read :: "nat \<Rightarrow> wifi_files \<Rightarrow> (nat \<times> wifi_net list) option" where
  "scan_read mx w = (case f_scan w of None \<Rightarrow> None
     | Some f \<Rightarrow> (let (n, nets) = scan_loop mx (file_lines 400 f) (0, []) in Some (n, strongest_first nets)))"

definition MAX_NETS :: nat where "MAX_NETS = 48"

definition seen :: "bytes \<Rightarrow> wifi_files \<Rightarrow> int" where
  "seen name w = (case scan_read MAX_NETS w of None \<Rightarrow> -1 | Some (_, nets) \<Rightarrow> if name \<in> ssid ` set nets then 1 else 0)"

definition scan_result :: "nat \<Rightarrow> nat \<Rightarrow> wifi_files \<Rightarrow> wifi_net list option" where
  "scan_result n mx w = (case scan_read mx w of None \<Rightarrow> None | Some (k, nets) \<Rightarrow> if k = n then Some nets else None)"

definition ANSWER_SECS :: int where "ANSWER_SECS = 15"

text \<open>1 with the address, 0 not yet, -1 with the reason.\<close>

definition join_result :: "nat \<Rightarrow> int \<Rightarrow> wifi_files \<Rightarrow> int \<times> bytes" where
  "join_result n now w =
     (let waits = ((case pending w of None \<Rightarrow> False | Some (_, k) \<Rightarrow> k = n) \<and> now - asked_at w \<le> ANSWER_SECS + 5)
      in case read_result w of
        Some r \<Rightarrow>
          if sw_id r \<noteq> n then (if waits \<or> f_lock w then (0, []) else (-1, ascii ''unanswered''))
          else if sw_state r = ascii ''switching'' then (0, [])
          else if sw_state r = ascii ''ok'' then (1, sw_ip r)
          else (-1, if sw_why r \<noteq> [] then sw_why r else sw_state r)
      | None \<Rightarrow> if waits \<or> f_lock w then (0, []) else (-1, ascii ''unanswered''))"

section \<open>Names come through\<close>

text \<open>wpa_supplicant's \<open>printf_encode\<close>, from its documentation.\<close>

definition wpa_escape1 :: "byte \<Rightarrow> bytes" where
  "wpa_escape1 c = (if c = 34 then [92, 34] else if c = 92 then [92, 92] else if c = 0x1b then [92, 0x65] else if c = 10 then [92, 0x6e]
     else if c = 13 then [92, 0x72] else if c = 9 then [92, 0x74] else if 32 \<le> c \<and> c \<le> 126 then [c] else 92 # 0x78 # hex2 c)"

definition wpa_escape :: "bytes \<Rightarrow> bytes" where
  "wpa_escape name = concat (map wpa_escape1 name)"

lemma of_nat_nibbles: "of_nat (16 * (unat b div 16) + unat b mod 16) = (b :: byte)"
  using byte_nibbles(3) [of b] by simp

lemma wpa_unescape1: "wpa_unescape (Suc n) (wpa_escape1 c @ r) = c # wpa_unescape n r"
  by (auto simp: wpa_escape1_def hex2_def hexval_hex1 byte_nibbles of_nat_nibbles simp del: of_nat_add of_nat_mult)

declare wpa_unescape.simps(2) [simp del]

lemma wpa_unescape_escape: "length name \<le> n \<Longrightarrow> wpa_unescape n (wpa_escape name) = name"
proof (induction name arbitrary: n)
  case Nil
  then show ?case by (cases n) (simp_all add: wpa_escape_def wpa_unescape.simps(2))
next
  case (Cons c name)
  then obtain m where "n = Suc m" by (cases n) auto
  then show ?case using Cons wpa_unescape1 [of m c "wpa_escape name"] by (simp add: wpa_escape_def)
qed

lemma unhexs_hexs: "unhexs_loop (hexs bs) = Some bs"
  by (induction bs) (simp_all add: hexs_def hex2_def hexval_hex1 byte_nibbles of_nat_nibbles del: of_nat_add of_nat_mult)

section \<open>The scan's table\<close>

lemma put_net_new: "ssid x \<notin> ssid ` set nets \<Longrightarrow> put_net room x nets = (if length nets < room then nets @ [x] else nets)"
  by (induction nets arbitrary: room) auto

lemma stronger_eq: "ssid y = ssid x \<Longrightarrow> (y :: wifi_net)\<lparr>signal := signal x, sec := sec x\<rparr> = x"
  by (cases x; cases y) simp

lemma put_net_old:
  "ssid x \<in> ssid ` set nets \<Longrightarrow>
   \<exists>a y b. nets = a @ y # b \<and> ssid y = ssid x \<and> put_net room x nets = a @ (if signal x > signal y then x else y) # b"
proof (induction nets arbitrary: room)
  case (Cons z nets)
  show ?case
  proof (cases "ssid z = ssid x")
    case True
    then show ?thesis using stronger_eq by (intro exI [of _ "[]"] exI [of _ z] exI [of _ nets]) simp
  next
    case False
    then have "ssid x \<in> ssid ` set nets" using Cons.prems by auto
    then obtain a y b where "nets = a @ y # b" "ssid y = ssid x" "put_net (room - 1) x nets = a @ (if signal x > signal y then x else y) # b"
      using Cons.IH [of "room - 1"] by blast
    then show ?thesis using False by (intro exI [of _ "z # a"] exI [of _ y] exI [of _ b]) simp
  qed
qed simp

definition nets_ok :: "nat \<Rightarrow> wifi_net list \<Rightarrow> wifi_net list \<Rightarrow> bool" where
  "nets_ok mx es nets \<longleftrightarrow> distinct (map ssid nets) \<and> set nets \<subseteq> set es \<and>
     (\<forall>y \<in> set nets. \<forall>e \<in> set es. ssid e = ssid y \<longrightarrow> signal e \<le> signal y) \<and> (length nets < mx \<longrightarrow> ssid ` set es \<subseteq> ssid ` set nets)"

lemma nets_ok_put:
  assumes ok: "nets_ok mx es nets"
  shows "nets_ok mx (es @ [x]) (put_net mx x nets)"
proof (cases "ssid x \<in> ssid ` set nets")
  case False
  have sub: "length nets < mx \<Longrightarrow> ssid ` set es \<subseteq> ssid ` set nets" and dist: "distinct (map ssid nets)" and nets: "set nets \<subseteq> set es"
    and best: "\<And>y e. y \<in> set nets \<Longrightarrow> e \<in> set es \<Longrightarrow> ssid e = ssid y \<Longrightarrow> signal e \<le> signal y"
    using ok by (auto simp: nets_ok_def)
  have new: "ssid e \<noteq> ssid x" if "length nets < mx" "e \<in> set es" for e using sub [OF that(1)] that(2) False by (metis imageI subsetD)
  have old: "ssid y \<noteq> ssid x" if "y \<in> set nets" for y using that False by (metis imageI)
  show ?thesis
  proof (cases "length nets < mx")
    case True
    have "distinct (map ssid (nets @ [x]))" using dist False by simp
    moreover have "signal e \<le> signal y" if "y \<in> set (nets @ [x])" "e \<in> set (es @ [x])" "ssid e = ssid y" for y e
      using that new [OF True] old best by fastforce
    moreover have "ssid ` set (es @ [x]) \<subseteq> ssid ` set (nets @ [x])" using sub [OF True] by auto
    ultimately show ?thesis using True False nets by (auto simp: nets_ok_def put_net_new)
  next
    case full: False
    have "signal e \<le> signal y" if "y \<in> set nets" "e \<in> set (es @ [x])" "ssid e = ssid y" for y e
      using that old best by fastforce
    then show ?thesis using full False dist nets by (auto simp: nets_ok_def put_net_new)
  qed
next
  case True
  then obtain a y b where n: "nets = a @ y # b" "ssid y = ssid x" "put_net mx x nets = a @ (if signal x > signal y then x else y) # b"
    using put_net_old by blast
  let ?w = "if signal x > signal y then x else y"
  have sub: "length nets < mx \<Longrightarrow> ssid ` set es \<subseteq> ssid ` set nets" and dist: "distinct (map ssid nets)" and nets: "set nets \<subseteq> set es"
    and best: "\<And>y e. y \<in> set nets \<Longrightarrow> e \<in> set es \<Longrightarrow> ssid e = ssid y \<Longrightarrow> signal e \<le> signal y"
    using ok by (auto simp: nets_ok_def)
  have w: "ssid ?w = ssid x" "signal x \<le> signal ?w" "signal y \<le> signal ?w" using n(2) by auto
  have others: "ssid z \<noteq> ssid x" if "z \<in> set (a @ b)" for z using that dist n(1,2) by (auto simp: image_iff)
  have "signal e \<le> signal z" if z: "z \<in> set (put_net mx x nets)" and e: "e \<in> set (es @ [x])" "ssid e = ssid z" for z e
  proof (cases "z = ?w")
    case True
    have "signal e \<le> signal y" if "e \<in> set es" using best [of y e] that e(2) True w(1) n(1,2) by simp
    then show ?thesis using e(1) True w(2,3) by force
  next
    case False
    then have "z \<in> set (a @ b)" using z n(3) by auto
    then have "e \<in> set es" "z \<in> set nets" using others [of z] e n(1) by auto
    then show ?thesis using best e(2) by blast
  qed
  moreover have "distinct (map ssid (put_net mx x nets))" "ssid ` set (put_net mx x nets) = ssid ` set nets" "length (put_net mx x nets) = length nets"
    using dist n w(1) by auto
  moreover have "set (put_net mx x nets) \<subseteq> set (es @ [x])" using nets n by auto
  ultimately show ?thesis using sub True by (simp add: nets_ok_def)
qed

fun nets_of :: "bytes list \<Rightarrow> wifi_net list" where
  "nets_of [] = []"
| "nets_of (l # ls) = (case scan_line l of Scan_net x \<Rightarrow> x # nets_of ls | _ \<Rightarrow> nets_of ls)"

lemma scan_loop_ok: "nets_ok mx es nets \<Longrightarrow> nets_ok mx (es @ nets_of ls) (snd (scan_loop mx ls (n, nets)))"
proof (induction ls arbitrary: es n nets)
  case (Cons l ls)
  show ?case
  proof (cases "scan_line l")
    case (Scan_net x)
    then show ?thesis using Cons.IH [OF nets_ok_put [OF Cons.prems], of x] by simp
  qed (use Cons in simp_all)
qed simp

lemma mset_move_up: "mset (move_up x xs) = add_mset x (mset xs)"
  by (induction xs) auto

lemma sorted_move_up: "sorted_wrt (\<lambda>a b. signal a \<le> signal b) xs \<Longrightarrow> sorted_wrt (\<lambda>a b. signal a \<le> signal b) (move_up x xs)"
proof (induction xs)
  case (Cons y ys)
  have "set (move_up x ys) = insert x (set ys)" using mset_move_up [of x ys] by (metis set_mset_add_mset_insert set_mset_mset)
  then show ?case using Cons by (auto intro: order_trans)
qed simp

lemma strongest_first_mset: "mset (foldl (\<lambda>acc x. move_up x acc) acc nets) = mset acc + mset nets"
  by (induction nets arbitrary: acc) (simp_all add: mset_move_up)

lemma strongest_first_sorted:
  "sorted_wrt (\<lambda>a b. signal a \<le> signal b) acc \<Longrightarrow> sorted_wrt (\<lambda>a b. signal a \<le> signal b) (foldl (\<lambda>acc x. move_up x acc) acc nets)"
  by (induction nets arbitrary: acc) (simp_all add: sorted_move_up)

lemma strongest_first_props:
  "mset (strongest_first nets) = mset nets" "sorted_wrt (\<lambda>a b. signal a \<ge> signal b) (strongest_first nets)"
  using strongest_first_mset [of "[]" nets] strongest_first_sorted [of "[]" nets] by (simp_all add: strongest_first_def sorted_wrt_rev)

lemma nets_ok_mset: "nets_ok mx es nets \<Longrightarrow> mset nets' = mset nets \<Longrightarrow> nets_ok mx es nets'"
proof -
  assume ok: "nets_ok mx es nets" and m: "mset nets' = mset nets"
  have "set nets' = set nets" "length nets' = length nets" using m mset_eq_setD mset_eq_length by auto
  moreover have "distinct (map ssid nets') = distinct (map ssid nets)" using mset_eq_imp_distinct_iff [of "map ssid nets'" "map ssid nets"] m by simp
  ultimately show "nets_ok mx es nets'" using ok by (simp add: nets_ok_def)
qed

section \<open>Requests\<close>

lemma length_rounds1: "length h = 5 \<Longrightarrow> length (foldl round1 h xs) = 5"
proof (induction xs arbitrary: h)
  case (Cons x xs)
  have "length (round1 h x) = 5" by (simp only: round1_def Let_def case_prod_beta list.size)
  then show ?case using Cons by simp
qed simp

lemma length_blocks1: "length h = 5 \<Longrightarrow> length (foldl sha1_block h bs) = 5"
proof (induction bs arbitrary: h)
  case (Cons b bs)
  have "length (sha1_block h b) = 5" unfolding sha1_block_def by (simp only: length_map length_zip length_rounds1 [OF Cons.prems] Cons.prems min.idem)
  then show ?case using Cons by simp
qed simp

lemma length_be32s: "length (concat (map be32_bytes ws)) = 4 * length ws"
  by (induction ws) (simp_all add: be32_bytes_def)

lemma length_sha1 [simp]: "length (sha1 x) = 20"
  unfolding sha1_def Let_def length_be32s by (subst length_blocks1) simp_all

lemma length_hmac_sha1 [simp]: "length (hmac_sha1 k m) = 20"
  by (simp add: hmac_sha1_def Let_def)

lemma length_psk_rounds: "length t = 20 \<Longrightarrow> length (psk_rounds n pass u t) = 20"
  by (induction n arbitrary: u t) (simp_all add: Let_def xor_bytes_def)

lemma length_wpa_psk: "length (wpa_psk pass name) = 32"
  by (simp add: wpa_psk_def psk_block_def Let_def length_psk_rounds)

text \<open>PBKDF2 as RFC 2898 defines it: the exclusive or of the first \<open>c\<close> iterates, per block.\<close>

definition pbkdf2_f :: "bytes \<Rightarrow> bytes \<Rightarrow> nat \<Rightarrow> bytes \<Rightarrow> bytes" where
  "pbkdf2_f pass salt c blk =
     (let u = (\<lambda>i. (hmac_sha1 pass ^^ i) (hmac_sha1 pass (salt @ blk))) in fold (\<lambda>i t. xor_bytes t (u i)) [1..<c] (u 0))"

lemma psk_rounds_iterates:
  "psk_rounds n pass ((hmac_sha1 pass ^^ k) u) t = fold (\<lambda>i t. xor_bytes t ((hmac_sha1 pass ^^ i) u)) [Suc k..<Suc k + n] t"
proof (induction n arbitrary: k t)
  case (Suc n)
  have "[Suc k..<Suc k + Suc n] = Suc k # [Suc (Suc k)..<Suc (Suc k) + n]" by (simp add: upt_conv_Cons)
  moreover have "hmac_sha1 pass ((hmac_sha1 pass ^^ k) u) = (hmac_sha1 pass ^^ Suc k) u" by simp
  ultimately show ?case using Suc [of "Suc k"] by (simp only: psk_rounds.simps Let_def fold.simps comp_apply)
qed simp

text \<open>
  C37. The key derived from a Wi-Fi password is PBKDF2-HMAC-SHA1 of 4096 rounds over the network's name, to 32 bytes, as RFC 2898 defines it:
  the daemon's one running exclusive or and its one buffer for the iterates compute the same.
\<close>

theorem psk_is_pbkdf2:
  "wpa_psk pass name = take 32 (concat (map (\<lambda>i. pbkdf2_f pass name 4096 (be32_bytes i)) [1, 2]))"
proof -
  have b: "psk_block pass name i = pbkdf2_f pass name 4096 [0, 0, 0, i]" for i
    using psk_rounds_iterates [of 4095 pass 0 "hmac_sha1 pass (name @ [0, 0, 0, i])" "hmac_sha1 pass (name @ [0, 0, 0, i])"]
    by (simp add: psk_block_def pbkdf2_f_def Let_def)
  have e: "be32_bytes 1 = [0, 0, 0, 1]" "be32_bytes 2 = [0, 0, 0, 2]" by code_simp+
  have "length (psk_block pass name 1) = 20" by (simp add: psk_block_def Let_def length_psk_rounds)
  then show ?thesis by (simp add: wpa_psk_def b [symmetric] e)
qed

text \<open>
  What a scan shows: the networks of the file's readable lines, each name once and with its strongest signal, the strongest first,
  and none left out unless the table is full.
\<close>

theorem scan_strongest_first:
  assumes "f_scan w = Some f" "scan_read mx w = Some (n, nets)"
  shows "sorted_wrt (\<lambda>a b. signal a \<ge> signal b) nets \<and> distinct (map ssid nets) \<and> set nets \<subseteq> set (nets_of (file_lines 400 f)) \<and>
    (\<forall>y \<in> set nets. \<forall>e \<in> set (nets_of (file_lines 400 f)). ssid e = ssid y \<longrightarrow> signal e \<le> signal y) \<and>
    (length nets < mx \<longrightarrow> ssid ` set (nets_of (file_lines 400 f)) \<subseteq> ssid ` set nets)"
proof -
  define table where "table = snd (scan_loop mx (file_lines 400 f) (0, []))"
  have nets: "nets = strongest_first table" using assms by (auto simp: scan_read_def table_def split: prod.splits)
  have "nets_ok mx (nets_of (file_lines 400 f)) table"
    using scan_loop_ok [of mx "[]" "[]" "file_lines 400 f" 0] by (simp add: nets_ok_def table_def)
  then have "nets_ok mx (nets_of (file_lines 400 f)) nets" using nets_ok_mset strongest_first_props(1) nets by blast
  then show ?thesis using strongest_first_props(2) nets by (simp add: nets_ok_def)
qed

theorem scan_strongest_first_witness:
  "\<exists>w f nets. f_scan w = Some f \<and> scan_read 48 w = Some (5, nets) \<and> map ssid nets = [ascii ''Cafe'', ascii ''Home''] \<and>
     map signal nets = [-40, -50] \<and> sorted_wrt (\<lambda>a b. signal a \<ge> signal b) nets \<and> length (nets_of (file_lines 400 f)) = 3"
proof -
  let ?tab = "[9 :: byte]"
  let ?f = "ascii ''id 5'' @ [10] @ ascii ''aa'' @ ?tab @ ascii ''2412'' @ ?tab @ ascii ''-60'' @ ?tab @ ascii ''[WPA2-PSK]'' @ ?tab @ ascii ''Home'' @ [10] @
    ascii ''bb'' @ ?tab @ ascii ''2412'' @ ?tab @ ascii ''-40'' @ ?tab @ ascii ''[ESS]'' @ ?tab @ ascii ''Cafe'' @ [10] @
    ascii ''cc'' @ ?tab @ ascii ''5180'' @ ?tab @ ascii ''-50'' @ ?tab @ ascii ''[WPA2-PSK]'' @ ?tab @ ascii ''Home'' @ [10]"
  let ?w = "\<lparr>wifi_request = None, f_lock = False, f_result = None, f_scan = Some ?f, asked_at = 0\<rparr>"
  let ?nets = "[\<lparr>ssid = ascii ''Cafe'', signal = -40, sec = ascii ''open''\<rparr>, \<lparr>ssid = ascii ''Home'', signal = -50, sec = ascii ''psk''\<rparr>]"
  have r: "scan_read 48 ?w = Some (5, ?nets)" by code_simp
  have l: "length (nets_of (file_lines 400 ?f)) = 3" by code_simp
  have "f_scan ?w = Some ?f" by simp
  from this scan_strongest_first [OF this r] r l show ?thesis by (intro exI [of _ ?w] exI [of _ ?f] exI [of _ ?nets]) simp
qed

lemma get_line_prefix:
  assumes "length pre < 63" "\<forall>c \<in> set pre. c \<noteq> 10 \<and> c \<noteq> 0" "c \<noteq> 10" "c \<noteq> 0"
  shows "\<exists>r'. cstr (fst (get_line 64 (pre @ c # r))) = pre @ c # r'"
proof -
  obtain k where k: "take 63 (pre @ c # r) = pre @ c # take k r" using assms(1) by (cases "63 - length pre") auto
  let ?l = "takeWhile (\<lambda>c. c \<noteq> 10) (take k r)"
  have "takeWhile (\<lambda>c. c \<noteq> 10) (pre @ c # take k r) = pre @ c # ?l" using assms by simp
  then have "\<exists>x. fst (get_line 64 (pre @ c # r)) = pre @ c # x" using k by (auto simp: get_line_def Let_def)
  then obtain x where "fst (get_line 64 (pre @ c # r)) = pre @ c # x" by blast
  then show ?thesis using assms(2,4) by (simp add: cstr_def)
qed

lemma dec_digits_char: "c \<in> set (dec_digits n) \<Longrightarrow> c \<noteq> 10 \<and> c \<noteq> 0"
  using isdigit_dec [of c n] by (auto simp: isdigit_def)

lemma pending_join:
  assumes "wifi_request w = Some (join_line n name psk)" "n < 2 ^ 31"
  shows "pending w = Some (ascii ''join'', n)"
proof -
  have "length (dec_digits n) \<le> 10" using assms(2) length_dec_digits [of n 9] by simp
  then have "length (ascii ''join '' @ dec_digits n) < 63" by (simp add: ascii_def)
  moreover have "\<forall>c \<in> set (ascii ''join '' @ dec_digits n). c \<noteq> 10 \<and> c \<noteq> 0" using dec_digits_char by (auto simp: ascii_def)
  ultimately obtain r' where r: "cstr (fst (get_line 64 (join_line n name psk))) = ascii ''join '' @ dec_digits n @ 32 # r'"
    using get_line_prefix [of "ascii ''join '' @ dec_digits n" 32 "hexs name @ 32 # psk @ [10]"] by (auto simp: join_line_def)
  have "ascii ''join '' @ dec_digits n @ 32 # r' = ascii ''join'' @ 32 # dec_digits n @ 32 # r'" by (simp add: ascii_def)
  moreover have "scan_word 7 (ascii ''join'' @ 32 # dec_digits n @ 32 # r') = Some (ascii ''join'', 32 # dec_digits n @ 32 # r')"
    by (rule scan_word_eq) (auto simp: ascii_def isspace_def)
  moreover have "scan_ulong (32 # dec_digits n @ 32 # r') = Some n"
    using scan_ulong_digits [of "32 # r'" n] assms(2) by (simp add: isspace_dropWhile isspace_def isdigit_def)
  moreover have "join_line n name psk \<noteq> []" by (simp add: join_line_def ascii_def)
  ultimately show ?thesis using assms(1) r by (simp add: pending_def)
qed

lemma new_id_bound: "new_id v < 2 ^ 31"
proof -
  have "(v AND 0x7fffffff) OR 1 = take_bit 31 (v OR 1)" by (simp add: take_bit_eq_mask mask_numeral bit.conj_disj_distrib2)
  then show ?thesis by (simp only: new_id_def unsigned_take_bit_eq take_bit_nat_less_exp)
qed

lemma tolower_hexchars: "set p \<subseteq> set hexchars \<Longrightarrow> set (map tolower p) \<subseteq> set (ascii ''0123456789abcdef'')"
proof -
  have "list_all (\<lambda>c. tolower c \<in> set (ascii ''0123456789abcdef'')) hexchars" by code_simp
  then show "set p \<subseteq> set hexchars \<Longrightarrow> set (map tolower p) \<subseteq> set (ascii ''0123456789abcdef'')" by (auto simp: list_all_iff)
qed

definition psk_word :: "bytes \<Rightarrow> bool" where
  "psk_word psk \<longleftrightarrow> psk = [45] \<or> length psk = 64 \<and> set psk \<subseteq> set (ascii ''0123456789abcdef'')"

lemma psk_text_word: "psk_text pass name = Inr psk \<Longrightarrow> psk_word psk \<and> (psk = [45] \<longleftrightarrow> pass = [])"
proof -
  assume p: "psk_text pass name = Inr psk"
  consider "length pass = 64" "set pass \<subseteq> set hexchars" "psk = map tolower pass" | "pass = []" "psk = [45]"
    | "pass \<noteq> []" "psk = hexs (wpa_psk pass name)"
    using p by (auto simp: psk_text_def split: if_splits)
  then show ?thesis
  proof cases
    case 1
    then have "length psk = 64" "set psk \<subseteq> set (ascii ''0123456789abcdef'')" using tolower_hexchars by simp_all
    then show ?thesis using 1(1) by (auto simp: psk_word_def)
  next
    case 3
    then have "length psk = 64" "set psk \<subseteq> set (ascii ''0123456789abcdef'')" using hexs_lower by (simp_all add: length_wpa_psk)
    then show ?thesis using 3(1) by (auto simp: psk_word_def)
  qed (simp add: psk_word_def)
qed

text \<open>
  C15. What reaches root, who reads the request as words of one line: a switch is asked for only when no request waits and none is being
  carried out, and then the line is \<open>join\<close>, the id, the name in hex, which reads back as the name whatever bytes it has, and the key in
  hex or \<open>-\<close>; so neither the name nor the password can add a word or a line.  Reading it back gives the id to wait for.  A refused switch
  leaves the request that waits.
\<close>

theorem join_request_safe:
  assumes "join_request rnd now ok name pass w = (r, w')"
  shows "(case r of Inl e \<Rightarrow> w' = w
     | Inr n \<Rightarrow> pending w = None \<and> \<not> (f_lock w \<and> map_option sw_state (read_result w) = Some (ascii ''switching'')) \<and>
        pending w' = Some (ascii ''join'', n) \<and> unhexs 32 (hexs name) = Some name \<and>
        (\<exists>psk. wifi_request w' = Some (join_line n name psk) \<and> psk_word psk \<and> (psk = [45] \<longleftrightarrow> pass = [])))"
proof (cases r)
  case (Inl e)
  then show ?thesis using assms by (auto simp: join_request_def write_req_def Let_def split: if_splits sum.splits ask.splits)
next
  case (Inr n)
  then obtain psk where p: "psk_text pass name = Inr psk" "may_ask ''join'' w = May" "name \<noteq> []" "length name \<le> 32" "n = new_id rnd"
      "w' = w\<lparr>wifi_request := Some (join_line n name psk), asked_at := now\<rparr>"
    using assms by (auto simp: join_request_def write_req_def Let_def split: if_splits sum.splits ask.splits)
  have "pending w = None" "\<not> (f_lock w \<and> map_option sw_state (read_result w) = Some (ascii ''switching''))"
    using p(2) by (auto simp: may_ask_def split: option.splits if_splits)
  moreover have "pending w' = Some (ascii ''join'', n)" using pending_join new_id_bound p(5,6) by simp
  moreover have "unhexs 32 (hexs name) = Some name" using p(4) by (simp add: unhexs_def unhexs_hexs)
  ultimately show ?thesis using Inr p(6) psk_text_word [OF p(1)] by auto
qed

theorem join_request_safe_witness:
  "\<exists>w w' n. join_request 7 100 True (ascii ''Caf e'') [] w = (Inr n, w') \<and> pending w' = Some (ascii ''join'', n) \<and> n = 7"
proof -
  let ?w = "\<lparr>wifi_request = None, f_lock = False, f_result = None, f_scan = None, asked_at = 0\<rparr>"
  have "new_id 7 = 7" by (simp add: new_id_def)
  then have "\<exists>w'. join_request 7 100 True (ascii ''Caf e'') [] ?w = (Inr 7, w')"
    by (simp add: join_request_def psk_text_def may_ask_def pending_def write_req_def ascii_def)
  then obtain w' where w': "join_request 7 100 True (ascii ''Caf e'') [] ?w = (Inr 7, w')" by blast
  from w' join_request_safe [OF w'] show ?thesis by (intro exI [of _ ?w] exI [of _ w'] exI [of _ 7]) simp
qed

text \<open>
  Every network name wpa_supplicant prints in a scan, whatever bytes it has, comes back as it was.
\<close>

theorem wpa_names_roundtrip: "length name \<le> 32 \<Longrightarrow> wpa_unescape 32 (wpa_escape name) = name"
  by (rule wpa_unescape_escape)

theorem wpa_names_roundtrip_witness: "wpa_unescape 32 (wpa_escape [0x43, 0xc3, 0xa9, 9, 92, 34]) = [0x43, 0xc3, 0xa9, 9, 92, 34]"
  by (rule wpa_names_roundtrip) simp

end
