(* ===== verification/Wakewords.thy ===== *)
theory Wakewords
  imports Scan
begin

text \<open>
  The Echo's name on the network and the choice of wake words (\<^verbatim>\<open>main.c\<close>): host names, the list of models, the active ones and the file that keeps them, the engine,
  loading by the capture thread, and the phrase an Echo claims.  What the model folders hold, and whether a model loads, are arguments; \<open>core_lock\<close> makes each operation one step.
\<close>

section \<open>The node name\<close>

definition toupper :: "byte \<Rightarrow> byte" where
  "toupper c = (if 97 \<le> c \<and> c \<le> 122 then c - 32 else c)"

definition latin1_table :: "bytes option list" where
  "latin1_table = map (map_option ascii)
     [Some ''a'', Some ''a'', Some ''a'', Some ''a'', Some ''ae'', Some ''a'', Some ''ae'', Some ''c'',
      Some ''e'', Some ''e'', Some ''e'', Some ''e'', Some ''i'', Some ''i'', Some ''i'', Some ''i'',
      Some ''d'', Some ''n'', Some ''o'', Some ''o'', Some ''o'', Some ''o'', Some ''oe'', None,
      Some ''o'', Some ''u'', Some ''u'', Some ''u'', Some ''ue'', Some ''y'', Some ''th'', Some ''ss'']"

definition latin1_ascii :: "byte \<Rightarrow> bytes option" where
  "latin1_ascii c = (if c = 0xbf then Some (ascii ''y'') else if c = 0xb7 then None
     else if 0x80 \<le> c \<and> c \<le> 0xbf then latin1_table ! (unat (c - 0x80) mod 32) else None)"

text \<open>One character of the name: what it adds (\<open>None\<close>: it separates words) and what follows.\<close>

definition node_char :: "byte \<Rightarrow> bytes \<Rightarrow> bytes option \<times> bytes" where
  "node_char c r = (if isalnum c then (Some [tolower c], r)
     else if c = 0xc3 \<and> r \<noteq> [] then (latin1_ascii (hd r), tl r)
     else (None, dropWhile (\<lambda>x. x AND 0xc0 = 0x80) r))"

definition node_add :: "bytes \<Rightarrow> bool \<Rightarrow> bytes \<Rightarrow> bytes" where
  "node_add n dash w = (let n1 = (if dash \<and> length n < 63 then n @ [45] else n) in n1 @ take (63 - length n1) w)"

lemma node_char_less: "node_char c r = (a, r') \<Longrightarrow> length r' < Suc (length r)"
  using length_dropWhile_le [of "\<lambda>x. x AND 0xc0 = 0x80" r] by (auto simp: node_char_def split: if_splits)

function node_loop :: "bytes \<Rightarrow> bytes \<Rightarrow> bool \<Rightarrow> bytes" where
  "node_loop [] n dash = n"
| "node_loop (c # r) n dash = (case node_char c r of (None, r') \<Rightarrow> node_loop r' n (n \<noteq> []) | (Some w, r') \<Rightarrow> node_loop r' (node_add n dash w) False)"
  by pat_completeness auto
termination by (relation "measure (\<lambda>(s, n, dash). length s)") (auto dest: node_char_less [OF sym])

definition node_of :: "bytes \<Rightarrow> bytes" where
  "node_of name = (let n = node_loop name [] False in if n = [] then ascii ''echo'' else n)"

text \<open>\<open>name_make\<close>, with the address read, if there is one.\<close>

definition name_make :: "bytes \<Rightarrow> bytes \<Rightarrow> bytes" where
  "name_make default_name mac = fit 64 (if length mac = 17 \<and> mac \<noteq> ascii ''00:00:00:00:00:00''
     then default_name @ 32 # take 2 (drop 9 mac) @ take 2 (drop 12 mac) @ take 2 (drop 15 mac) else default_name)"

definition node_byte :: "byte \<Rightarrow> bool" where
  "node_byte c \<longleftrightarrow> 97 \<le> c \<and> c \<le> 122 \<or> isdigit c"

definition node_ok :: "bytes \<Rightarrow> bool" where
  "node_ok n \<longleftrightarrow> list_all (\<lambda>c. node_byte c \<or> c = 45) n \<and> length n \<le> 63 \<and> successively (\<lambda>x y. \<not> (x = 45 \<and> y = 45)) n \<and>
     (n \<noteq> [] \<longrightarrow> hd n \<noteq> 45 \<and> (last n = 45 \<longrightarrow> length n = 63))"

lemma node_byte_dash: "node_byte c \<Longrightarrow> c \<noteq> 45"
  by (auto simp: node_byte_def isdigit_def)

lemma no_dashes_word: "list_all node_byte w \<Longrightarrow> successively (\<lambda>x y. \<not> (x = 45 \<and> y = 45)) w"
proof (induction w)
  case (Cons c w)
  then show ?case using node_byte_dash by (cases w) auto
qed simp

lemma node_ok_add:
  assumes "node_ok n" "list_all node_byte w" "w \<noteq> []" "dash \<longrightarrow> n \<noteq> []"
  shows "node_ok (node_add n dash w) \<and> node_add n dash w \<noteq> []"
proof -
  define n1 where "n1 = (if dash \<and> length n < 63 then n @ [45] else n)"
  define v where "v = take (63 - length n1) w"
  have v: "list_all node_byte v" using assms(2) by (auto simp: v_def list_all_iff dest: in_set_takeD)
  have l: "length n1 \<le> 63" "length (n1 @ v) \<le> 63" using assms(1) by (auto simp: n1_def v_def node_ok_def)
  have n1: "list_all (\<lambda>c. node_byte c \<or> c = 45) n1" "successively (\<lambda>x y. \<not> (x = 45 \<and> y = 45)) n1" "n1 \<noteq> [] \<longrightarrow> hd n1 \<noteq> 45"
    using assms(1,4) by (auto simp: n1_def node_ok_def successively_append_iff)
  have e: "v = [] \<Longrightarrow> length n1 = 63" using assms(3) l(1) by (auto simp: v_def)
  have hd: "v \<noteq> [] \<Longrightarrow> hd v \<noteq> 45" "v \<noteq> [] \<Longrightarrow> last v \<noteq> 45" using v node_byte_dash by (auto simp: list_all_iff)
  have "node_ok (n1 @ v)"
    using n1 no_dashes_word [OF v] v l(2) e hd by (cases "v = []"; cases "n1 = []") (auto simp: node_ok_def successively_append_iff list_all_iff)
  moreover have "n1 @ v \<noteq> []" using e by auto
  moreover have "node_add n dash w = n1 @ v" by (simp add: node_add_def n1_def v_def Let_def)
  ultimately show ?thesis by simp
qed

lemma latin1_word: "latin1_ascii c = Some w \<Longrightarrow> list_all node_byte w \<and> w \<noteq> []"
proof -
  have t: "list_all (\<lambda>x. case x of None \<Rightarrow> True | Some w \<Rightarrow> list_all node_byte w \<and> w \<noteq> []) (Some (ascii ''y'') # latin1_table)" by code_simp
  have "length latin1_table = 32" by code_simp
  then have "latin1_table ! (unat (c - 0x80) mod 32) \<in> set latin1_table" by simp
  then show "latin1_ascii c = Some w \<Longrightarrow> list_all node_byte w \<and> w \<noteq> []"
    using t by (auto simp: latin1_ascii_def list_all_iff split: if_splits)
qed

lemma tolower_node_byte: "isalnum c \<Longrightarrow> node_byte (tolower c)"
proof -
  have "list_all (\<lambda>k. isalnum (of_nat k) \<longrightarrow> node_byte (tolower (of_nat k))) [0..<256]" by code_simp
  moreover have "unat c \<in> set [0..<256]" using unsigned_less [of c, where ?'a = nat] by simp
  ultimately have "isalnum (of_nat (unat c)) \<longrightarrow> node_byte (tolower (of_nat (unat c)))" unfolding list_all_iff by blast
  then show "isalnum c \<Longrightarrow> node_byte (tolower c)" by simp
qed

lemma node_loop_ok: "node_ok n \<Longrightarrow> dash \<longrightarrow> n \<noteq> [] \<Longrightarrow> node_ok (node_loop s n dash)"
proof (induction s n dash rule: node_loop.induct)
  case (2 c r n dash)
  obtain a r' where cr: "node_char c r = (a, r')" by (cases "node_char c r")
  show ?case
  proof (cases a)
    case None
    then show ?thesis using 2(1) [OF cr [symmetric] None] 2(3) cr by simp
  next
    case (Some w)
    then have "list_all node_byte w \<and> w \<noteq> []"
      using cr latin1_word tolower_node_byte by (auto simp: node_char_def split: if_splits)
    then show ?thesis using 2(2) [OF cr [symmetric] Some] node_ok_add [OF 2(3) _ _ 2(4)] cr Some by simp
  qed
qed simp

text \<open>
  C26. Whatever bytes a name has, the node name made of it is a host name: 1 to 63 lower case letters, digits and dashes, not beginning
  with a dash, no two dashes together, and ending in one only where the name was cut at 63.
\<close>

theorem node_name_wellformed:
  "node_of name \<noteq> [] \<and> length (node_of name) \<le> 63 \<and> list_all (\<lambda>c. node_byte c \<or> c = 45) (node_of name) \<and> hd (node_of name) \<noteq> 45 \<and>
   successively (\<lambda>x y. \<not> (x = 45 \<and> y = 45)) (node_of name) \<and> (last (node_of name) \<noteq> 45 \<or> length (node_of name) = 63)"
proof -
  have "node_ok []" by (simp add: node_ok_def)
  then have "node_ok (node_loop name [] False)" by (rule node_loop_ok) simp
  moreover have "node_ok (ascii ''echo'')" "ascii ''echo'' \<noteq> []" by code_simp+
  ultimately show ?thesis by (auto simp: node_of_def node_ok_def Let_def)
qed

theorem node_name_wellformed_witness:
  "node_of ([0x4b, 0xc3, 0xbc] @ ascii ''che --  1'') = ascii ''kueche-1'' \<and> last (node_of ([0x4b, 0xc3, 0xbc] @ ascii ''che --  1'')) \<noteq> 45"
proof
  show e: "node_of ([0x4b, 0xc3, 0xbc] @ ascii ''che --  1'') = ascii ''kueche-1''" by code_simp
  have "length (node_of ([0x4b, 0xc3, 0xbc] @ ascii ''che --  1'')) \<noteq> 63" unfolding e by (simp add: ascii_def)
  then show "last (node_of ([0x4b, 0xc3, 0xbc] @ ascii ''che --  1'')) \<noteq> 45"
    using node_name_wellformed [of "[0x4b, 0xc3, 0xbc] @ ascii ''che --  1''"] by blast
qed

section \<open>Wake words\<close>

datatype wake_engine = WAKE_AMAZON | WAKE_MWW | WAKE_HA

definition MAX_WAKE_WORDS :: nat where "MAX_WAKE_WORDS = 16"
definition WAKE_SLOTS :: nat where "WAKE_SLOTS = 2"

text \<open>A wake word; \<open>ww_bare\<close> is its entry of \<open>wake_bare_len\<close>.\<close>

record wake_word =
  ww_id :: bytes
  ww_name :: bytes
  ww_lang :: bytes
  ww_manifest :: bytes
  ww_bare :: nat

record mww_info =
  mw_id :: bytes
  mw_name :: bytes
  mw_langs :: bytes

text \<open>What a scan finds: the firmware's own model, the model folder's entries and which files can be read, microWakeWord's models (\<open>mww_list\<close>), \<open>-m\<close>.\<close>

record wake_env =
  board_id :: bytes
  board_manifest :: bytes
  models_dir :: bytes
  entries :: "bytes list"
  readable :: "bytes \<Rightarrow> bool"
  mww_models :: "mww_info list"
  mww_path :: "bytes \<Rightarrow> bytes"
  m_arg :: "bytes option"

record wakes =
  wake_words :: "wake_word list"
  wake_act :: "nat list"
  engine :: wake_engine
  wake_next :: "wake_engine option"
  wake_refused :: string
  wake_switch :: bool
  wake_loaded :: "bytes list"
  wake_phrase :: bytes
  word_file :: "bytes option"
  mww_file :: "bytes option"
  settings_saved :: nat
  entities_changed :: nat
  restart_asked :: bool

definition title_word :: "bytes \<Rightarrow> bytes" where
  "title_word s = rev (foldl (\<lambda>acc c. let d = (if c = 95 then 32 else c) in (if acc = [] \<or> hd acc = 32 then toupper d else tolower d) # acc) [] s)"

definition bare_id :: "bytes \<Rightarrow> bytes" where
  "bare_id i = takeWhile (\<lambda>c. c \<noteq> 45) i"

definition region :: "bytes \<Rightarrow> bytes option" where
  "region i = (let r = dropWhile (\<lambda>c. c \<noteq> 45) i in if r = [] then None else Some (tl r))"

definition new_word :: "bytes \<Rightarrow> bytes \<Rightarrow> wake_word" where
  "new_word i manifest = (let n = title_word (fit 64 (bare_id i))
     in \<lparr>ww_id = fit 64 i, ww_name = n,
         ww_lang = takeWhile (\<lambda>c. c \<noteq> 45 \<and> c \<noteq> 95) (fit 16 (case region i of None \<Rightarrow> ascii ''en'' | Some r \<Rightarrow> r)),
         ww_manifest = fit 256 manifest, ww_bare = length n\<rparr>)"

definition find_index :: "('a \<Rightarrow> bool) \<Rightarrow> 'a list \<Rightarrow> nat option" where
  "find_index P xs = List.find (\<lambda>i. P (xs ! i)) [0..<length xs]"

definition wake_word_add :: "bytes \<Rightarrow> bytes \<Rightarrow> wake_word list \<Rightarrow> nat option \<times> wake_word list" where
  "wake_word_add i manifest ws = (case find_index (\<lambda>w. ww_manifest w = manifest) ws of Some k \<Rightarrow> (Some k, ws)
     | None \<Rightarrow> if length ws = MAX_WAKE_WORDS then (None, ws) else (Some (length ws), ws @ [new_word i manifest]))"

definition renamed :: "bytes \<Rightarrow> wake_word \<Rightarrow> bool" where
  "renamed i w \<longleftrightarrow> take (length i + 1) (ww_id w) = i @ [45]"

definition wake_word_find :: "bytes \<Rightarrow> wake_word list \<Rightarrow> nat option" where
  "wake_word_find i ws = (case find_index (\<lambda>w. ww_id w = i) ws of Some k \<Rightarrow> Some k
     | None \<Rightarrow> (case filter (\<lambda>k. renamed i (ws ! k)) [0..<length ws] of [k] \<Rightarrow> Some k | _ \<Rightarrow> None))"

definition mww_words_scan :: "wake_env \<Rightarrow> wake_word list" where
  "mww_words_scan E = map (\<lambda>m. \<lparr>ww_id = take 47 (mw_id m), ww_name = take 63 (mw_name m),
      ww_lang = fit 16 (takeWhile (\<lambda>c. c \<noteq> 44) (if mw_langs m \<noteq> [] then mw_langs m else ascii ''en'')),
      ww_manifest = take 255 (mww_path E (mw_id m)), ww_bare = length (take 63 (mw_name m))\<rparr>) (take MAX_WAKE_WORDS (mww_models E))"

fun models_loop :: "wake_env \<Rightarrow> bytes list \<Rightarrow> wake_word list \<Rightarrow> wake_word list" where
  "models_loop E [] ws = ws"
| "models_loop E (e # es) ws =
     (let path = fit 512 (models_dir E @ 47 # e @ ascii ''/pryon.manifest'')
      in models_loop E es (if (e \<noteq> [] \<and> hd e = 46) \<or> \<not> readable E path then ws else snd (wake_word_add e path ws)))"

definition dir_of :: "bytes \<Rightarrow> bytes" where
  "dir_of p = (if 47 \<in> set p then rev (tl (dropWhile (\<lambda>c. c \<noteq> 47) (rev p))) else p)"

definition base_of :: "bytes \<Rightarrow> bytes" where
  "base_of p = rev (takeWhile (\<lambda>c. c \<noteq> 47) (rev p))"

text \<open>\<open>-m\<close>: the words with its model added, and the index of the one to begin with.\<close>

definition m_word :: "wake_env \<Rightarrow> wake_word list \<Rightarrow> wake_word list \<times> nat" where
  "m_word E ws = (case m_arg E of None \<Rightarrow> (ws, 0)
     | Some m \<Rightarrow>
       (let i = base_of (dir_of (fit 256 m)); (k, ws') = (if readable E m then wake_word_add i m ws else (wake_word_find i ws, ws))
        in (ws', case k of None \<Rightarrow> 0 | Some k \<Rightarrow> k)))"

text \<open>A name two sets share gets the set's language and region.\<close>

definition shared :: "wake_word list \<Rightarrow> wake_word \<Rightarrow> bool" where
  "shared ws w \<longleftrightarrow> length (filter (\<lambda>v. ww_name v = ww_name w) ws) > 1"

definition told_apart :: "wake_word list \<Rightarrow> wake_word list" where
  "told_apart ws = map (\<lambda>w. case region (ww_id w) of
       Some r \<Rightarrow> if shared ws w then w\<lparr>ww_name := ww_name w @ fit (64 - length (ww_name w)) (ascii '' ('' @ take 20 r @ ascii '')'')\<rparr> else w
     | None \<Rightarrow> w) ws"

fun saved_loop :: "wake_word list \<Rightarrow> nat \<Rightarrow> nat \<Rightarrow> bytes \<Rightarrow> nat list \<Rightarrow> nat list" where
  "saved_loop ws 0 k f act = act"
| "saved_loop ws (Suc n) k f act = (case scan_word 63 f of None \<Rightarrow> act
     | Some (w, r) \<Rightarrow> saved_loop ws n (k + 1) r
         (case wake_word_find (cstr w) ws of None \<Rightarrow> act | Some i \<Rightarrow> if k = 0 then [i] else if i \<noteq> hd act then act @ [i] else act))"

definition wake_words_scan :: "wake_env \<Rightarrow> wakes \<Rightarrow> wakes" where
  "wake_words_scan E s =
     (let mww = (if engine s = WAKE_MWW then mww_words_scan E else []);
          eng = (if engine s = WAKE_MWW \<and> mww = [] then WAKE_AMAZON else engine s);
          (ws, def) = (if eng = WAKE_AMAZON
            then m_word E (models_loop E (entries E) (snd (wake_word_add (board_id E) (board_manifest E) []))) else (mww, 0));
          ws' = (if eng = WAKE_AMAZON then told_apart ws else ws);
          file = (if eng = WAKE_MWW then mww_file s else word_file s)
      in s\<lparr>wake_words := ws', engine := eng, wake_act := (case file of None \<Rightarrow> [def] | Some f \<Rightarrow> saved_loop ws' WAKE_SLOTS 0 f [def])\<rparr>)"

section \<open>Choosing\<close>

definition wake_save :: "bool \<Rightarrow> wakes \<Rightarrow> wakes" where
  "wake_save ok s = (if \<not> ok then s
     else (let f = concat (map (\<lambda>i. ww_id (wake_words s ! i) @ [10]) (wake_act s))
           in if engine s = WAKE_MWW then s\<lparr>mww_file := Some f\<rparr> else s\<lparr>word_file := Some f\<rparr>))"

fun picks :: "nat \<Rightarrow> int list \<Rightarrow> nat list \<Rightarrow> nat list" where
  "picks n [] a = a"
| "picks n (x # xs) a = (if length a \<ge> WAKE_SLOTS then a
     else picks n xs (if x < 0 \<or> x \<ge> int n \<or> nat x \<in> set a then a else a @ [nat x]))"

definition first_first :: "nat \<Rightarrow> nat list \<Rightarrow> nat list" where
  "first_first cur a = foldl (\<lambda>a i. if a ! i = cur then a[i := a ! 0, 0 := cur] else a) a [1..<length a]"

definition core_wake_set :: "bool \<Rightarrow> int list \<Rightarrow> wakes \<Rightarrow> wakes \<times> bool" where
  "core_wake_set ok xs s =
     (let a = picks (length (wake_words s)) xs []; b = first_first (hd (wake_act s)) a
      in if a = [] then (s, False)
         else if b = wake_act s then (s, True)
         else ((wake_save ok (s\<lparr>wake_act := b, wake_phrase := []\<rparr>))\<lparr>wake_switch := True\<rparr>, True))"

definition core_wake_word :: "bool \<Rightarrow> int \<Rightarrow> wakes \<Rightarrow> wakes" where
  "core_wake_word ok x s = (if 0 \<le> x \<and> x < int (length (wake_words s)) \<and> (nat x \<noteq> hd (wake_act s) \<or> length (wake_act s) > 1)
     then fst (core_wake_set ok [x] s) else s)"

definition core_wake_max :: "wakes \<Rightarrow> nat" where
  "core_wake_max s = min (length (wake_words s)) WAKE_SLOTS"

definition core_wake_phrase :: "wakes \<Rightarrow> bytes" where
  "core_wake_phrase s = (if wake_phrase s \<noteq> [] then wake_phrase s else if wake_words s \<noteq> [] then ww_name (wake_words s ! hd (wake_act s)) else [])"

definition wake_phrase_bare :: "wakes \<Rightarrow> bytes" where
  "wake_phrase_bare s = (let p = core_wake_phrase s
     in fit 64 (case List.find (\<lambda>w. ww_name w = p) (wake_words s) of None \<Rightarrow> p | Some w \<Rightarrow> take (ww_bare w) p))"

section \<open>The engine\<close>

definition wake_list_changed :: "wakes \<Rightarrow> wakes" where
  "wake_list_changed s = s\<lparr>wake_switch := True, entities_changed := entities_changed s + 1\<rparr>"

definition engine_now :: "bool \<Rightarrow> wakes \<Rightarrow> wake_engine" where
  "engine_now here s = (case wake_next s of Some e \<Rightarrow> e | None \<Rightarrow> if here then engine s else WAKE_HA)"

text \<open>\<open>core_wake_engine(set)\<close> with \<open>set \<ge> 0\<close>; \<open>here\<close>: \<open>core_local_wake\<close>, \<open>remote\<close>: \<open>wake_cmdline_remote\<close>, \<open>ok\<close>: the restart's file can be written.\<close>

definition core_wake_engine :: "wake_env \<Rightarrow> bool \<Rightarrow> bool \<Rightarrow> bool \<Rightarrow> wake_engine \<Rightarrow> wakes \<Rightarrow> wakes" where
  "core_wake_engine E here remote ok e s0 =
     (let s = s0\<lparr>wake_refused := []\<rparr>
      in if e = engine_now here s0 then s0
         else if remote then s\<lparr>wake_refused := ''hassmic.conf starts the satellite with -w remote: take that out of ARGS first''\<rparr>
         else if e = WAKE_MWW \<and> mww_models E = [] then s\<lparr>wake_refused := ''no microWakeWord model on this Echo yet: add one first''\<rparr>
         else if e = WAKE_HA \<or> \<not> here \<or> wake_next s \<noteq> None
           then (let s1 = s\<lparr>wake_next := Some e, settings_saved := settings_saved s + 1\<rparr>
                 in if ok then s1\<lparr>restart_asked := True\<rparr>
                    else s1\<lparr>wake_next := None, settings_saved := settings_saved s1 + 1, wake_refused := ''cannot ask for the restart''\<rparr>)
         else wake_list_changed (wake_words_scan E (s\<lparr>engine := e\<rparr>)))"

definition core_wake_models_changed :: "wake_env \<Rightarrow> wakes \<Rightarrow> wakes" where
  "core_wake_models_changed E s = (if engine s \<noteq> WAKE_MWW then s
     else (let s1 = wake_words_scan E s; s2 = (if engine s1 \<noteq> WAKE_MWW then s1\<lparr>settings_saved := settings_saved s1 + 1\<rparr> else s1)
           in wake_list_changed s2))"

section \<open>Loading\<close>

definition wake_loaded_set :: "wakes \<Rightarrow> wakes" where
  "wake_loaded_set s = s\<lparr>wake_loaded := map (\<lambda>k. if k < length (wake_act s) then ww_name (wake_words s ! (wake_act s ! k)) else []) [0..<WAKE_SLOTS]\<rparr>"

text \<open>The parts of \<open>wake_load\<close> under the lock, with whether the model read before opened: other operations may run between them.\<close>

definition wake_load_first :: "wake_env \<Rightarrow> bool \<Rightarrow> bool \<Rightarrow> wakes \<Rightarrow> wakes" where
  "wake_load_first E ok opened s = (if opened then s
     else if engine s = WAKE_MWW then core_wake_engine E True False ok WAKE_AMAZON s
     else s\<lparr>wake_act := [0]\<rparr>)"

definition wake_load_second :: "wake_word \<Rightarrow> bool \<Rightarrow> wakes \<Rightarrow> wakes" where
  "wake_load_second w opened s = (if \<not> opened \<and> length (wake_act s) > 1 \<and> ww_manifest (wake_words s ! (wake_act s ! 1)) = ww_manifest w
     then s\<lparr>wake_act := take 1 (wake_act s)\<rparr> else s)"

text \<open>\<open>on_wake\<close>: the word a slot holds was heard; the button takes the first one's.\<close>

definition wake_heard_in :: "nat \<Rightarrow> wakes \<Rightarrow> wakes" where
  "wake_heard_in slot s = s\<lparr>wake_phrase := fit 64 (wake_loaded s ! slot)\<rparr>"

definition wake_by_button :: "wakes \<Rightarrow> wakes" where
  "wake_by_button s = s\<lparr>wake_phrase := []\<rparr>"

section \<open>The choice stays valid\<close>

definition wake_ok :: "wakes \<Rightarrow> bool" where
  "wake_ok s \<longleftrightarrow> wake_words s \<noteq> [] \<and> length (wake_words s) \<le> MAX_WAKE_WORDS \<and> wake_act s \<noteq> [] \<and> length (wake_act s) \<le> WAKE_SLOTS \<and>
     distinct (wake_act s) \<and> list_all (\<lambda>i. i < length (wake_words s)) (wake_act s) \<and> engine s \<noteq> WAKE_HA"

text \<open>What may happen, in any order, after the start's scan; the model folders may differ each time.\<close>

inductive wake_reach :: "wakes \<Rightarrow> bool" where
  start: "engine s \<noteq> WAKE_HA \<Longrightarrow> wake_reach (wake_words_scan E s)"
| pick: "wake_reach s \<Longrightarrow> wake_reach (fst (core_wake_set ok xs s))"
| pick_one: "wake_reach s \<Longrightarrow> wake_reach (core_wake_word ok x s)"
| other_engine: "wake_reach s \<Longrightarrow> wake_reach (core_wake_engine E here remote ok e s)"
| models: "wake_reach s \<Longrightarrow> wake_reach (core_wake_models_changed E s)"
| load_first: "wake_reach s \<Longrightarrow> wake_reach (wake_load_first E ok opened s)"
| load_second: "wake_reach s \<Longrightarrow> wake_reach (wake_load_second w opened s)"
| names: "wake_reach s \<Longrightarrow> wake_reach (wake_loaded_set s)"
| heard: "wake_reach s \<Longrightarrow> wake_reach (wake_heard_in slot s)"
| button: "wake_reach s \<Longrightarrow> wake_reach (wake_by_button s)"

lemma find_index_bound: "find_index P xs = Some i \<Longrightarrow> i < length xs \<and> P (xs ! i)"
  by (auto simp: find_index_def find_Some_iff)

lemma wake_word_find_bound: "wake_word_find i ws = Some k \<Longrightarrow> k < length ws"
proof -
  assume f: "wake_word_find i ws = Some k"
  have "filter (\<lambda>k. renamed i (ws ! k)) [0..<length ws] = [k] \<Longrightarrow> k \<in> set (filter (\<lambda>k. renamed i (ws ! k)) [0..<length ws])" by simp
  then show "k < length ws" using f find_index_bound by (fastforce simp: wake_word_find_def split: option.splits list.splits)
qed

definition words_ok :: "wake_word list \<Rightarrow> bool" where
  "words_ok ws \<longleftrightarrow> ws \<noteq> [] \<and> length ws \<le> MAX_WAKE_WORDS"

lemma wake_word_add_ok:
  assumes "length ws \<le> MAX_WAKE_WORDS" "wake_word_add i m ws = (k, ws')"
  shows "words_ok ws'" "\<And>j. k = Some j \<Longrightarrow> j < length ws'"
  using assms find_index_bound [of _ ws]
  by (auto simp: wake_word_add_def words_ok_def MAX_WAKE_WORDS_def find_index_def split: option.splits if_splits)

lemma models_loop_ok: "words_ok ws \<Longrightarrow> words_ok (models_loop E es ws)"
proof (induction es arbitrary: ws)
  case (Cons e es)
  have "words_ok (snd (wake_word_add e p ws))" for p
    using wake_word_add_ok(1) [of ws e p] Cons.prems by (cases "wake_word_add e p ws") (auto simp: words_ok_def)
  then show ?case using Cons by (simp add: Let_def)
qed simp

lemma m_word_ok: "words_ok ws \<Longrightarrow> m_word E ws = (ws', d) \<Longrightarrow> words_ok ws' \<and> d < length ws'"
proof -
  assume ws: "words_ok ws" and m: "m_word E ws = (ws', d)"
  show ?thesis
  proof (cases "m_arg E")
    case None
    then show ?thesis using ws m by (simp add: m_word_def words_ok_def)
  next
    case (Some a)
    let ?i = "base_of (dir_of (fit 256 a))"
    obtain k ws1 where k: "(if readable E a then wake_word_add ?i a ws else (wake_word_find ?i ws, ws)) = (k, ws1)" by fastforce
    have "words_ok ws1" "\<And>j. k = Some j \<Longrightarrow> j < length ws1"
      using k ws wake_word_add_ok [of ws ?i a k ws1] wake_word_find_bound [of ?i ws] by (auto simp: words_ok_def split: if_splits)
    then show ?thesis using m Some k by (auto simp: m_word_def words_ok_def Let_def split: option.splits)
  qed
qed

definition act_ok :: "wake_word list \<Rightarrow> nat list \<Rightarrow> bool" where
  "act_ok ws act \<longleftrightarrow> act \<noteq> [] \<and> distinct act \<and> list_all (\<lambda>i. i < length ws) act"

lemma WAKE_SLOTS_Suc: "WAKE_SLOTS = Suc (Suc 0)"
  by (simp add: WAKE_SLOTS_def)

lemma saved_loop_ok:
  assumes "i < length ws"
  shows "act_ok ws (saved_loop ws WAKE_SLOTS 0 f [i]) \<and> length (saved_loop ws WAKE_SLOTS 0 f [i]) \<le> WAKE_SLOTS"
  unfolding WAKE_SLOTS_Suc using assms wake_word_find_bound by (auto simp: act_ok_def split: option.splits)

lemma length_told_apart [simp]: "length (told_apart ws) = length ws"
  by (simp add: told_apart_def)

text \<open>The words a scan lists, before names are told apart, and the one to begin with.\<close>

definition amazon_words :: "wake_env \<Rightarrow> wake_word list \<times> nat" where
  "amazon_words E = m_word E (models_loop E (entries E) (snd (wake_word_add (board_id E) (board_manifest E) [])))"

lemma amazon_words_ok: "words_ok (fst (amazon_words E)) \<and> snd (amazon_words E) < length (fst (amazon_words E))"
proof -
  have "words_ok (snd (wake_word_add (board_id E) (board_manifest E) []))"
    using wake_word_add_ok(1) [of "[]" "board_id E" "board_manifest E"] by (cases "wake_word_add (board_id E) (board_manifest E) []") auto
  then show ?thesis using m_word_ok [OF models_loop_ok] by (metis amazon_words_def prod.collapse)
qed

definition scanned :: "wake_word list \<Rightarrow> nat \<Rightarrow> bytes option \<Rightarrow> nat list" where
  "scanned ws d file = (case file of None \<Rightarrow> [d] | Some f \<Rightarrow> saved_loop ws WAKE_SLOTS 0 f [d])"

lemma scan_eq:
  assumes "engine s \<noteq> WAKE_HA"
  shows "wake_words_scan E s = (if engine s = WAKE_MWW \<and> mww_words_scan E \<noteq> []
     then s\<lparr>wake_words := mww_words_scan E, engine := WAKE_MWW, wake_act := scanned (mww_words_scan E) 0 (mww_file s)\<rparr>
     else (let ws = told_apart (fst (amazon_words E))
           in s\<lparr>wake_words := ws, engine := WAKE_AMAZON, wake_act := scanned ws (snd (amazon_words E)) (word_file s)\<rparr>))"
  using assms by (cases "engine s") (auto simp: wake_words_scan_def amazon_words_def scanned_def Let_def case_prod_beta split: option.splits)

lemma scanned_ok: "d < length ws \<Longrightarrow> act_ok ws (scanned ws d file) \<and> length (scanned ws d file) \<le> WAKE_SLOTS"
  using saved_loop_ok [of d ws] by (auto simp: scanned_def act_ok_def WAKE_SLOTS_def split: option.splits)

lemma scan_ok: "engine s \<noteq> WAKE_HA \<Longrightarrow> wake_ok (wake_words_scan E s)"
proof -
  assume e: "engine s \<noteq> WAKE_HA"
  have m: "length (mww_words_scan E) \<le> MAX_WAKE_WORDS" by (simp add: mww_words_scan_def)
  have t: "told_apart (fst (amazon_words E)) \<noteq> []" "length (told_apart (fst (amazon_words E))) \<le> MAX_WAKE_WORDS"
      "snd (amazon_words E) < length (told_apart (fst (amazon_words E)))"
    using amazon_words_ok [of E] by (auto simp: words_ok_def simp flip: length_greater_0_conv)
  show "wake_ok (wake_words_scan E s)"
    unfolding scan_eq [OF e] using m t scanned_ok [of 0 "mww_words_scan E" "mww_file s"] scanned_ok [OF t(3), of "word_file s"]
    by (auto simp: wake_ok_def act_ok_def Let_def)
qed

lemma picks_ok:
  "distinct a \<Longrightarrow> list_all (\<lambda>i. i < n) a \<Longrightarrow> length a \<le> WAKE_SLOTS \<Longrightarrow>
   distinct (picks n xs a) \<and> list_all (\<lambda>i. i < n) (picks n xs a) \<and> length (picks n xs a) \<le> WAKE_SLOTS"
proof (induction xs arbitrary: a)
  case (Cons x xs)
  show ?case
  proof (cases "length a \<ge> WAKE_SLOTS \<or> x < 0 \<or> x \<ge> int n \<or> nat x \<in> set a")
    case False
    then have "nat x < n" by auto
    then show ?thesis using Cons.IH [of "a @ [nat x]"] Cons.prems False by simp
  qed (use Cons in auto)
qed simp

lemma first_first_eq:
  assumes "length a \<le> WAKE_SLOTS"
  shows "first_first cur a = (case a of [x, y] \<Rightarrow> if y = cur then [y, x] else a | _ \<Rightarrow> a)"
proof -
  consider "a = []" | x where "a = [x]" | x y where "a = [x, y]" using assms by (cases a; cases "tl a") (auto simp: WAKE_SLOTS_def)
  then show ?thesis by cases (auto simp: first_first_def)
qed

lemma set_ok: "wake_ok s \<Longrightarrow> wake_ok (fst (core_wake_set ok xs s))"
proof -
  assume s: "wake_ok s"
  let ?a = "picks (length (wake_words s)) xs []"
  have a: "distinct ?a" "list_all (\<lambda>i. i < length (wake_words s)) ?a" "length ?a \<le> WAKE_SLOTS" using picks_ok [of "[]"] by simp_all
  have "act_ok (wake_words s) (first_first (hd (wake_act s)) ?a) \<and> length (first_first (hd (wake_act s)) ?a) \<le> WAKE_SLOTS" if "?a \<noteq> []"
    using a that unfolding first_first_eq [OF a(3)] by (auto simp: act_ok_def split: list.splits)
  then show ?thesis using s by (auto simp: core_wake_set_def wake_save_def wake_ok_def act_ok_def Let_def)
qed

lemma engine_ok: "wake_ok s \<Longrightarrow> wake_ok (core_wake_engine E here remote ok e s)"
  using scan_ok [of "s\<lparr>wake_refused := [], engine := e\<rparr>" E]
  by (auto simp: core_wake_engine_def wake_list_changed_def wake_ok_def Let_def)

lemma wake_reach_ok: "wake_reach s \<Longrightarrow> wake_ok s"
proof (induction rule: wake_reach.induct)
  case (models s E)
  then have "engine s \<noteq> WAKE_HA" by (simp add: wake_ok_def)
  then show ?case using models scan_ok [of s E] by (auto simp: core_wake_models_changed_def wake_list_changed_def wake_ok_def Let_def)
next
  case (load_first s E ok opened)
  then show ?case using engine_ok by (auto simp: wake_load_first_def wake_ok_def WAKE_SLOTS_def)
next
  case (load_second s w opened)
  have "list_all P (take 1 xs)" if "list_all P xs" for P and xs :: "nat list" using that by (auto simp: list_all_iff dest: in_set_takeD)
  then show ?case using load_second by (auto simp: wake_load_second_def wake_ok_def)
next
  case (pick_one s ok x)
  then show ?case by (simp add: core_wake_word_def set_ok)
qed (simp_all add: scan_ok set_ok engine_ok, simp_all add: wake_ok_def wake_loaded_set_def wake_heard_in_def wake_by_button_def)

lemma distinct_below: "distinct xs \<Longrightarrow> list_all (\<lambda>i. i < n) xs \<Longrightarrow> length xs \<le> n"
  using card_mono [of "{..<n}" "set xs"] by (auto simp: list_all_iff distinct_card)

text \<open>
  Whatever Home Assistant picks, whichever engine is chosen, whatever models come, go or fail to load, in whatever order: there is always a wake word, the active
  ones are one or two different ones of the list, never more than Home Assistant is told there can be.
\<close>

theorem wake_choice_valid:
  assumes "wake_reach s"
  shows "wake_words s \<noteq> [] \<and> length (wake_words s) \<le> MAX_WAKE_WORDS \<and> 1 \<le> length (wake_act s) \<and> length (wake_act s) \<le> core_wake_max s \<and>
    distinct (wake_act s) \<and> (\<forall>i \<in> set (wake_act s). i < length (wake_words s))"
  using wake_reach_ok [OF assms] distinct_below [of "wake_act s" "length (wake_words s)"]
  by (auto simp: wake_ok_def core_wake_max_def list_all_iff Suc_le_eq)

section \<open>The choice survives a restart\<close>

text \<open>Ids that can be written as words: what \<open>fscanf\<close> reads back.\<close>

definition word_id :: "bytes \<Rightarrow> bool" where
  "word_id i \<longleftrightarrow> i \<noteq> [] \<and> length i \<le> 63 \<and> (\<forall>c \<in> set i. \<not> isspace c \<and> c \<noteq> 0)"

lemma find_index_unique:
  assumes "k < length xs" "P (xs ! k)" "\<And>j. j < length xs \<Longrightarrow> P (xs ! j) \<Longrightarrow> j = k"
  shows "find_index P xs = Some k"
  unfolding find_index_def find_Some_iff
proof (intro exI [of _ k] conjI allI impI)
  fix j assume "j < k"
  then have "[0..<length xs] ! j = j" "j < length xs" "j \<noteq> k" using assms(1) by simp_all
  then show "\<not> P (xs ! ([0..<length xs] ! j))" using assms(3) by auto
qed (use assms(1,2) in simp_all)

lemma wake_word_find_own:
  assumes "distinct (map ww_id ws)" "k < length ws"
  shows "wake_word_find (ww_id (ws ! k)) ws = Some k"
proof -
  have "find_index (\<lambda>w. ww_id w = ww_id (ws ! k)) ws = Some k"
    using assms nth_eq_iff_index_eq [of "map ww_id ws"] by (intro find_index_unique) auto
  then show ?thesis by (simp add: wake_word_find_def)
qed

lemma scan_word_id: "word_id i \<Longrightarrow> scan_word 63 (i @ 10 # r) = Some (i, 10 # r)"
  by (rule scan_word_eq) (auto simp: word_id_def isspace_def)

lemma cstr_word_id: "word_id i \<Longrightarrow> cstr i = i"
  by (simp add: word_id_def cstr_def)

lemma scanned_saved:
  assumes ids: "distinct (map ww_id ws)" "list_all (\<lambda>w. word_id (ww_id w)) ws"
    and act: "act_ok ws act" "length act \<le> WAKE_SLOTS"
  shows "scanned ws d (Some (concat (map (\<lambda>i. ww_id (ws ! i) @ [10]) act))) = act"
proof -
  have w: "word_id (ww_id (ws ! i))" "wake_word_find (ww_id (ws ! i)) ws = Some i" if "i < length ws" for i
    using ids that wake_word_find_own by (simp_all add: list_all_length)
  consider i where "act = [i]" "i < length ws" | i j where "act = [i, j]" "i < length ws" "j < length ws" "i \<noteq> j"
    using act by (cases act; cases "tl act"; cases "tl (tl act)") (auto simp: act_ok_def WAKE_SLOTS_def)
  then show ?thesis
  proof cases
    case (1 i)
    have "scan_word 63 [10] = None" by (simp add: scan_word_def isspace_def)
    then show ?thesis using 1 w [OF 1(2)] scan_word_id by (simp add: scanned_def WAKE_SLOTS_Suc cstr_word_id)
  next
    case (2 i j)
    have "scan_word 63 (10 # x) = scan_word 63 x" for x by (rule scan_word_space) (simp add: isspace_def)
    then show ?thesis using 2 w [OF 2(2)] w [OF 2(3)] scan_word_id
      by (simp add: scanned_def WAKE_SLOTS_Suc cstr_word_id)
  qed
qed


section \<open>Echos with different sets claim the same word\<close>

definition id_ok :: "wake_word \<Rightarrow> bool" where
  "id_ok w \<longleftrightarrow> length (ww_id w) \<le> 40 \<and> 40 \<notin> set (ww_id w)"

lemma case_40: "toupper d = 40 \<Longrightarrow> d = 40" "tolower d = 40 \<Longrightarrow> d = 40"
proof -
  have "d - 32 = 40 \<Longrightarrow> d = 72" "d + 32 = 40 \<Longrightarrow> d = 8" by (simp_all add: diff_eq_eq eq_diff_eq [symmetric])
  then show "toupper d = 40 \<Longrightarrow> d = 40" "tolower d = 40 \<Longrightarrow> d = 40" by (auto simp: toupper_def tolower_def split: if_splits)
qed

lemma title_word_props: "length (title_word s) = length s" "40 \<notin> set s \<Longrightarrow> 40 \<notin> set (title_word s)"
proof -
  let ?f = "\<lambda>acc c. let d = (if c = 95 then 32 else c) in (if acc = [] \<or> hd acc = 32 then toupper d else tolower d) # acc"
  have l: "length (foldl ?f a s) = length a + length s" for a by (induction s arbitrary: a) (simp_all add: Let_def)
  have p: "40 \<notin> set s \<Longrightarrow> 40 \<notin> set a \<Longrightarrow> 40 \<notin> set (foldl ?f a s)" for a
  proof (induction s arbitrary: a)
    case (Cons c s)
    have "toupper 32 \<noteq> 40" "tolower 32 \<noteq> 40" by (simp_all add: toupper_def tolower_def)
    then have "40 \<notin> set (?f a c)" using Cons.prems case_40 [of c] by (auto simp: Let_def)
    then show ?case using Cons.IH [of "?f a c"] Cons.prems by simp
  qed simp
  show "length (title_word s) = length s" "40 \<notin> set s \<Longrightarrow> 40 \<notin> set (title_word s)" using l p [of "[]"] by (simp_all add: title_word_def)
qed

definition made :: "wake_word list \<Rightarrow> bool" where
  "made ws \<longleftrightarrow> (\<forall>w \<in> set ws. \<exists>i m. w = new_word i m)"

lemma made_add: "made ws \<Longrightarrow> made (snd (wake_word_add i m ws))"
  by (auto simp: made_def wake_word_add_def split: option.splits if_splits)

lemma made_models: "made ws \<Longrightarrow> made (models_loop E es ws)"
  by (induction es arbitrary: ws) (simp_all add: Let_def made_add)

lemma made_amazon: "made (fst (amazon_words E))"
proof -
  have "made (models_loop E (entries E) (snd (wake_word_add (board_id E) (board_manifest E) [])))"
    by (intro made_models made_add) (simp add: made_def)
  then show ?thesis by (auto simp: amazon_words_def m_word_def Let_def case_prod_beta made_add split: option.splits)
qed

text \<open>A listed word's name: as said, or with its region behind.\<close>

lemma told_apart_name:
  assumes "made ws" "w \<in> set (told_apart ws)" "id_ok w"
  shows "ww_bare w = length (title_word (bare_id (ww_id w))) \<and>
    (ww_name w = title_word (bare_id (ww_id w)) \<or> (\<exists>r. ww_name w = title_word (bare_id (ww_id w)) @ 32 # 40 # r))"
proof -
  obtain w0 where w0: "w0 \<in> set ws" and e: "w = (case region (ww_id w0) of
       Some r \<Rightarrow> if shared ws w0 then w0\<lparr>ww_name := ww_name w0 @ fit (64 - length (ww_name w0)) (ascii '' ('' @ take 20 r @ ascii '')'')\<rparr> else w0
     | None \<Rightarrow> w0)" using assms(2) by (auto simp: told_apart_def)
  obtain i m where i: "w0 = new_word i m" using assms(1) w0 by (auto simp: made_def)
  have id: "ww_id w = fit 64 i" using e i by (auto simp: new_word_def Let_def split: option.splits)
  then have "length i \<le> 40" using assms(3) by (auto simp: id_ok_def fit_def min_def split: if_splits)
  moreover from this have "length (bare_id i) \<le> 40" using length_takeWhile_le [of "\<lambda>c. c \<noteq> 45" i] by (simp add: bare_id_def)
  ultimately have n: "fit 64 i = i" "fit 64 (bare_id i) = bare_id i" "length (title_word (bare_id i)) \<le> 40" by (simp_all add: fit_def title_word_props)
  have "ww_name w0 = title_word (bare_id i)" "ww_bare w0 = length (title_word (bare_id i))" "ww_id w = i"
    using i n id by (simp_all add: new_word_def Let_def)
  moreover have "\<exists>r'. fit (64 - length (title_word (bare_id i))) (ascii '' ('' @ x) = 32 # 40 # r'" for x
  proof -
    have "2 \<le> 63 - length (title_word (bare_id i))" using n(3) by simp
    then obtain k where "63 - length (title_word (bare_id i)) = 2 + k" using le_Suc_ex by blast
    then show ?thesis by (simp add: fit_def ascii_def)
  qed
  ultimately show ?thesis using e by (auto split: option.splits)
qed

lemma same_name_same_bare:
  assumes "made ws" "w \<in> set (told_apart ws)" "v \<in> set (told_apart ws)" "id_ok w" "id_ok v" "ww_name w = ww_name v"
  shows "title_word (bare_id (ww_id w)) = title_word (bare_id (ww_id v))"
proof -
  have no: "40 \<notin> set (title_word (bare_id (ww_id x)))" if "id_ok x" for x
    using that title_word_props(2) by (auto simp: id_ok_def bare_id_def dest: set_takeWhileD)
  then have tw: "takeWhile (\<lambda>c. c \<noteq> 40) (title_word (bare_id (ww_id x))) = title_word (bare_id (ww_id x))"
      "takeWhile (\<lambda>c. c \<noteq> 40) (title_word (bare_id (ww_id x)) @ 32 # 40 # r) = title_word (bare_id (ww_id x)) @ [32]" if "id_ok x" for x r
  proof -
    have n: "\<And>c. c \<in> set (title_word (bare_id (ww_id x))) \<Longrightarrow> c \<noteq> 40" using no [OF that] by auto
    show "takeWhile (\<lambda>c. c \<noteq> 40) (title_word (bare_id (ww_id x)) @ 32 # 40 # r) = title_word (bare_id (ww_id x)) @ [32]"
      by (subst takeWhile_append2) (simp_all add: n)
    show "takeWhile (\<lambda>c. c \<noteq> 40) (title_word (bare_id (ww_id x))) = title_word (bare_id (ww_id x))" using n by (auto simp: takeWhile_eq_all_conv)
  qed
  have in40: "40 \<in> set (ww_name x)" if "ww_name x = a @ 32 # 40 # r" for x a r using that by simp
  show ?thesis
    using told_apart_name [OF assms(1,2,4)] told_apart_name [OF assms(1,3,5)] no [OF assms(4)] no [OF assms(5)] tw [OF assms(4)] tw [OF assms(5)] in40 assms(6)
    by (metis append1_eq_conv)
qed

lemma bare_phrase:
  assumes "wake_words a = told_apart (fst (amazon_words E))" "list_all id_ok (wake_words a)" "w \<in> set (wake_words a)" "core_wake_phrase a = ww_name w"
  shows "wake_phrase_bare a = title_word (bare_id (ww_id w))"
proof -
  obtain v where v: "List.find (\<lambda>x. ww_name x = ww_name w) (wake_words a) = Some v"
    using assms(3) by (cases "List.find (\<lambda>x. ww_name x = ww_name w) (wake_words a)") (auto simp: find_None_iff)
  then have v': "v \<in> set (wake_words a)" "ww_name v = ww_name w" by (auto simp: find_Some_iff)
  have ok: "id_ok v" "id_ok w" using assms(2,3) v'(1) by (auto simp: list_all_iff)
  note made = made_amazon [of E]
  have b: "title_word (bare_id (ww_id v)) = title_word (bare_id (ww_id w))"
    using same_name_same_bare [OF made] v' assms(1,3) ok by metis
  have "take (ww_bare v) (ww_name w) = title_word (bare_id (ww_id w))"
    using told_apart_name [OF made _ ok(1)] v' assms(1) b by auto
  moreover have "length (title_word (bare_id (ww_id w))) < 64"
    using ok(2) length_takeWhile_le [of "\<lambda>c. c \<noteq> 45" "ww_id w"] by (simp add: title_word_props id_ok_def bare_id_def)
  ultimately show ?thesis using v assms(4) by (simp add: wake_phrase_bare_def Let_def fit_id)
qed

text \<open>
  C35. Echos that hear the same wake word claim it by the same phrase, whichever other model sets each has installed: the language and region a
  name gets on an Echo with two sets of it are not in the claim.
\<close>

theorem same_word_same_claim:
  assumes "wake_words a = wake_words (wake_words_scan E s)" "engine (wake_words_scan E s) = WAKE_AMAZON" "engine s \<noteq> WAKE_HA"
    and "wake_words b = wake_words (wake_words_scan F t)" "engine (wake_words_scan F t) = WAKE_AMAZON" "engine t \<noteq> WAKE_HA"
    and "list_all id_ok (wake_words a)" "list_all id_ok (wake_words b)" "w \<in> set (wake_words a)" "v \<in> set (wake_words b)"
    and "bare_id (ww_id w) = bare_id (ww_id v)" "core_wake_phrase a = ww_name w" "core_wake_phrase b = ww_name v"
  shows "wake_phrase_bare a = wake_phrase_bare b"
proof -
  have "wake_words a = told_apart (fst (amazon_words E))" "wake_words b = told_apart (fst (amazon_words F))"
    using assms(1,2,4,5) scan_eq [OF assms(3), of E] scan_eq [OF assms(6), of F] by (auto simp: Let_def split: if_splits)
  then show ?thesis using bare_phrase assms(7-13) by metis
qed

text \<open>An Echo with the German and the English set of one word, and one with only the German.\<close>

definition echo_env :: "string list \<Rightarrow> wake_env" where
  "echo_env sets = \<lparr>board_id = ascii ''alexa'', board_manifest = ascii ''/system/a'', models_dir = ascii ''/m'', entries = map ascii sets,
     readable = (\<lambda>p. True), mww_models = [], mww_path = (\<lambda>i. i), m_arg = None\<rparr>"

definition blank_wakes :: wakes where
  "blank_wakes = \<lparr>wake_words = [], wake_act = [0], engine = WAKE_AMAZON, wake_next = None, wake_refused = [], wake_switch = False, wake_loaded = [],
     wake_phrase = [], word_file = None, mww_file = None, settings_saved = 0, entities_changed = 0, restart_asked = False\<rparr>"

definition echo_two :: wakes where
  "echo_two = wake_words_scan (echo_env [''echo-de'', ''echo-en'']) blank_wakes"

definition echo_one :: wakes where
  "echo_one = wake_words_scan (echo_env [''echo-de'']) blank_wakes"

lemma echo_two_words: "map ww_name (wake_words echo_two) = map ascii [''Alexa'', ''Echo (de)'', ''Echo (en)'']"
  by code_simp

theorem wake_choice_valid_witness: "wake_act (fst (core_wake_set True [2, 7, -1, 1] echo_two)) = [2, 1] \<and>
    length (wake_act (fst (core_wake_set True [2, 7, -1, 1] echo_two))) \<le> core_wake_max (fst (core_wake_set True [2, 7, -1, 1] echo_two))"
proof
  show "wake_act (fst (core_wake_set True [2, 7, -1, 1] echo_two)) = [2, 1]" by code_simp
  have "wake_reach echo_two" unfolding echo_two_def by (rule wake_reach.start) (simp add: blank_wakes_def)
  then have "wake_reach (fst (core_wake_set True [2, 7, -1, 1] echo_two))" by (rule wake_reach.pick)
  from wake_choice_valid [OF this] show "length (wake_act (fst (core_wake_set True [2, 7, -1, 1] echo_two))) \<le> core_wake_max (fst (core_wake_set True [2, 7, -1, 1] echo_two))"
    by blast
qed


theorem same_word_same_claim_witness:
  "wake_phrase_bare (echo_two\<lparr>wake_phrase := ascii ''Echo (de)''\<rparr>) = wake_phrase_bare (echo_one\<lparr>wake_phrase := ascii ''Echo''\<rparr>)"
proof -
  let ?a = "echo_two\<lparr>wake_phrase := ascii ''Echo (de)''\<rparr>" and ?b = "echo_one\<lparr>wake_phrase := ascii ''Echo''\<rparr>"
  have 1: "wake_words ?a = wake_words (wake_words_scan (echo_env [''echo-de'', ''echo-en'']) blank_wakes)" by (simp add: echo_two_def)
  have 4: "wake_words ?b = wake_words (wake_words_scan (echo_env [''echo-de'']) blank_wakes)" by (simp add: echo_one_def)
  have e: "engine (wake_words_scan (echo_env [''echo-de'', ''echo-en'']) blank_wakes) = WAKE_AMAZON" "engine blank_wakes \<noteq> WAKE_HA"
    "engine (wake_words_scan (echo_env [''echo-de'']) blank_wakes) = WAKE_AMAZON" by code_simp+
  have l: "list_all id_ok (wake_words ?a)" "list_all id_ok (wake_words ?b)" by code_simp+
  have w: "wake_words ?a ! 1 \<in> set (wake_words ?a)" "wake_words ?b ! 1 \<in> set (wake_words ?b)"
    "bare_id (ww_id (wake_words ?a ! 1)) = bare_id (ww_id (wake_words ?b ! 1))"
    "core_wake_phrase ?a = ww_name (wake_words ?a ! 1)" "core_wake_phrase ?b = ww_name (wake_words ?b ! 1)" by code_simp+
  show ?thesis by (rule same_word_same_claim [OF 1 e(1,2) 4 e(3) e(2) l w])
qed

end
