(* ===== verification/Ringlight.thy ===== *)
theory Ringlight
  imports Scan Complex_Main
begin

text \<open>
  The light ring while it runs (\<^verbatim>\<open>ring.c\<close> from \<open>ring_start\<close>'s state on): the Echo's own patterns and what plays for each, Home Assistant's light, and the commands to
  ledcontroller.  Making the animation set is not modelled: what it contains is an argument of \<open>ring_start\<close> and \<open>ring_reload\<close>, as are the animations' texts, the beam and the time.
  Brightness and colours are reals.
\<close>

section \<open>The palette\<close>

record colour =
  white :: bool
  hue :: nat
  soft :: bool
  lev :: nat

definition HUES :: nat where "HUES = 24"
definition MAX_LEDS :: nat where "MAX_LEDS = 24"

definition E_BLINK :: nat where "E_BLINK = 3"
definition E_RAINBOW :: nat where "E_RAINBOW = 4"
definition E_COUNT :: nat where "E_COUNT = 5"

definition effect_ids :: "bytes list" where
  "effect_ids = map ascii [''solid'', ''pulse'', ''spin'', ''blink'', ''rainbow'']"

definition two_digits :: "nat \<Rightarrow> bytes" where
  "two_digits n = (if n < 10 then 48 # dec_digits n else dec_digits n)"

definition colour_code :: "colour \<Rightarrow> bytes" where
  "colour_code c = fit 8 (if white c then 0x77 # dec_digits (lev c) else two_digits (hue c) @ (if soft c then 0x73 else 0x66) # dec_digits (lev c))"

definition light_pattern :: "nat \<Rightarrow> colour \<Rightarrow> bytes" where
  "light_pattern e c = fit 48 (if e = E_RAINBOW then ascii ''hassmic_rainbow_'' @ dec_digits (lev c)
     else ascii ''hassmic_'' @ effect_ids ! e @ 95 # colour_code c)"

definition led_pattern :: "nat \<Rightarrow> colour \<Rightarrow> bytes" where
  "led_pattern i c = fit 32 (ascii ''hassmic_led_'' @ dec_digits i @ 95 # colour_code c)"

section \<open>State\<close>

record ring_light =
  l_on :: bool
  brightness :: real
  color_brightness :: real
  red :: real
  green :: real
  blue :: real
  effect :: int
  fill :: int
  nleds :: int
  led_rgb :: "(byte \<times> byte \<times> byte) list"

record shown =
  logical :: bytes
  actual :: bytes
  sh_at :: int
  sh_ms :: int
  turn :: int

datatype kind = RING_PLAIN | RING_LISTEN | RING_END | RING_VOLUME | RING_ASSIST

definition ring_slots :: "(bytes \<times> bytes \<times> kind) list" where
  "ring_slots = map (\<lambda>(i, p, k). (ascii i, ascii p, k))
     [(''listen'', ''active-start'', RING_LISTEN), (''end'', ''active-end'', RING_END),
      (''think'', ''active-thinking'', RING_PLAIN), (''talk'', ''active-talking'', RING_PLAIN),
      (''error'', ''anim_start_error_short'', RING_PLAIN),
      (''timer'', ''ready-timer'', RING_PLAIN), (''timer_short'', ''ready-timer-short'', RING_PLAIN),
      (''volume'', ''volume_step-'', RING_VOLUME), (''assist_volume'', ''hassmic_assist_'', RING_ASSIST),
      (''mute'', ''mics-off_on'', RING_PLAIN), (''unmute'', ''mics-off_end'', RING_PLAIN),
      (''dnd'', ''do_not_disturb'', RING_PLAIN), (''identify'', ''zzz_rainbow'', RING_PLAIN),
      (''bt_pairing'', ''scone-setup'', RING_PLAIN),
      (''call_out'', ''call_outbound_ringing'', RING_PLAIN), (''call_in'', ''call_incoming'', RING_PLAIN),
      (''call_live'', ''call_connected'', RING_PLAIN), (''call_end'', ''call_connected_end'', RING_PLAIN),
      (''setup'', ''setup-mode'', RING_PLAIN), (''reset'', ''factory-reset'', RING_PLAIN),
      (''login'', ''authenticated_setup_mode'', RING_PLAIN)]"

text \<open>What an animation set holds (\<open>struct gen\<close>, as far as \<open>take\<close> reads it).\<close>

record gen =
  g_ours :: bool
  g_turned :: bool
  g_assist :: bool
  g_noleds :: bool
  g_leds :: nat
  g_on :: "nat \<Rightarrow> bool"

datatype cmd = Set_pattern bytes | Unset_pattern bytes

text \<open>\<open>cmds\<close>: what ledcontroller was told since it started; \<open>light_file\<close>: \<open>state/ring-light\<close>.\<close>

record ring =
  custom :: bool
  have_turned :: bool
  have_assist :: bool
  have_leds :: bool
  slot_on :: "nat \<Rightarrow> bool"
  leds :: nat
  shown_tab :: "shown list"
  light :: ring_light
  flash :: ring_light
  flash_until :: int
  light_shown :: bytes
  led_shown :: "bytes list"
  rotation :: nat
  cache :: "(bytes \<times> int) list"
  cmds :: "cmd list"
  light_file :: "bytes option"

definition run :: "cmd \<Rightarrow> ring \<Rightarrow> ring" where
  "run c s = s\<lparr>cmds := cmds s @ [c]\<rparr>"

definition SHOWN_MAX :: nat where "SHOWN_MAX = 24"

section \<open>How long a pattern shows\<close>

function text_lines :: "bytes \<Rightarrow> bytes list" where
  "text_lines t = (if t = [] then [] else (let l = takeWhile (\<lambda>c. c \<noteq> 10) t in l # text_lines (drop (length l + 1) t)))"
  by pat_completeness auto
termination by (relation "measure length") auto

declare text_lines.simps [simp del]

text \<open>\<open>line_pixels\<close>: the pixels' text of \<open><ms>:<pixel>,...\<close>.\<close>

definition line_pixels :: "bytes \<Rightarrow> bytes option" where
  "line_pixels l = (let r = dropWhile isdigit l in if l = [] \<or> \<not> isdigit (hd l) \<or> r = [] \<or> hd r \<noteq> 58 then None else Some (tl r))"

definition lit_px :: "bytes \<Rightarrow> bool" where
  "lit_px px \<longleftrightarrow> list_ex (\<lambda>c. hexval c \<noteq> None \<and> c \<noteq> 48) px"

record reading =
  rd_at :: int
  lit_end :: int
  looping :: bool
  loop_lit :: bool

definition read_line_anim :: "reading \<Rightarrow> bytes \<Rightarrow> reading" where
  "read_line_anim r l = (if take 4 l = ascii ''loop'' then r\<lparr>looping := True\<rparr>
     else case line_pixels l of None \<Rightarrow> r
     | Some px \<Rightarrow> (let lit = lit_px px; at' = rd_at r + atoi l
         in r\<lparr>rd_at := at', loop_lit := (loop_lit r \<or> lit \<and> looping r), lit_end := (if lit \<and> \<not> looping r then at' else lit_end r)\<rparr>))"

definition anim_ms :: "bytes option \<Rightarrow> int" where
  "anim_ms f = (case f of None \<Rightarrow> 1000
     | Some t \<Rightarrow> (let r = foldl read_line_anim \<lparr>rd_at = 0, lit_end = 0, looping = False, loop_lit = False\<rparr> (text_lines (cstr t))
                 in if loop_lit r \<or> (\<not> looping r \<and> lit_end r \<noteq> 0) then -1 else lit_end r))"

definition visible_ms :: "(bytes \<Rightarrow> bytes option) \<Rightarrow> bytes \<Rightarrow> ring \<Rightarrow> int \<times> ring" where
  "visible_ms F name s = (case map_of (cache s) name of Some ms \<Rightarrow> (ms, s)
     | None \<Rightarrow> (let ms = anim_ms (F name) in (ms, if length (cache s) < 48 then s\<lparr>cache := cache s @ [(name, ms)]\<rparr> else s)))"

section \<open>Home Assistant's light\<close>

definition still :: "int \<Rightarrow> shown \<Rightarrow> bool" where
  "still now x \<longleftrightarrow> sh_ms x < 0 \<or> now < sh_at x + sh_ms x"

definition busy :: "int \<Rightarrow> ring \<Rightarrow> bool" where
  "busy now s \<longleftrightarrow> list_ex (still now) (shown_tab s)"

definition find_shown :: "bytes \<Rightarrow> shown list \<Rightarrow> nat option" where
  "find_shown p xs = List.find (\<lambda>i. logical (xs ! i) = p) [0..<length xs]"

definition tracked :: "ring \<Rightarrow> bytes list" where
  "tracked s = filter (\<lambda>n. n \<noteq> []) (light_shown s # led_shown s)"

definition light_remember :: "ring \<Rightarrow> ring" where
  "light_remember s = s\<lparr>light_file := (if tracked s = [] then None else Some (concat (map (\<lambda>n. n @ [10]) (tracked s))))\<rparr>"

definition quantize :: "ring_light \<Rightarrow> colour" where
  "quantize l =
     (let r = red l; g = green l; b = blue l; mx = max r (max g b); mn = min r (min g b);
          v = brightness l * color_brightness l * mx; s = (if mx > 0 then (mx - mn) / mx else 0);
          x = (g - b) / (mx - mn) + 6;
          h = (if mx > mn then (if mx = r then x - 6 * of_int \<lfloor>x / 6\<rfloor> else if mx = g then (b - r) / (mx - mn) + 2 else (r - g) / (mx - mn) + 4) else 0)
      in \<lparr>white = s < 0.2, hue = nat \<lfloor>h * 4 + 1 / 2\<rfloor> mod HUES, soft = s < 0.7, lev = (if v \<ge> 0.75 then 0 else if v \<ge> 0.4 then 1 else 2)\<rparr>)"

definition led_light :: "ring_light \<Rightarrow> byte \<times> byte \<times> byte \<Rightarrow> ring_light" where
  "led_light l p = (case p of (x, y, z) \<Rightarrow> l\<lparr>red := of_nat (unat x) / 255, green := of_nat (unat y) / 255, blue := of_nat (unat z) / 255\<rparr>)"

text \<open>What should be on the ring: its pattern, each LED's.\<close>

definition flashing :: "int \<Rightarrow> ring \<Rightarrow> bool" where
  "flashing now s \<longleftrightarrow> flash_until s \<noteq> 0 \<and> now < flash_until s"

definition put_led :: "ring \<Rightarrow> (nat \<Rightarrow> colour option) \<Rightarrow> bytes list \<Rightarrow> nat \<Rightarrow> bytes list" where
  "put_led s col w j = (let i = ((leds s - 1 + rotation s) mod leds s + j) mod leds s
     in case col j of None \<Rightarrow> w | Some c \<Rightarrow> w[i := led_pattern i c])"

definition no_leds :: "bytes list" where
  "no_leds = replicate MAX_LEDS []"

definition want_light :: "int \<Rightarrow> ring \<Rightarrow> bytes \<times> bytes list" where
  "want_light now s =
     (let fl = flashing now s; l = (if fl then flash s else light s); lit = (fill l * int (leds s) + 99) div 100
      in if custom s \<and> have_leds s \<and> l_on l \<and> \<not> fl \<and> \<not> busy now s \<and> nleds l > 0
         then ([], foldl (put_led s (\<lambda>j. if led_rgb l ! j = (0, 0, 0) then None else Some (quantize (led_light l (led_rgb l ! j))))) no_leds
                 [0..<min (nat (nleds l)) (leds s)])
         else if custom s \<and> (l_on l \<or> fl) \<and> \<not> busy now s \<and> lit > 0
         then (if lit \<ge> int (leds s) \<or> fl \<or> \<not> have_leds s then (light_pattern (if fl then E_BLINK else nat (effect l)) (quantize l), no_leds)
               else ([], foldl (put_led s (\<lambda>j. Some (quantize l))) no_leds [0..<nat lit]))
         else ([], no_leds))"

definition light_cmds :: "bytes \<Rightarrow> bytes list \<Rightarrow> ring \<Rightarrow> cmd list" where
  "light_cmds want w s =
     (if want \<noteq> [] \<and> want \<noteq> light_shown s then [Set_pattern want] else []) @
     map (\<lambda>i. Set_pattern (w ! i)) (filter (\<lambda>i. w ! i \<noteq> [] \<and> w ! i \<noteq> led_shown s ! i) [0..<leds s]) @
     (if light_shown s \<noteq> [] \<and> want \<noteq> light_shown s then [Unset_pattern (light_shown s)] else []) @
     map (\<lambda>i. Unset_pattern (led_shown s ! i)) (filter (\<lambda>i. led_shown s ! i \<noteq> [] \<and> w ! i \<noteq> led_shown s ! i) [0..<leds s])"

definition light_apply :: "int \<Rightarrow> ring \<Rightarrow> ring" where
  "light_apply now s0 =
     (let s = (if flashing now s0 then s0 else s0\<lparr>flash_until := 0\<rparr>); (want, w) = want_light now s
      in if want = light_shown s \<and> list_all (\<lambda>i. w ! i = led_shown s ! i) [0..<leds s] then s
         else light_remember (s\<lparr>cmds := cmds s @ light_cmds want w s, light_shown := want, led_shown := w\<rparr>))"

section \<open>The Echo's own patterns\<close>

definition take_set :: "gen \<Rightarrow> ring \<Rightarrow> ring" where
  "take_set g s = s\<lparr>custom := g_ours g, have_turned := (g_ours g \<and> g_turned g), have_assist := (g_ours g \<and> g_assist g),
     have_leds := (g_ours g \<and> \<not> g_noleds g), leds := (if g_leds g \<noteq> 0 then g_leds g else 12), slot_on := (\<lambda>i. g_ours g \<and> g_on g i)\<rparr>"

definition slot_is :: "bytes \<Rightarrow> bytes \<times> bytes \<times> kind \<Rightarrow> bool" where
  "slot_is p sl = (case sl of (_, stock, k) \<Rightarrow> if k \<in> {RING_VOLUME, RING_ASSIST}
     then take (length stock) p = stock \<and> length p > length stock \<and> isdigit (p ! length stock) else p = stock)"

definition slot_of :: "bytes \<Rightarrow> (nat \<times> int) option" where
  "slot_of p = map_option (\<lambda>i. (i, case ring_slots ! i of (_, stock, k) \<Rightarrow> if k \<in> {RING_VOLUME, RING_ASSIST} then atoi (drop (length stock) p) else 0))
     (List.find (\<lambda>i. slot_is p (ring_slots ! i)) [0..<length ring_slots])"

definition int_digits :: "int \<Rightarrow> bytes" where
  "int_digits n = (if n < 0 then 45 # dec_digits (nat (- n)) else dec_digits (nat n))"

definition actual_for :: "ring \<Rightarrow> bytes \<Rightarrow> int \<Rightarrow> bytes" where
  "actual_for s p t =
     (let tn = int_digits (if t < 0 then 0 else t)
      in case slot_of p of None \<Rightarrow> fit 40 p
      | Some (i, step) \<Rightarrow>
        (case ring_slots ! i of (sid, stock, k) \<Rightarrow>
           if slot_on s i \<and> k = RING_LISTEN then fit 40 (ascii ''hassmic_s_listen_'' @ tn)
           else if slot_on s i \<and> k = RING_END then fit 40 (ascii ''hassmic_s_end_'' @ tn)
           else if slot_on s i \<and> k = RING_VOLUME then fit 40 (ascii ''hassmic_s_volume_'' @ (if 0 \<le> step \<and> step < 10 then 48 # int_digits step else int_digits step))
           else if slot_on s i \<and> k = RING_PLAIN then fit 40 (ascii ''hassmic_s_'' @ sid)
           else if k \<in> {RING_LISTEN, RING_END} \<and> have_turned s \<and> t \<ge> 0
             then fit 40 (ascii ''hassmic_'' @ ascii (if k = RING_LISTEN then ''listen'' else ''end'') @ 95 # int_digits t)
           else fit 40 p))"

definition hold_name :: "ring \<Rightarrow> int \<Rightarrow> bytes" where
  "hold_name s t = fit 40 (ascii (if slot_on s 0 then ''hassmic_s_hold_'' else ''hassmic_hold_'') @ int_digits t)"

definition turn_for :: "bytes \<Rightarrow> int \<Rightarrow> ring \<Rightarrow> int" where
  "turn_for p beam s =
     (let rng = (p = ascii ''active-start'' \<or> p = ascii ''active-end'');
          t = (if rng \<and> (have_turned s \<or> slot_on s 0 \<or> slot_on s 1) then (if beam \<ge> 0 then beam mod int (leds s) else beam) else -1)
      in if rng \<and> t < 0 \<and> slot_on s (if p ! 7 = 0x73 then 0 else 1) then 0 else t)"

definition note_shown :: "(bytes \<Rightarrow> bytes option) \<Rightarrow> bytes \<Rightarrow> int \<Rightarrow> bytes \<Rightarrow> int \<Rightarrow> ring \<Rightarrow> ring" where
  "note_shown F p t act now s =
     (let (ms, s1) = visible_ms F act s; x = \<lparr>logical = fit 40 p, actual = act, sh_at = now, sh_ms = ms, turn = t\<rparr>
      in case find_shown p (shown_tab s) of
        Some k \<Rightarrow> (if actual (shown_tab s ! k) \<noteq> act then run (Unset_pattern (actual (shown_tab s ! k))) s1 else s1)\<lparr>shown_tab := (shown_tab s)[k := x]\<rparr>
      | None \<Rightarrow> if length (shown_tab s) < SHOWN_MAX then s1\<lparr>shown_tab := shown_tab s @ [x]\<rparr> else s)"

definition ring_set :: "(bytes \<Rightarrow> bytes option) \<Rightarrow> bytes \<Rightarrow> int \<Rightarrow> int \<Rightarrow> ring \<Rightarrow> ring" where
  "ring_set F p beam now s =
     (let t = turn_for p beam s; act = actual_for s p t in run (Set_pattern act) (light_apply now (note_shown F p t act now s)))"

definition drop_at :: "nat \<Rightarrow> 'a list \<Rightarrow> 'a list" where
  "drop_at i xs = butlast (xs[i := last xs])"

definition ring_unset :: "bytes \<Rightarrow> ring \<Rightarrow> ring" where
  "ring_unset p s = (case find_shown p (shown_tab s) of
       Some k \<Rightarrow> (run (Unset_pattern (actual (shown_tab s ! k))) s)\<lparr>shown_tab := drop_at k (shown_tab s)\<rparr>
     | None \<Rightarrow> (let s1 = run (Unset_pattern p) s; act = actual_for s p (-1) in if act \<noteq> p then run (Unset_pattern act) s1 else s1))"

function finished_out :: "int \<Rightarrow> nat \<Rightarrow> shown list \<Rightarrow> shown list" where
  "finished_out now i xs = (if i \<ge> length xs then xs
     else if still now (xs ! i) then finished_out now (i + 1) xs else finished_out now i (drop_at i xs))"
  by pat_completeness auto
termination by (relation "measure (\<lambda>(now, i, xs). length xs - i)") (auto simp: drop_at_def)

declare finished_out.simps [simp del]

definition turn_open :: "int \<Rightarrow> ring \<Rightarrow> ring" where
  "turn_open beam s = (case find_shown (ascii ''active-start'') (shown_tab s) of None \<Rightarrow> s
     | Some k \<Rightarrow>
       (let x = shown_tab s ! k; t = beam mod int (leds s); name = hold_name s t
        in if turn x \<ge> 0 \<and> beam \<ge> 0 \<and> t \<noteq> turn x
           then run (Unset_pattern (actual x)) (run (Set_pattern name) (s\<lparr>shown_tab := (shown_tab s)[k := x\<lparr>turn := t, actual := name\<rparr>]\<rparr>)) else s))"

definition ring_tick :: "int \<Rightarrow> int \<Rightarrow> ring \<Rightarrow> ring" where
  "ring_tick beam now s = light_apply now (turn_open beam (s\<lparr>shown_tab := finished_out now 0 (shown_tab s)\<rparr>))"

text \<open>\<open>ring_reload\<close>'s loop over what was on.\<close>

definition show_again :: "(bytes \<Rightarrow> bytes option) \<Rightarrow> int \<Rightarrow> ring \<Rightarrow> nat \<Rightarrow> ring" where
  "show_again F now s i =
     (let x = shown_tab s ! i
      in if \<not> still now x then s
         else (let a = actual_for s (logical x) (turn x);
                   act = (if logical x = ascii ''active-start'' \<and> turn x \<ge> 0 \<and> take 6 a \<noteq> ascii ''active'' then hold_name s (turn x) else a);
                   (ms, s1) = visible_ms F act s
               in run (Set_pattern act) (s1\<lparr>shown_tab := (shown_tab s1)[i := x\<lparr>actual := act, sh_ms := ms, sh_at := now\<rparr>]\<rparr>)))"

definition ring_reload :: "(bytes \<Rightarrow> bytes option) \<Rightarrow> gen \<Rightarrow> int \<Rightarrow> ring \<Rightarrow> ring" where
  "ring_reload F g now s =
     (let s1 = (take_set g s)\<lparr>cache := []\<rparr>; s2 = foldl (show_again F now) s1 [0..<length (shown_tab s1)]
      in if tracked s2 = [] then s2
         else if \<not> custom s2 then light_remember (s2\<lparr>light_shown := [], led_shown := no_leds\<rparr>)
         else s2\<lparr>cmds := cmds s2 @ map Set_pattern (tracked s2)\<rparr>)"

definition clamp :: "int \<Rightarrow> int" where
  "clamp x = max 0 (min 100 x)"

definition ring_light_set :: "ring_light \<Rightarrow> nat \<Rightarrow> int \<Rightarrow> ring \<Rightarrow> ring" where
  "ring_light_set l flash_ms now s =
     (let s1 = (if flash_ms \<noteq> 0 then s\<lparr>flash := l\<lparr>l_on := True\<rparr>, flash_until := now + int flash_ms\<rparr> else s\<lparr>light := l, flash_until := 0\<rparr>);
          l1 = light s1; l2 = l1\<lparr>effect := (if effect l1 < 0 \<or> effect l1 \<ge> int E_COUNT then 0 else effect l1), fill := clamp (fill l1),
            nleds := (if nleds l1 < 0 \<or> nleds l1 > int MAX_LEDS then 0 else nleds l1)\<rparr>;
          s2 = s1\<lparr>light := l2, flash := (flash s1)\<lparr>fill := clamp (fill (flash s1))\<rparr>\<rparr>
      in light_apply now s2)"

definition ring_rotation :: "int \<Rightarrow> int \<Rightarrow> ring \<Rightarrow> ring" where
  "ring_rotation x now s = (if x \<ge> 0 then light_apply now (s\<lparr>rotation := nat (x mod int (leds s))\<rparr>) else s)"

text \<open>\<open>ring_start\<close>'s clean-up of a light left by the run before: its words, at most one for the ring and one per LED.\<close>

fun left_words :: "nat \<Rightarrow> bytes \<Rightarrow> bytes list" where
  "left_words 0 f = []"
| "left_words (Suc n) f = (case scan_word 47 f of None \<Rightarrow> [] | Some (w, r) \<Rightarrow> w # left_words n r)"

definition ring_start :: "gen \<Rightarrow> ring \<Rightarrow> ring" where
  "ring_start g s = (let s1 = take_set g s
     in case light_file s1 of None \<Rightarrow> s1
        | Some f \<Rightarrow> s1\<lparr>cmds := cmds s1 @ map Unset_pattern (filter (\<lambda>w. take 8 w = ascii ''hassmic_'') (left_words (Suc MAX_LEDS) f)), light_file := None\<rparr>)"

section \<open>What is on the ring\<close>

text \<open>ledcontroller's side: the patterns on after the commands so far.\<close>

definition on_ring :: "cmd list \<Rightarrow> bytes set" where
  "on_ring cs = foldl (\<lambda>on c. case c of Set_pattern n \<Rightarrow> insert n on | Unset_pattern n \<Rightarrow> on - {n}) {} cs"

definition light_prefixes :: "bytes list" where
  "light_prefixes = map ascii [''hassmic_solid_'', ''hassmic_pulse_'', ''hassmic_spin_'', ''hassmic_blink_'', ''hassmic_rainbow_'', ''hassmic_led_'']"

definition light_name :: "bytes \<Rightarrow> bool" where
  "light_name n \<longleftrightarrow> list_ex (\<lambda>p. take (length p) n = p) light_prefixes"

lemma on_ring_simps [simp]:
  "on_ring [] = {}"
  "on_ring (cs @ [Set_pattern n]) = insert n (on_ring cs)"
  "on_ring (cs @ [Unset_pattern n]) = on_ring cs - {n}"
  by (simp_all add: on_ring_def)

lemma on_ring_sets: "on_ring (cs @ map (\<lambda>x. Set_pattern (f x)) xs) = on_ring cs \<union> f ` set xs"
  by (induction xs rule: rev_induct) (auto simp flip: append_assoc)

lemma on_ring_unsets: "on_ring (cs @ map (\<lambda>x. Unset_pattern (f x)) xs) = on_ring cs - f ` set xs"
  by (induction xs rule: rev_induct) (auto simp flip: append_assoc)

lemma on_ring_light:
  "on_ring (cs @ light_cmds want w s) =
     (on_ring cs \<union> (if want \<noteq> [] \<and> want \<noteq> light_shown s then {want} else {}) \<union> (\<lambda>i. w ! i) ` {i. i < leds s \<and> w ! i \<noteq> [] \<and> w ! i \<noteq> led_shown s ! i})
     - (if light_shown s \<noteq> [] \<and> want \<noteq> light_shown s then {light_shown s} else {})
     - (\<lambda>i. led_shown s ! i) ` {i. i < leds s \<and> led_shown s ! i \<noteq> [] \<and> w ! i \<noteq> led_shown s ! i}"
proof -
  have e: "{i \<in> set [0..<leds s]. P i} = {i. i < leds s \<and> P i}" for P by auto
  have 1: "on_ring (cs @ (if P then [Set_pattern n] else [])) = on_ring cs \<union> (if P then {n} else {})"
    "on_ring (cs @ (if P then [Unset_pattern n] else [])) = on_ring cs - (if P then {n} else {})" for P n cs by simp_all
  show ?thesis unfolding light_cmds_def append_assoc [symmetric] on_ring_unsets 1 on_ring_sets set_filter e by (rule refl)
qed

section \<open>Names\<close>

definition plain :: "bytes \<Rightarrow> bool" where
  "plain n \<longleftrightarrow> list_all (\<lambda>c. \<not> isspace c \<and> c \<noteq> 0) n"

lemma plain_simps [simp]:
  "plain [] \<longleftrightarrow> True" "plain (c # n) \<longleftrightarrow> \<not> isspace c \<and> c \<noteq> 0 \<and> plain n" "plain (a @ b) \<longleftrightarrow> plain a \<and> plain b"
  by (auto simp: plain_def)

lemma plain_take: "plain n \<Longrightarrow> plain (take k n)"
  by (auto simp: plain_def list_all_iff dest: in_set_takeD)

lemma plain_dec [simp]: "plain (dec_digits n)"
proof -
  have "\<not> isspace c \<and> c \<noteq> 0" if "c \<in> set (dec_digits n)" for c
    using isdigit_not_sign [OF isdigit_dec [OF that]] isdigit_dec [OF that] by (auto simp: isdigit_def)
  then show ?thesis by (simp add: plain_def list_all_iff)
qed

lemma plain_code: "plain (colour_code c)"
  unfolding colour_code_def fit_def by (rule plain_take) (simp add: two_digits_def isspace_def)

lemma effect_cases: "e < E_COUNT \<Longrightarrow> e = 0 \<or> e = 1 \<or> e = 2 \<or> e = 3 \<or> e = 4"
  by (auto simp: E_COUNT_def)

lemma light_pattern_name:
  assumes "e < E_COUNT"
  shows "light_name (light_pattern e c) \<and> plain (light_pattern e c) \<and> length (light_pattern e c) \<le> 47"
proof -
  have "plain (ascii ''hassmic_'')" "plain (ascii ''hassmic_rainbow_'')" "list_all plain effect_ids" by code_simp+
  moreover have "length effect_ids = 5" by (simp add: effect_ids_def)
  ultimately have "plain (light_pattern e c)"
    using assms plain_code unfolding light_pattern_def fit_def
    by (intro plain_take) (simp add: list_all_length E_COUNT_def isspace_def)
  moreover have "light_name (light_pattern e c)"
    using effect_cases [OF assms] by (auto simp: light_pattern_def E_RAINBOW_def effect_ids_def light_name_def light_prefixes_def ascii_def fit_def)
  ultimately show ?thesis by (simp add: light_pattern_def fit_def)
qed

lemma led_pattern_name: "light_name (led_pattern i c) \<and> plain (led_pattern i c) \<and> length (led_pattern i c) \<le> 47"
proof -
  have "plain (ascii ''hassmic_led_'')" by code_simp
  then have "plain (led_pattern i c)" unfolding led_pattern_def fit_def using plain_code by (intro plain_take) (simp add: isspace_def)
  then show ?thesis by (simp add: led_pattern_def fit_def light_name_def light_prefixes_def ascii_def)
qed

lemma light_name_fit: "light_name (fit 40 n) \<Longrightarrow> light_name n"
  by (auto simp: light_name_def light_prefixes_def fit_def min_def)

lemma own_name:
  "\<not> light_name (fit 40 (ascii ''hassmic_s_'' @ x))" "\<not> light_name (fit 40 (ascii ''hassmic_listen'' @ x))"
  "\<not> light_name (fit 40 (ascii ''hassmic_end'' @ x))" "\<not> light_name (fit 40 (ascii ''hassmic_hold_'' @ x))"
  by (simp_all add: light_name_def light_prefixes_def ascii_def fit_def)

lemma actual_for_own: "\<not> light_name p \<Longrightarrow> \<not> light_name (actual_for s p t)"
proof -
  assume p: "\<not> light_name p"
  have a: "ascii ''hassmic_s_listen_'' = ascii ''hassmic_s_'' @ ascii ''listen_''" "ascii ''hassmic_s_end_'' = ascii ''hassmic_s_'' @ ascii ''end_''"
    "ascii ''hassmic_s_volume_'' = ascii ''hassmic_s_'' @ ascii ''volume_''" "ascii ''hassmic_'' @ ascii ''listen'' @ x = ascii ''hassmic_listen'' @ x"
    "ascii ''hassmic_'' @ ascii ''end'' @ x = ascii ''hassmic_end'' @ x" for x by (simp_all add: ascii_def)
  show ?thesis
    using p light_name_fit [of p] by (auto simp: actual_for_def Let_def a own_name split: option.splits prod.splits)
qed

lemma hold_name_own: "\<not> light_name (hold_name s t)"
proof -
  have "ascii ''hassmic_s_hold_'' = ascii ''hassmic_s_'' @ ascii ''hold_''" by (simp add: ascii_def)
  then show ?thesis by (simp add: hold_name_def own_name)
qed

section \<open>The invariant\<close>

definition light_on :: "ring \<Rightarrow> bytes set" where
  "light_on s = {n \<in> on_ring (cmds s). light_name n}"

definition ring_inv :: "int \<Rightarrow> ring \<Rightarrow> bool" where
  "ring_inv now s \<longleftrightarrow> (busy now s \<longrightarrow> tracked s = []) \<and> light_on s \<subseteq> set (tracked s) \<and>
     length (led_shown s) = MAX_LEDS \<and> 0 < leds s \<and> leds s \<le> MAX_LEDS \<and> (\<forall>i. leds s \<le> i \<and> i < MAX_LEDS \<longrightarrow> led_shown s ! i = []) \<and>
     light_file s = (if tracked s = [] then None else Some (concat (map (\<lambda>n. n @ [10]) (tracked s)))) \<and>
     (\<forall>n \<in> set (tracked s). light_name n \<and> plain n \<and> length n \<le> 47) \<and> 0 \<le> effect (light s) \<and> effect (light s) < int E_COUNT \<and>
     (\<forall>x \<in> set (shown_tab s). \<not> light_name (logical x))"

lemma inv_later: "ring_inv t s \<Longrightarrow> t \<le> now \<Longrightarrow> ring_inv now s"
  by (fastforce simp: ring_inv_def busy_def list_ex_iff still_def)

definition leds_ok :: "nat \<Rightarrow> bytes list \<Rightarrow> bool" where
  "leds_ok n w \<longleftrightarrow> length w = MAX_LEDS \<and> (\<forall>i < MAX_LEDS. w ! i = [] \<or> i < n \<and> light_name (w ! i) \<and> plain (w ! i) \<and> length (w ! i) \<le> 47)"

lemma put_leds_ok: "leds_ok (leds s) w \<Longrightarrow> 0 < leds s \<Longrightarrow> leds_ok (leds s) (foldl (put_led s col) w js)"
proof (induction js arbitrary: w)
  case (Cons j js)
  have "leds_ok (leds s) (w[k := led_pattern k c])" if "k < leds s" for k c
  proof -
    have "w[k := led_pattern k c] ! i = (if i = k then led_pattern k c else w ! i)" if "i < MAX_LEDS" for i
      using that Cons.prems(1) by (auto simp: leds_ok_def)
    then show ?thesis using Cons.prems(1) that led_pattern_name [of k c] by (auto simp: leds_ok_def)
  qed
  then have "leds_ok (leds s) (put_led s col w j)"
    using Cons.prems by (auto simp: put_led_def Let_def split: option.splits)
  then show ?case using Cons by simp
qed simp

lemma no_leds_ok: "leds_ok n no_leds"
  by (simp add: leds_ok_def no_leds_def)

lemma want_light_ok:
  assumes "want_light now s = (want, w)" "0 < leds s" "0 \<le> effect (light s)" "effect (light s) < int E_COUNT"
  shows "leds_ok (leds s) w" "want = [] \<or> light_name want \<and> plain want \<and> length want \<le> 47" "busy now s \<Longrightarrow> want = [] \<and> w = no_leds"
proof -
  have e: "nat (effect (light s)) < E_COUNT" "E_BLINK < E_COUNT" using assms(3,4) by (auto simp: E_COUNT_def E_BLINK_def)
  note p = put_leds_ok [OF no_leds_ok assms(2)]
  show "leds_ok (leds s) w" using assms(1) p no_leds_ok by (auto simp: want_light_def Let_def split: if_splits)
  show "want = [] \<or> light_name want \<and> plain want \<and> length want \<le> 47"
    using assms(1) light_pattern_name [OF e(1)] light_pattern_name [OF e(2)] by (auto simp: want_light_def Let_def split: if_splits)
  show "busy now s \<Longrightarrow> want = [] \<and> w = no_leds" using assms(1) by (auto simp: want_light_def Let_def split: if_splits)
qed

lemma tracked_set: "n \<in> set (tracked s) \<longleftrightarrow> n \<noteq> [] \<and> (n = light_shown s \<or> n \<in> set (led_shown s))"
  by (auto simp: tracked_def)

lemma tracked_empty: "tracked s = [] \<longleftrightarrow> light_shown s = [] \<and> (\<forall>n \<in> set (led_shown s). n = [])"
  by (auto simp: tracked_def filter_empty_conv)

text \<open>\<open>light_apply\<close> makes the invariant whole again where only the Echo's own patterns changed.\<close>

definition pre_light :: "ring \<Rightarrow> bool" where
  "pre_light s \<longleftrightarrow> light_on s \<subseteq> set (tracked s) \<and>
     length (led_shown s) = MAX_LEDS \<and> 0 < leds s \<and> leds s \<le> MAX_LEDS \<and> (\<forall>i. leds s \<le> i \<and> i < MAX_LEDS \<longrightarrow> led_shown s ! i = []) \<and>
     light_file s = (if tracked s = [] then None else Some (concat (map (\<lambda>n. n @ [10]) (tracked s)))) \<and>
     (\<forall>n \<in> set (tracked s). light_name n \<and> plain n \<and> length n \<le> 47) \<and> 0 \<le> effect (light s) \<and> effect (light s) < int E_COUNT \<and>
     (\<forall>x \<in> set (shown_tab s). \<not> light_name (logical x))"

lemma inv_pre: "ring_inv now s \<longleftrightarrow> pre_light s \<and> (busy now s \<longrightarrow> tracked s = [])"
  by (auto simp: ring_inv_def pre_light_def)

lemma light_on_apply:
  assumes "pre_light s" "leds_ok (leds s) w"
    and s': "s' = s\<lparr>cmds := cmds s @ light_cmds want w s, light_shown := want, led_shown := w\<rparr>"
  shows "light_on s' \<subseteq> set (tracked s')"
proof
  fix n assume "n \<in> light_on s'"
  then have n: "n \<in> on_ring (cmds s @ light_cmds want w s)" "light_name n" by (auto simp: light_on_def s')
  have len: "length w = MAX_LEDS" "length (led_shown s) = MAX_LEDS" "leds s \<le> MAX_LEDS" using assms(1,2) by (auto simp: leds_ok_def pre_light_def)
  consider "n = want" "want \<noteq> []" | i where "n = w ! i" "i < leds s" "w ! i \<noteq> []"
    | "n \<in> on_ring (cmds s)" "light_shown s = n \<longrightarrow> want = n \<or> n = []" "\<forall>i < leds s. led_shown s ! i = n \<longrightarrow> w ! i = n \<or> n = []"
    using n(1) unfolding on_ring_light by (auto split: if_splits)
  then show "n \<in> set (tracked s')"
  proof cases
    case 1
    then show ?thesis by (simp add: tracked_set s')
  next
    case (2 i)
    then show ?thesis using len by (auto simp: tracked_set s' intro: nth_mem)
  next
    case 3
    then have "n \<in> set (tracked s)" using assms(1) n(2) by (auto simp: pre_light_def light_on_def)
    then have "n \<noteq> []" "n = light_shown s \<or> n \<in> set (led_shown s)" by (simp_all add: tracked_set)
    then consider "n \<noteq> []" "light_shown s = n" | i where "n \<noteq> []" "i < MAX_LEDS" "led_shown s ! i = n"
      using len(2) by (metis in_set_conv_nth)
    then show ?thesis
    proof cases
      case (2 i)
      then have "i < leds s" using assms(1) by (auto simp: pre_light_def not_less)
      then have "w ! i = n" using 2 3(3) by blast
      then show ?thesis using 2(1,2) len by (auto simp: tracked_set s' intro: nth_mem)
    qed (use 3 in \<open>auto simp: tracked_set s'\<close>)
  qed
qed

lemma light_apply_inv:
  assumes "pre_light s0"
  shows "ring_inv now (light_apply now s0)"
proof -
  define s where "s = (if flashing now s0 then s0 else s0\<lparr>flash_until := 0\<rparr>)"
  have s: "pre_light s" using assms by (auto simp: s_def pre_light_def tracked_def light_on_def)
  obtain want w where w: "want_light now s = (want, w)" by fastforce
  note ok = want_light_ok [OF w]
  have l: "0 < leds s" "0 \<le> effect (light s)" "effect (light s) < int E_COUNT" "length (led_shown s) = MAX_LEDS" using s by (auto simp: pre_light_def)
  show ?thesis
  proof (cases "want = light_shown s \<and> list_all (\<lambda>i. w ! i = led_shown s ! i) [0..<leds s]")
    case True
    then have e: "light_apply now s0 = s" using w by (simp add: light_apply_def s_def Let_def)
    have "tracked s = []" if "busy now s"
    proof -
      have nw: "want = []" "w = no_leds" using ok(3) [OF l(1-3) that] by auto
      have "led_shown s ! i = []" if "i < MAX_LEDS" for i
        using True s nw that by (cases "i < leds s") (auto simp: list_all_iff pre_light_def no_leds_def)
      then show ?thesis using True nw l(4) by (auto simp: tracked_empty in_set_conv_nth)
    qed
    then show ?thesis unfolding e inv_pre using s by blast
  next
    case False
    let ?s = "s\<lparr>cmds := cmds s @ light_cmds want w s, light_shown := want, led_shown := w\<rparr>"
    have e: "light_apply now s0 = light_remember ?s" using w False by (auto simp: light_apply_def s_def Let_def)
    have lk: "leds_ok (leds s) w" "want = [] \<or> light_name want \<and> plain want \<and> length want \<le> 47" using ok(1,2) [OF l(1-3)] by auto
    have on: "light_on ?s \<subseteq> set (tracked ?s)" by (rule light_on_apply [OF s lk(1) refl])
    have names: "light_name n \<and> plain n \<and> length n \<le> 47" if "n \<in> set (tracked ?s)" for n
    proof -
      have "n \<noteq> []" "n = want \<or> n \<in> set w" using that by (simp_all add: tracked_set)
      then show ?thesis using lk unfolding leds_ok_def by (metis in_set_conv_nth)
    qed
    have far: "w ! i = []" if "leds s \<le> i" "i < MAX_LEDS" for i using that lk(1) by (auto simp: leds_ok_def)
    have quiet: "tracked ?s = []" if "busy now s" using ok(3) [OF l(1-3) that] by (simp add: tracked_empty no_leds_def)
    show ?thesis unfolding e inv_pre using s on names far quiet lk(1)
      by (auto simp: light_remember_def pre_light_def leds_ok_def tracked_def light_on_def busy_def)
  qed
qed

section \<open>What may happen\<close>

text \<open>hassmic started anew: its tables are empty, ledcontroller and the file are as they were.\<close>

definition fresh :: "ring \<Rightarrow> ring" where
  "fresh s = s\<lparr>shown_tab := [], light_shown := [], led_shown := no_leds, flash_until := 0, rotation := 0, cache := [],
     light := \<lparr>l_on = False, brightness = 1, color_brightness = 1, red = 1, green = 1, blue = 1, effect = 0, fill = 100, nleds = 0, led_rgb = []\<rparr>\<rparr>"

text \<open>Calls in any order at times that go on; ledcontroller may start anew, root may install another set for the same ring (one that is not ours has none of the light's
  patterns to show), hassmic may restart.\<close>

inductive ring_reach :: "int \<Rightarrow> ring \<Rightarrow> bool" where
  boot: "g_leds g \<le> MAX_LEDS \<Longrightarrow> cmds s = [] \<Longrightarrow> light_file s = None \<Longrightarrow> ring_reach now (ring_start g (fresh s))"
| restart: "ring_reach t s \<Longrightarrow> t \<le> now \<Longrightarrow> g_leds g \<le> MAX_LEDS \<Longrightarrow> ring_reach now (ring_start g (fresh s))"
| own: "ring_reach t s \<Longrightarrow> t \<le> now \<Longrightarrow> \<not> light_name p \<Longrightarrow> ring_reach now (ring_set F p beam now s)"
| own_end: "ring_reach t s \<Longrightarrow> t \<le> now \<Longrightarrow> ring_reach now (ring_unset p s)"
| tick: "ring_reach t s \<Longrightarrow> t \<le> now \<Longrightarrow> ring_reach now (ring_tick beam now s)"
| lamp: "ring_reach t s \<Longrightarrow> t \<le> now \<Longrightarrow> ring_reach now (ring_light_set l ms now s)"
| turned_by: "ring_reach t s \<Longrightarrow> t \<le> now \<Longrightarrow> ring_reach now (ring_rotation x now s)"
| gone: "ring_reach t s \<Longrightarrow> t \<le> now \<Longrightarrow> ring_reach now (s\<lparr>cmds := []\<rparr>)"
| reload: "ring_reach t s \<Longrightarrow> t \<le> now \<Longrightarrow> leds (take_set g s) = leds s \<Longrightarrow> g_ours g \<or> light_on s = {} \<Longrightarrow> ring_reach now (ring_reload F g now s)"

lemma pre_frame:
  assumes "pre_light s" "cmds s' = cmds s" "light_shown s' = light_shown s" "led_shown s' = led_shown s" "leds s' = leds s" "light_file s' = light_file s"
    "0 \<le> effect (light s')" "effect (light s') < int E_COUNT" "\<And>x. x \<in> set (shown_tab s') \<Longrightarrow> \<not> light_name (logical x)"
  shows "pre_light s'"
proof -
  have "tracked s' = tracked s" "light_on s' = light_on s" using assms by (simp_all add: tracked_def light_on_def)
  then show ?thesis using assms by (simp add: pre_light_def)
qed

lemma pre_effect: "pre_light s \<Longrightarrow> 0 \<le> effect (light s) \<and> effect (light s) < int E_COUNT"
  by (simp add: pre_light_def)

lemma tracked_run [simp]: "tracked (run c s) = tracked s" "shown_tab (run c s) = shown_tab s"
  by (simp_all add: tracked_def run_def)

lemma pre_run: "pre_light s \<Longrightarrow> \<not> light_name n \<Longrightarrow> pre_light (run (Set_pattern n) s)" "pre_light s \<Longrightarrow> pre_light (run (Unset_pattern m) s)"
proof -
  have "light_on (run (Set_pattern n) s) = light_on s" if "\<not> light_name n" using that by (auto simp: light_on_def run_def)
  then show "pre_light s \<Longrightarrow> \<not> light_name n \<Longrightarrow> pre_light (run (Set_pattern n) s)"
    unfolding pre_light_def tracked_run by (simp add: run_def)
  have "light_on (run (Unset_pattern m) s) \<subseteq> light_on s" by (auto simp: light_on_def run_def)
  then show "pre_light s \<Longrightarrow> pre_light (run (Unset_pattern m) s)"
    unfolding pre_light_def tracked_run by (auto simp: run_def)
qed

lemma pre_shown: "pre_light s \<Longrightarrow> (\<And>x. x \<in> set xs \<Longrightarrow> \<not> light_name (logical x)) \<Longrightarrow> pre_light (s\<lparr>shown_tab := xs\<rparr>)"
  by (rule pre_frame [of s]) (use pre_effect in simp_all)

lemma visible_sel [simp]: "shown_tab (snd (visible_ms F n s)) = shown_tab s" "tracked (snd (visible_ms F n s)) = tracked s"
  by (simp_all add: visible_ms_def Let_def tracked_def split: option.splits)

lemma pre_visible: "pre_light s \<Longrightarrow> pre_light (snd (visible_ms F n s))"
proof -
  assume s: "pre_light s"
  have "\<not> light_name (logical x)" if "x \<in> set (shown_tab s)" for x using that s by (simp add: pre_light_def)
  then show ?thesis using s pre_effect [OF s] by (intro pre_frame [OF s]) (auto simp: visible_ms_def Let_def split: option.splits if_splits)
qed

lemma logicals: "pre_light s \<Longrightarrow> x \<in> set (shown_tab s) \<Longrightarrow> \<not> light_name (logical x)"
  by (simp add: pre_light_def)

lemma find_shown_bound: "find_shown p xs = Some k \<Longrightarrow> k < length xs \<and> logical (xs ! k) = p"
  by (auto simp: find_shown_def find_Some_iff)

lemma run_inv: "ring_inv now s \<Longrightarrow> \<not> light_name n \<Longrightarrow> ring_inv now (run (Set_pattern n) s)" "ring_inv now s \<Longrightarrow> ring_inv now (run (Unset_pattern m) s)"
  unfolding inv_pre using pre_run by (simp_all add: busy_def)

lemma note_shown_pre: "pre_light s \<Longrightarrow> \<not> light_name p \<Longrightarrow> pre_light (note_shown F p t act now s)"
proof -
  assume s: "pre_light s" and p: "\<not> light_name p"
  obtain ms s1 where v: "visible_ms F act s = (ms, s1)" by fastforce
  have s1: "pre_light s1" using pre_visible [OF s, of F act] v by simp
  let ?x = "\<lparr>logical = fit 40 p, actual = act, sh_at = now, sh_ms = ms, turn = t\<rparr>"
  have x: "\<not> light_name (logical ?x)" using p light_name_fit by auto
  have upd: "pre_light (s2\<lparr>shown_tab := xs\<rparr>)" if s2: "pre_light s2" and xs: "set xs \<subseteq> insert ?x (set (shown_tab s))" for s2 xs
  proof (rule pre_shown [OF s2])
    fix y assume "y \<in> set xs"
    then have "y = ?x \<or> y \<in> set (shown_tab s)" using xs by blast
    then show "\<not> light_name (logical y)" using x logicals [OF s] by blast
  qed
  show "pre_light (note_shown F p t act now s)"
  proof (cases "find_shown p (shown_tab s)")
    case None
    then show ?thesis using s upd [OF s1, of "shown_tab s @ [?x]"] by (simp add: note_shown_def v)
  next
    case (Some k)
    have "pre_light (if P then run (Unset_pattern m) s1 else s1)" for P m using s1 pre_run(2) by simp
    from upd [OF this set_update_subset_insert] show ?thesis using Some by (simp add: note_shown_def v)
  qed
qed

lemma set_inv:
  assumes "ring_inv now s" "\<not> light_name p"
  shows "ring_inv now (ring_set F p beam now s)"
  unfolding ring_set_def Let_def using assms by (intro run_inv(1) light_apply_inv note_shown_pre actual_for_own) (simp_all add: inv_pre)

lemma drop_at_subset:
  assumes "i < length xs"
  shows "set (drop_at i xs) \<subseteq> set xs"
proof
  fix x assume "x \<in> set (drop_at i xs)"
  then have "x \<in> set (xs[i := last xs])" using in_set_butlastD unfolding drop_at_def by metis
  moreover have "last xs \<in> set xs" using assms by (intro last_in_set) auto
  ultimately show "x \<in> set xs" using set_update_subset_insert [of xs i "last xs"] by blast
qed

lemma unset_inv: "ring_inv now s \<Longrightarrow> ring_inv now (ring_unset p s)"
proof -
  assume s: "ring_inv now s"
  show "ring_inv now (ring_unset p s)"
  proof (cases "find_shown p (shown_tab s)")
    case None
    then show ?thesis using s run_inv(2) by (simp add: ring_unset_def Let_def)
  next
    case (Some k)
    then have sub: "set (drop_at k (shown_tab s)) \<subseteq> set (shown_tab s)" using find_shown_bound drop_at_subset by blast
    let ?s = "run (Unset_pattern (actual (shown_tab s ! k))) s"
    have r: "pre_light ?s" "busy now s \<longrightarrow> tracked s = []" using s pre_run(2) by (simp_all add: inv_pre)
    have "pre_light (?s\<lparr>shown_tab := drop_at k (shown_tab s)\<rparr>)" using sub logicals [OF r(1)] by (intro pre_shown r(1)) auto
    moreover have "busy now (?s\<lparr>shown_tab := drop_at k (shown_tab s)\<rparr>) \<Longrightarrow> busy now s" using sub by (auto simp: busy_def list_ex_iff)
    moreover have "tracked (?s\<lparr>shown_tab := drop_at k (shown_tab s)\<rparr>) = tracked s" by (simp add: tracked_def run_def)
    ultimately have "ring_inv now (?s\<lparr>shown_tab := drop_at k (shown_tab s)\<rparr>)" using r(2) by (simp add: inv_pre)
    then show ?thesis using Some by (simp add: ring_unset_def)
  qed
qed

lemma finished_out_subset: "set (finished_out now i xs) \<subseteq> set xs"
proof (induction now i xs rule: finished_out.induct)
  case (1 now i xs)
  then show ?case using drop_at_subset [of i xs] by (subst finished_out.simps) (auto simp: not_le)
qed

lemma turn_open_pre: "pre_light s \<Longrightarrow> pre_light (turn_open beam s)"
proof -
  assume s: "pre_light s"
  have "pre_light (s\<lparr>shown_tab := (shown_tab s)[k := x\<lparr>turn := t, actual := a\<rparr>]\<rparr>)" if "x \<in> set (shown_tab s)" for k t a x
  proof (rule pre_shown [OF s])
    fix y assume "y \<in> set ((shown_tab s)[k := x\<lparr>turn := t, actual := a\<rparr>])"
    then have "y = x\<lparr>turn := t, actual := a\<rparr> \<or> y \<in> set (shown_tab s)" using set_update_subset_insert by fastforce
    then show "\<not> light_name (logical y)" using logicals [OF s] that by auto
  qed
  then show ?thesis
    using s find_shown_bound hold_name_own nth_mem by (auto simp: turn_open_def Let_def intro!: pre_run split: option.splits)
qed

lemma tick_inv: "ring_inv now s \<Longrightarrow> ring_inv now (ring_tick beam now s)"
  unfolding ring_tick_def inv_pre [of _ s] using finished_out_subset logicals by (intro light_apply_inv turn_open_pre pre_shown) blast+

lemma lamp_inv: "ring_inv now s \<Longrightarrow> ring_inv now (ring_light_set l ms now s)"
proof -
  assume "ring_inv now s"
  then have s: "pre_light s" by (simp add: inv_pre)
  show ?thesis unfolding ring_light_set_def Let_def
    by (intro light_apply_inv pre_frame [OF s]) (use s pre_effect [OF s] logicals [OF s] in \<open>auto simp: E_COUNT_def split: if_splits\<close>)
qed

lemma rotation_inv: "ring_inv now s \<Longrightarrow> ring_inv now (ring_rotation x now s)"
proof -
  assume s: "ring_inv now s"
  then have p: "pre_light s" by (simp add: inv_pre)
  have "pre_light (s\<lparr>rotation := k\<rparr>)" for k by (rule pre_frame [OF p]) (use p pre_effect logicals in auto)
  then show ?thesis using s light_apply_inv by (simp add: ring_rotation_def)
qed

section \<open>Starting again\<close>

lemma left_words_names:
  "list_all (\<lambda>n. n \<noteq> [] \<and> plain n \<and> length n \<le> 47) ns \<Longrightarrow> length ns \<le> k \<Longrightarrow> left_words k (concat (map (\<lambda>n. n @ [10]) ns)) = ns"
proof (induction ns arbitrary: k)
  case Nil
  then show ?case by (cases k) (simp_all add: scan_word_def)
next
  case (Cons n ns)
  then obtain m where k: "k = Suc m" by (cases k) auto
  let ?rest = "concat (map (\<lambda>n. n @ [10]) ns)"
  have w: "scan_word 47 (n @ 10 # ?rest) = Some (n, 10 # ?rest)"
    using Cons.prems(1) by (intro scan_word_eq) (auto simp: plain_def list_all_iff isspace_def)
  have sp: "left_words m (10 # ?rest) = left_words m ?rest" by (cases m) (simp_all add: scan_word_space isspace_def)
  show ?case using Cons k w sp by simp
qed

lemma light_name_hassmic: "light_name n \<Longrightarrow> take 8 n = ascii ''hassmic_''"
proof -
  assume "light_name n"
  then obtain p where p: "p \<in> set light_prefixes" "take (length p) n = p" by (auto simp: light_name_def list_ex_iff)
  have "list_all (\<lambda>p. 8 \<le> length p \<and> take 8 p = ascii ''hassmic_'') light_prefixes" by code_simp
  then have "8 \<le> length p" "take 8 p = ascii ''hassmic_''" using p(1) by (auto simp: list_all_iff)
  then show "take 8 n = ascii ''hassmic_''" using p(2) by (metis min.absorb1 take_take)
qed

lemma start_inv:
  assumes "ring_inv t s" "g_leds g \<le> MAX_LEDS"
  shows "ring_inv now (ring_start g (fresh s))"
proof -
  have s: "light_on s \<subseteq> set (tracked s)" "length (led_shown s) = MAX_LEDS" "list_all (\<lambda>n. n \<noteq> [] \<and> plain n \<and> length n \<le> 47) (tracked s)"
      "light_file s = (if tracked s = [] then None else Some (concat (map (\<lambda>n. n @ [10]) (tracked s))))" "\<And>n. n \<in> set (tracked s) \<Longrightarrow> light_name n"
    using assms(1) by (auto simp: ring_inv_def list_all_iff tracked_set)
  have "length (tracked s) \<le> Suc MAX_LEDS" using s(2) length_filter_le [of "\<lambda>n. n \<noteq> []" "light_shown s # led_shown s"] by (simp add: tracked_def)
  then have w: "left_words (Suc MAX_LEDS) (concat (map (\<lambda>n. n @ [10]) (tracked s))) = tracked s" by (rule left_words_names [OF s(3)])
  have f: "filter (\<lambda>w. take 8 w = ascii ''hassmic_'') (tracked s) = tracked s" using s(5) light_name_hassmic by (simp add: filter_id_conv)
  let ?r = "ring_start g (fresh s)"
  have c: "on_ring (cmds ?r) = on_ring (cmds s) - set (tracked s)" "light_file ?r = None"
    using s(4) w f on_ring_unsets [of "cmds s" "\<lambda>n. n" "tracked s"] by (auto simp: ring_start_def take_set_def fresh_def Let_def)
  have r: "light_shown ?r = []" "led_shown ?r = no_leds" "shown_tab ?r = []" "effect (light ?r) = 0" "leds ?r = (if g_leds g \<noteq> 0 then g_leds g else 12)"
    by (simp_all add: ring_start_def take_set_def fresh_def Let_def split: option.splits)
  have "light_on ?r = {}" using s(1) c(1) by (auto simp: light_on_def)
  moreover have "tracked ?r = []" using r by (simp add: tracked_def no_leds_def)
  ultimately show ?thesis
    using r c(2) assms(2) by (simp add: ring_inv_def busy_def no_leds_def MAX_LEDS_def E_COUNT_def)
qed

lemma boot_inv:
  assumes "g_leds g \<le> MAX_LEDS" "cmds s = []" "light_file s = None"
  shows "ring_inv now (ring_start g (fresh s))"
  using assms by (simp add: ring_start_def take_set_def fresh_def Let_def ring_inv_def busy_def tracked_def no_leds_def light_on_def MAX_LEDS_def E_COUNT_def)

section \<open>Another set\<close>

lemma show_again_pre:
  "pre_light s \<Longrightarrow> i < length (shown_tab s) \<Longrightarrow> pre_light (show_again F now s i) \<and> light_on (show_again F now s i) = light_on s"
proof -
  assume s: "pre_light s" and i: "i < length (shown_tab s)"
  let ?x = "shown_tab s ! i"
  have x: "\<not> light_name (logical ?x)" using logicals [OF s nth_mem [OF i]] .
  define act where "act = (if logical ?x = ascii ''active-start'' \<and> turn ?x \<ge> 0 \<and> take 6 (actual_for s (logical ?x) (turn ?x)) \<noteq> ascii ''active''
    then hold_name s (turn ?x) else actual_for s (logical ?x) (turn ?x))"
  have a: "\<not> light_name act" using x hold_name_own actual_for_own by (simp add: act_def)
  obtain ms s1 where v: "visible_ms F act s = (ms, s1)" by fastforce
  have s1: "pre_light s1" "shown_tab s1 = shown_tab s" using pre_visible [OF s, of F act] visible_sel(1) [of F act s] v by simp_all
  have "pre_light (s1\<lparr>shown_tab := (shown_tab s1)[i := ?x\<lparr>actual := act, sh_ms := ms, sh_at := now\<rparr>]\<rparr>)"
  proof (rule pre_shown [OF s1(1)])
    fix y assume "y \<in> set ((shown_tab s1)[i := ?x\<lparr>actual := act, sh_ms := ms, sh_at := now\<rparr>])"
    then have "y = ?x\<lparr>actual := act, sh_ms := ms, sh_at := now\<rparr> \<or> y \<in> set (shown_tab s)" using set_update_subset_insert s1(2) by fastforce
    then show "\<not> light_name (logical y)" using x logicals [OF s] by auto
  qed
  moreover have "cmds s1 = cmds s" using v by (auto simp: visible_ms_def Let_def split: option.splits if_splits)
  moreover have "show_again F now s i = (if still now ?x then run (Set_pattern act)
      (s1\<lparr>shown_tab := (shown_tab s1)[i := ?x\<lparr>actual := act, sh_ms := ms, sh_at := now\<rparr>]\<rparr>) else s)"
    unfolding show_again_def Let_def act_def [symmetric] v by simp
  moreover have "light_on (run (Set_pattern act) (s1\<lparr>shown_tab := xs\<rparr>)) = light_on s1" for xs using a by (auto simp: light_on_def run_def)
  ultimately show ?thesis using s pre_run(1) [OF _ a] by (simp add: light_on_def)
qed

lemma show_again_sel:
  "length (shown_tab (show_again F now s i)) = length (shown_tab s)" "tracked (show_again F now s i) = tracked s" "custom (show_again F now s i) = custom s"
  "j \<noteq> i \<Longrightarrow> shown_tab (show_again F now s i) ! j = shown_tab s ! j" "\<not> still now (shown_tab s ! i) \<Longrightarrow> show_again F now s i = s"
  by (auto simp: show_again_def visible_ms_def run_def tracked_def Let_def split: option.splits prod.splits)

text \<open>Showing patterns again makes none show that did not.\<close>

lemma show_again_busy: "busy now (show_again F now s i) \<Longrightarrow> i < length (shown_tab s) \<Longrightarrow> busy now s"
proof -
  assume b: "busy now (show_again F now s i)" and i: "i < length (shown_tab s)"
  show "busy now s"
  proof (cases "still now (shown_tab s ! i)")
    case True
    then show ?thesis using i by (auto simp: busy_def list_ex_length)
  qed (use b show_again_sel(5) in auto)
qed

lemma shown_again_all:
  assumes "pre_light s" "set is \<subseteq> {..<length (shown_tab s)}"
  shows "pre_light (foldl (show_again F now) s is) \<and> tracked (foldl (show_again F now) s is) = tracked s \<and>
    (busy now (foldl (show_again F now) s is) \<longrightarrow> busy now s) \<and> light_on (foldl (show_again F now) s is) = light_on s \<and>
    custom (foldl (show_again F now) s is) = custom s"
  using assms
proof (induction "is" arbitrary: s)
  case (Cons i is')
  have i: "i < length (shown_tab s)" using Cons.prems(2) by simp
  have "pre_light (show_again F now s i)" "set is' \<subseteq> {..<length (shown_tab (show_again F now s i))}"
    using Cons.prems show_again_pre i show_again_sel(1) by auto
  from Cons.IH [OF this] show ?case using show_again_sel(2,3) show_again_busy show_again_pre [OF Cons.prems(1) i] i by auto
qed simp

lemma take_set_pre: "pre_light s \<Longrightarrow> leds (take_set g s) = leds s \<Longrightarrow> pre_light ((take_set g s)\<lparr>cache := []\<rparr>)"
  by (rule pre_frame [of s]) (use pre_effect logicals in \<open>auto simp: take_set_def\<close>)

lemma reload_inv:
  assumes "ring_inv now s" "leds (take_set g s) = leds s" "g_ours g \<or> light_on s = {}"
  shows "ring_inv now (ring_reload F g now s)"
proof -
  define s1 where "s1 = (take_set g s)\<lparr>cache := []\<rparr>"
  define s2 where "s2 = foldl (show_again F now) s1 [0..<length (shown_tab s1)]"
  have s1: "pre_light s1" "tracked s1 = tracked s" "busy now s1 = busy now s" "light_on s1 = light_on s" "custom s1 = g_ours g"
    using assms(1,2) take_set_pre by (simp_all add: inv_pre s1_def) (simp_all add: take_set_def tracked_def busy_def light_on_def)
  have "set [0..<length (shown_tab s1)] \<subseteq> {..<length (shown_tab s1)}" by auto
  note all = shown_again_all [OF s1(1) this, of F now, folded s2_def]
  have s2: "pre_light s2" "tracked s2 = tracked s" "busy now s2 \<longrightarrow> tracked s = []" "light_on s2 = light_on s" "custom s2 = g_ours g"
    using all s1 assms(1) by (auto simp: inv_pre)
  have e: "ring_reload F g now s = (if tracked s2 = [] then s2 else if \<not> custom s2 then light_remember (s2\<lparr>light_shown := [], led_shown := no_leds\<rparr>)
      else s2\<lparr>cmds := cmds s2 @ map Set_pattern (tracked s2)\<rparr>)" by (simp add: ring_reload_def s1_def s2_def Let_def)
  consider "tracked s2 = []" | "tracked s2 \<noteq> []" "\<not> custom s2" | "tracked s2 \<noteq> []" "custom s2" by blast
  then show ?thesis
  proof cases
    case 1
    then show ?thesis using e s2(1) by (simp add: inv_pre)
  next
    case 2
    let ?r = "light_remember (s2\<lparr>light_shown := [], led_shown := no_leds\<rparr>)"
    have "light_on s2 = {}" using 2 s2(4,5) assms(3) by simp
    then have "light_on ?r = {}" "tracked ?r = []" by (simp_all add: light_on_def light_remember_def tracked_def no_leds_def)
    moreover have "light_file ?r = None" by (simp add: light_remember_def tracked_def no_leds_def)
    ultimately have "pre_light ?r" using s2(1) by (simp add: pre_light_def) (simp add: light_remember_def no_leds_def)
    then show ?thesis using e 2 \<open>tracked ?r = []\<close> by (simp add: inv_pre)
  next
    case 3
    let ?r = "s2\<lparr>cmds := cmds s2 @ map Set_pattern (tracked s2)\<rparr>"
    have "on_ring (cmds ?r) = on_ring (cmds s2) \<union> set (tracked s2)" using on_ring_sets [of "cmds s2" "\<lambda>n. n" "tracked s2"] by simp
    then have "light_on ?r \<subseteq> set (tracked s2)" using s2(1) by (auto simp: light_on_def pre_light_def)
    moreover have "tracked ?r = tracked s2" "busy now ?r = busy now s2" by (simp_all add: tracked_def busy_def)
    ultimately have "ring_inv now ?r" using s2 by (simp add: inv_pre pre_light_def)
    then show ?thesis using e 3 by simp
  qed
qed

lemma gone_inv: "ring_inv now s \<Longrightarrow> ring_inv now (s\<lparr>cmds := []\<rparr>)"
proof -
  have "tracked (s\<lparr>cmds := []\<rparr>) = tracked s" "light_on (s\<lparr>cmds := []\<rparr>) = {}" "busy now (s\<lparr>cmds := []\<rparr>) = busy now s"
    by (simp_all add: tracked_def light_on_def busy_def)
  then show "ring_inv now s \<Longrightarrow> ring_inv now (s\<lparr>cmds := []\<rparr>)" by (simp add: ring_inv_def)
qed

lemma ring_reach_inv: "ring_reach now s \<Longrightarrow> ring_inv now s"
proof (induction rule: ring_reach.induct)
  case (reload t s now g F)
  then show ?case using reload_inv inv_later by blast
next
  case (restart t s now g)
  then show ?case using start_inv by blast
qed (auto intro!: boot_inv set_inv unset_inv tick_inv lamp_inv rotation_inv gone_inv intro: inv_later)

text \<open>
  C17. The Echo's own patterns are never mixed with Home Assistant's light: whatever is called in whatever order, whenever ledcontroller or hassmic restarts or root
  installs another set, while one of the Echo's patterns shows none of the light's is on at ledcontroller; and what of the light is on is always known,
  so that it can be turned off.
\<close>

theorem echo_patterns_alone:
  assumes "ring_reach now s"
  shows "(busy now s \<longrightarrow> {n \<in> on_ring (cmds s). light_name n} = {}) \<and> {n \<in> on_ring (cmds s). light_name n} \<subseteq> insert (light_shown s) (set (led_shown s))"
proof -
  have i: "busy now s \<longrightarrow> tracked s = []" "light_on s \<subseteq> set (tracked s)" using ring_reach_inv [OF assms] by (simp_all add: ring_inv_def)
  have "set (tracked s) \<subseteq> insert (light_shown s) (set (led_shown s))" by (auto simp: tracked_set)
  then have "light_on s \<subseteq> insert (light_shown s) (set (led_shown s))" using i(2) by blast
  moreover have "light_on s = {}" if "busy now s" using i that by simp
  ultimately show ?thesis by (simp add: light_on_def)
qed

lemma finished_out_still: "list_ex (still now) (finished_out now i xs) \<longleftrightarrow> list_ex (still now) xs"
proof (induction now i xs rule: finished_out.induct)
  case (1 now i xs)
  consider "i \<ge> length xs" | "i < length xs" "still now (xs ! i)" | "i < length xs" "\<not> still now (xs ! i)" by linarith
  then show ?case
  proof cases
    case 3
    have "list_ex (still now) (drop_at i xs) \<longleftrightarrow> list_ex (still now) xs"
    proof -
      obtain ys z where xs: "xs = ys @ [z]" using 3(1) by (cases xs rule: rev_cases) auto
      show ?thesis
      proof (cases "i = length ys")
        case True
        then show ?thesis using 3(2) xs by (simp add: drop_at_def)
      next
        case False
        then have i: "i < length ys" using 3(1) xs by simp
        have "set ys = set (take i ys @ ys ! i # drop (Suc i) ys)" using id_take_nth_drop [OF i] by (rule arg_cong)
        then have y: "set ys = set (take i ys) \<union> insert (ys ! i) (set (drop (Suc i) ys))" by (simp only: set_append list.set)
        have d: "drop_at i xs = take i ys @ z # drop (Suc i) ys" using xs i by (simp add: drop_at_def list_update_append upd_conv_take_nth_drop butlast_append)
        have "\<not> still now (ys ! i)" using 3(2) xs i by (simp add: nth_append)
        then show ?thesis unfolding list_ex_iff d unfolding xs set_append y by auto
      qed
    qed
    then show ?thesis using 1(2) 3 by (subst finished_out.simps) simp
  qed (use 1 in \<open>subst finished_out.simps, simp\<close>)+
qed

lemma turn_open_still: "list_ex (still now) (shown_tab (turn_open beam s)) \<longleftrightarrow> list_ex (still now) (shown_tab s)"
proof -
  have "list_ex (still now) (xs[k := (xs ! k)\<lparr>turn := t, actual := a\<rparr>]) \<longleftrightarrow> list_ex (still now) xs" if "k < length xs" for xs k t a
    using that by (auto simp: list_ex_length nth_list_update still_def)
  then show ?thesis using find_shown_bound by (auto simp: turn_open_def Let_def split: option.splits)
qed

lemma turn_open_sel:
  "custom (turn_open beam s) = custom s" "light (turn_open beam s) = light s" "flash_until (turn_open beam s) = flash_until s" "leds (turn_open beam s) = leds s"
  "light_shown (turn_open beam s) = light_shown s" "led_shown (turn_open beam s) = led_shown s"
  by (auto simp: turn_open_def run_def Let_def split: option.splits)

text \<open>
  Home Assistant's light comes back: once none of the Echo's own patterns shows, the next tick (every 200 ms) has ledcontroller show the
  light's pattern again, in its effect and the palette's nearest colour.
\<close>

theorem light_comes_back:
  assumes "ring_reach t s" "tracked s = []" "\<not> busy now s" "custom s" "l_on (light s)" "fill (light s) = 100" "nleds (light s) = 0" "flash_until s = 0"
  shows "light_shown (ring_tick beam now s) = light_pattern (nat (effect (light s))) (quantize (light s)) \<and>
    light_pattern (nat (effect (light s))) (quantize (light s)) \<in> on_ring (cmds (ring_tick beam now s))"
proof -
  define s1 where "s1 = turn_open beam (s\<lparr>shown_tab := finished_out now 0 (shown_tab s)\<rparr>)"
  let ?want = "light_pattern (nat (effect (light s))) (quantize (light s))"
  have i: "0 < leds s" "0 \<le> effect (light s)" "effect (light s) < int E_COUNT" "length (led_shown s) = MAX_LEDS" "leds s \<le> MAX_LEDS"
    using ring_reach_inv [OF assms(1)] by (simp_all add: ring_inv_def)
  have "nat (effect (light s)) < E_COUNT" using i(2,3) by linarith
  then have ne: "?want \<noteq> []" using light_pattern_name [of "nat (effect (light s))" "quantize (light s)"] by (auto simp: light_name_def light_prefixes_def ascii_def)
  have sel: "custom s1" "light s1 = light s" "flash_until s1 = 0" "leds s1 = leds s" "light_shown s1 = light_shown s" "led_shown s1 = led_shown s"
    using assms by (simp_all add: s1_def turn_open_sel)
  have nb: "\<not> busy now s1" using assms(3) by (simp add: busy_def s1_def turn_open_still finished_out_still)
  have dark: "light_shown s = []" "\<And>n. n \<in> set (led_shown s) \<Longrightarrow> n = []" using assms(2) by (auto simp: tracked_empty)
  have leds: "led_shown s ! k = []" if "k < leds s" for k using dark(2) i(4,5) that by simp
  have fl: "\<not> flashing now s1" "s1\<lparr>flash_until := 0\<rparr> = s1" using sel(3) by (simp_all add: flashing_def)
  have "(100 * int (leds s) + 99) div 100 = int (leds s)" by simp
  then have w: "want_light now s1 = (?want, no_leds)"
    using sel fl nb assms(5-7) i(1) by (simp add: want_light_def Let_def)
  have c: "light_cmds ?want no_leds s1 = [Set_pattern ?want]"
    using ne dark(1) leds i(5) sel by (auto simp: light_cmds_def no_leds_def filter_empty_conv)
  have "ring_tick beam now s = light_remember (s1\<lparr>cmds := cmds s1 @ [Set_pattern ?want], light_shown := ?want, led_shown := no_leds\<rparr>)"
    using c ne dark(1) sel(5) unfolding ring_tick_def s1_def [symmetric] light_apply_def Let_def
    by (simp only: fl(1,2) if_False w prod.case) simp
  then show ?thesis by (simp add: light_remember_def)
qed

text \<open>A lamp that is on, and the listening ring over it.\<close>

definition toy_gen :: gen where
  "toy_gen = \<lparr>g_ours = True, g_turned = False, g_assist = False, g_noleds = True, g_leds = 12, g_on = (\<lambda>i. False)\<rparr>"

definition toy_lamp :: ring_light where
  "toy_lamp = \<lparr>l_on = True, brightness = 1, color_brightness = 1, red = 1, green = 1, blue = 1, effect = 1, fill = 100, nleds = 0, led_rgb = []\<rparr>"

definition toy_ring :: ring where
  "toy_ring = \<lparr>custom = False, have_turned = False, have_assist = False, have_leds = False, slot_on = (\<lambda>i. False), leds = 12, shown_tab = [], light = toy_lamp,
     flash = toy_lamp, flash_until = 0, light_shown = [], led_shown = [], rotation = 0, cache = [], cmds = [], light_file = None\<rparr>"

definition toy_boot :: ring where
  "toy_boot = ring_start toy_gen (fresh toy_ring)"

definition toy_lit :: ring where
  "toy_lit = ring_light_set toy_lamp 0 10 toy_boot"

definition toy_listening :: ring where
  "toy_listening = ring_set (\<lambda>n. None) (ascii ''active-start'') (-1) 20 toy_lit"

lemma toy_reach: "ring_reach 10 toy_lit" "ring_reach 20 toy_listening"
proof -
  have "ring_reach 0 toy_boot" unfolding toy_boot_def by (rule ring_reach.boot) (simp_all add: toy_gen_def toy_ring_def MAX_LEDS_def)
  then show l: "ring_reach 10 toy_lit" unfolding toy_lit_def by (rule ring_reach.lamp) simp
  show "ring_reach 20 toy_listening" unfolding toy_listening_def
    by (rule ring_reach.own [OF l]) (simp_all add: light_name_def light_prefixes_def ascii_def)
qed

lemma toy_colour: "light_pattern 1 (quantize toy_lamp) = ascii ''hassmic_pulse_w0''"
proof -
  have "quantize toy_lamp = \<lparr>white = True, hue = 0, soft = True, lev = 0\<rparr>"
    unfolding quantize_def Let_def toy_lamp_def ring_light.simps by (simp add: HUES_def)
  moreover have "light_pattern 1 \<lparr>white = True, hue = 0, soft = True, lev = 0\<rparr> = ascii ''hassmic_pulse_w0''" by code_simp
  ultimately show ?thesis by simp
qed

lemma toy_boot_sel: "custom toy_boot" "\<not> have_turned toy_boot" "\<not> have_leds toy_boot" "slot_on toy_boot = (\<lambda>i. False)" "leds toy_boot = 12" "shown_tab toy_boot = []"
  "light_shown toy_boot = []" "led_shown toy_boot = no_leds" "cache toy_boot = []" "cmds toy_boot = []" "flash_until toy_boot = 0" "flash toy_boot = toy_lamp"
  by (simp_all add: toy_boot_def ring_start_def take_set_def fresh_def toy_ring_def toy_gen_def Let_def)

lemma toy_lit_eq:
  "toy_lit = light_remember (toy_boot\<lparr>flash_until := 0, light := toy_lamp, flash := toy_lamp, cmds := [Set_pattern (ascii ''hassmic_pulse_w0'')],
     light_shown := ascii ''hassmic_pulse_w0'', led_shown := no_leds\<rparr>)"
proof -
  let ?s = "toy_boot\<lparr>flash_until := 0, light := toy_lamp, flash := toy_lamp\<rparr>"
  have s: "toy_lit = light_apply 10 ?s"
    unfolding toy_lit_def ring_light_set_def Let_def by (simp add: toy_boot_sel toy_lamp_def E_COUNT_def MAX_LEDS_def clamp_def)
  have t: "l_on toy_lamp" "fill toy_lamp = 100" "nleds toy_lamp = 0" "effect toy_lamp = 1" by (simp_all add: toy_lamp_def)
  have w: "want_light 10 ?s = (ascii ''hassmic_pulse_w0'', no_leds)"
    using toy_colour by (simp add: want_light_def flashing_def busy_def toy_boot_sel t Let_def)
  have c: "light_cmds (ascii ''hassmic_pulse_w0'') no_leds ?s = [Set_pattern (ascii ''hassmic_pulse_w0'')]"
    by (simp add: light_cmds_def toy_boot_sel ascii_def)
  have fl: "\<not> flashing 10 ?s" "?s\<lparr>flash_until := 0\<rparr> = ?s" by (simp_all add: flashing_def)
  have n: "ascii ''hassmic_pulse_w0'' \<noteq> light_shown ?s" by (simp add: toy_boot_sel ascii_def)
  show ?thesis unfolding s light_apply_def Let_def
    by (simp only: fl(1,2) if_False w c prod.case n simp_thms) (simp add: toy_boot_sel)
qed

lemma toy_listening_eq:
  "toy_listening = run (Set_pattern (ascii ''active-start'')) (light_apply 20 (toy_lit\<lparr>cache := [(ascii ''active-start'', 1000)],
     shown_tab := [\<lparr>logical = ascii ''active-start'', actual = ascii ''active-start'', sh_at = 20, sh_ms = 1000, turn = -1\<rparr>]\<rparr>))"
proof -
  have l: "shown_tab toy_lit = []" "cache toy_lit = []" "slot_on toy_lit = (\<lambda>i. False)" "\<not> have_turned toy_lit"
    by (simp_all add: toy_lit_eq light_remember_def toy_boot_sel)
  have slot: "slot_of (ascii ''active-start'') = Some (0, 0)" "fit 40 (ascii ''active-start'') = ascii ''active-start''" by code_simp+
  have t: "turn_for (ascii ''active-start'') (-1) toy_lit = -1" by (simp add: turn_for_def l)
  have a: "actual_for toy_lit (ascii ''active-start'') (-1) = ascii ''active-start''" by (simp add: actual_for_def slot l split: prod.split)
  show ?thesis unfolding toy_listening_def ring_set_def Let_def t a
    by (simp add: note_shown_def find_shown_def visible_ms_def anim_ms_def l SHOWN_MAX_def slot(2))
qed

lemma light_apply_sel: "shown_tab (light_apply now s) = shown_tab s" "custom (light_apply now s) = custom s" "light (light_apply now s) = light s"
  by (simp_all add: light_apply_def light_remember_def Let_def split: prod.split)

lemma toy_listening_sel:
  "shown_tab toy_listening = [\<lparr>logical = ascii ''active-start'', actual = ascii ''active-start'', sh_at = 20, sh_ms = 1000, turn = -1\<rparr>]"
  "custom toy_listening" "light toy_listening = toy_lamp" "busy 20 toy_listening" "\<not> busy 2000 toy_listening" "flash_until toy_listening = 0"
proof -
  show sh: "shown_tab toy_listening = [\<lparr>logical = ascii ''active-start'', actual = ascii ''active-start'', sh_at = 20, sh_ms = 1000, turn = -1\<rparr>]"
    "custom toy_listening" "light toy_listening = toy_lamp"
    unfolding toy_listening_eq run_def by (simp_all add: light_apply_sel toy_lit_eq light_remember_def toy_boot_sel)
  show "busy 20 toy_listening" "\<not> busy 2000 toy_listening" by (simp_all add: busy_def still_def sh(1))
  have "flash_until toy_lit = 0" by (simp add: toy_lit_eq light_remember_def)
  then show "flash_until toy_listening = 0"
    unfolding toy_listening_eq run_def by (simp add: light_apply_def flashing_def light_remember_def Let_def split: prod.split)
qed

theorem echo_patterns_alone_witness:
  "light_shown toy_lit = ascii ''hassmic_pulse_w0'' \<and> busy 20 toy_listening \<and> {n \<in> on_ring (cmds toy_listening). light_name n} = {}"
proof -
  have "light_shown toy_lit = ascii ''hassmic_pulse_w0''" by (simp add: toy_lit_eq light_remember_def)
  then show ?thesis using echo_patterns_alone [OF toy_reach(2)] toy_listening_sel(4) by blast
qed

theorem light_comes_back_witness: "light_shown (ring_tick (-1) 2000 toy_listening) = ascii ''hassmic_pulse_w0'' \<and>
    ascii ''hassmic_pulse_w0'' \<in> on_ring (cmds (ring_tick (-1) 2000 toy_listening))"
proof -
  note sel = toy_listening_sel
  have t: "l_on toy_lamp" "fill toy_lamp = 100" "nleds toy_lamp = 0" "nat (effect toy_lamp) = 1" by (simp_all add: toy_lamp_def)
  have 1: "tracked toy_listening = []" using ring_reach_inv [OF toy_reach(2)] sel(4) by (simp add: ring_inv_def)
  have 2: "l_on (light toy_listening)" "fill (light toy_listening) = 100" "nleds (light toy_listening) = 0" using sel(3) t by simp_all
  from light_comes_back [OF toy_reach(2) 1 sel(5) sel(2) 2 sel(6)] show ?thesis by (simp only: sel(3) t toy_colour)
qed

end
