(* ===== verification/Spec2Isabelle.thy ===== *)
theory Spec2Isabelle
  imports Hash Json Ws Ledq Buttons Arb_Restart Arb_Answer Arb_Trust Dropin_Calls Esphome_Serve
    Statefile Netaddr Improv Clock Session_Ring Wyoming Update Wifi Wakewords Ringlight
begin

text \<open>
  \<^bold>\<open>hassmic\<close> makes an Amazon Echo a voice satellite of Home Assistant.  This is its core, translated
  from the C sources under \<^verbatim>\<open>src/src/hassmic\<close>, with the theorems that make it correct.

  \<^bold>\<open>The program.\<close>  One process per Echo.  \<^verbatim>\<open>main.c\<close> holds the microphone, the speaker and the assist session and
  drives the parts below over one lock.  \<^verbatim>\<open>arb.c\<close> keeps the Echos of a home in a network with a shared
  key and decides, when several hear the wake word, which one answers; \<^verbatim>\<open>dropin.c\<close> makes calls between
  Echos over the same network; \<^verbatim>\<open>proto_esphome.c\<close> is the server Home Assistant connects to, over the
  Noise transport of \<^verbatim>\<open>noise.c\<close>; it confirms an Echo's tag to \<open>arb\<close>, hands over network keys, starts calls and
  updates.  \<^verbatim>\<open>improv.c\<close> takes a Wi-Fi network from a phone over Bluetooth, \<^verbatim>\<open>netaddr.c\<close> watches the Echo's addresses and announces it again,
  \<^verbatim>\<open>clock.c\<close> takes the time and the zone from Home Assistant and stamps the log, \<^verbatim>\<open>statefile.c\<close> writes everything that outlives a
  restart.  \<^verbatim>\<open>wyoming.c\<close> and \<^verbatim>\<open>proto_wyoming.c\<close> are the other protocol Home Assistant may speak.  Root does what this process may not: \<^verbatim>\<open>wifi.c\<close> asks it to scan and to switch
  networks, \<^verbatim>\<open>ota.c\<close> hands it a signed update, which the owner pushes or \<^verbatim>\<open>update.c\<close> downloads.  \<^verbatim>\<open>ws.c\<close> and \<^verbatim>\<open>json.c\<close> carry the other network clients, \<^verbatim>\<open>hash.c\<close> all of them, \<^verbatim>\<open>ledq.c\<close> the light ring's
  commands, which \<^verbatim>\<open>ring.c\<close> makes, and \<^verbatim>\<open>buttons.c\<close> the keys.

  \<^bold>\<open>The theories.\<close>
  \<^item> \<open>Prelude\<close>: bytes, C strings, little-endian fields, and two interfaces as locales, \<open>keep_last\<close> (a ring that
    keeps the newest) and \<open>slot_table\<close> (a fixed table whose oldest entry gives way), interpreted by the tables of \<open>arb\<close>.
  \<^item> \<open>Hash\<close> (\<^verbatim>\<open>hash.c\<close>): SHA-256 in pieces and at once, HMAC, SHA-1, base64.  Shown: pieces may be cut anywhere, the
    streaming code is the padded message folded over the block function, base64 decodes what it encoded.
  \<^item> \<open>Json\<close> (\<^verbatim>\<open>json.c\<close>): tokeniser, lookups, string reading and escaping.  Shown: every token lies in the document,
    the parser ends, a key found is the key asked for, an escaped string reads back.
  \<^item> \<open>Ws\<close> (\<^verbatim>\<open>ws.c\<close>): the WebSocket endpoint.  Shown: what one end sends the other receives, fragments are put
    together with control frames between them, a message over the limit leaves the stream in step.
  \<^item> \<open>Ledq\<close> (\<^verbatim>\<open>ledq.c\<close>): the ring of light commands, through the locale \<open>call_queue\<close>.  Shown: it implements a queue
    in which no command that ends a pattern is lost, and one that was killed runs again.
  \<^item> \<open>Buttons\<close> (\<^verbatim>\<open>buttons.c\<close>): the keys' state machine.  Shown: a press gives one report, mute reports follow the latch.
  \<^item> \<open>Arb_State\<close>, \<open>Arb_Packet\<close>, \<open>Arb_Window\<close>, \<open>Arb_Kiosk\<close>, \<open>Arb_Network\<close>, \<open>Arb_Round\<close>, \<open>Arb_Loop\<close> (\<^verbatim>\<open>arb.c\<close>, in its order): the
    state as the record \<open>arb\<close>, its file, datagrams, the learned window, Kiosk Satellite mode, joining and handing over keys,
    rounds, and the loop's pass.  \<open>Arb_Steps\<close> has the step relation of calls and passes; \<open>Arb_Restart\<close> (counters and
    network over crashes), \<open>Arb_Agree\<close> and \<open>Arb_Answer\<close> (who answers), \<open>Arb_Trust\<close> (what a stranger can do) the theorems.
  \<^item> \<open>Dropin\<close>, \<open>Dropin_Calls\<close> (\<^verbatim>\<open>dropin.c\<close>): the call's states, messages, keys, audio packets, jitter buffer and playout; the step
    relation \<open>drop_step\<close> and its invariant.  Shown: a taken call has both ends agree on its keys, others cannot touch it,
    nonces are used once, the core hears every call begin and end.
  \<^item> \<open>Noise\<close> (\<^verbatim>\<open>noise.c\<close>): both handshakes' responder and the transport.  Shown: against an initiator written from
    the specification both ends agree, and what is sent afterwards arrives.
  \<^item> \<open>Protobuf\<close>, \<open>Esphome\<close>, \<open>Esphome_Serve\<close> (\<^verbatim>\<open>proto_esphome.c\<close>): fields of messages; the server's state and each request; dispatch,
    handshake, a connection's life and the interleaving \<open>api_step\<close> of connections.  Shown: fields read back, texts are
    cut to whole characters, only the device key gets a request handled or allows a privileged one, the client with
    the key is heard, the key survives a restart.
  \<^item> \<open>Statefile\<close> (\<^verbatim>\<open>statefile.c\<close>): a file system that loses unsynced data and names at a reset, and the writers' steps on it, interleaved.
    Shown: a file is its old content or a whole new one at every moment and after every reset; a finished write lasts.
  \<^item> \<open>Session\<close>, \<open>Session_Ring\<close> (\<^verbatim>\<open>main.c\<close>): the state under \<open>core_lock\<close> as the record \<open>core\<close> and the operations on it (runs, mute, wake word and
    button, stop, timers, sounds, playback, Drop In's side); their step relation \<open>core_step\<close>.  Shown: the microphone streams only to a
    running satellite, the ring shows the state, stop starts nothing; and that a follow-up streams although muted.
  \<^item> \<open>Wakewords\<close> (\<^verbatim>\<open>main.c\<close>): the host name, the wake words' models, the active ones and their file, the engine, the phrase claimed.  Shown: a host name
    is well formed, the choice is always valid and survives a restart, Echos with different sets claim one word by one phrase.
  \<^item> \<open>Ringlight\<close> (\<^verbatim>\<open>ring.c\<close>): the patterns of the Echo itself and Home Assistant's light on one ring, as commands to ledcontroller.  Shown: while one of the
    former shows the light is off, over restarts of either side too, and it comes back with the next tick.
  \<^item> \<open>Scan\<close>: what the sources use of \<open>strtol\<close>, \<open>sscanf\<close>, \<open>strstr\<close> and \<open>fgets\<close>; hex.
  \<^item> \<open>Wyoming\<close> (\<^verbatim>\<open>wyoming.c\<close>, \<^verbatim>\<open>proto_wyoming.c\<close>): frames and the satellite's handler on top of \<open>Session\<close>.  Shown: what is written is read, over any parts
    the socket takes; the microphone streams only to a client that asked for it.
  \<^item> \<open>Ota\<close>, \<open>Update\<close> (\<^verbatim>\<open>ota.c\<close>, \<^verbatim>\<open>update.c\<close>): the push port, the hand-over to root, the look for a newer build, its download.  Shown: whatever happens in whatever
    order, only signed bundles reach root; adb needs the owner's key; the owner's push gets through; the newest beta is offered; only
    addresses of the repository are fetched.
  \<^item> \<open>Wifi\<close> (\<^verbatim>\<open>wifi.c\<close>): names, the derived key, requests and answers.  Shown: the key is PBKDF2, one request at a time and made of harmless words,
    the scan lists each network once and the strongest first, names come through wpa_supplicant's escapes.
  \<^item> \<open>Improv\<close> (\<^verbatim>\<open>improv.c\<close>): characteristics, commands, advertising and the worker's round.  Shown: an Echo that was set up joins
    nothing without the button, a command may come in any pieces, the scan's answer reads back as the networks.
  \<^item> \<open>Clock\<close> (\<^verbatim>\<open>tz.c\<close>, \<^verbatim>\<open>clock.c\<close>): the zone database, Home Assistant's time and zone, the log's lines.  Shown: the zone picked is
    the best by a reference definition, what root reads is one harmless word, the log keeps every line.
  \<^item> \<open>Netaddr\<close> (\<^verbatim>\<open>netaddr.c\<close>): links, addresses and announcements.  Shown: links over an address that went are shut,
    announcements go on for ever.

  \<^bold>\<open>Conventions.\<close>  A function that changes static variables takes and returns the record of them; locks make each such
  function one step.  Machine integers are words where they can wrap (counters, lengths on the wire, protobuf, hashes); times and
  settings are integers.  Errors are \<open>None\<close> or \<open>False\<close>, as the code returns -1 or 0.  What a part asks of the system or of a part that is not
  modelled is collected in its record, oldest first.  Third-party code is an argument: Monocypher as the record
  \<open>crypto\<close> (and \<open>noise_crypto\<close>), whose documented laws (a shared secret is the same from both ends, a sealed text opens
  under its key, nonce and associated data) are the hypotheses \<open>dh_law\<close>, \<open>aead_law\<close>, \<open>noise_law\<close>; the witnesses
  instantiate it with a function that obeys them.  The clock, random bytes and what the sockets
  deliver are arguments too.

  \<^bold>\<open>Fuel.\<close>  The JSON parser has it, and \<open>json_parse_ends\<close> shows that what it is given suffices for every document; so has \<open>json_items_from\<close>, the loop over
  GitHub's releases, for which \<open>json_item_ends\<close> shows it.  All other loops are
  structural or have a termination proof by the bytes left, the table's size or the value left.

  \<^bold>\<open>Not modelled.\<close>  Log lines.  In \<open>arb\<close>: the settings page's JSON and the hand-written reader of Kiosk Satellite's claims.  In
  \<open>dropin\<close>: Opus, the microphone and the speaker.  In \<open>proto_esphome\<close>: the contents of the settings' states and entity list, the light's
  command, media over HTTP, mDNS.  In \<^verbatim>\<open>main.c\<close>: the captured audio, volumes, start-up.  In
  \<open>wifi\<close>: the settings page's JSON and the bands; in \<open>update\<close>: libcurl, the percentage shown, the probe.  Not at all: Bluetooth, the music
  clients, the web server and settings page, the making of the ring's animations and designs, sound packs; and what is floating-point signal processing, neural
  inference or a vendor's library (microphone path, wake word engines, audio HAL), where the code's meaning lies
  outside what it says.
\<close>

end
